(* ===== verification/Prelude.thy ===== *)
theory Prelude
  imports Main "HOL-Library.Word" "HOL-Library.Monad_Syntax" "HOL-Library.AList"
begin

text \<open>
  Shared vocabulary of the development: bytes and byte strings of Go, computations that can
  panic (\<^theory_text>\<open>'a option\<close>, None is a run-time panic), checked indexing and slicing, bounded
  channels, and the generic lemmas the components share.
\<close>

named_theorems no_panic \<open>facts saying that a computation does not panic\<close>
named_theorems go_eval \<open>definitions of the standard-library model, for closed evaluation\<close>

unbundle bit_operations_syntax

subsection \<open>Bytes, strings and machine integers\<close>

text \<open>A Go \<^verbatim>\<open>string\<close> or \<^verbatim>\<open>[]byte\<close> is a list of bytes; a byte is a HOL character.\<close>

type_synonym byte = char
type_synonym bytes = "char list"
type_synonym u8 = "8 word"
type_synonym u16 = "16 word"
type_synonym u32 = "32 word"
type_synonym u64 = "64 word"

text \<open>The numeric value of a byte, and the conversion \<^verbatim>\<open>byte(x)\<close>, which wraps at 256.\<close>

definition bval :: "byte \<Rightarrow> nat" where
  "bval c = of_char c"

definition mkbyte :: "nat \<Rightarrow> byte" where
  "mkbyte n = char_of n"

lemma bval_mkbyte [simp]: "bval (mkbyte n) = n mod 256"
  by (simp add: bval_def mkbyte_def)

lemma mkbyte_bval [simp]: "mkbyte (bval c) = c"
  by (simp add: bval_def mkbyte_def)

lemma bval_less [simp]: "bval c < 256"
  by (simp add: bval_def)

lemma bval_le [simp]: "bval c \<le> 255"
  using bval_less [of c] by linarith

lemma bval_inj: "bval c = bval d \<longleftrightarrow> c = d"
  by (metis mkbyte_bval)

abbreviation "LF \<equiv> CHR 0x0A"
abbreviation "CR \<equiv> CHR 0x0D"
abbreviation "TAB \<equiv> CHR 0x09"
abbreviation "SP \<equiv> CHR '' ''"
abbreviation "NUL \<equiv> CHR 0x00"
abbreviation "crlf \<equiv> [CR, LF]"

subsection \<open>Computations that can panic\<close>

text \<open>
  A run-time panic of Go (index or slice out of range) is None. The bounds of a slice
  expression are checked against the length: Go checks the capacity, which is at least the
  length, so an expression that is Some here cannot panic in Go and has the same value.
\<close>

type_synonym 'a go = "'a option"

definition index :: "nat \<Rightarrow> 'a list \<Rightarrow> 'a go" where
  "index i b = (if i < length b then Some (b ! i) else None)"

definition slice :: "nat \<Rightarrow> nat \<Rightarrow> 'a list \<Rightarrow> 'a list go" where
  "slice i j b = (if i \<le> j \<and> j \<le> length b then Some (take (j - i) (drop i b)) else None)"

definition slice_from :: "nat \<Rightarrow> 'a list \<Rightarrow> 'a list go" where
  "slice_from i b = slice i (length b) b"

definition slice_to :: "nat \<Rightarrow> 'a list \<Rightarrow> 'a list go" where
  "slice_to j b = slice 0 j b"

lemma index_Some [simp, no_panic]: "i < length b \<Longrightarrow> index i b = Some (b ! i)"
  by (simp add: index_def)

lemma slice_Some [simp, no_panic]:
  "i \<le> j \<Longrightarrow> j \<le> length b \<Longrightarrow> slice i j b = Some (take (j - i) (drop i b))"
  by (simp add: slice_def)

lemma slice_from_Some [simp, no_panic]: "i \<le> length b \<Longrightarrow> slice_from i b = Some (drop i b)"
  by (simp add: slice_from_def slice_def)

lemma slice_to_Some [simp, no_panic]: "j \<le> length b \<Longrightarrow> slice_to j b = Some (take j b)"
  by (simp add: slice_to_def slice_def)

lemma index_None_iff [simp]: "index i b = None \<longleftrightarrow> length b \<le> i"
  by (simp add: index_def)

lemma slice_None_iff: "slice i j b = None \<longleftrightarrow> \<not> (i \<le> j \<and> j \<le> length b)"
  by (simp add: slice_def)

lemma bind_not_None:
  "Option.bind m f \<noteq> None \<longleftrightarrow> (\<exists>x. m = Some x \<and> f x \<noteq> None)"
  by (cases m) auto

lemma bind_SomeI [no_panic]: "m = Some x \<Longrightarrow> f x \<noteq> None \<Longrightarrow> Option.bind m f \<noteq> None"
  by simp

subsection \<open>Big- and little-endian integers\<close>

fun be_val :: "bytes \<Rightarrow> nat" where
  "be_val [] = 0"
| "be_val (c # cs) = bval c * 256 ^ length cs + be_val cs"

fun le_val :: "bytes \<Rightarrow> nat" where
  "le_val [] = 0"
| "le_val (c # cs) = bval c + 256 * le_val cs"

fun le_bytes :: "nat \<Rightarrow> nat \<Rightarrow> bytes" where
  "le_bytes 0 v = []"
| "le_bytes (Suc n) v = mkbyte v # le_bytes n (v div 256)"

definition be_bytes :: "nat \<Rightarrow> nat \<Rightarrow> bytes" where
  "be_bytes n v = rev (le_bytes n v)"

lemma length_le_bytes [simp]: "length (le_bytes n v) = n"
  by (induction n arbitrary: v) auto

lemma length_be_bytes [simp]: "length (be_bytes n v) = n"
  by (simp add: be_bytes_def)

lemma le_val_bytes: "le_val (le_bytes n v) = v mod 256 ^ n"
  by (induction n arbitrary: v) (auto simp: mod_mult2_eq)

lemma be_val_append: "be_val (xs @ ys) = be_val xs * 256 ^ length ys + be_val ys"
  by (induction xs) (auto simp: algebra_simps power_add)

lemma be_val_rev: "be_val (rev xs) = le_val xs"
  by (induction xs) (auto simp: be_val_append)

lemma be_val_bytes: "be_val (be_bytes n v) = v mod 256 ^ n"
  by (simp add: be_bytes_def be_val_rev le_val_bytes)

lemma or_push_bit:
  fixes x y :: nat
  assumes "x < 2 ^ n"
  shows "x OR push_bit n y = x + 2 ^ n * y"
proof -
  have "take_bit n x = x" using assms by (simp add: take_bit_eq_mod)
  then have "x AND push_bit n y = take_bit n x AND push_bit n y" by simp
  also have "\<dots> = 0" by (auto simp: bit_eq_iff bit_simps)
  finally show ?thesis
    by (simp add: disjunctive_add_eq_or [symmetric] push_bit_eq_mult mult.commute)
qed

text \<open>Combining bytes by shifts and disjunctions, as the source does, is reading a number.\<close>

lemma or3_le_val: "bval a OR push_bit 8 (bval b) OR push_bit 16 (bval c) = le_val [a, b, c]"
proof -
  have "bval a OR push_bit 8 (bval b) = bval a + 256 * bval b"
    by (simp add: or_push_bit)
  moreover have "bval a + 256 * bval b < 2 ^ 16"
    using bval_less [of a] bval_less [of b] unfolding power2_eq_square by (simp add: algebra_simps del: bval_less bval_le)
  ultimately show ?thesis
    using or_push_bit [of "bval a + 256 * bval b" 16 "bval c"] by (simp add: or.assoc [symmetric])
qed

lemma le_val_less: "le_val xs < 256 ^ length xs"
proof (induction xs)
  case (Cons c xs)
  have "bval c + 256 * le_val xs \<le> 255 + 256 * (256 ^ length xs - 1)"
    using Cons bval_le [of c] by (intro add_mono mult_le_mono) auto
  also have "\<dots> < 256 * 256 ^ length xs"
    by (simp add: algebra_simps)
  finally show ?case by simp
qed simp

lemma be_val_less: "be_val xs < 256 ^ length xs"
  using le_val_less [of "rev xs"] be_val_rev [of "rev xs"] by simp

subsection \<open>Bounded channels\<close>

text \<open>
  A buffered channel is its capacity and the queue of the values in transit, oldest first.
  A non-blocking send (\<^verbatim>\<open>select\<close> with \<^verbatim>\<open>default\<close>) drops the value when the buffer is full.
\<close>

record 'a chan =
  ch_cap :: nat
  ch_buf :: "'a list"

definition make_chan :: "nat \<Rightarrow> 'a chan" where
  "make_chan n = \<lparr>ch_cap = n, ch_buf = []\<rparr>"

definition try_send :: "'a \<Rightarrow> 'a chan \<Rightarrow> bool \<times> 'a chan" where
  "try_send v c =
     (if length (ch_buf c) < ch_cap c then (True, c\<lparr>ch_buf := ch_buf c @ [v]\<rparr>) else (False, c))"

definition try_recv :: "'a chan \<Rightarrow> ('a \<times> 'a chan) option" where
  "try_recv c = (case ch_buf c of [] \<Rightarrow> None | v # vs \<Rightarrow> Some (v, c\<lparr>ch_buf := vs\<rparr>))"

definition chan_ok :: "'a chan \<Rightarrow> bool" where
  "chan_ok c \<longleftrightarrow> length (ch_buf c) \<le> ch_cap c"

text \<open>
  The interface the producers and consumers of events rely on: what is sent comes out once and
  in order, a refused send changes nothing, and the number of values in transit is bounded.
\<close>

locale bounded_queue =
  fixes send :: "'a \<Rightarrow> 'q \<Rightarrow> bool \<times> 'q"
    and recv :: "'q \<Rightarrow> ('a \<times> 'q) option"
    and contents :: "'q \<Rightarrow> 'a list"
    and bound :: "'q \<Rightarrow> nat"
    and inv :: "'q \<Rightarrow> bool"
  assumes send_contents:
      "contents (snd (send v q)) = (if fst (send v q) then contents q @ [v] else contents q)"
    and send_bound: "bound (snd (send v q)) = bound q"
    and send_inv: "inv q \<Longrightarrow> inv (snd (send v q))"
    and send_free: "fst (send v q) \<longleftrightarrow> length (contents q) < bound q"
    and recv_empty: "recv q = None \<longleftrightarrow> contents q = []"
    and recv_next: "recv q = Some (v, q') \<Longrightarrow> contents q = v # contents q' \<and> bound q' = bound q"
    and recv_inv: "recv q = Some (v, q') \<Longrightarrow> inv q \<Longrightarrow> inv q'"
    and inv_bound: "inv q \<Longrightarrow> length (contents q) \<le> bound q"
begin

text \<open>A run of sends, with the values that were accepted.\<close>

fun send_all :: "'a list \<Rightarrow> 'q \<Rightarrow> 'a list \<times> 'q" where
  "send_all [] q = ([], q)"
| "send_all (v # vs) q =
     (let r = send v q; rest = send_all vs (snd r)
      in (if fst r then v # fst rest else fst rest, snd rest))"

lemma send_all_contents: "contents (snd (send_all vs q)) = contents q @ fst (send_all vs q)"
  by (induction vs arbitrary: q) (auto simp: Let_def send_contents)

lemma send_all_inv: "inv q \<Longrightarrow> inv (snd (send_all vs q))"
  by (induction vs arbitrary: q) (auto simp: Let_def send_inv)

lemma send_all_bound: "bound (snd (send_all vs q)) = bound q"
  by (induction vs arbitrary: q) (auto simp: Let_def send_bound)

lemma send_all_accepted:
  "inv q \<Longrightarrow> length (fst (send_all vs q)) = min (length vs) (bound q - length (contents q))"
proof (induction vs arbitrary: q)
  case (Cons v vs)
  have i: "inv (snd (send v q))" by (simp add: Cons.prems send_inv)
  show ?case
    using Cons.IH [OF i] Cons.prems inv_bound [OF Cons.prems] send_free [of v q]
    by (auto simp: Let_def send_contents send_bound)
qed simp

lemma recv_sent: "recv q = Some (v, q') \<Longrightarrow> v \<in> set (contents q)"
  using recv_next by force

end

interpretation chan: bounded_queue try_send try_recv ch_buf ch_cap chan_ok
  by unfold_locales
     (auto simp: try_send_def try_recv_def chan_ok_def split: list.splits)

subsection \<open>Lists\<close>

lemma takeWhile_append_stop:
  "\<forall>x\<in>set xs. P x \<Longrightarrow> \<not> P y \<Longrightarrow> takeWhile P (xs @ y # ys) = xs"
  by (induction xs) auto

lemma dropWhile_append_stop:
  "\<forall>x\<in>set xs. P x \<Longrightarrow> \<not> P y \<Longrightarrow> dropWhile P (xs @ y # ys) = y # ys"
  by (induction xs) auto

lemma filter_id: "\<forall>x\<in>set xs. P x \<Longrightarrow> filter P xs = xs"
  by (induction xs) auto

lemma concat_map_head:
  "f x \<noteq> [] \<Longrightarrow> concat (map f (x # xs)) \<noteq> [] \<and> hd (concat (map f (x # xs))) = hd (f x)"
  by simp

end
