(* ===== verification/GoStd.thy ===== *)
theory GoStd
  imports Prelude
begin

text \<open>
  What the source uses of Go's standard library: UTF-8 (\<^verbatim>\<open>unicode/utf8\<close>, \<^verbatim>\<open>[]rune\<close> conversions),
  \<^verbatim>\<open>strings\<close>, \<^verbatim>\<open>strconv\<close>, \<^verbatim>\<open>encoding/hex\<close>, \<^verbatim>\<open>unicode/utf16\<close>, the address parser of \<^verbatim>\<open>net\<close>, and the
  line scanner of \<^verbatim>\<open>bufio\<close>. These definitions model the library, so they have no place in the
  repository; the components translate the repository's code over them.
\<close>

subsection \<open>UTF-8\<close>

definition rune_error :: nat where
  "rune_error = 0xFFFD"

text \<open>A continuation byte carries six bits.\<close>

definition is_cont :: "byte \<Rightarrow> bool" where
  "is_cont c \<longleftrightarrow> 128 \<le> bval c \<and> bval c \<le> 191"

text \<open>
  \<^verbatim>\<open>utf8.DecodeRune\<close>: the first code point and its width. An invalid sequence (overlong forms,
  surrogates, values past U+10FFFF and truncated sequences included) is U+FFFD of width 1.
\<close>

fun decode_rune :: "bytes \<Rightarrow> nat \<times> nat" where
  "decode_rune [] = (rune_error, 0)"
| "decode_rune (a # s) =
    (let x = bval a in
     if x < 0x80 then (x, 1)
     else if 0xC2 \<le> x \<and> x \<le> 0xDF then
       (case s of b # _ \<Rightarrow>
          if is_cont b then ((x - 0xC0) * 64 + (bval b - 128), 2) else (rune_error, 1)
        | [] \<Rightarrow> (rune_error, 1))
     else if 0xE0 \<le> x \<and> x \<le> 0xEF then
       (case s of b # c # _ \<Rightarrow>
          if is_cont b \<and> is_cont c \<and> (x = 0xE0 \<longrightarrow> 0xA0 \<le> bval b) \<and> (x = 0xED \<longrightarrow> bval b \<le> 0x9F)
          then ((x - 0xE0) * 4096 + (bval b - 128) * 64 + (bval c - 128), 3) else (rune_error, 1)
        | _ \<Rightarrow> (rune_error, 1))
     else if 0xF0 \<le> x \<and> x \<le> 0xF4 then
       (case s of b # c # d # _ \<Rightarrow>
          if is_cont b \<and> is_cont c \<and> is_cont d \<and> (x = 0xF0 \<longrightarrow> 0x90 \<le> bval b) \<and> (x = 0xF4 \<longrightarrow> bval b \<le> 0x8F)
          then ((x - 0xF0) * 262144 + (bval b - 128) * 4096 + (bval c - 128) * 64 + (bval d - 128), 4)
          else (rune_error, 1)
        | _ \<Rightarrow> (rune_error, 1))
     else (rune_error, 1))"

definition rune_width :: "bytes \<Rightarrow> nat" where
  "rune_width s = snd (decode_rune s)"

lemma rune_width_pos: "s \<noteq> [] \<Longrightarrow> 0 < rune_width s"
  by (cases s) (auto simp: rune_width_def Let_def split: list.splits if_splits)

lemma rune_width_le: "rune_width s \<le> length s"
  by (cases s) (auto simp: rune_width_def Let_def split: list.splits if_splits)

text \<open>The bytes of a string cut into its runes (what \<^verbatim>\<open>for range\<close> iterates over).\<close>

function segs :: "bytes \<Rightarrow> bytes list" where
  "segs s = (if s = [] then [] else take (rune_width s) s # segs (drop (rune_width s) s))"
  by pat_completeness auto
termination
  by (relation "measure length") (auto simp: rune_width_pos)

declare segs.simps [simp del]

lemma segs_Nil [simp]: "segs [] = []"
  by (simp add: segs.simps)

lemma segs_concat [simp]: "concat (segs s) = s"
proof (induction s rule: segs.induct)
  case (1 s)
  then show ?case by (cases "s = []") (simp_all add: segs.simps [of s])
qed

lemma segs_step: "s \<noteq> [] \<Longrightarrow> segs s = take (rune_width s) s # segs (drop (rune_width s) s)"
  by (subst segs.simps) simp

lemma segs_nonempty: "x \<in> set (segs s) \<Longrightarrow> x \<noteq> []"
proof (induction s rule: segs.induct)
  case (1 s)
  then have s: "s \<noteq> []" by auto
  with "1.prems" have "x = take (rune_width s) s \<or> x \<in> set (segs (drop (rune_width s) s))"
    by (simp add: segs_step)
  then show ?case
    using "1.IH" [OF s] rune_width_pos [OF s] s by auto
qed

definition is_ascii :: "bytes \<Rightarrow> bool" where
  "is_ascii s \<longleftrightarrow> (\<forall>c\<in>set s. bval c < 128)"

lemma is_ascii_simps [simp]:
  "is_ascii []" "is_ascii (c # s) \<longleftrightarrow> bval c < 128 \<and> is_ascii s"
  "is_ascii (s @ t) \<longleftrightarrow> is_ascii s \<and> is_ascii t"
  by (auto simp: is_ascii_def)

lemma decode_rune_ascii [simp]: "bval c < 128 \<Longrightarrow> decode_rune (c # s) = (bval c, 1)"
  by simp

lemma segs_ascii_Cons [simp]: "bval c < 128 \<Longrightarrow> segs (c # s) = [c] # segs s"
  by (simp add: segs.simps [of "c # s"] rune_width_def)

lemma segs_ascii: "is_ascii s \<Longrightarrow> segs s = map (\<lambda>c. [c]) s"
  by (induction s) auto

lemma length_segs_le: "length (segs s) \<le> length s"
proof (induction s rule: segs.induct)
  case (1 s)
  show ?case
  proof (cases "s = []")
    case False
    then show ?thesis
      using "1.IH" [OF False] rune_width_pos [OF False] rune_width_le [of s]
      by (simp add: segs_step)
  qed simp
qed

definition runes :: "bytes \<Rightarrow> nat list" where
  "runes s = map (\<lambda>x. fst (decode_rune x)) (segs s)"

text \<open>\<^verbatim>\<open>utf8.AppendRune\<close>: surrogates and values past U+10FFFF are encoded as U+FFFD.\<close>

definition is_scalar :: "nat \<Rightarrow> bool" where
  "is_scalar r \<longleftrightarrow> r < 0xD800 \<or> (0xDFFF < r \<and> r \<le> 0x10FFFF)"

definition encode_scalar :: "nat \<Rightarrow> bytes" where
  "encode_scalar r =
    (if r < 0x80 then [mkbyte r]
     else if r < 0x800 then [mkbyte (0xC0 + r div 64), mkbyte (0x80 + r mod 64)]
     else if r < 0x10000 then
       [mkbyte (0xE0 + r div 4096), mkbyte (0x80 + (r div 64) mod 64), mkbyte (0x80 + r mod 64)]
     else [mkbyte (0xF0 + r div 262144), mkbyte (0x80 + (r div 4096) mod 64),
           mkbyte (0x80 + (r div 64) mod 64), mkbyte (0x80 + r mod 64)])"

definition encode_rune :: "nat \<Rightarrow> bytes" where
  "encode_rune r = encode_scalar (if is_scalar r then r else rune_error)"

definition encode_runes :: "nat list \<Rightarrow> bytes" where
  "encode_runes rs = concat (map encode_rune rs)"

subsection \<open>Encoding and decoding are inverse\<close>

lemma bval_mkbyte_small [simp]: "n < 256 \<Longrightarrow> bval (mkbyte n) = n"
  by simp

lemma is_cont_mkbyte [simp]: "n < 64 \<Longrightarrow> is_cont (mkbyte (128 + n))"
  by (simp add: is_cont_def)

lemma decode_two:
  "0xC2 \<le> x \<Longrightarrow> x \<le> 0xDF \<Longrightarrow> y < 64 \<Longrightarrow>
    decode_rune (mkbyte x # mkbyte (128 + y) # s) = ((x - 0xC0) * 64 + y, 2)"
  by (simp add: is_cont_def)

lemma decode_three:
  "0xE0 \<le> x \<Longrightarrow> x \<le> 0xEF \<Longrightarrow> y < 64 \<Longrightarrow> z < 64 \<Longrightarrow> (x = 0xE0 \<longrightarrow> 32 \<le> y) \<Longrightarrow> (x = 0xED \<longrightarrow> y \<le> 31) \<Longrightarrow>
    decode_rune (mkbyte x # mkbyte (128 + y) # mkbyte (128 + z) # s) =
      ((x - 0xE0) * 4096 + y * 64 + z, 3)"
  by (simp add: is_cont_def)

lemma decode_four:
  "0xF0 \<le> x \<Longrightarrow> x \<le> 0xF4 \<Longrightarrow> y < 64 \<Longrightarrow> z < 64 \<Longrightarrow> w < 64 \<Longrightarrow>
    (x = 0xF0 \<longrightarrow> 16 \<le> y) \<Longrightarrow> (x = 0xF4 \<longrightarrow> y \<le> 15) \<Longrightarrow>
    decode_rune (mkbyte x # mkbyte (128 + y) # mkbyte (128 + z) # mkbyte (128 + w) # s) =
      ((x - 0xF0) * 262144 + y * 4096 + z * 64 + w, 4)"
  by (simp add: is_cont_def)

lemma div_mod_64:
  fixes r :: nat
  obtains a b c d where "r = ((a * 64 + b) * 64 + c) * 64 + d" "b < 64" "c < 64" "d < 64"
    "d = r mod 64" "c = (r div 64) mod 64" "b = (r div 4096) mod 64" "a = r div 262144"
    "r div 4096 = a * 64 + b"
proof -
  have q: "r div 4096 = r div 64 div 64" "r div 262144 = r div 64 div 64 div 64"
    by (simp_all add: div_mult2_eq [symmetric])
  show ?thesis
    by (rule that [of "r div 262144" "(r div 4096) mod 64" "(r div 64) mod 64" "r mod 64"])
       (simp_all add: q)
qed

lemma decode_encode_scalar:
  assumes "is_scalar r"
  shows "decode_rune (encode_scalar r @ s) = (r, length (encode_scalar r))"
proof -
  obtain a b c d where r: "r = ((a * 64 + b) * 64 + c) * 64 + d" "b < 64" "c < 64" "d < 64"
    and m: "d = r mod 64" "c = (r div 64) mod 64" "b = (r div 4096) mod 64" "a = r div 262144"
      "r div 4096 = a * 64 + b"
    by (rule div_mod_64)
  consider "r < 0x80" | "0x80 \<le> r" "r < 0x800" | "0x800 \<le> r" "r < 0x10000" | "0x10000 \<le> r"
    by linarith
  then show ?thesis
  proof cases
    case 1
    then show ?thesis by (simp add: encode_scalar_def)
  next
    case 2
    have "decode_rune (mkbyte (0xC0 + r div 64) # mkbyte (128 + r mod 64) # s)
        = ((0xC0 + r div 64 - 0xC0) * 64 + r mod 64, 2)"
      using 2 by (intro decode_two) auto
    with 2 show ?thesis by (simp add: encode_scalar_def)
  next
    case 3
    have a: "a = 0" using 3 m(4) by simp
    have "decode_rune (mkbyte (0xE0 + b) # mkbyte (128 + c) # mkbyte (128 + d) # s)
        = ((0xE0 + b - 0xE0) * 4096 + c * 64 + d, 3)"
      using 3 r assms a by (intro decode_three) (auto simp: is_scalar_def)
    moreover have "b * 4096 + c * 64 + d = r" "r div 4096 = b" using r(1) m(5) a by simp_all
    ultimately show ?thesis
      using 3 by (simp add: encode_scalar_def m(1,2) [symmetric])
  next
    case 4
    have "decode_rune (mkbyte (0xF0 + a) # mkbyte (128 + b) # mkbyte (128 + c) # mkbyte (128 + d) # s)
        = ((0xF0 + a - 0xF0) * 262144 + b * 4096 + c * 64 + d, 4)"
      using 4 r assms by (intro decode_four) (auto simp: is_scalar_def)
    moreover have "a * 262144 + b * 4096 + c * 64 + d = r" using r(1) by simp
    ultimately show ?thesis
      using 4 by (simp add: encode_scalar_def m(1-4) [symmetric])
  qed
qed

lemma encode_rune_nonempty [simp]: "encode_rune r \<noteq> []"
  by (simp add: encode_rune_def encode_scalar_def)

lemma decode_encode_rune:
  "decode_rune (encode_rune r @ s) = (if is_scalar r then r else rune_error, length (encode_rune r))"
  by (simp add: encode_rune_def decode_encode_scalar is_scalar_def rune_error_def)

lemma segs_encode_rune [simp]: "segs (encode_rune r @ s) = encode_rune r # segs s"
  by (simp add: segs_step rune_width_def decode_encode_rune)

lemma segs_encode_runes: "segs (encode_runes rs) = map encode_rune rs"
  by (induction rs) (simp_all add: encode_runes_def)

lemma runes_encode_runes: "\<forall>r\<in>set rs. is_scalar r \<Longrightarrow> runes (encode_runes rs) = rs"
  using decode_encode_rune [of _ "[]"]
  by (induction rs) (simp_all add: runes_def segs_encode_runes)

lemma length_runes_encode [simp]: "length (runes (encode_runes rs)) = length rs"
  by (simp add: runes_def segs_encode_runes)

lemma scalar_two: "x \<le> 0xDF \<Longrightarrow> y \<le> 191 \<Longrightarrow> is_scalar ((x - 0xC0) * 64 + (y - 128))"
proof -
  assume "x \<le> 0xDF" "y \<le> 191"
  then have "(x - 0xC0) * 64 + (y - 128) \<le> 31 * 64 + 63" by (intro add_mono mult_right_mono) auto
  then show ?thesis by (simp add: is_scalar_def)
qed

lemma scalar_three:
  assumes "0xE0 \<le> x" "x \<le> 0xEF" "128 \<le> y" "y \<le> 191" "z \<le> 191" "x = 0xED \<longrightarrow> y \<le> 0x9F"
  shows "is_scalar ((x - 0xE0) * 4096 + (y - 128) * 64 + (z - 128))"
proof -
  obtain i j where x: "x = 0xE0 + i" and y: "y = 128 + j"
    using assms by (metis le_Suc_ex)
  have "i * 4096 + j * 64 + (z - 128) < 0xD800
      \<or> 0xDFFF < i * 4096 + j * 64 + (z - 128) \<and> i * 4096 + j * 64 + (z - 128) \<le> 0x10FFFF"
  proof -
    have "i \<le> 12 \<or> i = 13 \<or> 14 \<le> i" "i \<le> 15" "j \<le> 63" "z - 128 \<le> 63" "i = 13 \<longrightarrow> j \<le> 31"
      using assms x y by auto
    then show ?thesis by linarith
  qed
  then show ?thesis by (simp add: is_scalar_def x y)
qed

lemma scalar_four:
  assumes "0xF0 \<le> x" "x \<le> 0xF4" "128 \<le> y" "y \<le> 191" "z \<le> 191" "w \<le> 191"
    "x = 0xF0 \<longrightarrow> 0x90 \<le> y" "x = 0xF4 \<longrightarrow> y \<le> 0x8F"
  shows "is_scalar ((x - 0xF0) * 262144 + (y - 128) * 4096 + (z - 128) * 64 + (w - 128))"
proof -
  obtain i j where x: "x = 0xF0 + i" and y: "y = 128 + j"
    using assms by (metis le_Suc_ex)
  have "i = 0 \<or> 1 \<le> i" "i \<le> 3 \<or> i = 4" "j \<le> 63" "z - 128 \<le> 63" "w - 128 \<le> 63"
    "i = 0 \<longrightarrow> 16 \<le> j" "i = 4 \<longrightarrow> j \<le> 15"
    using assms x y by auto
  then have "0xDFFF < i * 262144 + j * 4096 + (z - 128) * 64 + (w - 128)
      \<and> i * 262144 + j * 4096 + (z - 128) * 64 + (w - 128) \<le> 0x10FFFF"
    by linarith
  then show ?thesis by (simp add: is_scalar_def x y)
qed

lemma scalar_rune_error [simp]: "is_scalar rune_error"
  by (simp add: is_scalar_def rune_error_def)

lemma decode_rune_scalar: "is_scalar (fst (decode_rune s))"
proof (cases s)
  case (Cons a t)
  have "bval a < 0x80 \<Longrightarrow> is_scalar (bval a)" by (simp add: is_scalar_def)
  then show ?thesis
    using scalar_two [of "bval a"] scalar_three [of "bval a"] scalar_four [of "bval a"]
    unfolding Cons
    by (simp add: Let_def is_cont_def split: list.split if_split
        del: Nat.add_diff_assoc Nat.add_diff_assoc2)
qed simp

lemma runes_scalar: "r \<in> set (runes s) \<Longrightarrow> is_scalar r"
  by (auto simp: runes_def decode_rune_scalar)

lemma length_encode_rune_le: "length (encode_rune r) \<le> 4"
  by (simp add: encode_rune_def encode_scalar_def)

lemma length_encode_runes_le: "length (encode_runes rs) \<le> 4 * length rs"
  by (induction rs) (use length_encode_rune_le in \<open>auto simp: encode_runes_def add_mono\<close>)

text \<open>Cutting a string between two runes does not change the runes before the cut.\<close>

lemma rune_width_take: "rune_width s \<le> m \<Longrightarrow> rune_width (take m s) = rune_width s"
proof (cases s)
  case (Cons a t)
  assume m: "rune_width s \<le> m"
  have "0 < m" using m rune_width_pos [of s] Cons by simp
  then obtain k where k: "m = Suc k" by (cases m) auto
  show ?thesis
    using m unfolding Cons k
    by (auto simp: rune_width_def Let_def take_Cons' split: list.splits if_splits)
qed simp

lemma segs_concat_take: "segs (concat (take k (segs s))) = take k (segs s)"
proof (induction s arbitrary: k rule: segs.induct)
  case (1 s)
  show ?case
  proof (cases "s = [] \<or> k = 0")
    case False
    then obtain j where k: "k = Suc j" and s: "s \<noteq> []" by (cases k) auto
    let ?w = "rune_width s" let ?r = "concat (take j (segs (drop ?w s)))"
    have c: "concat (take k (segs s)) = take ?w s @ ?r"
      by (simp add: k segs_step [OF s])
    have "?r = take (length ?r) (drop ?w s)"
      by (metis append_eq_conv_conj append_take_drop_id concat_append segs_concat)
    then have "take ?w s @ ?r = take (?w + length ?r) s"
      by (metis take_add)
    then have "rune_width (take ?w s @ ?r) = ?w"
      using rune_width_take [of s "?w + length ?r"] by simp
    moreover have "take ?w s \<noteq> []" using s rune_width_pos [OF s] by simp
    moreover have "length (take ?w s) = ?w" using rune_width_le [of s] by simp
    ultimately have "segs (take ?w s @ ?r) = take ?w s # segs ?r"
      by (simp add: segs_step)
    then show ?thesis
      unfolding c using "1.IH" [OF s, of j] by (simp add: k segs_step [OF s])
  qed auto
qed

lemma segs_concat_drop: "segs (concat (drop k (segs s))) = drop k (segs s)"
proof (induction s arbitrary: k rule: segs.induct)
  case (1 s)
  then show ?case by (cases "s = []"; cases k) (auto simp: segs_step [of s])
qed

end
