(* ===== verification/GoStr.thy ===== *)
theory GoStr
  imports GoStd
begin

text \<open>
  The functions of \<^verbatim>\<open>strings\<close>, \<^verbatim>\<open>strconv\<close>, \<^verbatim>\<open>encoding/hex\<close> and \<^verbatim>\<open>unicode/utf16\<close> the source calls.
  White space is \<^verbatim>\<open>unicode.IsSpace\<close>, decided rune by rune; upper-casing is exact for every rune
  whose upper case is ASCII, which is all the source compares against.
\<close>

subsection \<open>White space\<close>

definition space_rune :: "nat \<Rightarrow> bool" where
  "space_rune r \<longleftrightarrow> (9 \<le> r \<and> r \<le> 13) \<or> r = 32 \<or> r = 0x85 \<or> r = 0xA0 \<or> r = 0x1680 \<or>
     (0x2000 \<le> r \<and> r \<le> 0x200A) \<or> r = 0x2028 \<or> r = 0x2029 \<or> r = 0x202F \<or> r = 0x205F \<or> r = 0x3000"

definition space_seg :: "bytes \<Rightarrow> bool" where
  "space_seg x \<longleftrightarrow> space_rune (fst (decode_rune x))"

definition trim_right_by :: "('a \<Rightarrow> bool) \<Rightarrow> 'a list \<Rightarrow> 'a list" where
  "trim_right_by P xs = rev (dropWhile P (rev xs))"

definition trim_space :: "bytes \<Rightarrow> bytes" where
  "trim_space s = concat (trim_right_by space_seg (dropWhile space_seg (segs s)))"

text \<open>\<^verbatim>\<open>strings.TrimRight(s, cutset)\<close> for an ASCII cutset.\<close>

definition trim_right :: "bytes \<Rightarrow> bytes \<Rightarrow> bytes" where
  "trim_right cutset s = trim_right_by (\<lambda>c. c \<in> set cutset) s"

text \<open>\<^verbatim>\<open>strings.Fields\<close>: the maximal runs of runes that are not white space.\<close>

fun fields_acc :: "bytes \<Rightarrow> bytes list \<Rightarrow> bytes list" where
  "fields_acc acc [] = (if acc = [] then [] else [acc])"
| "fields_acc acc (x # xs) =
    (if space_seg x then (if acc = [] then fields_acc [] xs else acc # fields_acc [] xs)
     else fields_acc (acc @ x) xs)"

definition Fields :: "bytes \<Rightarrow> bytes list" where
  "Fields s = fields_acc [] (segs s)"

lemma length_trim_right_by: "length (trim_right_by P xs) \<le> length xs"
  by (simp add: trim_right_by_def) (metis length_dropWhile_le length_rev)

lemma trim_right_by_prefix: "\<exists>ys. xs = trim_right_by P xs @ ys \<and> (\<forall>y\<in>set ys. P y)"
proof -
  have "rev xs = takeWhile P (rev xs) @ dropWhile P (rev xs)" by simp
  then have "xs = rev (dropWhile P (rev xs)) @ rev (takeWhile P (rev xs))"
    by (metis rev_append rev_rev_ident)
  then show ?thesis
    unfolding trim_right_by_def by (metis set_rev set_takeWhileD)
qed

lemma trim_right_by_id: "xs = [] \<or> \<not> P (last xs) \<Longrightarrow> trim_right_by P xs = xs"
  by (cases xs rule: rev_cases) (auto simp: trim_right_by_def)

lemma trim_right_by_append [simp]:
  "(\<forall>y\<in>set ys. P y) \<Longrightarrow> trim_right_by P (xs @ ys) = trim_right_by P xs"
  by (induction ys rule: rev_induct) (auto simp: trim_right_by_def simp flip: append_assoc)

lemma set_trim_right: "set (trim_right cutset s) \<subseteq> set s"
  using trim_right_by_prefix [of s "\<lambda>c. c \<in> set cutset"] unfolding trim_right_def
  by (metis Un_upper1 set_append)

lemma length_trim_right: "length (trim_right cutset s) \<le> length s"
  by (simp add: trim_right_def length_trim_right_by)

lemma fields_acc_nonempty: "x \<in> set (fields_acc acc xs) \<Longrightarrow> x \<noteq> []"
  by (induction acc xs rule: fields_acc.induct) (auto split: if_splits)

lemma fields_acc_Nil:
  "fields_acc acc xs = [] \<longleftrightarrow> acc = [] \<and> (\<forall>x\<in>set xs. x = [] \<or> space_seg x)"
  by (induction acc xs rule: fields_acc.induct) auto

lemma fields_Nil_iff: "Fields s = [] \<longleftrightarrow> trim_space s = []"
proof
  assume "Fields s = []"
  then have "\<forall>x\<in>set (segs s). space_seg x"
    using segs_nonempty by (fastforce simp: Fields_def fields_acc_Nil)
  then have "dropWhile space_seg (segs s) = []" using dropWhile_eq_Nil_conv by blast
  then show "trim_space s = []" unfolding trim_space_def by (simp only:) (simp add: trim_right_by_def)
next
  assume t: "trim_space s = []"
  let ?d = "dropWhile space_seg (segs s)"
  have "?d = []"
  proof (rule ccontr)
    assume ne: "?d \<noteq> []"
    from trim_right_by_prefix [of ?d space_seg]
    obtain ys where d: "?d = trim_right_by space_seg ?d @ ys" "\<forall>y\<in>set ys. space_seg y"
      by (elim exE conjE)
    have "trim_right_by space_seg ?d \<noteq> []"
    proof
      assume "trim_right_by space_seg ?d = []"
      with d(1) have "?d = ys" by (metis append_Nil)
      with d(2) have "\<forall>y\<in>set ?d. space_seg y" by argo
      with hd_dropWhile [OF ne] ne show False using hd_in_set by blast
    qed
    moreover have "hd (trim_right_by space_seg ?d) = hd ?d"
      using d(1) calculation by (metis hd_append2)
    ultimately have "hd ?d \<in> set (trim_right_by space_seg ?d)"
      using hd_in_set by metis
    moreover have "hd ?d \<noteq> []"
      using ne by (metis hd_in_set segs_nonempty set_dropWhileD)
    ultimately show False using t by (force simp: trim_space_def)
  qed
  then show "Fields s = []"
    by (simp add: Fields_def fields_acc_Nil dropWhile_eq_Nil_conv)
qed

lemma segs_trim_space: "segs (trim_space s) = trim_right_by space_seg (dropWhile space_seg (segs s))"
proof -
  obtain k where k: "dropWhile space_seg (segs s) = drop k (segs s)"
    by (metis dropWhile_eq_drop)
  let ?d = "concat (drop k (segs s))"
  obtain j where j: "trim_right_by space_seg (segs ?d) = take j (segs ?d)"
    using trim_right_by_prefix [of "segs ?d" space_seg] by (metis append_eq_conv_conj)
  have d: "segs ?d = drop k (segs s)" by (rule segs_concat_drop)
  have "trim_space s = concat (take j (segs ?d))"
    using j by (simp add: trim_space_def k d)
  then show ?thesis
    using segs_concat_take [of j ?d] j by (simp add: k d)
qed

lemma trim_space_idem [simp]: "trim_space (trim_space s) = trim_space s"
proof -
  let ?d = "dropWhile space_seg (segs s)" let ?t = "trim_right_by space_seg ?d"
  have "?t = [] \<or> \<not> space_seg (last ?t)"
    using hd_dropWhile [of space_seg "rev ?d"]
    by (auto simp: trim_right_by_def last_rev)
  then have r: "trim_right_by space_seg ?t = ?t" by (rule trim_right_by_id)
  have "dropWhile space_seg ?t = ?t"
  proof (cases ?t)
    case (Cons x xs)
    from trim_right_by_prefix [of ?d space_seg] obtain ys where "?d = ?t @ ys" by (elim exE conjE)
    then have "?d = x # (xs @ ys)" using Cons by simp
    then have "\<not> space_seg x" by (metis dropWhile_eq_Cons_conv)
    then show ?thesis using Cons by simp
  qed simp
  then show ?thesis by (simp add: trim_space_def [of "trim_space s"] segs_trim_space r)
    (simp add: trim_space_def)
qed

lemma fields_trim_nonempty: "trim_space s \<noteq> [] \<Longrightarrow> Fields (trim_space s) \<noteq> []"
  by (simp add: fields_Nil_iff)

subsection \<open>Searching and cutting\<close>

definition has_prefix :: "bytes \<Rightarrow> bytes \<Rightarrow> bool" where
  "has_prefix s p \<longleftrightarrow> take (length p) s = p"

definition has_suffix :: "bytes \<Rightarrow> bytes \<Rightarrow> bool" where
  "has_suffix s p \<longleftrightarrow> length p \<le> length s \<and> drop (length s - length p) s = p"

text \<open>\<^verbatim>\<open>strings.Index\<close>: the first position of a substring, None where Go returns -1.\<close>

fun index_of :: "bytes \<Rightarrow> bytes \<Rightarrow> nat option" where
  "index_of [] p = (if p = [] then Some 0 else None)"
| "index_of (c # s) p =
    (if has_prefix (c # s) p then Some 0 else map_option Suc (index_of s p))"

definition contains :: "bytes \<Rightarrow> bytes \<Rightarrow> bool" where
  "contains s p \<longleftrightarrow> index_of s p \<noteq> None"

fun find_first :: "('a \<Rightarrow> bool) \<Rightarrow> 'a list \<Rightarrow> nat option" where
  "find_first P [] = None"
| "find_first P (x # xs) = (if P x then Some 0 else map_option Suc (find_first P xs))"

lemma index_of_bound: "index_of s p = Some i \<Longrightarrow> i + length p \<le> length s"
proof (induction s p arbitrary: i rule: index_of.induct)
  case (2 c s p)
  then show ?case
    by (auto simp: has_prefix_def split: if_splits) (metis length_Cons length_take min.cobounded1)
qed (simp split: if_splits)

lemma find_first_Some:
  "find_first P xs = Some i \<Longrightarrow> i < length xs \<and> P (xs ! i) \<and> (\<forall>j<i. \<not> P (xs ! j))"
  by (induction xs arbitrary: i) (auto split: if_splits simp: nth_Cons')

lemma find_first_None: "find_first P xs = None \<longleftrightarrow> (\<forall>x\<in>set xs. \<not> P x)"
  by (induction xs) auto

lemma find_first_append_stop:
  "\<forall>x\<in>set xs. \<not> P x \<Longrightarrow> P y \<Longrightarrow> find_first P (xs @ y # ys) = Some (length xs)"
  by (induction xs) auto

text \<open>\<^verbatim>\<open>strings.Split\<close> by a one-byte separator.\<close>

fun split_on :: "byte \<Rightarrow> bytes \<Rightarrow> bytes list" where
  "split_on sep [] = [[]]"
| "split_on sep (c # s) =
    (if c = sep then [] # split_on sep s
     else (case split_on sep s of [] \<Rightarrow> [[c]] | x # xs \<Rightarrow> (c # x) # xs))"

subsection \<open>Letter case\<close>

definition upper_byte :: "byte \<Rightarrow> byte" where
  "upper_byte c = (if 97 \<le> bval c \<and> bval c \<le> 122 then mkbyte (bval c - 32) else c)"

definition upper_seg :: "bytes \<Rightarrow> bytes" where
  "upper_seg x =
    (case x of [c] \<Rightarrow> if bval c < 128 then [upper_byte c] else encode_rune rune_error
     | _ \<Rightarrow> let r = fst (decode_rune x) in
          if r = 0x131 then ''I'' else if r = 0x17F then ''S'' else x)"

definition to_upper :: "bytes \<Rightarrow> bytes" where
  "to_upper s = concat (map upper_seg (segs s))"

definition lower_byte :: "byte \<Rightarrow> byte" where
  "lower_byte c = (if 65 \<le> bval c \<and> bval c \<le> 90 then mkbyte (bval c + 32) else c)"

text \<open>\<^verbatim>\<open>strings.EqualFold(s, t)\<close> for an ASCII \<^verbatim>\<open>t\<close> without the letters K and S.\<close>

definition equal_fold :: "bytes \<Rightarrow> bytes \<Rightarrow> bool" where
  "equal_fold s t \<longleftrightarrow> map lower_byte s = map lower_byte t"

lemma to_upper_ascii: "is_ascii s \<Longrightarrow> to_upper s = map upper_byte s"
  by (induction s) (auto simp: to_upper_def upper_seg_def)

subsection \<open>Numbers\<close>

definition is_digit :: "byte \<Rightarrow> bool" where
  "is_digit c \<longleftrightarrow> 48 \<le> bval c \<and> bval c \<le> 57"

definition digits_val :: "bytes \<Rightarrow> nat" where
  "digits_val s = foldl (\<lambda>n c. n * 10 + (bval c - 48)) 0 s"

definition all_digits :: "bytes \<Rightarrow> bool" where
  "all_digits s \<longleftrightarrow> s \<noteq> [] \<and> (\<forall>c\<in>set s. is_digit c)"

text \<open>\<^verbatim>\<open>strconv.ParseUint(s, 10, w)\<close>; None is a syntax or range error.\<close>

definition parse_uint :: "nat \<Rightarrow> bytes \<Rightarrow> nat option" where
  "parse_uint w s = (if all_digits s \<and> digits_val s < 2 ^ w then Some (digits_val s) else None)"

text \<open>\<^verbatim>\<open>strconv.Atoi\<close> and \<^verbatim>\<open>strconv.ParseInt(s, 10, 64)\<close>.\<close>

definition atoi :: "bytes \<Rightarrow> int option" where
  "atoi s =
    (let neg = has_prefix s ''-''; d = (if neg \<or> has_prefix s ''+'' then drop 1 s else s) in
     if all_digits d then
       (let v = (if neg then - int (digits_val d) else int (digits_val d)) in
        if - (2 ^ 63) \<le> v \<and> v < 2 ^ 63 then Some v else None)
     else None)"

text \<open>\<^verbatim>\<open>strconv.Itoa\<close> on a natural number.\<close>

fun show_nat :: "nat \<Rightarrow> bytes" where
  "show_nat n = (if n < 10 then [mkbyte (48 + n)] else show_nat (n div 10) @ [mkbyte (48 + n mod 10)])"

declare show_nat.simps [simp del]

definition show_int :: "int \<Rightarrow> bytes" where
  "show_int i = (if i < 0 then CHR ''-'' # show_nat (nat (- i)) else show_nat (nat i))"

lemma digits_val_append: "digits_val (s @ [c]) = digits_val s * 10 + (bval c - 48)"
  by (simp add: digits_val_def)

lemma is_digit_mkbyte [simp]: "n < 10 \<Longrightarrow> is_digit (mkbyte (48 + n))"
  by (simp add: is_digit_def)

lemma show_nat_digits: "c \<in> set (show_nat n) \<Longrightarrow> is_digit c"
  by (induction n rule: show_nat.induct) (subst (asm) show_nat.simps, auto split: if_splits)

lemma show_nat_nonempty [simp]: "show_nat n \<noteq> []"
  by (simp add: show_nat.simps)

lemma length_show_nat: "n < 10 ^ k \<Longrightarrow> 0 < k \<Longrightarrow> length (show_nat n) \<le> k"
proof (induction n arbitrary: k rule: show_nat.induct)
  case (1 n)
  show ?case
  proof (cases "n < 10")
    case False
    then obtain j where k: "k = Suc j" "0 < j"
      using 1(2,3) by (cases k; cases "k - 1") auto
    then have "n div 10 < 10 ^ j" using 1(2) by (simp add: less_mult_imp_div_less mult.commute)
    then show ?thesis
      using 1(1) [OF False _ k(2)] k False by (simp add: show_nat.simps [of n])
  qed (use 1 in \<open>simp add: show_nat.simps [of n]\<close>)
qed

lemma digits_val_show [simp]: "digits_val (show_nat n) = n"
proof (induction n rule: show_nat.induct)
  case (1 n)
  then show ?case
    by (subst show_nat.simps) (auto simp: digits_val_append digits_val_def)
qed

lemma all_digits_show [simp]: "all_digits (show_nat n)"
  using show_nat_digits by (auto simp: all_digits_def)

lemma parse_uint_show: "parse_uint w (show_nat n) = (if n < 2 ^ w then Some n else None)"
  by (simp add: parse_uint_def)

lemma digit_not_sign: "is_digit c \<Longrightarrow> c \<noteq> CHR ''-'' \<and> c \<noteq> CHR ''+''"
  by (auto simp: is_digit_def bval_def)

lemma atoi_digits:
  assumes "all_digits d"
  shows "atoi d = (if digits_val d < 2 ^ 63 then Some (int (digits_val d)) else None)"
proof -
  obtain c s where d: "d = c # s" "is_digit c" using assms by (cases d) (auto simp: all_digits_def)
  then have "\<not> has_prefix d ''-''" "\<not> has_prefix d ''+''"
    using digit_not_sign by (auto simp: has_prefix_def)
  moreover have "int (digits_val d) < 2 ^ 63 \<longleftrightarrow> digits_val d < 2 ^ 63"
    by (metis of_nat_less_iff of_nat_numeral of_nat_power)
  ultimately show ?thesis using assms by (simp add: atoi_def Let_def)
qed

lemma atoi_show: "n < 2 ^ 63 \<Longrightarrow> atoi (show_nat n) = Some (int n)"
  by (simp add: atoi_digits)

subsection \<open>Hexadecimal and UTF-16\<close>

definition hex_digit :: "nat \<Rightarrow> byte" where
  "hex_digit n = (if n < 10 then mkbyte (48 + n) else mkbyte (87 + n))"

definition hex_encode :: "bytes \<Rightarrow> bytes" where
  "hex_encode b = concat (map (\<lambda>c. [hex_digit (bval c div 16), hex_digit (bval c mod 16)]) b)"

lemma length_hex_encode [simp]: "length (hex_encode b) = 2 * length b"
  by (induction b) (auto simp: hex_encode_def)

text \<open>\<^verbatim>\<open>utf16.Decode\<close>: surrogate pairs are combined, lone surrogates become U+FFFD.\<close>

fun utf16_decode :: "nat list \<Rightarrow> nat list" where
  "utf16_decode [] = []"
| "utf16_decode [u] = [if 0xD800 \<le> u \<and> u < 0xE000 then rune_error else u]"
| "utf16_decode (u # v # us) =
    (if u < 0xD800 \<or> 0xE000 \<le> u then u # utf16_decode (v # us)
     else if u < 0xDC00 \<and> 0xDC00 \<le> v \<and> v < 0xE000 then
       ((u - 0xD800) * 1024 + (v - 0xDC00) + 0x10000) # utf16_decode us
     else rune_error # utf16_decode (v # us))"

definition utf16_encode_rune :: "nat \<Rightarrow> nat list" where
  "utf16_encode_rune r =
    (if r < 0x10000 then [r] else [0xD800 + (r - 0x10000) div 1024, 0xDC00 + (r - 0x10000) mod 1024])"

definition utf16_encode :: "nat list \<Rightarrow> nat list" where
  "utf16_encode rs = concat (map utf16_encode_rune rs)"

lemma utf16_decode_step:
  assumes "is_scalar r"
  shows "utf16_decode (utf16_encode_rune r @ us) = r # utf16_decode us"
proof (cases "r < 0x10000")
  case True
  with assms show ?thesis
    by (cases us) (auto simp: utf16_encode_rune_def is_scalar_def)
next
  case False
  define q where "q = r - 0x10000"
  have r: "r = q + 0x10000" "q < 0x100000" using False assms by (auto simp: q_def is_scalar_def)
  then have "q div 1024 < 1024" by auto
  then show ?thesis using r by (simp add: utf16_encode_rune_def)
qed

lemma utf16_decode_encode: "\<forall>r\<in>set rs. is_scalar r \<Longrightarrow> utf16_decode (utf16_encode rs) = rs"
  by (induction rs) (auto simp: utf16_encode_def utf16_decode_step)

end
