(* ===== verification/GoNet.thy ===== *)
theory GoNet
  imports GoStr
begin

text \<open>
  The address parsing of Go's \<^verbatim>\<open>net\<close> package: \<^verbatim>\<open>net.ParseIP\<close> (IPv4 without leading zeros, IPv6 with
  ellipsis and embedded IPv4, no zone), the 4- and 16-byte forms of \<^verbatim>\<open>net.IP\<close>, \<^verbatim>\<open>IP.To4\<close>, and
  \<^verbatim>\<open>net.SplitHostPort\<close>. A \<^verbatim>\<open>net.IP\<close> is a byte string, nil is the empty one.
\<close>

subsection \<open>IPv4\<close>

definition dec_octet :: "bytes \<Rightarrow> nat option" where
  "dec_octet s =
    (if all_digits s \<and> (length s = 1 \<or> hd s \<noteq> CHR ''0'') \<and> digits_val s \<le> 255
     then Some (digits_val s) else None)"

fun join_opts :: "'a option list \<Rightarrow> 'a list option" where
  "join_opts [] = Some []"
| "join_opts (x # xs) = (case (x, join_opts xs) of (Some y, Some ys) \<Rightarrow> Some (y # ys) | _ \<Rightarrow> None)"

definition parse_ipv4 :: "bytes \<Rightarrow> nat list option" where
  "parse_ipv4 s =
    (let ps = split_on (CHR ''.'') s in if length ps = 4 then join_opts (map dec_octet ps) else None)"

definition v4_in_v6_prefix :: bytes where
  "v4_in_v6_prefix = replicate 10 NUL @ [CHR 0xFF, CHR 0xFF]"

subsection \<open>IPv6\<close>

definition hex_val :: "byte \<Rightarrow> nat option" where
  "hex_val c = (let x = bval c in
     if 48 \<le> x \<and> x \<le> 57 then Some (x - 48)
     else if 97 \<le> x \<and> x \<le> 102 then Some (x - 87)
     else if 65 \<le> x \<and> x \<le> 70 then Some (x - 55) else None)"

fun hex_group :: "bytes \<Rightarrow> bytes \<times> bytes" where
  "hex_group [] = ([], [])"
| "hex_group (c # s) = (if hex_val c = None then ([], c # s)
     else (let (d, r) = hex_group s in (c # d, r)))"

definition hex_num :: "bytes \<Rightarrow> nat" where
  "hex_num d = foldl (\<lambda>n c. n * 16 + the (hex_val c)) 0 d"

lemma hex_group_length: "length (snd (hex_group s)) \<le> length s"
  by (induction s) (auto split: prod.splits)

text \<open>The group loop: octets so far, position of the ellipsis, rest of the text.\<close>

function v6_groups :: "bytes \<Rightarrow> nat option \<Rightarrow> bytes \<Rightarrow> (bytes \<times> nat option \<times> bytes) option" where
  "v6_groups ip ell s =
    (if 16 \<le> length ip then Some (ip, ell, s)
     else (let (d, r) = hex_group s in
       if d = [] \<or> 4 < length d then None
       else if has_prefix r ''.'' then
         (if ell = None \<and> length ip \<noteq> 12 then None
          else if 16 < length ip + 4 then None
          else case parse_ipv4 s of None \<Rightarrow> None | Some q \<Rightarrow> Some (ip @ map mkbyte q, ell, []))
       else (let ip' = ip @ [mkbyte (hex_num d div 256), mkbyte (hex_num d)] in
         case r of [] \<Rightarrow> Some (ip', ell, [])
         | c # r' \<Rightarrow>
             if c \<noteq> CHR '':'' \<or> r' = [] then None
             else if hd r' = CHR '':'' then
               (if ell \<noteq> None then None
                else if tl r' = [] then Some (ip', Some (length ip'), [])
                else v6_groups ip' (Some (length ip')) (tl r'))
             else v6_groups ip' ell r')))"
  by pat_completeness auto
termination
  by (relation "measure (\<lambda>(ip, _, _). 16 - length ip)") auto

declare v6_groups.simps [simp del]

definition parse_ipv6 :: "bytes \<Rightarrow> bytes option" where
  "parse_ipv6 s =
    (if has_prefix s ''::'' \<and> length s = 2 then Some (replicate 16 NUL)
     else (case (if has_prefix s ''::'' then v6_groups [] (Some 0) (drop 2 s) else v6_groups [] None s) of
       None \<Rightarrow> None
     | Some (ip, ell, r) \<Rightarrow>
        if r \<noteq> [] then None
        else if length ip < 16 then
          (case ell of None \<Rightarrow> None
           | Some e \<Rightarrow> Some (take e ip @ replicate (16 - length ip) NUL @ drop e ip))
        else if ell \<noteq> None then None else Some ip))"

subsection \<open>Addresses\<close>

definition ParseIP :: "bytes \<Rightarrow> bytes" where
  "ParseIP s =
    (case find_first (\<lambda>c. c = CHR ''.'' \<or> c = CHR '':'' \<or> c = CHR ''%'') s of
       None \<Rightarrow> []
     | Some i \<Rightarrow>
        if s ! i = CHR ''.'' then
          (case parse_ipv4 s of None \<Rightarrow> [] | Some q \<Rightarrow> v4_in_v6_prefix @ map mkbyte q)
        else if s ! i = CHR '':'' \<and> CHR ''%'' \<notin> set s then
          (case parse_ipv6 s of None \<Rightarrow> [] | Some ip \<Rightarrow> ip)
        else [])"

definition To4 :: "bytes \<Rightarrow> bytes" where
  "To4 ip = (if length ip = 4 then ip
             else if length ip = 16 \<and> take 12 ip = v4_in_v6_prefix then drop 12 ip else [])"

text \<open>\<^verbatim>\<open>net.SplitHostPort\<close>; None is an error.\<close>

fun last_index :: "byte \<Rightarrow> bytes \<Rightarrow> nat option" where
  "last_index c [] = None"
| "last_index c (x # xs) =
    (case last_index c xs of Some i \<Rightarrow> Some (Suc i) | None \<Rightarrow> if x = c then Some 0 else None)"

definition SplitHostPort :: "bytes \<Rightarrow> (bytes \<times> bytes) option" where
  "SplitHostPort s =
    (case last_index (CHR '':'') s of None \<Rightarrow> None
     | Some i \<Rightarrow>
       (if has_prefix s ''['' then
          (case find_first (\<lambda>c. c = CHR '']'') s of None \<Rightarrow> None
           | Some e \<Rightarrow>
              if e + 1 \<noteq> i then None
              else if CHR ''['' \<in> set (drop 1 s) \<or> CHR '']'' \<in> set (drop (e + 1) s) then None
              else Some (take (e - 1) (drop 1 s), drop (i + 1) s))
        else if CHR '':'' \<in> set (take i s) then None
        else if CHR ''['' \<in> set s \<or> CHR '']'' \<in> set s then None
        else Some (take i s, drop (i + 1) s)))"

subsection \<open>Parsing printed IPv4 addresses\<close>

definition dotted :: "nat list \<Rightarrow> bytes" where
  "dotted ns = (case map show_nat ns of [] \<Rightarrow> [] | x # xs \<Rightarrow> x @ concat (map (\<lambda>y. CHR ''.'' # y) xs))"

lemma digit_neq [simp]: "is_digit c \<Longrightarrow> c \<noteq> CHR ''.''" "is_digit c \<Longrightarrow> c \<noteq> CHR '':''"
  "is_digit c \<Longrightarrow> c \<noteq> CHR ''%''"
  by (auto simp: is_digit_def bval_def)

lemma split_on_stop: "\<forall>c\<in>set xs. c \<noteq> sep \<Longrightarrow> split_on sep (xs @ sep # ys) = xs # split_on sep ys"
  by (induction xs) auto

lemma split_on_none: "\<forall>c\<in>set xs. c \<noteq> sep \<Longrightarrow> split_on sep xs = [xs]"
  by (induction xs) auto

lemma show_nat_no_dot: "\<forall>c\<in>set (show_nat n). c \<noteq> CHR ''.''"
  using show_nat_digits digit_neq(1) by blast

lemma hd_show_nat: "0 < n \<Longrightarrow> hd (show_nat n) \<noteq> CHR ''0''"
proof (induction n rule: show_nat.induct)
  case (1 n)
  show ?case
  proof (cases "n < 10")
    case True
    have "bval (CHR ''0'') = 48" by (simp add: bval_def)
    moreover have "bval (mkbyte (48 + n)) = 48 + n" using True by simp
    ultimately have "mkbyte (48 + n) \<noteq> CHR ''0''" using 1(2)
      by (metis add_cancel_right_right less_irrefl)
    then show ?thesis using True by (simp add: show_nat.simps [of n])
  next
    case False
    then show ?thesis using 1 by (simp add: show_nat.simps [of n] hd_append)
  qed
qed

lemma dec_octet_show: "n \<le> 255 \<Longrightarrow> dec_octet (show_nat n) = Some n"
  using hd_show_nat [of n] all_digits_show [of n] digits_val_show [of n]
  by (cases "n = 0") (auto simp: dec_octet_def show_nat.simps [of 0] simp del: digits_val_show all_digits_show)

lemma dotted_four: "dotted [a, b, c, d] =
    show_nat a @ CHR ''.'' # show_nat b @ CHR ''.'' # show_nat c @ CHR ''.'' # show_nat d"
  by (simp add: dotted_def)

lemma parse_ipv4_dotted:
  "a \<le> 255 \<Longrightarrow> b \<le> 255 \<Longrightarrow> c \<le> 255 \<Longrightarrow> d \<le> 255 \<Longrightarrow> parse_ipv4 (dotted [a, b, c, d]) = Some [a, b, c, d]"
  by (simp add: parse_ipv4_def dotted_four split_on_stop split_on_none show_nat_no_dot dec_octet_show)

lemma find_sep_dotted:
  "find_first (\<lambda>c. c = CHR ''.'' \<or> c = CHR '':'' \<or> c = CHR ''%'') (show_nat a @ CHR ''.'' # s)
    = Some (length (show_nat a))"
  by (rule find_first_append_stop) (use show_nat_digits digit_neq in blast)+

lemma ParseIP_dotted:
  assumes "a \<le> 255" "b \<le> 255" "c \<le> 255" "d \<le> 255"
  shows "ParseIP (dotted [a, b, c, d]) = v4_in_v6_prefix @ map mkbyte [a, b, c, d]"
  using parse_ipv4_dotted [OF assms]
  by (simp add: ParseIP_def dotted_four find_sep_dotted nth_append)

lemma To4_v4 [simp]: "length q = 4 \<Longrightarrow> To4 (v4_in_v6_prefix @ q) = q"
  by (simp add: To4_def v4_in_v6_prefix_def)

lemma To4_length: "length (To4 ip) = 4 \<or> To4 ip = []"
  by (auto simp: To4_def)

end
