(* ===== verification/Events.thy ===== *)
theory Events
  imports Complex_Main GoNet
begin

text \<open>
  \<^verbatim>\<open>internal/event/event.go\<close>: the event types every channel carries, the bounded channels, the
  drain, the rate limiter, the address and timestamp conversions.

  Times are nanoseconds (\<^verbatim>\<open>time.Time\<close>, \<^verbatim>\<open>time.Duration\<close>) or Unix seconds (TS fields) as integers;
  one call reads the clock once, its value is the argument \<^verbatim>\<open>now\<close>. The text of a system event is
  its template (an English word) followed by the values the source concatenates into it.
  Floating-point samples are exact rationals.
\<close>

subsection \<open>Event types\<close>

abbreviation "second \<equiv> (1000000000 :: int)"
abbreviation "minute \<equiv> 60 * second"

definition unix :: "int \<Rightarrow> int" where
  "unix t = t div second"

definition EvNew :: nat where "EvNew = 1"
definition EvUpdate :: nat where "EvUpdate = 2"
definition EvDestroy :: nat where "EvDestroy = 3"

definition ProtoTCP :: nat where "ProtoTCP = 6"
definition ProtoUDP :: nat where "ProtoUDP = 17"
definition ProtoICMP :: nat where "ProtoICMP = 1"

definition ResultFail :: nat where "ResultFail = 0"
definition ResultOK :: nat where "ResultOK = 1"
definition ResultUnknown :: nat where "ResultUnknown = 2"

record resource_sample =
  rs_ts :: int
  rs_cpu :: rat
  rs_memused :: rat
  rs_mempct :: rat
  rs_diskused :: rat
  rs_diskpct :: rat
  rs_rx :: u64
  rs_tx :: u64

record conn_event =
  co_ts :: int
  co_evtype :: nat
  co_proto :: u8
  co_src :: u32
  co_sport :: u16
  co_dst :: u32
  co_dport :: u16
  co_src6 :: bytes
  co_dst6 :: bytes
  co_packets :: u64
  co_bytes :: u64
  co_mark :: u32

record snap_conn =
  sc_proto :: u8
  sc_src :: u32
  sc_sport :: u16
  sc_dst :: u32
  sc_dport :: u16
  sc_state :: bytes
  sc_pid :: int

record conn_snapshot =
  sn_ts :: int
  sn_conn :: "snap_conn list"
  sn_cnt :: int

record ssh_attempt =
  sa_ts :: int
  sa_src :: u32
  sa_user :: bytes
  sa_method :: bytes
  sa_result :: nat
  sa_fingerprint :: bytes
  sa_detail :: bytes

record fw_event =
  fe_ts :: int
  fe_chain :: bytes
  fe_action :: bytes
  fe_proto :: u8
  fe_src :: u32
  fe_sport :: u16
  fe_dst :: u32
  fe_dport :: u16
  fe_raw :: bytes

record ban_event =
  be_ts :: int
  be_ip :: u32
  be_type :: bytes
  be_jail :: bytes

record sys_event =
  se_ts :: int
  se_source :: bytes
  se_level :: bytes
  se_msg :: "bytes list"

record cred_event =
  ce_ts :: int
  ce_proto :: bytes
  ce_src :: u32
  ce_user :: bytes
  ce_pass :: bytes
  ce_extra :: bytes

datatype any_event =
    AResource resource_sample
  | AConn conn_event
  | ASSH ssh_attempt
  | AFW fw_event
  | AF2B ban_event
  | ACred cred_event
  | ASystem sys_event

text \<open>The kind a value is delivered under (the Kind constants).\<close>

fun kind_of :: "any_event \<Rightarrow> bytes" where
  "kind_of (AResource _) = ''resource''"
| "kind_of (AConn _) = ''conn''"
| "kind_of (ASSH _) = ''ssh''"
| "kind_of (AFW _) = ''fw''"
| "kind_of (AF2B _) = ''f2b''"
| "kind_of (ACred _) = ''cred''"
| "kind_of (ASystem _) = ''system''"

fun TSOf :: "any_event \<Rightarrow> int \<times> bool" where
  "TSOf (AResource e) = (rs_ts e, True)"
| "TSOf (AConn e) = (co_ts e, True)"
| "TSOf (ASSH e) = (sa_ts e, True)"
| "TSOf (AFW e) = (fe_ts e, True)"
| "TSOf (AF2B e) = (be_ts e, True)"
| "TSOf (ASystem e) = (se_ts e, True)"
| "TSOf (ACred e) = (ce_ts e, True)"

subsection \<open>Addresses and timestamps\<close>

definition IPv4ToUint32 :: "bytes \<Rightarrow> u32" where
  "IPv4ToUint32 ip =
    (case To4 ip of
       [a, b, c, d] \<Rightarrow> push_bit 24 (of_nat (bval a)) OR push_bit 16 (of_nat (bval b))
                       OR push_bit 8 (of_nat (bval c)) OR of_nat (bval d)
     | _ \<Rightarrow> 0)"

text \<open>\<^verbatim>\<open>byte(v >> n)\<close> of a 32-bit word.\<close>

definition byte_at :: "nat \<Rightarrow> u32 \<Rightarrow> nat" where
  "byte_at n v = unat (drop_bit n v) mod 256"

definition Uint32ToIPv4 :: "u32 \<Rightarrow> bytes" where
  "Uint32ToIPv4 v = dotted [byte_at 24 v, byte_at 16 v, byte_at 8 v, byte_at 0 v]"

text \<open>
  The accumulator is an int64 that wraps; the final division truncates towards zero.
\<close>

definition quot_trunc :: "int \<Rightarrow> int \<Rightarrow> int" where
  "quot_trunc a b = (if a < 0 then - ((- a) div b) else a div b)"

fun micros_acc :: "u64 \<Rightarrow> bytes \<Rightarrow> u64 option" where
  "micros_acc m [] = Some m"
| "micros_acc m (c # s) =
    (if is_digit c then micros_acc (m * 10 + of_nat (bval c - 48)) s else None)"

definition MicrosToUnix :: "bytes \<Rightarrow> int \<times> bool" where
  "MicrosToUnix s =
    (if s = [] then (0, False)
     else case micros_acc 0 s of None \<Rightarrow> (0, False) | Some m \<Rightarrow> (quot_trunc (sint m) 1000000, True))"

text \<open>The zone of time stamps inside log lines: UTC+8, as its offset in seconds.\<close>

definition LogTZ :: int where
  "LogTZ = 8 * 3600"

definition Truncate512 :: "bytes \<Rightarrow> bytes" where
  "Truncate512 s = (let r = runes s in if length r \<le> 512 then s else encode_runes (take 512 r))"

subsection \<open>Channels and the drain\<close>

record channels =
  c_resource :: "resource_sample chan"
  c_conn :: "conn_event chan"
  c_ssh :: "ssh_attempt chan"
  c_fw :: "fw_event chan"
  c_f2b :: "ban_event chan"
  c_cred :: "cred_event chan"
  c_system :: "sys_event chan"

definition NewChannels :: "nat \<Rightarrow> channels" where
  "NewChannels buf = \<lparr>c_resource = make_chan buf, c_conn = make_chan buf, c_ssh = make_chan buf,
     c_fw = make_chan buf, c_f2b = make_chan buf, c_cred = make_chan buf, c_system = make_chan buf\<rparr>"

text \<open>One non-blocking receive: the values got (none or one) and the channel after it.\<close>

definition recv_opt :: "'a chan \<Rightarrow> 'a list \<times> 'a chan" where
  "recv_opt c = (case try_recv c of None \<Rightarrow> ([], c) | Some (v, c') \<Rightarrow> ([v], c'))"

definition drain_pass :: "channels \<Rightarrow> any_event list \<times> channels" where
  "drain_pass cs =
    (let (r, cr) = recv_opt (c_resource cs);
         (n, cn) = recv_opt (c_conn cs);
         (s, csh) = recv_opt (c_ssh cs);
         (f, cf) = recv_opt (c_fw cs);
         (b, cb) = recv_opt (c_f2b cs);
         (d, cd) = recv_opt (c_cred cs);
         (y, cy) = recv_opt (c_system cs)
     in (map AResource r @ map AConn n @ map ASSH s @ map AFW f @ map AF2B b @ map ACred d @ map ASystem y,
         cs\<lparr>c_resource := cr, c_conn := cn, c_ssh := csh, c_fw := cf, c_f2b := cb, c_cred := cd, c_system := cy\<rparr>))"

definition in_transit :: "channels \<Rightarrow> nat" where
  "in_transit cs = length (ch_buf (c_resource cs)) + length (ch_buf (c_conn cs)) + length (ch_buf (c_ssh cs))
     + length (ch_buf (c_fw cs)) + length (ch_buf (c_f2b cs)) + length (ch_buf (c_cred cs))
     + length (ch_buf (c_system cs))"

lemma recv_opt_buf: "ch_buf c = fst (recv_opt c) @ ch_buf (snd (recv_opt c))"
  by (auto simp: recv_opt_def try_recv_def split: list.splits)

lemma recv_opt_fst: "fst (recv_opt c) = take 1 (ch_buf c)"
  by (auto simp: recv_opt_def try_recv_def split: list.splits)

lemma recv_opt_snd: "ch_buf (snd (recv_opt c)) = drop 1 (ch_buf c)"
  by (auto simp: recv_opt_def try_recv_def split: list.splits)

lemma drain_pass_got: "length (fst (drain_pass cs)) + in_transit (snd (drain_pass cs)) = in_transit cs"
  using recv_opt_buf [of "c_resource cs"] recv_opt_buf [of "c_conn cs"] recv_opt_buf [of "c_ssh cs"]
    recv_opt_buf [of "c_fw cs"] recv_opt_buf [of "c_f2b cs"] recv_opt_buf [of "c_cred cs"]
    recv_opt_buf [of "c_system cs"]
  by (auto simp: drain_pass_def in_transit_def case_prod_beta Let_def dest!: arg_cong [where f = length])

text \<open>The events the callback is called with, in order, and the channels when it returns.\<close>

function Drain :: "channels \<Rightarrow> any_event list \<times> channels" where
  "Drain cs =
    (let (got, cs') = drain_pass cs in
     if got = [] then ([], cs') else (let (rest, cs'') = Drain cs' in (got @ rest, cs'')))"
  by pat_completeness auto
termination
proof (relation "measure in_transit")
  fix cs x got cs'
  assume x: "x = drain_pass cs" "(got, cs') = x" and "got \<noteq> []"
  then have "fst (drain_pass cs) = got" "snd (drain_pass cs) = cs'" by (metis fst_conv, metis snd_conv)
  then show "(cs', cs) \<in> measure in_transit"
    using drain_pass_got [of cs] \<open>got \<noteq> []\<close> by (cases got) auto
qed simp

declare Drain.simps [simp del]

subsection \<open>Reporting\<close>

text \<open>A nil channel is None: reporting to it does nothing. A full channel drops the event.\<close>

type_synonym sysch = "sys_event chan option"

definition ReportSys :: "int \<Rightarrow> bytes \<Rightarrow> bytes \<Rightarrow> bytes list \<Rightarrow> sysch \<Rightarrow> sysch" where
  "ReportSys now source level message sys =
    (case sys of None \<Rightarrow> None
     | Some ch \<Rightarrow> Some (snd (try_send
         \<lparr>se_ts = unix now, se_source = source, se_level = level, se_msg = message\<rparr> ch)))"

text \<open>The last report is None before the first one (the zero time, arbitrarily long ago).\<close>

record rate_limiter =
  rl_last :: "int option"
  rl_limit :: int

definition NewRateLimiter :: "int \<Rightarrow> rate_limiter" where
  "NewRateLimiter limit = \<lparr>rl_last = None, rl_limit = limit\<rparr>"

definition may_report :: "int \<Rightarrow> rate_limiter \<Rightarrow> bool" where
  "may_report now r = (case rl_last r of None \<Rightarrow> True | Some t \<Rightarrow> \<not> now - t < rl_limit r)"

definition Report :: "int \<Rightarrow> bytes \<Rightarrow> bytes \<Rightarrow> bytes list \<Rightarrow> rate_limiter \<Rightarrow> sysch \<Rightarrow> rate_limiter \<times> sysch" where
  "Report now source level message r sys =
    (if may_report now r then (r\<lparr>rl_last := Some now\<rparr>, ReportSys now source level message sys)
     else (r, sys))"


subsection \<open>Addresses: printing and parsing are inverse\<close>

lemma byte_at_le [simp]: "byte_at n v \<le> 255"
  by (simp add: byte_at_def)

lemma word_of_bytes:
  fixes v :: u32
  shows "push_bit 24 (of_nat (byte_at 24 v)) OR push_bit 16 (of_nat (byte_at 16 v))
    OR push_bit 8 (of_nat (byte_at 8 v)) OR of_nat (byte_at 0 v) = v"
proof -
  have b: "(of_nat (byte_at n v) :: u32) = take_bit 8 (drop_bit n v)" for n
  proof -
    have "byte_at n v = unat (take_bit 8 (drop_bit n v))"
      by (simp add: byte_at_def unsigned_take_bit_eq) (simp add: take_bit_eq_mod)
    then show ?thesis by simp
  qed
  show ?thesis
    unfolding b
  proof (rule bit_word_eqI)
    fix n assume "n < LENGTH(32)"
    then consider "n < 8" | "8 \<le> n" "n < 16" | "16 \<le> n" "n < 24" | "24 \<le> n" "n < 32"
      by fastforce
    then show "bit (push_bit 24 (take_bit 8 (drop_bit 24 v)) OR push_bit 16 (take_bit 8 (drop_bit 16 v))
        OR push_bit 8 (take_bit 8 (drop_bit 8 v)) OR take_bit 8 (drop_bit 0 v)) n = bit v n"
      by cases (auto simp: bit_simps)
  qed
qed

lemma IPv4ToUint32_v4:
  "length q = 4 \<Longrightarrow> IPv4ToUint32 (v4_in_v6_prefix @ q) = IPv4ToUint32 q"
  by (simp add: IPv4ToUint32_def) (simp add: To4_def)

lemma ipv4_roundtrip_word: "IPv4ToUint32 (ParseIP (Uint32ToIPv4 v)) = v"
  using word_of_bytes [of v]
  by (simp add: Uint32ToIPv4_def ParseIP_dotted IPv4ToUint32_def bval_mkbyte_small less_Suc_eq_le
      order_le_less_trans [OF byte_at_le])

subsection \<open>The drain\<close>

text \<open>The values of one channel among delivered events.\<close>

definition conns_of :: "any_event list \<Rightarrow> conn_event list" where
  "conns_of xs = concat (map (\<lambda>x. case x of AConn e \<Rightarrow> [e] | _ \<Rightarrow> []) xs)"
definition resources_of :: "any_event list \<Rightarrow> resource_sample list" where
  "resources_of xs = concat (map (\<lambda>x. case x of AResource e \<Rightarrow> [e] | _ \<Rightarrow> []) xs)"
definition sshs_of :: "any_event list \<Rightarrow> ssh_attempt list" where
  "sshs_of xs = concat (map (\<lambda>x. case x of ASSH e \<Rightarrow> [e] | _ \<Rightarrow> []) xs)"
definition fws_of :: "any_event list \<Rightarrow> fw_event list" where
  "fws_of xs = concat (map (\<lambda>x. case x of AFW e \<Rightarrow> [e] | _ \<Rightarrow> []) xs)"
definition bans_of :: "any_event list \<Rightarrow> ban_event list" where
  "bans_of xs = concat (map (\<lambda>x. case x of AF2B e \<Rightarrow> [e] | _ \<Rightarrow> []) xs)"
definition creds_of :: "any_event list \<Rightarrow> cred_event list" where
  "creds_of xs = concat (map (\<lambda>x. case x of ACred e \<Rightarrow> [e] | _ \<Rightarrow> []) xs)"
definition systems_of :: "any_event list \<Rightarrow> sys_event list" where
  "systems_of xs = concat (map (\<lambda>x. case x of ASystem e \<Rightarrow> [e] | _ \<Rightarrow> []) xs)"

lemmas of_defs = conns_of_def resources_of_def sshs_of_def fws_of_def bans_of_def creds_of_def systems_of_def

lemma concat_map_const [simp]: "concat (map (\<lambda>x. []) xs) = []"
  by (induction xs) auto

lemma concat_map_single [simp]: "concat (map (\<lambda>x. [x]) xs) = xs"
  by (induction xs) auto

lemma of_append [simp]:
  "conns_of (xs @ ys) = conns_of xs @ conns_of ys"
  "resources_of (xs @ ys) = resources_of xs @ resources_of ys"
  "sshs_of (xs @ ys) = sshs_of xs @ sshs_of ys"
  "fws_of (xs @ ys) = fws_of xs @ fws_of ys"
  "bans_of (xs @ ys) = bans_of xs @ bans_of ys"
  "creds_of (xs @ ys) = creds_of xs @ creds_of ys"
  "systems_of (xs @ ys) = systems_of xs @ systems_of ys"
  by (simp_all add: of_defs)

text \<open>What a relation between channels, the events delivered from them, and what is left says.\<close>

definition accounts :: "channels \<Rightarrow> any_event list \<Rightarrow> channels \<Rightarrow> bool" where
  "accounts cs got cs' \<longleftrightarrow>
     ch_buf (c_resource cs) = resources_of got @ ch_buf (c_resource cs') \<and>
     ch_buf (c_conn cs) = conns_of got @ ch_buf (c_conn cs') \<and>
     ch_buf (c_ssh cs) = sshs_of got @ ch_buf (c_ssh cs') \<and>
     ch_buf (c_fw cs) = fws_of got @ ch_buf (c_fw cs') \<and>
     ch_buf (c_f2b cs) = bans_of got @ ch_buf (c_f2b cs') \<and>
     ch_buf (c_cred cs) = creds_of got @ ch_buf (c_cred cs') \<and>
     ch_buf (c_system cs) = systems_of got @ ch_buf (c_system cs')"

lemma accounts_pass: "drain_pass cs = (got, cs') \<Longrightarrow> accounts cs got cs'"
  using recv_opt_buf [of "c_resource cs"] recv_opt_buf [of "c_conn cs"] recv_opt_buf [of "c_ssh cs"]
    recv_opt_buf [of "c_fw cs"] recv_opt_buf [of "c_f2b cs"] recv_opt_buf [of "c_cred cs"]
    recv_opt_buf [of "c_system cs"]
  by (auto simp: accounts_def drain_pass_def case_prod_beta Let_def of_defs comp_def)

lemma accounts_trans: "accounts a xs b \<Longrightarrow> accounts b ys c \<Longrightarrow> accounts a (xs @ ys) c"
  by (simp add: accounts_def)

lemma recv_opt_empty: "fst (recv_opt c) = [] \<Longrightarrow> ch_buf (snd (recv_opt c)) = []"
  by (cases "ch_buf c") (simp_all add: recv_opt_fst recv_opt_snd)

lemma drain_pass_empty: "drain_pass cs = ([], cs') \<Longrightarrow> in_transit cs' = 0"
  by (auto simp: drain_pass_def case_prod_beta Let_def in_transit_def recv_opt_empty)

lemma Drain_accounts: "Drain cs = (got, cs') \<Longrightarrow> accounts cs got cs' \<and> in_transit cs' = 0"
proof (induction cs arbitrary: got cs' rule: Drain.induct)
  case (1 cs)
  obtain g c where p: "drain_pass cs = (g, c)" by force
  show ?case
  proof (cases "g = []")
    case True
    then show ?thesis
      using 1(2) p accounts_pass [OF p] drain_pass_empty [of cs c] by (simp add: Drain.simps [of cs])
  next
    case False
    obtain r c'' where d: "Drain c = (r, c'')" by force
    then show ?thesis
      using 1(1) [OF p [symmetric] refl False d] 1(2) p False accounts_pass [OF p] accounts_trans
      by (simp add: Drain.simps [of cs]) blast
  qed
qed

subsection \<open>Timestamps and truncation\<close>

lemma micros_acc_digits:
  "\<forall>c\<in>set s. is_digit c \<Longrightarrow> micros_acc m s = Some (of_nat (foldl (\<lambda>n c. n * 10 + (bval c - 48)) (unat m) s))"
proof (induction s arbitrary: m)
  case (Cons c s)
  have "(of_nat (foldl (\<lambda>n c. n * 10 + (bval c - 48)) a s) :: u64)
      = of_nat (foldl (\<lambda>n c. n * 10 + (bval c - 48)) b s)"
    if "(of_nat a :: u64) = of_nat b" for a b s
    using that by (induction s arbitrary: a b) auto
  from this [of "unat (m * 10 + of_nat (bval c - 48))" "unat m * 10 + (bval c - 48)" s]
  show ?case using Cons by simp
qed simp

lemma MicrosToUnix_digits:
  assumes "all_digits s" "digits_val s < 2 ^ 63"
  shows "MicrosToUnix s = (int (digits_val s) div 1000000, True)"
proof -
  have "sint (of_nat (digits_val s) :: u64) = int (digits_val s)"
    using assms(2) by (simp add: signed_of_nat signed_take_bit_int_eq_self_iff)
  then show ?thesis
    using assms by (simp add: MicrosToUnix_def micros_acc_digits all_digits_def quot_trunc_def
        digits_val_def [symmetric])
qed

lemma micros_acc_None: "micros_acc m s = None \<longleftrightarrow> (\<exists>c\<in>set s. \<not> is_digit c)"
  by (induction m s rule: micros_acc.induct) auto

lemma MicrosToUnix_ok: "snd (MicrosToUnix s) \<longleftrightarrow> all_digits s"
  using micros_acc_None [of 0 s] by (auto simp: MicrosToUnix_def all_digits_def split: option.splits)

lemma length_runes_Truncate512: "length (runes (Truncate512 s)) \<le> 512"
  by (simp add: Truncate512_def Let_def)

lemma runes_Truncate512: "runes (Truncate512 s) = take 512 (runes s)"
  using runes_scalar [of _ s]
  by (auto simp: Truncate512_def Let_def intro!: runes_encode_runes dest: in_set_takeD)

subsection \<open>Spacing of rate-limited reports\<close>

text \<open>The instants at which a sequence of calls, at the given instants, really reports.\<close>

fun reports_at :: "bytes \<Rightarrow> bytes \<Rightarrow> (int \<times> bytes list) list \<Rightarrow> rate_limiter \<Rightarrow> sysch
    \<Rightarrow> int list \<times> rate_limiter \<times> sysch" where
  "reports_at source level [] r sys = ([], r, sys)"
| "reports_at source level ((t, m) # ts) r sys =
    (let q = Report t source level m r sys;
         rest = reports_at source level ts (fst q) (snd q)
     in (if may_report t r then t # fst rest else fst rest, snd rest))"

lemma reports_at_set: "set (fst (reports_at source level ts r sys)) \<subseteq> fst ` set ts"
  by (induction source level ts r sys rule: reports_at.induct) (auto simp: Let_def)

lemma Report_fields [simp]:
  "rl_limit (fst (Report t source level m r sys)) = rl_limit r"
  "rl_last (fst (Report t source level m r sys)) = (if may_report t r then Some t else rl_last r)"
  by (auto simp: Report_def)

lemma reports_after:
  "rl_last r = Some l \<Longrightarrow> sorted (map fst ts) \<Longrightarrow> \<forall>t\<in>fst ` set ts. l \<le> t \<Longrightarrow>
    \<forall>a\<in>set (fst (reports_at source level ts r sys)). rl_limit r \<le> a - l"
proof (induction source level ts r sys arbitrary: l rule: reports_at.induct)
  case (2 source level t m ts r sys)
  have s: "sorted (map fst ts)" "\<forall>u\<in>fst ` set ts. t \<le> u" "l \<le> t"
    using "2.prems" by auto
  show ?case
  proof (cases "may_report t r")
    case True
    have "\<forall>a\<in>set (fst (reports_at source level ts (fst (Report t source level m r sys))
        (snd (Report t source level m r sys)))). rl_limit r \<le> a - t"
      using "2.IH" [OF refl, of t] s True by simp
    then show ?thesis
      using True s "2.prems"(1) by (fastforce simp: Let_def may_report_def)
  next
    case False
    then show ?thesis
      using "2.IH" [OF refl, of l] s "2.prems" by (simp add: Let_def)
  qed
qed simp

lemma reports_spaced:
  "sorted (map fst ts) \<Longrightarrow>
    sorted_wrt (\<lambda>a b. rl_limit r \<le> b - a) (fst (reports_at source level ts r sys))"
proof (induction source level ts r sys rule: reports_at.induct)
  case (2 source level t m ts r sys)
  have s: "sorted (map fst ts)" "\<forall>u\<in>fst ` set ts. t \<le> u" using "2.prems" by auto
  show ?case
    using "2.IH" [OF refl s(1)] s
      reports_after [of "fst (Report t source level m r sys)" t ts source level
        "snd (Report t source level m r sys)"]
    by (simp add: Let_def)
qed simp

end
