(* ===== verification/HpConn.thy ===== *)
theory HpConn
  imports Events
begin

text \<open>
  The connection of an attacker as a protocol handler of \<^verbatim>\<open>internal/honeypot\<close> sees it, and the
  bounded line reader of \<^verbatim>\<open>telnet.go\<close> the text protocols share.

  A connection is the bytes the peer sends before it closes or the 30 s deadline expires, the
  chunks the handler has written, how many more writes succeed, and the credentials passed to
  the callback \<^verbatim>\<open>rec\<close>. Buffered but unread bytes of a \<^verbatim>\<open>bufio.Reader\<close> are still input. A handler
  is a function of this state; None is a panic. Cancellation through the context only drops the
  rest of the input, so it is covered by a shorter input.
\<close>

subsection \<open>Connections\<close>

record hconn =
  inp :: bytes
  outp :: "bytes list"
  wleft :: nat
  recs :: "cred_event list"

definition cred :: "bytes \<Rightarrow> bytes \<Rightarrow> bytes \<Rightarrow> cred_event" where
  "cred u p e = \<lparr>ce_ts = 0, ce_proto = [], ce_src = 0, ce_user = u, ce_pass = p, ce_extra = e\<rparr>"

definition rec_cred :: "bytes \<Rightarrow> bytes \<Rightarrow> bytes \<Rightarrow> hconn \<Rightarrow> hconn" where
  "rec_cred u p e c = c\<lparr>recs := recs c @ [cred u p e]\<rparr>"

text \<open>\<^verbatim>\<open>io.ReadFull\<close>, \<^verbatim>\<open>conn.Write\<close> and \<^verbatim>\<open>br.ReadByte\<close>; None and False are errors.\<close>

definition readFull :: "nat \<Rightarrow> hconn \<Rightarrow> bytes option \<times> hconn" where
  "readFull n c =
    (if n \<le> length (inp c) then (Some (take n (inp c)), c\<lparr>inp := drop n (inp c)\<rparr>)
     else (None, c\<lparr>inp := []\<rparr>))"

definition conn_write :: "bytes \<Rightarrow> hconn \<Rightarrow> bool \<times> hconn" where
  "conn_write d c =
    (if wleft c = 0 then (False, c) else (True, c\<lparr>outp := outp c @ [d], wleft := wleft c - 1\<rparr>))"

definition readByte :: "hconn \<Rightarrow> byte option \<times> hconn" where
  "readByte c = (case inp c of [] \<Rightarrow> (None, c) | b # s \<Rightarrow> (Some b, c\<lparr>inp := s\<rparr>))"

subsection \<open>The bounded line reader\<close>

definition maxLineLen :: nat where
  "maxLineLen = 64 * 1024"

text \<open>\<^verbatim>\<open>ReadSlice('\n')\<close> on a reader with the default buffer of 4096 bytes.\<close>

datatype slice_err = SliceOk | SliceFull | SliceEOF

definition readSlice :: "bytes \<Rightarrow> bytes \<times> slice_err \<times> bytes" where
  "readSlice s =
    (case find_first (\<lambda>c. c = LF) (take 4096 s) of
       Some i \<Rightarrow> (take (i + 1) s, SliceOk, drop (i + 1) s)
     | None \<Rightarrow> if 4096 \<le> length s then (take 4096 s, SliceFull, drop 4096 s) else (s, SliceEOF, []))"

function raw_line :: "bytes \<Rightarrow> bytes \<Rightarrow> bytes option \<times> bytes" where
  "raw_line line s =
    (let (seg, err, s') = readSlice s; line' = line @ seg in
     if err = SliceFull then
       (if maxLineLen \<le> length line' then (Some line', s') else raw_line line' s')
     else if err = SliceEOF \<and> line' = [] then (None, s')
     else (Some line', s'))"
  by pat_completeness auto
termination
  by (relation "measure (\<lambda>(_, s). length s)")
     (auto simp: readSlice_def split: option.splits if_splits)

declare raw_line.simps [simp del]

fun strip_iac :: "bytes \<Rightarrow> bytes" where
  "strip_iac [] = []"
| "strip_iac (c # s) = (if c = CHR 0xFF then strip_iac (drop 2 s) else c # strip_iac s)"

definition readLine :: "hconn \<Rightarrow> bytes option \<times> hconn" where
  "readLine c =
    (case raw_line [] (inp c) of
       (None, s) \<Rightarrow> (None, c\<lparr>inp := s\<rparr>)
     | (Some line, s) \<Rightarrow>
        (let l = strip_iac (trim_right crlf line) in
         (Some (if 4096 < length l then take 4096 l else l), c\<lparr>inp := s\<rparr>)))"

subsection \<open>What a read or a write can change\<close>

text \<open>Nothing is recorded and nothing is put back into the input.\<close>

definition touched :: "hconn \<Rightarrow> hconn \<Rightarrow> bool" where
  "touched c c' \<longleftrightarrow> recs c' = recs c \<and> length (inp c') \<le> length (inp c)"

lemma touched_refl [simp]: "touched c c"
  by (simp add: touched_def)

lemma touched_readFull: "readFull n c = (r, c') \<Longrightarrow> touched c c'"
  by (auto simp: readFull_def touched_def split: if_splits)

lemma readFull_Some:
  "readFull n c = (Some b, c') \<Longrightarrow> length b = n \<and> length (inp c') + n = length (inp c)"
  by (auto simp: readFull_def split: if_splits)

lemma touched_write: "conn_write d c = (r, c') \<Longrightarrow> touched c c' \<and> inp c' = inp c"
  by (auto simp: conn_write_def touched_def split: if_splits)

lemma touched_readByte: "readByte c = (r, c') \<Longrightarrow> touched c c'"
  by (auto simp: readByte_def touched_def split: list.splits)

lemma readByte_Some: "readByte c = (Some b, c') \<Longrightarrow> length (inp c') < length (inp c)"
  by (auto simp: readByte_def split: list.splits)

lemma readSlice_parts: "readSlice s = (seg, e, s') \<Longrightarrow> s = seg @ s'"
  by (auto simp: readSlice_def split: option.splits if_splits)

lemma readSlice_progress: "readSlice s = (seg, e, s') \<Longrightarrow> seg = [] \<Longrightarrow> s = [] \<and> e = SliceEOF"
  by (auto simp: readSlice_def split: option.splits if_splits)

lemma length_readSlice: "readSlice s = (seg, e, s') \<Longrightarrow> length seg \<le> 4096"
  using find_first_Some [of "\<lambda>c. c = LF" "take 4096 s"]
  by (fastforce simp: readSlice_def split: option.splits if_splits)

lemma raw_line_step:
  "readSlice s = (seg, e, t) \<Longrightarrow> raw_line line s =
     (if e = SliceFull then
        (if maxLineLen \<le> length (line @ seg) then (Some (line @ seg), t) else raw_line (line @ seg) t)
      else if e = SliceEOF \<and> line @ seg = [] then (None, t) else (Some (line @ seg), t))"
  by (simp add: raw_line.simps [of line s])

lemma readSlice_full_shorter: "readSlice s = (seg, SliceFull, t) \<Longrightarrow> length t < length s"
  by (auto simp: readSlice_def split: option.splits if_splits)

lemma raw_line_induct [case_names step]:
  assumes "\<And>line s. (\<And>seg t. readSlice s = (seg, SliceFull, t) \<Longrightarrow> length (line @ seg) < maxLineLen \<Longrightarrow>
    P (line @ seg) t) \<Longrightarrow> P line s"
  shows "P line s"
  by (induction s arbitrary: line rule: measure_induct_rule [of length])
     (use assms readSlice_full_shorter in blast)

lemma raw_line_parts: "raw_line line s = (Some l, s') \<Longrightarrow> l @ s' = line @ s"
proof (induction line s rule: raw_line_induct)
  case (step line s)
  obtain seg e t where r: "readSlice s = (seg, e, t)" by (metis prod_cases3)
  have "l @ s' = line @ seg @ t"
    using step raw_line_step [OF r, of line] r by (auto split: if_splits)
  then show ?case using readSlice_parts [OF r] by simp
qed

lemma raw_line_Some_nonempty: "raw_line line s = (Some l, s') \<Longrightarrow> l \<noteq> []"
proof (induction line s rule: raw_line_induct)
  case (step line s)
  obtain seg e t where r: "readSlice s = (seg, e, t)" by (metis prod_cases3)
  show ?case
    using step raw_line_step [OF r, of line] readSlice_progress [OF r] r by (cases e) (auto split: if_splits)
qed

lemma raw_line_None: "raw_line line s = (None, s') \<Longrightarrow> s' = [] \<and> line = [] \<and> s = []"
proof (induction line s rule: raw_line_induct)
  case (step line s)
  obtain seg e t where r: "readSlice s = (seg, e, t)" by (metis prod_cases3)
  have e: "e = SliceEOF \<Longrightarrow> t = []"
    using r by (auto simp: readSlice_def split: option.splits if_splits)
  have "s' = [] \<and> line = [] \<and> seg = [] \<and> t = []"
    using step raw_line_step [OF r, of line] r e by (auto split: if_splits)
  then show ?case using readSlice_parts [OF r] by simp
qed

text \<open>Memory stays bounded: a raw line never exceeds the limit by more than one buffer.\<close>

lemma raw_line_bound:
  "raw_line line s = (Some l, s') \<Longrightarrow> length line < maxLineLen \<Longrightarrow> length l < maxLineLen + 4096"
proof (induction line s rule: raw_line_induct)
  case (step line s)
  obtain seg e t where r: "readSlice s = (seg, e, t)" by (metis prod_cases3)
  show ?case
    using step raw_line_step [OF r, of line] length_readSlice [OF r] r by (auto split: if_splits)
qed

lemma length_strip_iac: "length (strip_iac s) \<le> length s"
  by (induction s rule: strip_iac.induct) (auto intro: le_trans)

lemma set_strip_iac: "set (strip_iac s) \<subseteq> set s - {CHR 0xFF}"
proof (induction s rule: strip_iac.induct)
  case (2 c s)
  then show ?case using set_drop_subset [of 2 s] by auto
qed simp

lemma strip_iac_id: "CHR 0xFF \<notin> set s \<Longrightarrow> strip_iac s = s"
  by (induction s rule: strip_iac.induct) auto

lemma readLine_Some:
  assumes "readLine c = (Some l, c')"
  obtains r where "raw_line [] (inp c) = (Some r, inp c')"
    "l = take 4096 (strip_iac (trim_right crlf r))" "recs c' = recs c"
  using assms by (auto simp: readLine_def Let_def split: prod.splits option.splits if_splits)

lemma readLine_bound:
  assumes "readLine c = (Some l, c')"
  shows "length l \<le> 4096" "CHR 0xFF \<notin> set l"
proof -
  obtain r where "l = take 4096 (strip_iac (trim_right crlf r))" using readLine_Some [OF assms] by metis
  then show "length l \<le> 4096" "CHR 0xFF \<notin> set l"
    using set_strip_iac [of "trim_right crlf r"] by (auto dest: in_set_takeD)
qed

lemma readLine_progress:
  assumes "readLine c = (Some l, c')"
  shows "touched c c' \<and> length (inp c') < length (inp c)"
proof -
  obtain r where r: "raw_line [] (inp c) = (Some r, inp c')" "recs c' = recs c"
    using readLine_Some [OF assms] by metis
  have "length (inp c) = length r + length (inp c')"
    using raw_line_parts [OF r(1)] by (metis append_Nil length_append)
  then show ?thesis
    using raw_line_Some_nonempty [OF r(1)] r(2) by (simp add: touched_def)
qed

lemma touched_readLine: "readLine c = (r, c') \<Longrightarrow> touched c c'"
proof (cases r)
  case None
  assume "readLine c = (r, c')"
  with None raw_line_None [of "[]" "inp c"] show ?thesis
    by (auto simp: readLine_def Let_def touched_def split: prod.splits option.splits)
qed (use readLine_progress in blast)

text \<open>A line a client sends in the ordinary way is read back exactly.\<close>

definition clean_line :: "bytes \<Rightarrow> bool" where
  "clean_line s \<longleftrightarrow> length s \<le> 4094 \<and> LF \<notin> set s \<and> CHR 0xFF \<notin> set s \<and> (s = [] \<or> last s \<noteq> CR)"

lemma readSlice_line:
  "length s < 4096 \<Longrightarrow> LF \<notin> set s \<Longrightarrow> readSlice (s @ LF # rest) = (s @ [LF], SliceOk, rest)"
  using find_first_append_stop [of s "\<lambda>c. c = LF" LF "take (4095 - length s) rest"]
  by (fastforce simp: readSlice_def take_Cons')

lemma trim_right_crlf: "s = [] \<or> last s \<noteq> CR \<and> last s \<noteq> LF \<Longrightarrow> trim_right crlf (s @ crlf) = s"
  by (auto simp: trim_right_def intro!: trim_right_by_id)

lemma readLine_clean:
  assumes "clean_line s" "inp c = s @ crlf @ rest"
  shows "readLine c = (Some s, c\<lparr>inp := rest\<rparr>)"
proof -
  have "readSlice (inp c) = (s @ crlf, SliceOk, rest)"
    using assms readSlice_line [of "s @ [CR]" rest] by (simp add: clean_line_def)
  moreover have "trim_right crlf (s @ crlf) = s"
    using assms(1) by (intro trim_right_crlf) (metis clean_line_def last_in_set)
  ultimately show ?thesis
    using assms(1) by (simp add: readLine_def raw_line.simps clean_line_def strip_iac_id)
qed

subsection \<open>Control flow of the handlers\<close>

text \<open>
  A call whose error makes the handler return: \<^verbatim>\<open>ret\<close> is what returning yields, \<^verbatim>\<open>k\<close> the rest of
  the handler. A handler that loops returns through Return and starts the next round through
  Continue.
\<close>

datatype 's hstep = Return hconn | Continue 's

definition on_full :: "(hconn \<Rightarrow> 'r) \<Rightarrow> nat \<Rightarrow> hconn \<Rightarrow> (bytes \<Rightarrow> hconn \<Rightarrow> 'r go) \<Rightarrow> 'r go" where
  "on_full ret n c k = (case readFull n c of (None, c') \<Rightarrow> Some (ret c') | (Some b, c') \<Rightarrow> k b c')"

definition on_line :: "(hconn \<Rightarrow> 'r) \<Rightarrow> hconn \<Rightarrow> (bytes \<Rightarrow> hconn \<Rightarrow> 'r go) \<Rightarrow> 'r go" where
  "on_line ret c k = (case readLine c of (None, c') \<Rightarrow> Some (ret c') | (Some l, c') \<Rightarrow> k l c')"

definition on_write :: "(hconn \<Rightarrow> 'r) \<Rightarrow> bytes \<Rightarrow> hconn \<Rightarrow> (hconn \<Rightarrow> 'r go) \<Rightarrow> 'r go" where
  "on_write ret d c k = (case conn_write d c of (False, c') \<Rightarrow> Some (ret c') | (True, c') \<Rightarrow> k c')"

lemma on_full_enough:
  "n \<le> length (inp c) \<Longrightarrow> on_full ret n c k = k (take n (inp c)) (c\<lparr>inp := drop n (inp c)\<rparr>)"
  by (simp add: on_full_def readFull_def)

lemma on_full_short: "length (inp c) < n \<Longrightarrow> on_full ret n c k = Some (ret (c\<lparr>inp := []\<rparr>))"
  by (simp add: on_full_def readFull_def)

lemma on_write_ok:
  "0 < wleft c \<Longrightarrow> on_write ret d c k = k (c\<lparr>outp := outp c @ [d], wleft := wleft c - 1\<rparr>)"
  by (simp add: on_write_def conn_write_def)

lemma on_line_clean:
  "clean_line s \<Longrightarrow> inp c = s @ crlf @ rest \<Longrightarrow> on_line ret c k = k s (c\<lparr>inp := rest\<rparr>)"
  by (simp add: on_line_def readLine_clean)

text \<open>
  A handler that loops: rounds until one returns. None is a panic of a round or a loop that
  never returns, so a theorem that the result is Some excludes both.
\<close>

partial_function (option) hloop :: "('s \<Rightarrow> 's hstep go) \<Rightarrow> 's \<Rightarrow> hconn go" where
  "hloop step s =
    Option.bind (step s) (\<lambda>r. case r of Return c \<Rightarrow> Some c | Continue s' \<Rightarrow> hloop step s')"

definition hnext :: "('s \<Rightarrow> 's hstep go) \<Rightarrow> 's hstep go \<Rightarrow> hconn go" where
  "hnext step r = Option.bind r (\<lambda>r. case r of Return c \<Rightarrow> Some c | Continue s' \<Rightarrow> hloop step s')"

lemma hloop_unfold: "hloop step s = hnext step (step s)"
  unfolding hnext_def by (rule hloop.simps)

lemma hnext_simps [simp]:
  "hnext step None = None"
  "hnext step (Some (Return c)) = Some c"
  "hnext step (Some (Continue s)) = hloop step s"
  by (simp_all add: hnext_def)

text \<open>A write whose error is ignored.\<close>

definition write_ignore :: "bytes \<Rightarrow> hconn \<Rightarrow> hconn" where
  "write_ignore d c = snd (conn_write d c)"

lemma write_ignore_simps [simp]:
  "recs (write_ignore d c) = recs c" "inp (write_ignore d c) = inp c"
  by (simp_all add: write_ignore_def conn_write_def)

lemma rec_cred_simps [simp]:
  "recs (rec_cred u p e c) = recs c @ [cred u p e]" "inp (rec_cred u p e c) = inp c"
  "outp (rec_cred u p e c) = outp c" "wleft (rec_cred u p e c) = wleft c"
  by (simp_all add: rec_cred_def)

text \<open>The computation does not panic and its result satisfies Q.\<close>

definition outcome :: "('r \<Rightarrow> bool) \<Rightarrow> 'r go \<Rightarrow> bool" where
  "outcome Q r \<longleftrightarrow> (\<exists>x. r = Some x \<and> Q x)"

named_theorems outcome_intros \<open>rules that follow the control flow of a handler\<close>

lemma outcome_Some [simp]: "outcome Q (Some x) \<longleftrightarrow> Q x"
  by (simp add: outcome_def)

lemma outcome_mono: "outcome P r \<Longrightarrow> (\<And>x. P x \<Longrightarrow> Q x) \<Longrightarrow> outcome Q r"
  by (auto simp: outcome_def)

lemma outcome_if [outcome_intros]:
  "(b \<Longrightarrow> outcome Q x) \<Longrightarrow> (\<not> b \<Longrightarrow> outcome Q y) \<Longrightarrow> outcome Q (if b then x else y)"
  by simp

lemma outcome_on_full [outcome_intros]:
  assumes "\<And>c'. touched c c' \<Longrightarrow> Q (ret c')"
    "\<And>b c'. length b = n \<Longrightarrow> touched c c' \<Longrightarrow> length (inp c') + n = length (inp c) \<Longrightarrow> outcome Q (k b c')"
  shows "outcome Q (on_full ret n c k)"
proof -
  obtain r c' where r: "readFull n c = (r, c')" by force
  show ?thesis
    using assms touched_readFull [OF r] readFull_Some r by (cases r) (auto simp: on_full_def)
qed

lemma outcome_on_line [outcome_intros]:
  assumes "\<And>c'. touched c c' \<Longrightarrow> Q (ret c')"
    "\<And>l c'. length l \<le> 4096 \<Longrightarrow> touched c c' \<Longrightarrow> length (inp c') < length (inp c) \<Longrightarrow> outcome Q (k l c')"
  shows "outcome Q (on_line ret c k)"
proof -
  obtain r c' where r: "readLine c = (r, c')" by force
  show ?thesis
    using assms touched_readLine [OF r] readLine_bound readLine_progress r
    by (cases r) (auto simp: on_line_def)
qed

lemma outcome_on_write [outcome_intros]:
  assumes "\<And>c'. touched c c' \<Longrightarrow> Q (ret c')"
    "\<And>c'. touched c c' \<Longrightarrow> inp c' = inp c \<Longrightarrow> outcome Q (k c')"
  shows "outcome Q (on_write ret d c k)"
proof -
  obtain r c' where r: "conn_write d c = (r, c')" by force
  show ?thesis
    using assms touched_write [OF r] r by (cases r) (auto simp: on_write_def)
qed

subsection \<open>The credential budget\<close>

text \<open>From c to c' at most b - b' credentials are recorded, after those already there.\<close>

definition spends :: "nat \<Rightarrow> nat \<Rightarrow> hconn \<Rightarrow> hconn \<Rightarrow> bool" where
  "spends b b' c c' \<longleftrightarrow> (\<exists>rs. recs c' = recs c @ rs \<and> length rs + b' \<le> b)"

lemma spends_touched: "touched c c' \<Longrightarrow> b' \<le> b \<Longrightarrow> spends b b' c c'"
  by (auto simp: spends_def touched_def)

lemma spends_alt:
  "spends b b' c c' \<longleftrightarrow>
     take (length (recs c)) (recs c') = recs c \<and> length (recs c') + b' \<le> length (recs c) + b"
proof
  assume t: "take (length (recs c)) (recs c') = recs c \<and> length (recs c') + b' \<le> length (recs c) + b"
  then have e: "recs c' = recs c @ drop (length (recs c)) (recs c')" by (metis append_take_drop_id)
  then have "length (recs c') = length (recs c) + length (drop (length (recs c)) (recs c'))"
    by (metis length_append)
  with e t show "spends b b' c c'" unfolding spends_def by (metis add.assoc add_le_cancel_left)
qed (auto simp: spends_def)

lemma spends_none: "recs c' = recs c \<Longrightarrow> spends b b' c c' \<longleftrightarrow> b' \<le> b"
  by (simp add: spends_def)

lemma spends_one: "recs c' = recs c @ [x] \<Longrightarrow> spends b b' c c' \<longleftrightarrow> b' < b"
  by (auto simp: spends_def)

lemma spends_trans: "spends a b c d \<Longrightarrow> spends b e d f \<Longrightarrow> spends a e c f"
  by (fastforce simp: spends_def)

lemma spends_le: "spends b b' c c' \<Longrightarrow> length (recs c') + b' \<le> length (recs c) + b"
  by (auto simp: spends_def)

text \<open>
  What the framework relies on: a handler does not panic, whatever the peer sends and whenever
  writes fail, and it records at most the ten credentials of one connection, appending them.
\<close>

definition credsPerConnLimit :: nat where
  "credsPerConnLimit = 10"

definition handles :: "(hconn \<Rightarrow> hconn go) \<Rightarrow> bool" where
  "handles h \<longleftrightarrow> (\<forall>c. outcome (spends credsPerConnLimit 0 c) (h c))"

text \<open>What is left to a loop that has counted n credentials.\<close>

definition left :: "nat \<Rightarrow> nat" where
  "left n = credsPerConnLimit - n"

lemma handlesI: "(\<And>c. outcome (spends credsPerConnLimit 0 c) (h c)) \<Longrightarrow> handles h"
  by (simp add: handles_def)

text \<open>
  One round of a loop over states s with connection \<^verbatim>\<open>f s\<close> and remaining budget \<^verbatim>\<open>b s\<close>: it
  stays within the budget and, when it goes on, has consumed input.
\<close>

definition round_ok :: "('s \<Rightarrow> nat) \<Rightarrow> ('s \<Rightarrow> hconn) \<Rightarrow> 's \<Rightarrow> 's hstep \<Rightarrow> bool" where
  "round_ok b f s r =
    (case r of Return c' \<Rightarrow> spends (b s) 0 (f s) c'
     | Continue s' \<Rightarrow> length (inp (f s')) < length (inp (f s)) \<and> spends (b s) (b s') (f s) (f s'))"

lemma round_ok_simps [simp]:
  "round_ok b f s (Return c) = spends (b s) 0 (f s) c"
  "round_ok b f s (Continue s') \<longleftrightarrow>
     length (inp (f s')) < length (inp (f s)) \<and> spends (b s) (b s') (f s) (f s')"
  by (simp_all add: round_ok_def)

lemma hloop_outcome:
  assumes step: "\<And>s. outcome (round_ok b f s) (step s)"
  shows "outcome (spends (b s) 0 (f s)) (hloop step s)"
proof (induction s rule: measure_induct_rule [of "\<lambda>s. length (inp (f s))"])
  case (less s)
  obtain r where r: "step s = Some r" "round_ok b f s r" using step [of s] by (auto simp: outcome_def)
  show ?case
  proof (cases r)
    case (Return c)
    with r show ?thesis by (simp add: hloop_unfold)
  next
    case (Continue s')
    with r less [of s'] show ?thesis
      by (auto simp: hloop_unfold [of step s] intro: outcome_mono spends_trans)
  qed
qed

text \<open>The interface between the framework and a protocol handler.\<close>

locale proto_handler =
  fixes h :: "hconn \<Rightarrow> hconn go"
  assumes contract: "handles h"
begin

lemma returns: "\<exists>c'. h c = Some c'"
  using contract by (auto simp: handles_def outcome_def)

lemma no_panics: "h c \<noteq> None"
  using returns [of c] by auto

lemma appends: "h c = Some c' \<Longrightarrow> \<exists>rs. recs c' = recs c @ rs \<and> length rs \<le> credsPerConnLimit"
  using contract by (auto simp: handles_def outcome_def spends_def dest!: spec [of _ c])

lemma at_most: "h c = Some c' \<Longrightarrow> recs c = [] \<Longrightarrow> length (recs c') \<le> credsPerConnLimit"
  using appends [of c c'] by auto

end

end
