(* ===== verification/HpText.thy ===== *)
theory HpText
  imports HpConn
begin

text \<open>
  Two line protocols of \<^verbatim>\<open>internal/honeypot\<close>: \<^verbatim>\<open>telnet.go\<close> and \<^verbatim>\<open>ftp.go\<close>. Each handler is shown to satisfy the contract \<^const>\<open>handles\<close> and to capture the
  credentials a client sends in the ordinary way.
\<close>

subsection \<open>Telnet\<close>

definition telnetBanner :: bytes where
  "telnetBanner = ''Ubuntu 22.04.3 LTS'' @ crlf"

definition loginRoundsMax :: nat where
  "loginRoundsMax = 5"

fun telnet_rounds :: "nat \<Rightarrow> hconn \<Rightarrow> hconn go" where
  "telnet_rounds 0 c = Some c"
| "telnet_rounds (Suc n) c =
    on_write id ''login: '' c (\<lambda>c.
    on_line id c (\<lambda>user c.
    on_write id ''Password: '' c (\<lambda>c.
    on_line id c (\<lambda>pass c.
    on_write id (''Login incorrect'' @ crlf) (rec_cred user pass [] c) (\<lambda>c.
    telnet_rounds n c)))))"

definition handleTelnet :: "hconn \<Rightarrow> hconn go" where
  "handleTelnet c = on_write id telnetBanner c (telnet_rounds loginRoundsMax)"

lemma telnet_rounds_outcome: "outcome (spends n 0 c) (telnet_rounds n c)"
proof (induction n arbitrary: c)
  case (Suc n)
  have "outcome (spends (Suc n) 0 c) (telnet_rounds n c')" if "recs c' = recs c @ [x]" for c' x
    using Suc [of c'] that by (auto elim!: outcome_mono simp: spends_def)
  then show ?case
    unfolding telnet_rounds.simps
    by (intro outcome_intros) (auto simp: spends_none spends_one touched_def)
qed (simp add: spends_none)

lemma handles_telnet: "handles handleTelnet"
proof (rule handlesI)
  fix c
  have "outcome (spends credsPerConnLimit 0 c) (telnet_rounds loginRoundsMax c')" if "touched c c'" for c'
    by (rule outcome_mono [OF telnet_rounds_outcome [of loginRoundsMax c']])
       (use that in \<open>auto simp: spends_def touched_def loginRoundsMax_def credsPerConnLimit_def\<close>)
  then show "outcome (spends credsPerConnLimit 0 c) (handleTelnet c)"
    unfolding handleTelnet_def
    by (intro outcome_intros) (simp_all add: spends_touched)
qed

text \<open>What a login script sends: user and password lines.\<close>

definition login_lines :: "(bytes \<times> bytes) list \<Rightarrow> bytes" where
  "login_lines ps = concat (map (\<lambda>(u, p). u @ crlf @ p @ crlf) ps)"

lemma telnet_rounds_capture:
  "\<forall>(u, p)\<in>set ps. clean_line u \<and> clean_line p \<Longrightarrow> inp c = login_lines ps @ rest \<Longrightarrow>
    3 * length ps \<le> wleft c \<Longrightarrow> length ps = n \<Longrightarrow>
    outcome (\<lambda>c'. recs c' = recs c @ map (\<lambda>(u, p). cred u p []) ps \<and> inp c' = rest) (telnet_rounds n c)"
proof (induction ps arbitrary: c n)
  case (Cons up ps)
  obtain u p where up: "up = (u, p)" by force
  obtain m where n: "n = Suc m" using Cons.prems by auto
  let ?c = "c\<lparr>inp := login_lines ps @ rest, recs := recs c @ [cred u p []],
      outp := outp c @ [''login: '', ''Password: '', ''Login incorrect'' @ crlf], wleft := wleft c - 3\<rparr>"
  have "telnet_rounds n c = telnet_rounds m ?c"
    using Cons.prems up n
    by (simp add: eval_nat_numeral on_write_ok login_lines_def rec_cred_def
        on_line_clean [where s = u and rest = "p @ crlf @ login_lines ps @ rest"]
        on_line_clean [where s = p and rest = "login_lines ps @ rest"])
  then show ?case
    using Cons.IH [of ?c m] Cons.prems n up by auto
qed (auto simp: login_lines_def)

subsection \<open>FTP\<close>

definition splitCommand :: "bytes \<Rightarrow> bytes \<times> bytes" where
  "splitCommand line =
    (let line = trim_space line in
     case find_first (\<lambda>c. c = SP \<or> c = TAB) line of
       Some i \<Rightarrow> (to_upper (take i line), trim_space (drop (i + 1) line))
     | None \<Rightarrow> (to_upper line, []))"

text \<open>One round: the connection, the user of the last USER, the number of PASS seen.\<close>

fun ftp_step :: "hconn \<times> bytes \<times> nat \<Rightarrow> (hconn \<times> bytes \<times> nat) hstep go" where
  "ftp_step (c, pendingUser, credCount) =
    on_line Return c (\<lambda>line c.
      let (cmd, arg) = splitCommand line in
      if cmd = ''USER'' then
        on_write Return (''331 Password required'' @ crlf) c (\<lambda>c. Some (Continue (c, arg, credCount)))
      else if cmd = ''PASS'' then
        (let c = (if credCount < credsPerConnLimit then rec_cred pendingUser arg [] c else c) in
         on_write Return (''530 Login incorrect'' @ crlf) c (\<lambda>c. Some (Continue (c, [], credCount + 1))))
      else if cmd = ''QUIT'' then Some (Return (write_ignore (''221 Goodbye'' @ crlf) c))
      else if cmd = [] then Some (Continue (c, pendingUser, credCount))
      else on_write Return (''502 Command not implemented'' @ crlf) c
             (\<lambda>c. Some (Continue (c, pendingUser, credCount))))"

definition handleFTP :: "hconn \<Rightarrow> hconn go" where
  "handleFTP c = on_write id (''220 FTP Server ready'' @ crlf) c (\<lambda>c. hloop ftp_step (c, [], 0))"

lemma ftp_step_ok: "outcome (round_ok (\<lambda>(c, u, n). left n) fst s) (ftp_step s)"
proof (cases s)
  case (fields c u n)
  show ?thesis
    unfolding fields ftp_step.simps Let_def case_prod_beta
    by (intro outcome_intros) (auto simp: spends_alt touched_def left_def)
qed

lemma handles_ftp: "handles handleFTP"
proof (rule handlesI)
  fix c
  have "outcome (spends credsPerConnLimit 0 c) (hloop ftp_step (c', [], 0))" if "touched c c'" for c'
    by (rule outcome_mono [OF hloop_outcome [OF ftp_step_ok, of "(c', [], 0)"]])
       (use that in \<open>auto simp: spends_def touched_def left_def\<close>)
  then show "outcome (spends credsPerConnLimit 0 c) (handleFTP c)"
    unfolding handleFTP_def
    by (intro outcome_intros) (simp_all add: spends_touched)
qed

text \<open>Words of printable ASCII, as login names and passwords of a script are.\<close>

definition is_word :: "bytes \<Rightarrow> bool" where
  "is_word s \<longleftrightarrow> s \<noteq> [] \<and> (\<forall>c\<in>set s. 33 \<le> bval c \<and> bval c \<le> 126)"

lemma space_seg_ascii: "33 \<le> bval c \<Longrightarrow> bval c \<le> 126 \<Longrightarrow> \<not> space_seg [c]"
  by (simp add: space_seg_def space_rune_def)

lemma trim_space_ascii:
  assumes "is_ascii s" "s \<noteq> []" "\<not> space_seg [hd s]" "\<not> space_seg [last s]"
  shows "trim_space s = s"
proof -
  have "dropWhile space_seg (map (\<lambda>c. [c]) s) = map (\<lambda>c. [c]) s"
    using assms by (cases s) auto
  moreover have "trim_right_by space_seg (map (\<lambda>c. [c]) s) = map (\<lambda>c. [c]) s"
    using assms by (intro trim_right_by_id) (auto simp: last_map)
  ultimately show ?thesis using assms(1) by (simp add: trim_space_def segs_ascii)
qed

lemma is_word_ascii: "is_word s \<Longrightarrow> is_ascii s"
  by (auto simp: is_word_def is_ascii_def)

lemma bval_ctl [simp]: "bval LF = 10" "bval CR = 13" "bval TAB = 9" "bval SP = 32" "bval (CHR 0xFF) = 255"
  by (simp_all add: bval_def)

lemma is_word_notin: "is_word s \<Longrightarrow> bval c < 33 \<or> 126 < bval c \<Longrightarrow> c \<notin> set s"
  by (auto simp: is_word_def)

lemma clean_word: "is_word s \<Longrightarrow> length s \<le> 4000 \<Longrightarrow> clean_line s"
  using is_word_notin [of s LF] is_word_notin [of s "CHR 0xFF"] is_word_notin [of s CR]
  by (auto simp: clean_line_def) (metis last_in_set)

lemma trim_word: "is_word s \<Longrightarrow> trim_space s = s"
  by (rule trim_space_ascii) (auto simp: is_word_ascii space_seg_ascii is_word_def)

lemma splitCommand_word:
  assumes "is_word k" "is_word a"
  shows "splitCommand (k @ SP # a) = (map upper_byte k, a)"
proof -
  have "trim_space (k @ SP # a) = k @ SP # a"
    using assms by (intro trim_space_ascii) (auto simp: is_word_ascii space_seg_ascii is_word_def)
  moreover have "find_first (\<lambda>c. c = SP \<or> c = TAB) (k @ SP # a) = Some (length k)"
    using is_word_notin [OF assms(1), of SP] is_word_notin [OF assms(1), of TAB]
    by (intro find_first_append_stop) auto
  ultimately show ?thesis
    using assms by (simp add: splitCommand_def trim_word to_upper_ascii is_word_ascii)
qed

definition ftp_script :: "(bytes \<times> bytes) list \<Rightarrow> bytes" where
  "ftp_script ps = concat (map (\<lambda>(u, p). ''USER '' @ u @ crlf @ ''PASS '' @ p @ crlf) ps)"

lemma ftp_user_round:
  assumes "is_word u" "length u \<le> 4000" "inp c = ''USER '' @ u @ crlf @ rest" "0 < wleft c"
  shows "ftp_step (c, w, n) = Some (Continue (c\<lparr>inp := rest,
    outp := outp c @ [''331 Password required'' @ crlf], wleft := wleft c - 1\<rparr>, u, n))"
proof -
  have "splitCommand (''USER '' @ u) = (''USER'', u)"
    using splitCommand_word [of "''USER''" u] assms by (simp add: is_word_def bval_def upper_byte_def)
  moreover have "clean_line (''USER '' @ u)"
    using clean_word [OF assms(1,2)] assms(1,2) by (auto simp: clean_line_def is_word_def)
  ultimately show ?thesis
    using assms by (simp add: on_line_clean [where s = "''USER '' @ u" and rest = rest] on_write_ok)
qed

lemma ftp_pass_round:
  assumes "is_word p" "length p \<le> 4000" "inp c = ''PASS '' @ p @ crlf @ rest" "0 < wleft c"
  shows "ftp_step (c, u, n) = Some (Continue (c\<lparr>inp := rest,
    recs := recs c @ (if n < credsPerConnLimit then [cred u p []] else []),
    outp := outp c @ [''530 Login incorrect'' @ crlf], wleft := wleft c - 1\<rparr>, [], n + 1))"
proof -
  have "splitCommand (''PASS '' @ p) = (''PASS'', p)"
    using splitCommand_word [of "''PASS''" p] assms by (simp add: is_word_def bval_def upper_byte_def)
  moreover have "clean_line (''PASS '' @ p)"
    using clean_word [OF assms(1,2)] assms(1,2) by (auto simp: clean_line_def is_word_def)
  ultimately show ?thesis
    using assms
    by (simp add: on_line_clean [where s = "''PASS '' @ p" and rest = rest] on_write_ok rec_cred_def)
qed

lemma on_line_empty: "inp c = [] \<Longrightarrow> on_line ret c k = Some (ret (c\<lparr>inp := []\<rparr>))"
  by (simp add: on_line_def readLine_def raw_line.simps readSlice_def)

lemma ftp_loop_capture:
  "\<forall>(u, p)\<in>set ps. is_word u \<and> length u \<le> 4000 \<and> is_word p \<and> length p \<le> 4000 \<Longrightarrow>
    inp c = ftp_script ps \<Longrightarrow> 2 * length ps \<le> wleft c \<Longrightarrow>
    outcome (\<lambda>c'. recs c' = recs c @ map (\<lambda>(u, p). cred u p []) (take (left n) ps))
      (hloop ftp_step (c, w, n))"
proof (induction ps arbitrary: c n w)
  case Nil
  then show ?case by (simp add: hloop_unfold ftp_script_def on_line_empty)
next
  case (Cons up ps)
  obtain u p where up: "up = (u, p)" by force
  let ?c1 = "c\<lparr>inp := ''PASS '' @ p @ crlf @ ftp_script ps,
    outp := outp c @ [''331 Password required'' @ crlf], wleft := wleft c - 1\<rparr>"
  let ?c2 = "?c1\<lparr>inp := ftp_script ps,
    recs := recs ?c1 @ (if n < credsPerConnLimit then [cred u p []] else []),
    outp := outp ?c1 @ [''530 Login incorrect'' @ crlf], wleft := wleft ?c1 - 1\<rparr>"
  have "ftp_step (c, w, n) = Some (Continue (?c1, u, n))"
    using Cons.prems up by (intro ftp_user_round) (auto simp: ftp_script_def)
  moreover have "ftp_step (?c1, u, n) = Some (Continue (?c2, [], n + 1))"
    using Cons.prems up by (intro ftp_pass_round) auto
  ultimately have "hloop ftp_step (c, w, n) = hloop ftp_step (?c2, [], n + 1)"
    by (simp only: hloop_unfold [of ftp_step "(c, w, n)"] hloop_unfold [of ftp_step "(?c1, u, n)"] hnext_simps)
  moreover have "take (left n) (up # ps)
      = (if n < credsPerConnLimit then up # take (left (n + 1)) ps else [])"
    by (simp add: left_def take_Cons')
  moreover have "\<not> n < credsPerConnLimit \<Longrightarrow> left (n + 1) = 0" by (simp add: left_def)
  ultimately show ?case
    using Cons.IH [of ?c2 "n + 1" "[]"] Cons.prems up by auto
qed

interpretation telnet: proto_handler handleTelnet
  by unfold_locales (rule handles_telnet)

interpretation ftp: proto_handler handleFTP
  by unfold_locales (rule handles_ftp)

end
