(* ===== verification/HpRedis.thy ===== *)
theory HpRedis
  imports HpText
begin

text \<open>
  \<^verbatim>\<open>internal/honeypot/redis.go\<close> (RESP arrays and inline commands) and \<^verbatim>\<open>memcached.go\<close>: the
  readers, the handlers, their contract, and the round trip from a RESP command to what is read.
\<close>

subsection \<open>RESP\<close>

text \<open>\<^verbatim>\<open>readRESPInt\<close>: a malformed number is 0, None is a read error.\<close>

definition readRESPInt :: "hconn \<Rightarrow> nat option \<times> hconn" where
  "readRESPInt c =
    (case readLine c of
       (None, c) \<Rightarrow> (None, c)
     | (Some line, c) \<Rightarrow>
        (case atoi line of None \<Rightarrow> (Some 0, c)
         | Some n \<Rightarrow> if n < 0 \<or> 65536 < n then (Some 0, c) else (Some (nat n), c)))"

definition readRESPBulk :: "hconn \<Rightarrow> bytes option \<times> hconn" where
  "readRESPBulk c =
    (case readByte c of
       (None, c) \<Rightarrow> (None, c)
     | (Some typ, c) \<Rightarrow>
        if typ \<noteq> CHR ''$'' then (Some [], c)
        else (case readRESPInt c of
          (None, c) \<Rightarrow> (None, c)
        | (Some n, c) \<Rightarrow>
            if 65536 < n then (Some [], c)
            else (case readFull (n + 2) c of
              (None, c) \<Rightarrow> (None, c)
            | (Some buf, c) \<Rightarrow> (Some (take n buf), c))))"

fun read_elements :: "nat \<Rightarrow> hconn \<Rightarrow> bytes list option \<times> hconn" where
  "read_elements 0 c = (Some [], c)"
| "read_elements (Suc n) c =
    (case readRESPBulk c of
       (None, c) \<Rightarrow> (None, c)
     | (Some e, c) \<Rightarrow>
        (case read_elements n c of (None, c) \<Rightarrow> (None, c) | (Some es, c) \<Rightarrow> (Some (e # es), c)))"

text \<open>
  A first byte other than \<^verbatim>\<open>*\<close> is put back and the whole line is an inline command.
\<close>

definition readRESPCommand :: "hconn \<Rightarrow> (bytes \<times> bytes list) option \<times> hconn" where
  "readRESPCommand c =
    (case readByte c of
       (None, c1) \<Rightarrow> (None, c1)
     | (Some first, c1) \<Rightarrow>
        if first \<noteq> CHR ''*'' then
          (case readLine c of
             (None, c2) \<Rightarrow> (None, c2)
           | (Some line, c2) \<Rightarrow>
              (case Fields line of [] \<Rightarrow> (Some ([], []), c2)
               | p # rest \<Rightarrow> (Some (to_upper p, rest), c2)))
        else
          (case readRESPInt c1 of
             (None, c2) \<Rightarrow> (None, c2)
           | (Some count, c2) \<Rightarrow>
              if count = 0 \<or> 64 < count then (Some ([], []), c2)
              else (case read_elements count c2 of
                (None, c3) \<Rightarrow> (None, c3)
              | (Some [], c3) \<Rightarrow> (Some ([], []), c3)
              | (Some (e # es), c3) \<Rightarrow> (Some (to_upper e, es), c3))))"

definition hello_extra :: bytes where
  "hello_extra = ''HELLO 3 AUTH '' @ encode_runes [0x53C2, 0x6570]"

text \<open>One round: the connection and the number of credentials seen.\<close>

fun redis_step :: "hconn \<times> nat \<Rightarrow> (hconn \<times> nat) hstep go" where
  "redis_step (c, credCount) =
    (case readRESPCommand c of
       (None, c) \<Rightarrow> Some (Return c)
     | (Some (cmd, args), c) \<Rightarrow>
        if cmd = ''AUTH'' then
          (if length args \<noteq> 1 \<and> length args \<noteq> 2 then
             Some (Continue (write_ignore (''-ERR wrong number of arguments for '' @ [CHR 0x27] @ ''auth''
               @ [CHR 0x27] @ '' command'' @ crlf) c, credCount))
           else do {
             (user, pass) \<leftarrow> (if length args = 1 then do { p \<leftarrow> index 0 args; Some ([], p) }
                              else do { u \<leftarrow> index 0 args; p \<leftarrow> index 1 args; Some (u, p) });
             let c = (if credCount < credsPerConnLimit then rec_cred user pass [] c else c);
             Some (Continue (write_ignore (''-ERR invalid password'' @ crlf) c, credCount + 1)) })
        else if cmd = ''HELLO'' then
          (if 4 \<le> length args then do {
             kw \<leftarrow> index 1 args;
             (c, n) \<leftarrow> (if equal_fold kw ''AUTH'' then do {
                 u \<leftarrow> index 2 args;
                 p \<leftarrow> index 3 args;
                 Some (if credCount < credsPerConnLimit then rec_cred u p hello_extra c else c, credCount + 1) }
               else Some (c, credCount));
             Some (Continue (write_ignore (''-ERR unknown command '' @ [CHR 0x27] @ ''HELLO'' @ [CHR 0x27] @ crlf) c, n)) }
           else Some (Continue (write_ignore (''-ERR unknown command '' @ [CHR 0x27] @ ''HELLO'' @ [CHR 0x27] @ crlf) c, credCount)))
        else if cmd = ''QUIT'' then Some (Return (write_ignore (''+OK'' @ crlf) c))
        else Some (Continue (write_ignore (''-ERR unknown command'' @ crlf) c, credCount)))"

definition handleRedis :: "hconn \<Rightarrow> hconn go" where
  "handleRedis c = hloop redis_step (c, 0)"

lemma touched_RESPInt: "readRESPInt c = (r, c') \<Longrightarrow> touched c c'"
  using touched_readLine [of c]
  by (auto simp: readRESPInt_def split: prod.splits option.splits if_splits)

lemma touched_RESPBulk: "readRESPBulk c = (r, c') \<Longrightarrow> touched c c'"
  using touched_readByte [of c] touched_RESPInt touched_readFull
  by (fastforce simp: readRESPBulk_def touched_def split: prod.splits option.splits if_splits)

lemma touched_elements: "read_elements n c = (r, c') \<Longrightarrow> touched c c'"
proof (induction n arbitrary: c r)
  case (Suc n)
  obtain b c1 where b: "readRESPBulk c = (b, c1)" by force
  obtain es c2 where e: "read_elements n c1 = (es, c2)" by force
  show ?case
    using Suc.prems Suc.IH [of c1] touched_RESPBulk [OF b] b e
    by (auto simp: touched_def split: option.splits)
qed simp

lemma touched_RESPCommand: "readRESPCommand c = (r, c') \<Longrightarrow> touched c c'"
proof -
  assume r: "readRESPCommand c = (r, c')"
  obtain f c1 where f: "readByte c = (f, c1)" by force
  obtain n c2 where n: "readRESPInt c1 = (n, c2)" by force
  have "c' = c1 \<or> snd (readLine c) = c' \<or> c' = c2 \<or> (\<exists>k r. read_elements k c2 = (r, c'))"
    using r f n by (auto simp: readRESPCommand_def split: prod.splits option.splits if_splits list.splits)
  then show ?thesis
    using touched_readByte [OF f] touched_RESPInt [OF n] touched_readLine [of c] touched_elements [of _ c2]
    by (cases "readLine c") (auto simp: touched_def, (metis prod.collapse order_trans)+)
qed

lemma RESPCommand_progress:
  "readRESPCommand c = (Some r, c') \<Longrightarrow> length (inp c') < length (inp c)"
proof -
  assume r: "readRESPCommand c = (Some r, c')"
  obtain f c1 where f: "readByte c = (f, c1)" by force
  obtain n c2 where n: "readRESPInt c1 = (n, c2)" by force
  have l: "f \<noteq> None \<Longrightarrow> length (inp c1) < length (inp c)"
    using f readByte_Some by auto
  have "f \<noteq> None \<and> ((\<exists>l. readLine c = (Some l, c')) \<or> c' = c2 \<or> (\<exists>k r. read_elements k c2 = (r, c')))"
    using r f n by (auto simp: readRESPCommand_def split: prod.splits option.splits if_splits list.splits)
  then show ?thesis
    using l touched_RESPInt [OF n] readLine_progress [of c] touched_elements [of _ c2]
    by (auto simp: touched_def) (metis prod.collapse order_trans le_less_trans)
qed

lemma redis_step_ok: "outcome (round_ok (\<lambda>(c, n). left n) fst s) (redis_step s)"
proof (cases s)
  case (Pair c n)
  obtain r c1 where r: "readRESPCommand c = (r, c1)" by force
  have t: "recs c1 = recs c" using touched_RESPCommand [OF r] by (simp add: touched_def)
  show ?thesis
  proof (cases r)
    case None
    with r t Pair show ?thesis by (simp add: spends_none)
  next
    case (Some a)
    obtain cmd args where a: "a = (cmd, args)" by force
    have "length (inp c1) < length (inp c)" using RESPCommand_progress r Some by blast
    then show ?thesis
      using r t Pair Some a
      by (auto simp: spends_alt left_def Let_def)
  qed
qed

lemma handles_redis: "handles handleRedis"
proof (rule handlesI)
  fix c
  show "outcome (spends credsPerConnLimit 0 c) (handleRedis c)"
    using hloop_outcome [OF redis_step_ok, of "(c, 0)"] by (simp add: handleRedis_def left_def)
qed

subsection \<open>What a RESP client sends is what is read\<close>

definition resp_bulk :: "bytes \<Rightarrow> bytes" where
  "resp_bulk s = CHR ''$'' # show_nat (length s) @ crlf @ s @ crlf"

definition resp_array :: "bytes list \<Rightarrow> bytes" where
  "resp_array es = CHR ''*'' # show_nat (length es) @ crlf @ concat (map resp_bulk es)"

lemma clean_show_nat: "n < 10 ^ 6 \<Longrightarrow> clean_line (show_nat n)"
proof -
  assume n: "n < 10 ^ 6"
  have d: "c \<in> set (show_nat n) \<Longrightarrow> c \<noteq> LF \<and> c \<noteq> CR \<and> c \<noteq> CHR 0xFF" for c
    using show_nat_digits [of c n] by (auto simp: is_digit_def)
  then show ?thesis
    using length_show_nat [of n 6] n last_in_set [of "show_nat n"] by (auto simp: clean_line_def)
qed

lemma readRESPInt_show:
  "n \<le> 65536 \<Longrightarrow> inp c = show_nat n @ crlf @ rest \<Longrightarrow> readRESPInt c = (Some n, c\<lparr>inp := rest\<rparr>)"
  using readLine_clean [OF clean_show_nat, of n c rest]
  by (simp add: readRESPInt_def atoi_show)

lemma readRESPBulk_bulk:
  "length s \<le> 65536 \<Longrightarrow> inp c = resp_bulk s @ rest \<Longrightarrow> readRESPBulk c = (Some s, c\<lparr>inp := rest\<rparr>)"
  using readRESPInt_show [of "length s" "c\<lparr>inp := show_nat (length s) @ crlf @ s @ crlf @ rest\<rparr>" "s @ crlf @ rest"]
  by (simp add: readRESPBulk_def readByte_def resp_bulk_def readFull_def)

lemma read_elements_bulks:
  "\<forall>e\<in>set es. length e \<le> 65536 \<Longrightarrow> inp c = concat (map resp_bulk es) @ rest \<Longrightarrow>
    read_elements (length es) c = (Some es, c\<lparr>inp := rest\<rparr>)"
proof (induction es arbitrary: c)
  case (Cons e es)
  have "readRESPBulk c = (Some e, c\<lparr>inp := concat (map resp_bulk es) @ rest\<rparr>)"
    using Cons.prems by (intro readRESPBulk_bulk) auto
  then show ?case
    using Cons.IH [of "c\<lparr>inp := concat (map resp_bulk es) @ rest\<rparr>"] Cons.prems by simp
qed simp

lemma readRESPCommand_array:
  assumes "\<forall>e\<in>set (cmd # args). length e \<le> 65536" "length args < 64"
    "inp c = resp_array (cmd # args) @ rest"
  shows "readRESPCommand c = (Some (to_upper cmd, args), c\<lparr>inp := rest\<rparr>)"
proof -
  let ?es = "cmd # args"
  let ?c1 = "c\<lparr>inp := show_nat (length ?es) @ crlf @ concat (map resp_bulk ?es) @ rest\<rparr>"
  let ?c2 = "c\<lparr>inp := concat (map resp_bulk ?es) @ rest\<rparr>"
  have "readByte c = (Some (CHR ''*''), ?c1)"
    using assms(3) by (simp add: readByte_def resp_array_def)
  moreover have "readRESPInt ?c1 = (Some (length ?es), ?c2)"
    using readRESPInt_show [of "length ?es" ?c1 "concat (map resp_bulk ?es) @ rest"] assms(2) by simp
  moreover have "read_elements (length ?es) ?c2 = (Some ?es, c\<lparr>inp := rest\<rparr>)"
    using read_elements_bulks [of ?es ?c2 rest] assms(1) by simp
  ultimately show ?thesis
    using assms(2) by (simp add: readRESPCommand_def del: read_elements.simps)
qed

definition redis_script :: "(bytes \<times> bytes) list \<Rightarrow> bytes" where
  "redis_script ps = concat (map (\<lambda>(u, p). resp_array [''AUTH'', u, p]) ps)"

lemma redis_auth_round:
  assumes "length u \<le> 65536" "length p \<le> 65536" "inp c = resp_array [''AUTH'', u, p] @ rest"
  shows "\<exists>c'. redis_step (c, n) = Some (Continue (c', n + 1)) \<and> inp c' = rest \<and>
    recs c' = recs c @ (if n < credsPerConnLimit then [cred u p []] else [])"
proof -
  have "readRESPCommand c = (Some (''AUTH'', [u, p]), c\<lparr>inp := rest\<rparr>)"
    using readRESPCommand_array [of "''AUTH''" "[u, p]" c rest] assms
    by (simp add: to_upper_ascii bval_def upper_byte_def)
  then show ?thesis by (simp add: Let_def)
qed

lemma redis_loop_capture:
  "\<forall>(u, p)\<in>set ps. length u \<le> 65536 \<and> length p \<le> 65536 \<Longrightarrow> inp c = redis_script ps \<Longrightarrow>
    outcome (\<lambda>c'. recs c' = recs c @ map (\<lambda>(u, p). cred u p []) (take (left n) ps))
      (hloop redis_step (c, n))"
proof (induction ps arbitrary: c n)
  case Nil
  then show ?case
    by (simp add: hloop_unfold redis_script_def readRESPCommand_def readByte_def)
next
  case (Cons up ps)
  obtain u p where up: "up = (u, p)" by force
  obtain c' where c': "redis_step (c, n) = Some (Continue (c', n + 1))" "inp c' = redis_script ps"
    "recs c' = recs c @ (if n < credsPerConnLimit then [cred u p []] else [])"
    using redis_auth_round [of u p c "redis_script ps" n] Cons.prems up by (auto simp: redis_script_def)
  have "hloop redis_step (c, n) = hloop redis_step (c', n + 1)"
    by (simp only: hloop_unfold [of redis_step "(c, n)"] c'(1) hnext_simps)
  moreover have "take (left n) (up # ps)
      = (if n < credsPerConnLimit then up # take (left (n + 1)) ps else [])"
    by (simp add: left_def take_Cons')
  moreover have "\<not> n < credsPerConnLimit \<Longrightarrow> left (n + 1) = 0" by (simp add: left_def)
  ultimately show ?case
    using Cons.IH [of c' "n + 1"] Cons.prems up c' by auto
qed

subsection \<open>Memcached\<close>

text \<open>
  \<^verbatim>\<open>strings.Fields(line)[0]\<close> would panic on a blank line; the guard before it excludes that. The
  final loop reads and drops what is left of the input.
\<close>

definition memcached_prefix :: bytes where
  "memcached_prefix = encode_runes [0x534F, 0x8BAE, 0x65E0, 0x8BA4, 0x8BC1, 0x673A, 0x5236, 0xFF0C,
     0x65E0, 0x6CD5, 0x6355, 0x83B7, 0x51ED, 0x636E, 0xFF1B, 0x547D, 0x4EE4, 0x6982, 0x89C8, 0x3A, 0x20]"

definition handleMemcached :: "hconn \<Rightarrow> hconn go" where
  "handleMemcached c =
    on_line id c (\<lambda>line c.
      let line = trim_space line in
      if line = [] then Some c
      else do {
        cmdName \<leftarrow> index 0 (Fields line);
        line \<leftarrow> (if 256 < length line then slice_to 256 line else Some line);
        let c = rec_cred [] [] (memcached_prefix @ cmdName @ '' ('' @ line @ '')'') c;
        let c = write_ignore (''ERROR'' @ crlf) c;
        Some (c\<lparr>inp := []\<rparr>) })"

lemma handles_memcached: "handles handleMemcached"
proof (rule handlesI)
  fix c
  show "outcome (spends credsPerConnLimit 0 c) (handleMemcached c)"
    unfolding handleMemcached_def Let_def
  proof (intro outcome_intros)
    fix l c'
    assume "touched c c'" "trim_space l \<noteq> []"
    then show "outcome (spends credsPerConnLimit 0 c)
        (do { cmdName \<leftarrow> index 0 (Fields (trim_space l));
              line \<leftarrow> (if 256 < length (trim_space l) then slice_to 256 (trim_space l) else Some (trim_space l));
              Some (write_ignore (''ERROR'' @ crlf)
                (rec_cred [] [] (memcached_prefix @ cmdName @ '' ('' @ line @ '')'') c')\<lparr>inp := []\<rparr>) })"
      using fields_trim_nonempty [of l]
      by (auto simp: touched_def spends_alt credsPerConnLimit_def)
  qed (auto simp: touched_def spends_none)
qed

interpretation redis: proto_handler handleRedis
  by unfold_locales (rule handles_redis)

interpretation memcached: proto_handler handleMemcached
  by unfold_locales (rule handles_memcached)

end
