(* ===== verification/HpBinary.thy ===== *)
theory HpBinary
  imports HpRedis
begin

text \<open>
  Three binary protocols of \<^verbatim>\<open>internal/honeypot\<close>: \<^verbatim>\<open>mysql.go\<close>, \<^verbatim>\<open>postgres.go\<close> and \<^verbatim>\<open>rdp.go\<close>. Every
  index and slice expression of the source is a checked one here, so the contract \<^const>\<open>handles\<close>
  says that their guards are sufficient.
\<close>

lemma outcome_bind [outcome_intros]:
  "outcome (\<lambda>x. outcome Q (f x)) m \<Longrightarrow> outcome Q (Option.bind m f)"
  by (cases m) (auto simp: outcome_def)

subsection \<open>MySQL\<close>

definition mysql_salt :: bytes where
  "mysql_salt = ''FixedSrvSalt00112233''"

definition mysql_greeting :: bytes where
  "mysql_greeting =
     [CHR 0x0A] @ ''8.0.35'' @ [NUL] @ le_bytes 4 0xDEADBEEF @ take 8 mysql_salt @ [NUL] @
     [CHR 0x00, CHR 0xF7] @ [mkbyte 45] @ [CHR 0x02, CHR 0x00] @ [CHR 0x77, CHR 0x77] @ [mkbyte 21] @
     replicate 10 NUL @ drop 8 mysql_salt @ [NUL] @ ''mysql_native_password'' @ [NUL]"

definition writeMySQLPacket :: "byte \<Rightarrow> bytes \<Rightarrow> bytes" where
  "writeMySQLPacket sq payload =
    (let payload = (if 0xFFFFFF < length payload then take 0xFFFFFF payload else payload) in
     [mkbyte (length payload), mkbyte (length payload div 256), mkbyte (length payload div 65536), sq] @ payload)"

definition mysql_extra :: bytes where
  "mysql_extra = ''mysql_native_password '' @ encode_runes [0x5BC6, 0x7801] @ '' hash''
     @ encode_runes [0xFF08] @ ''SHA1 '' @ encode_runes [0x94FE, 0xFF0C, 0x4E0D, 0x53EF, 0x9006, 0xFF09]"

definition mysql_denied :: "bytes \<Rightarrow> bytes" where
  "mysql_denied user =
     [CHR 0xFF] @ le_bytes 2 1045 @ ''#28000'' @ ''Access denied for user '' @ [CHR 0x27] @ user @
     [CHR 0x27] @ ''@'' @ [CHR 0x27] @ ''host'' @ [CHR 0x27] @ '' (using password: YES)''"

text \<open>The body of a HandshakeResponse41: user and hexadecimal auth response; None: malformed.\<close>

definition mysql_response :: "bytes \<Rightarrow> (bytes \<times> bytes) option go" where
  "mysql_response payload =
    (if length payload < 32 then Some None
     else do {
       capb \<leftarrow> slice_to 4 payload;
       let caps = (of_nat (le_val capb) :: u32);
       rest \<leftarrow> slice_from 32 payload;
       (case find_first (\<lambda>b. b = NUL) rest of
          None \<Rightarrow> Some None
        | Some userEnd \<Rightarrow> do {
            user \<leftarrow> slice_to userEnd rest;
            let pos = userEnd + 1;
            authResp \<leftarrow>
              (if caps AND 0x00008000 \<noteq> 0 \<and> pos < length rest then do {
                 al \<leftarrow> index pos rest;
                 let pos = pos + 1;
                 (if pos + bval al \<le> length rest then do {
                    a \<leftarrow> slice pos (pos + bval al) rest;
                    Some (hex_encode a) }
                  else Some []) }
               else Some []);
            Some (Some (user, authResp)) }) })"

text \<open>Recording the credentials and refusing the login; a malformed body only closes.\<close>

definition mysql_finish :: "(bytes \<times> bytes) option \<Rightarrow> hconn \<Rightarrow> hconn" where
  "mysql_finish r c =
    (case r of None \<Rightarrow> c
     | Some (user, authResp) \<Rightarrow>
        let c = (if user \<noteq> [] \<or> authResp \<noteq> [] then rec_cred user authResp mysql_extra c else c) in
        write_ignore (writeMySQLPacket (mkbyte 2) (mysql_denied user)) c)"

definition handleMySQL :: "hconn \<Rightarrow> hconn go" where
  "handleMySQL c =
    on_write id (writeMySQLPacket NUL mysql_greeting) c (\<lambda>c.
    on_full id 4 c (\<lambda>hdr c. do {
      h0 \<leftarrow> index 0 hdr;
      h1 \<leftarrow> index 1 hdr;
      h2 \<leftarrow> index 2 hdr;
      let pktLen = bval h0 OR push_bit 8 (bval h1) OR push_bit 16 (bval h2);
      (if pktLen < 4 \<or> 2 ^ 20 < pktLen then Some c
       else on_full id pktLen c (\<lambda>payload c. do {
         r \<leftarrow> mysql_response payload;
         Some (mysql_finish r c) })) }))"

lemma mysql_response_total: "\<exists>r. mysql_response payload = Some r"
proof (cases "length payload < 32")
  case False
  then show ?thesis
    using find_first_Some [of "\<lambda>b. b = NUL" "drop 32 payload"]
    by (auto simp: mysql_response_def Let_def split: option.split)
qed (simp add: mysql_response_def)

lemma handles_mysql: "handles handleMySQL"
proof (rule handlesI)
  fix c
  have k: "outcome (spends credsPerConnLimit 0 c)
      (do { r \<leftarrow> mysql_response payload; Some (mysql_finish r c') })" if "recs c' = recs c" for c' payload
    using that mysql_response_total [of payload]
    by (auto simp: spends_alt credsPerConnLimit_def mysql_finish_def split: option.split)
  show "outcome (spends credsPerConnLimit 0 c) (handleMySQL c)"
    unfolding handleMySQL_def Let_def
    by (intro outcome_intros) (auto simp: touched_def spends_none intro!: outcome_on_full k)
qed

text \<open>The client's packet: the capabilities, 28 bytes the server ignores, user, auth response.\<close>

definition mysql_client_packet :: "byte \<Rightarrow> u32 \<Rightarrow> bytes \<Rightarrow> bytes \<Rightarrow> bytes \<Rightarrow> bytes \<Rightarrow> bytes" where
  "mysql_client_packet sq caps pre user auth suffix =
    (let payload = le_bytes 4 (unat caps) @ pre @ user @ [NUL, mkbyte (length auth)] @ auth @ suffix
     in le_bytes 3 (length payload) @ [sq] @ payload)"

lemma mysql_response_client:
  assumes "length pre = 28" "NUL \<notin> set user" "length auth < 256" "caps AND 0x00008000 \<noteq> (0 :: u32)"
  shows "mysql_response (le_bytes 4 (unat caps) @ pre @ user @ [NUL, mkbyte (length auth)] @ auth @ suffix)
    = Some (Some (user, hex_encode auth))"
proof -
  have "unat caps < 256 ^ 4" using unsigned_less [of caps] by simp
  then have "(of_nat (le_val (le_bytes 4 (unat caps))) :: u32) = caps" by (simp add: le_val_bytes)
  moreover have "find_first (\<lambda>b. b = NUL) (user @ NUL # mkbyte (length auth) # auth @ suffix) = Some (length user)"
    using assms(2) by (intro find_first_append_stop) auto
  ultimately show ?thesis
    using assms by (simp add: mysql_response_def slice_from_def Let_def nth_append)
qed

lemma le_bytes_3: "le_bytes 3 n = [mkbyte n, mkbyte (n div 256), mkbyte (n div 256 div 256)]"
  by (simp add: numeral_3_eq_3)

lemma mysql_capture:
  assumes "length pre = 28" "NUL \<notin> set user" "length auth < 256" "caps AND 0x00008000 \<noteq> (0 :: u32)"
    and "length user + length auth + length suffix + 34 \<le> 2 ^ 20" "0 < wleft c"
    and "inp c = mysql_client_packet sq caps pre user auth suffix"
  shows "outcome (\<lambda>c'. recs c' = recs c @ (if user \<noteq> [] \<or> auth \<noteq> [] then [cred user (hex_encode auth) mysql_extra] else []))
    (handleMySQL c)"
proof -
  define p where "p = le_bytes 4 (unat caps) @ pre @ user @ [NUL, mkbyte (length auth)] @ auth @ suffix"
  define n where "n = length p"
  define h where "h = le_bytes 3 n @ [sq]"
  have n: "n \<le> 2 ^ 20" "34 \<le> n" using assms by (simp_all add: n_def p_def)
  have i: "inp c = h @ p"
    using assms(7) by (simp add: mysql_client_packet_def Let_def h_def n_def p_def)
  have r: "mysql_response p = Some (Some (user, hex_encode auth))"
    unfolding p_def by (rule mysql_response_client [OF assms(1-4)])
  have h3: "h = [mkbyte n, mkbyte (n div 256), mkbyte (n div 256 div 256), sq]"
    by (simp add: h_def le_bytes_3)
  have "bval (h ! 0) OR push_bit 8 (bval (h ! 1)) OR push_bit 16 (bval (h ! 2)) = le_val (le_bytes 3 n)"
    unfolding or3_le_val by (simp add: h3 le_bytes_3)
  also have "\<dots> = n" using n by (simp add: le_val_bytes)
  finally have l: "bval (h ! 0) OR push_bit 8 (bval (h ! 1)) OR push_bit 16 (bval (h ! 2)) = n" .
  define c1 where "c1 = c\<lparr>outp := outp c @ [writeMySQLPacket NUL mysql_greeting], wleft := wleft c - 1\<rparr>"
  define c2 where "c2 = c1\<lparr>inp := p\<rparr>"
  define c3 where "c3 = c1\<lparr>inp := []\<rparr>"
  have 4: "index 0 h = Some (h ! 0)" "index 1 h = Some (h ! 1)" "index 2 h = Some (h ! 2)"
    by (simp_all add: h3)
  have 5: "on_full id n c2 k = k p c3" for k :: "bytes \<Rightarrow> hconn \<Rightarrow> hconn go"
    by (simp add: on_full_enough c2_def n_def) (simp add: c3_def c2_def)
  have 6: "on_full id 4 c1 k = k h c2" for k :: "bytes \<Rightarrow> hconn \<Rightarrow> hconn go"
    by (simp add: on_full_enough c1_def i h3) (simp add: c2_def c1_def)
  have 7: "on_write id (writeMySQLPacket NUL mysql_greeting) c k = k c1" for k :: "hconn \<Rightarrow> hconn go"
    using on_write_ok [OF assms(6)] by (simp add: c1_def)
  have g: "\<not> (n < 4 \<or> 2 ^ 20 < n)" using n by simp
  have e: "handleMySQL c = Some (mysql_finish (Some (user, hex_encode auth)) c3)"
    unfolding handleMySQL_def 7 6 4 Let_def bind.bind_lunit l if_not_P [OF g] 5 r ..
  have "hex_encode auth = [] \<longleftrightarrow> auth = []" by (cases auth) (simp_all add: hex_encode_def)
  then show ?thesis
    unfolding e by (simp add: mysql_finish_def) (simp add: c3_def c1_def)
qed

subsection \<open>PostgreSQL\<close>

text \<open>The inner loops: the first NUL from a position on, or the end.\<close>

definition scan_nul :: "bytes \<Rightarrow> nat \<Rightarrow> nat" where
  "scan_nul b i = i + length (takeWhile (\<lambda>c. c \<noteq> NUL) (drop i b))"

lemma scan_nul_ge: "i \<le> scan_nul b i"
  by (simp add: scan_nul_def)

function pg_params :: "bytes \<Rightarrow> nat \<Rightarrow> bytes \<Rightarrow> bytes go" where
  "pg_params b i user =
    (if i < length b then do {
       x \<leftarrow> index i b;
       (if x = NUL then Some user
        else let keyEnd = scan_nul b i in
          if length b \<le> keyEnd then Some user
          else do {
            key \<leftarrow> slice i keyEnd b;
            let valEnd = scan_nul b (keyEnd + 1);
            (if length b \<le> valEnd then Some user
             else do {
               val \<leftarrow> slice (keyEnd + 1) valEnd b;
               pg_params b (valEnd + 1) (if key = ''user'' then val else user) }) }) }
     else Some user)"
  by pat_completeness auto
termination
  by (relation "measure (\<lambda>(b, i, _). length b - i)") (auto simp: scan_nul_def)

declare pg_params.simps [simp del]

definition parseStartupParams :: "bytes \<Rightarrow> bytes go" where
  "parseStartupParams b = pg_params b 0 []"

definition buildPGError :: "bytes \<Rightarrow> bytes \<Rightarrow> bytes" where
  "buildPGError severity message =
    (let fields = ''S'' @ severity @ [NUL] @ ''M'' @ message @ [NUL] @ [NUL] in
     ''E'' @ be_bytes 4 (4 + length fields) @ fields)"

text \<open>Steps 3 to 5 of the handler: the password message, the record and the refusal.\<close>

definition pg_wait :: "bytes \<Rightarrow> hconn \<Rightarrow> hconn go" where
  "pg_wait user c = on_full id 5 c (\<lambda>phdr c. do {
     t \<leftarrow> index 0 phdr;
     (if t \<noteq> CHR ''p'' then Some c
      else do {
        lb \<leftarrow> slice 1 5 phdr;
        let pLen = be_val lb;
        (if pLen < 1 \<or> 65536 < pLen then Some c
         else on_full id pLen c (\<lambda>pbuf c. do {
           pass \<leftarrow> slice_to (length pbuf - 1) pbuf;
           Some (write_ignore (buildPGError ''FATAL''
             (''password authentication failed for user '' @ [CHR 0x22] @ user @ [CHR 0x22]))
             (rec_cred user pass [] c)) })) }) })"

definition handlePostgres :: "hconn \<Rightarrow> hconn go" where
  "handlePostgres c =
    on_full id 4 c (\<lambda>hdr c.
    let msgLen = be_val hdr in
    if msgLen < 8 \<or> 65536 < msgLen then Some c
    else on_full id (msgLen - 4) c (\<lambda>body c. do {
      v \<leftarrow> slice_to 4 body;
      (if be_val v \<noteq> 196608 then Some c
       else do {
         params \<leftarrow> slice_from 4 body;
         user \<leftarrow> parseStartupParams params;
         on_write id [CHR ''R'', NUL, NUL, NUL, mkbyte 8, NUL, NUL, NUL, mkbyte 3] c (pg_wait user) }) }))"

lemma pg_params_total: "\<exists>u. pg_params b i user = Some u"
proof (induction b i user rule: pg_params.induct)
  case (1 b i user)
  show ?case
    using 1 scan_nul_ge [of i b] scan_nul_ge [of "scan_nul b i + 1" b]
    by (auto simp: pg_params.simps [of b i user] Let_def)
qed

lemma handles_postgres: "handles handlePostgres"
proof (rule handlesI)
  fix c
  have "\<forall>b. \<exists>u. parseStartupParams b = Some u"
    using pg_params_total by (simp add: parseStartupParams_def)
  then obtain U where "\<forall>b. parseStartupParams b = Some (U b)" by metis
  then show "outcome (spends credsPerConnLimit 0 c) (handlePostgres c)"
    unfolding handlePostgres_def pg_wait_def Let_def
    by (intro outcome_intros)
       (auto simp: touched_def spends_alt credsPerConnLimit_def intro!: outcome_intros)
qed

text \<open>The start-up message of a client, and what is read from it.\<close>

definition pg_pairs :: "(bytes \<times> bytes) list \<Rightarrow> bytes" where
  "pg_pairs ps = concat (map (\<lambda>(k, v). k @ [NUL] @ v @ [NUL]) ps) @ [NUL]"

definition pg_startup :: "(bytes \<times> bytes) list \<Rightarrow> bytes" where
  "pg_startup ps = be_bytes 4 (8 + length (pg_pairs ps)) @ be_bytes 4 196608 @ pg_pairs ps"

definition pg_pair_ok :: "bytes \<times> bytes \<Rightarrow> bool" where
  "pg_pair_ok kv \<longleftrightarrow> fst kv \<noteq> [] \<and> NUL \<notin> set (fst kv) \<and> NUL \<notin> set (snd kv)"

text \<open>The value of the last \<^verbatim>\<open>user\<close> parameter.\<close>

definition pg_user :: "(bytes \<times> bytes) list \<Rightarrow> bytes" where
  "pg_user ps = foldl (\<lambda>u (k, v). if k = ''user'' then v else u) [] ps"

lemma scan_nul_stop: "NUL \<notin> set k \<Longrightarrow> scan_nul (pre @ k @ NUL # r) (length pre) = length pre + length k"
  by (simp add: scan_nul_def) (subst takeWhile_append_stop, auto)

lemma pg_params_pairs:
  "\<forall>kv\<in>set ps. pg_pair_ok kv \<Longrightarrow> pg_params (pre @ pg_pairs ps) (length pre) u
    = Some (foldl (\<lambda>u (k, v). if k = ''user'' then v else u) u ps)"
proof (induction ps arbitrary: pre u)
  case Nil
  then show ?case by (simp add: pg_params.simps pg_pairs_def)
next
  case (Cons kv ps)
  obtain k v where kv: "kv = (k, v)" by force
  with Cons.prems have ok: "k \<noteq> []" "NUL \<notin> set k" "NUL \<notin> set v" by (auto simp: pg_pair_ok_def)
  define b where "b = pre @ pg_pairs (kv # ps)"
  have b: "b = pre @ k @ NUL # v @ NUL # pg_pairs ps" by (simp add: b_def kv pg_pairs_def)
  have b': "b = (pre @ k @ [NUL]) @ v @ NUL # pg_pairs ps" by (simp add: b)
  have b'': "b = (pre @ k @ [NUL] @ v @ [NUL]) @ pg_pairs ps" by (simp add: b)
  have i: "length pre < length b" "b ! length pre = hd k" "hd k \<noteq> NUL"
    using ok by (auto simp: b nth_append hd_conv_nth) (metis hd_conv_nth hd_in_set)
  have s1: "scan_nul b (length pre) = length pre + length k"
    unfolding b by (rule scan_nul_stop [OF ok(2)])
  have s2: "scan_nul b (length pre + length k + 1) = length pre + length k + 1 + length v"
    using scan_nul_stop [OF ok(3), of "pre @ k @ [NUL]" "pg_pairs ps"] by (simp add: b)
  have l: "length b = length pre + length k + length v + 2 + length (pg_pairs ps)" by (simp add: b)
  have t1: "slice (length pre) (length pre + length k) b = Some k" by (simp add: b)
  have t2: "slice (length pre + length k + 1) (length pre + length k + 1 + length v) b = Some v"
    by (simp add: b' add.assoc)
  have "pg_params b (length pre) u = pg_params b (length pre + length k + 1 + length v + 1) (if k = ''user'' then v else u)"
    using i s1 s2 l t1 t2 by (simp add: pg_params.simps [of b "length pre" u] Let_def del: slice_Some)
  also have "\<dots> = Some (foldl (\<lambda>u (k, v). if k = ''user'' then v else u) (if k = ''user'' then v else u) ps)"
    using Cons.IH [of "pre @ k @ [NUL] @ v @ [NUL]" "if k = ''user'' then v else u"] Cons.prems
    by (simp add: b'' add.assoc)
  finally show ?case by (simp add: b_def kv)
qed

lemma parseStartupParams_pairs:
  "\<forall>kv\<in>set ps. pg_pair_ok kv \<Longrightarrow> parseStartupParams (pg_pairs ps) = Some (pg_user ps)"
  using pg_params_pairs [of ps "[]" "[]"] by (simp add: parseStartupParams_def pg_user_def)

lemma pg_startup_read:
  assumes "\<forall>kv\<in>set ps. pg_pair_ok kv" "length (pg_pairs ps) \<le> 65000" "0 < wleft c"
    "inp c = pg_startup ps @ rest"
  shows "\<exists>c'. handlePostgres c = pg_wait (pg_user ps) c' \<and> inp c' = rest \<and> recs c' = recs c"
proof -
  define q where "q = pg_pairs ps"
  define n where "n = 8 + length q"
  define c1 where "c1 = c\<lparr>inp := be_bytes 4 196608 @ q @ rest\<rparr>"
  define c2 where "c2 = c\<lparr>inp := rest\<rparr>"
  define r where "r = [CHR ''R'', NUL, NUL, NUL, mkbyte 8, NUL, NUL, NUL, mkbyte 3]"
  define c3 where "c3 = c2\<lparr>outp := outp c @ [r], wleft := wleft c - 1\<rparr>"
  have i: "inp c = be_bytes 4 n @ be_bytes 4 196608 @ q @ rest"
    using assms(4) by (simp add: pg_startup_def n_def q_def)
  have n: "n < 256 ^ 4" "\<not> (n < 8 \<or> 65536 < n)" "n - 4 = 4 + length q"
    using assms(2) by (simp_all add: n_def q_def)
  have b: "be_val (be_bytes 4 n) = n" using n(1) by (simp add: be_val_bytes)
  have 1: "on_full id 4 c k = k (be_bytes 4 n) c1" for k :: "bytes \<Rightarrow> hconn \<Rightarrow> hconn go"
    by (simp add: on_full_enough i c1_def)
  have 2: "on_full id (n - 4) c1 k = k (be_bytes 4 196608 @ q) c2" for k :: "bytes \<Rightarrow> hconn \<Rightarrow> hconn go"
    unfolding n(3) by (simp add: on_full_enough c1_def c2_def)
  have 3: "on_write id r c2 k = k c3" for k :: "hconn \<Rightarrow> hconn go"
    using assms(3) on_write_ok [of c2] by (simp add: c2_def c3_def)
  have 4: "slice_to 4 (be_bytes 4 196608 @ q) = Some (be_bytes 4 196608)"
    "slice_from 4 (be_bytes 4 196608 @ q) = Some q" by simp_all
  have 5: "parseStartupParams q = Some (pg_user ps)"
    unfolding q_def by (rule parseStartupParams_pairs [OF assms(1)])
  have v: "\<not> be_val (be_bytes 4 196608) \<noteq> 196608" by (simp add: be_val_bytes)
  have "handlePostgres c = pg_wait (pg_user ps) c3"
    unfolding handlePostgres_def 1 Let_def b if_not_P [OF n(2)] 2 4 bind.bind_lunit if_not_P [OF v] 5
      r_def [symmetric] 3 ..
  then show ?thesis by (intro exI [of _ c3]) (simp add: c3_def c2_def)
qed

lemma pg_wait_password:
  assumes "inp c = ''p'' @ be_bytes 4 n @ body" "1 \<le> n" "n \<le> 65536"
  shows "outcome (\<lambda>c'. recs c' = recs c @ (if n \<le> length body then [cred user (take (n - 1) body) []] else []))
    (pg_wait user c)"
proof -
  define h where "h = ''p'' @ be_bytes 4 n"
  have n: "be_val (be_bytes 4 n) = n" using assms(3) by (simp add: be_val_bytes)
  have 1: "on_full id 5 c k = k h (c\<lparr>inp := body\<rparr>)" for k :: "bytes \<Rightarrow> hconn \<Rightarrow> hconn go"
    by (simp add: on_full_enough assms(1) h_def)
  have 2: "index 0 h = Some (CHR ''p'')" "slice 1 5 h = Some (be_bytes 4 n)" by (simp_all add: h_def)
  show ?thesis
  proof (cases "n \<le> length body")
    case True
    then show ?thesis
      unfolding pg_wait_def 1 2 bind.bind_lunit Let_def n using assms
      by (simp add: on_full_enough)
  next
    case False
    then show ?thesis
      unfolding pg_wait_def 1 2 bind.bind_lunit Let_def n using assms
      by (simp add: on_full_short)
  qed
qed

subsection \<open>RDP\<close>

text \<open>\<^verbatim>\<open>strings.Map\<close> with -1 for runes outside 0x20..0x7E: only printable ASCII survives.\<close>

definition keep_printable :: "bytes \<Rightarrow> bytes" where
  "keep_printable s =
     concat (filter (\<lambda>x. 0x20 \<le> fst (decode_rune x) \<and> fst (decode_rune x) \<le> 0x7E) (segs s))"

definition extractRDCCookie :: "bytes \<Rightarrow> bytes go" where
  "extractRDCCookie cr =
    (if length cr < 8 then Some []
     else do {
       s \<leftarrow> slice_from 7 cr;
       s \<leftarrow> (case index_of s crlf of Some i \<Rightarrow> slice_to i s | None \<Rightarrow> Some s);
       let s = trim_space s;
       s \<leftarrow> (case index_of s ''mstshash='' of Some i \<Rightarrow> slice_from (i + 9) s | None \<Rightarrow> Some s);
       let s = keep_printable s;
       (if 128 < length s then slice_to 128 s else Some s) })"

definition rdp_extra :: bytes where
  "rdp_extra = ''RDP '' @ encode_runes [0x51ED, 0x636E, 0x52A0, 0x5BC6, 0xFF08] @ ''TLS ''
     @ encode_runes [0x901A, 0x9053, 0xFF09, 0xFF0C, 0x65E0, 0x6CD5, 0x6355, 0x83B7, 0xFF1B]
     @ ''pre-auth '' @ encode_runes [0x8FDE, 0x63A5, 0x5C1D, 0x8BD5]"

definition rdp_cookie_sep :: bytes where
  "rdp_cookie_sep = encode_runes [0xFF1B] @ ''cookie=''"

text \<open>The Connection Confirm: bytes 7 and 8 are overwritten with the client's src-ref.\<close>

definition rdp_confirm :: "bytes \<Rightarrow> bytes go" where
  "rdp_confirm cr =
    (let cc = [mkbyte 3, NUL, NUL, CHR 0x0B, CHR 0x06, CHR 0xD0, NUL, NUL, NUL, NUL, NUL] in
     do {
       cc \<leftarrow> (if 6 \<le> length cr then do {
                x \<leftarrow> index 4 cr;
                y \<leftarrow> index 5 cr;
                Some (cc[7 := x, 8 := y]) }
              else Some cc);
       Some (cc[2 := NUL, 3 := mkbyte (length cc)]) })"

definition handleRDP :: "hconn \<Rightarrow> hconn go" where
  "handleRDP c =
    on_full id 4 c (\<lambda>tpkt c. do {
      t0 \<leftarrow> index 0 tpkt;
      (if t0 \<noteq> CHR 0x03 then Some c
       else do {
         lb \<leftarrow> slice 2 4 tpkt;
         let tpktLen = be_val lb;
         (if tpktLen < 11 \<or> 65536 < tpktLen then Some c
          else on_full id (tpktLen - 4) c (\<lambda>cr c. do {
            typ \<leftarrow> (if length cr < 7 then Some NUL else index 1 cr);
            (if length cr < 7 \<or> typ \<noteq> CHR 0xE0 then Some c
             else do {
               cookie \<leftarrow> extractRDCCookie cr;
               let extra = (if cookie \<noteq> [] then rdp_extra @ rdp_cookie_sep @ cookie else rdp_extra);
               cc \<leftarrow> rdp_confirm cr;
               Some (write_ignore cc (rec_cred [] [] extra c)) }) })) }) })"

lemma extractRDCCookie_total: "\<exists>k. extractRDCCookie cr = Some k \<and> length k \<le> 128"
proof (cases "length cr < 8")
  case False
  have "\<exists>s. (case index_of t crlf of Some i \<Rightarrow> slice_to i t | None \<Rightarrow> Some t) = Some s" for t
    using index_of_bound [of t crlf] by (auto split: option.split)
  moreover have "\<exists>s. (case index_of t ''mstshash='' of Some i \<Rightarrow> slice_from (i + 9) t | None \<Rightarrow> Some t) = Some s" for t
    using index_of_bound [of t "''mstshash=''"] by (auto split: option.split)
  ultimately obtain f g where
    "\<forall>t. (case index_of t crlf of Some i \<Rightarrow> slice_to i t | None \<Rightarrow> Some t) = Some (f t)"
    "\<forall>t. (case index_of t ''mstshash='' of Some i \<Rightarrow> slice_from (i + 9) t | None \<Rightarrow> Some t) = Some (g t)"
    by metis
  then show ?thesis using False by (simp add: extractRDCCookie_def Let_def)
qed (simp add: extractRDCCookie_def)

lemma rdp_confirm_eq:
  "7 \<le> length cr \<Longrightarrow> rdp_confirm cr = Some [mkbyte 3, NUL, NUL, mkbyte 11, CHR 0x06, CHR 0xD0, NUL, cr ! 4, cr ! 5, NUL, NUL]"
  by (simp add: rdp_confirm_def eval_nat_numeral)

lemma handles_rdp: "handles handleRDP"
proof (rule handlesI)
  fix c
  have "\<forall>cr. \<exists>k. extractRDCCookie cr = Some k" using extractRDCCookie_total by metis
  then obtain K where "\<forall>cr. extractRDCCookie cr = Some (K cr)" by metis
  then show "outcome (spends credsPerConnLimit 0 c) (handleRDP c)"
    unfolding handleRDP_def Let_def
    by (intro outcome_intros)
       (auto simp: touched_def spends_alt credsPerConnLimit_def rdp_confirm_eq intro!: outcome_intros)
qed

lemma index_of_crlf: "CR \<notin> set x \<Longrightarrow> index_of (x @ CR # LF # r) crlf = Some (length x)"
  by (induction x) (auto simp: has_prefix_def)

lemma keep_printable_word: "is_word u \<Longrightarrow> keep_printable u = u"
proof -
  assume u: "is_word u"
  have "filter (\<lambda>x. 0x20 \<le> fst (decode_rune x) \<and> fst (decode_rune x) \<le> 0x7E) (map (\<lambda>c. [c]) u) = map (\<lambda>c. [c]) u"
    using u by (intro filter_id) (auto simp: is_word_def)
  then show ?thesis using is_word_ascii [OF u] by (simp add: keep_printable_def segs_ascii)
qed

lemma rdp_cookie:
  assumes "length hd7 = 7" "is_word u" "length u \<le> 128"
  shows "extractRDCCookie (hd7 @ ''Cookie: mstshash='' @ u @ crlf @ rest) = Some u"
proof -
  let ?s = "''Cookie: mstshash='' @ u"
  have "CR \<notin> set ?s" using is_word_notin [OF assms(2), of CR] by (auto simp: bval_def)
  then have i: "index_of (?s @ CR # LF # rest) crlf = Some (length ?s)" by (rule index_of_crlf)
  have t: "trim_space ?s = ?s"
  proof (rule trim_space_ascii)
    have "is_ascii ''Cookie: mstshash=''" by (simp add: bval_def)
    then show "is_ascii ?s" using is_word_ascii [OF assms(2)] by (simp only: is_ascii_simps)
    show "\<not> space_seg [hd ?s]" using space_seg_ascii [of "CHR ''C''"] by (simp add: bval_def)
    have "last u \<in> set u" using assms(2) by (simp add: is_word_def)
    then show "\<not> space_seg [last ?s]"
      using assms(2) space_seg_ascii [of "last u"] by (auto simp: is_word_def)
  qed simp
  have "index_of ?s ''mstshash='' = Some 8" by (simp add: has_prefix_def)
  then show ?thesis
    using assms(1,3) i t by (simp add: extractRDCCookie_def Let_def keep_printable_word [OF assms(2)] eval_nat_numeral)
qed

lemma rdp_reply:
  assumes "7 \<le> length cr" "length cr \<le> 65531" "cr ! 1 = CHR 0xE0" "0 < wleft c"
    "inp c = [CHR 0x03, x] @ be_bytes 2 (4 + length cr) @ cr @ rest"
  shows "outcome (\<lambda>c'. outp c' = outp c @ [[mkbyte 3, NUL, NUL, mkbyte 11, CHR 0x06, CHR 0xD0, NUL, cr ! 4, cr ! 5, NUL, NUL]]
      \<and> (\<exists>k. extractRDCCookie cr = Some k \<and> recs c' = recs c @ [cred [] [] (rdp_extra @ (if k = [] then [] else rdp_cookie_sep @ k))]))
    (handleRDP c)"
proof -
  define h where "h = [CHR 0x03, x] @ be_bytes 2 (4 + length cr)"
  define c1 where "c1 = c\<lparr>inp := cr @ rest\<rparr>"
  define c2 where "c2 = c\<lparr>inp := rest\<rparr>"
  have n: "be_val (be_bytes 2 (4 + length cr)) = 4 + length cr" using assms(2) by (simp add: be_val_bytes)
  have g: "\<not> (4 + length cr < 11 \<or> 65536 < 4 + length cr)" using assms(1,2) by simp
  have 1: "on_full id 4 c k = k h c1" for k :: "bytes \<Rightarrow> hconn \<Rightarrow> hconn go"
    by (simp add: on_full_enough assms(5) h_def c1_def)
  have 2: "index 0 h = Some (CHR 0x03)" "slice 2 4 h = Some (be_bytes 2 (4 + length cr))" by (simp_all add: h_def)
  have 3: "on_full id (4 + length cr - 4) c1 k = k cr c2" for k :: "bytes \<Rightarrow> hconn \<Rightarrow> hconn go"
    by (simp add: on_full_enough c1_def c2_def)
  obtain k where k: "extractRDCCookie cr = Some k" using extractRDCCookie_total by metis
  show ?thesis
    unfolding handleRDP_def 1 2 bind.bind_lunit Let_def n if_not_P [OF g] 3
    using assms(1,3,4) by (simp add: k rdp_confirm_eq) (simp add: write_ignore_def conn_write_def rec_cred_def c2_def)
qed

interpretation mysql: proto_handler handleMySQL
  by unfold_locales (rule handles_mysql)

interpretation postgres: proto_handler handlePostgres
  by unfold_locales (rule handles_postgres)

interpretation rdp: proto_handler handleRDP
  by unfold_locales (rule handles_rdp)

end
