(* ===== verification/HpMongo.thy ===== *)
theory HpMongo
  imports HpBinary
begin

text \<open>
  \<^verbatim>\<open>internal/honeypot/mongodb.go\<close>: the wire-protocol loop, the BSON walker, the SCRAM payload
  parser and the refusal message. The parsers walk attacker-controlled offsets; every access is
  checked here, so the contract \<^const>\<open>handles\<close> says that their guards exclude a panic, and the
  loops are total because every element moves the position forward.
\<close>

subsection \<open>BSON values\<close>

text \<open>The first NUL from a position on below a bound, or the bound.\<close>

definition scan_nul_to :: "bytes \<Rightarrow> nat \<Rightarrow> nat \<Rightarrow> nat" where
  "scan_nul_to b t i = scan_nul (take t b) i"

definition u32_at :: "bytes \<Rightarrow> nat \<Rightarrow> nat go" where
  "u32_at doc pos = do { b \<leftarrow> slice pos (pos + 4) doc; Some (le_val b) }"

text \<open>The end of a value; the outer None is a panic, the inner one the error of short data.\<close>

definition skipBSONValue :: "bytes \<Rightarrow> nat \<Rightarrow> byte \<Rightarrow> nat option go" where
  "skipBSONValue doc pos typ =
    (if length doc \<le> pos then Some None
     else if typ = CHR 0x01 then Some (Some (pos + 8))
     else if typ = CHR 0x02 then
       (if length doc < pos + 4 then Some None
        else do { n \<leftarrow> u32_at doc pos;
          Some (if length doc < pos + 4 + n \<or> n < 1 then None else Some (pos + 4 + n)) })
     else if typ = CHR 0x03 \<or> typ = CHR 0x04 then
       (if length doc < pos + 4 then Some None
        else do { n \<leftarrow> u32_at doc pos;
          Some (if length doc < pos + n \<or> n < 4 then None else Some (pos + n)) })
     else if typ = CHR 0x05 then
       (if length doc < pos + 5 then Some None
        else do { n \<leftarrow> u32_at doc pos;
          Some (if length doc < pos + 5 + n then None else Some (pos + 5 + n)) })
     else if typ = CHR 0x08 then Some (Some (pos + 1))
     else if typ = CHR 0x09 then Some (Some (pos + 8))
     else if typ = CHR 0x0A then Some (Some pos)
     else if typ = CHR 0x0B then Some (Some (scan_nul doc (scan_nul doc pos + 1) + 1))
     else if typ = CHR 0x10 then Some (Some (pos + 4))
     else if typ = CHR 0x11 then Some (Some (pos + 8))
     else if typ = CHR 0x12 then Some (Some (pos + 8))
     else if typ = CHR 0x13 then Some (Some (pos + 16))
     else if typ = CHR 0x0D then
       (if length doc < pos + 4 then Some None
        else do { n \<leftarrow> u32_at doc pos;
          Some (if length doc < pos + 4 + n \<or> n < 1 then None else Some (pos + 4 + n)) })
     else Some None)"

lemma u32_at_Some [simp]: "pos + 4 \<le> length doc \<Longrightarrow> u32_at doc pos = Some (le_val (take 4 (drop pos doc)))"
  by (simp add: u32_at_def)

lemma skipBSONValue_total: "\<exists>r. skipBSONValue doc pos typ = Some r"
  by (auto simp: skipBSONValue_def)

lemma skipBSONValue_ge: "skipBSONValue doc pos typ = Some (Some v) \<Longrightarrow> pos \<le> v"
  using scan_nul_ge [of pos doc] scan_nul_ge [of "scan_nul doc pos + 1" doc]
  by (auto simp: skipBSONValue_def split: if_splits)

lemma skipBSONValue_string:
  "skipBSONValue doc pos (CHR 0x02) = Some (Some v) \<Longrightarrow> pos + 4 \<le> length doc"
  by (auto simp: skipBSONValue_def split: if_splits)

lemma scan_nul_to_ge: "i \<le> scan_nul_to b t i"
  by (simp add: scan_nul_to_def scan_nul_ge)

subsection \<open>The SCRAM payload\<close>

text \<open>The string elements \<^verbatim>\<open>user\<close> and \<^verbatim>\<open>rnonce\<close> update what was found so far.\<close>

definition scram_elem :: "bytes \<Rightarrow> nat \<Rightarrow> byte \<Rightarrow> bytes \<Rightarrow> bytes \<times> bytes \<Rightarrow> (bytes \<times> bytes) go" where
  "scram_elem doc pos typ name st =
    (if typ = CHR 0x02 then do {
       sLen \<leftarrow> u32_at doc pos;
       (if 1 \<le> sLen \<and> pos + 4 + sLen \<le> length doc then do {
          val \<leftarrow> slice (pos + 4) (pos + 4 + sLen - 1) doc;
          Some (if name = ''user'' then (val, snd st)
                else if name = ''rnonce'' then (fst st, val) else st) }
        else Some st) }
     else Some st)"

function scram_loop :: "bytes \<Rightarrow> nat \<Rightarrow> nat \<Rightarrow> bytes \<times> bytes \<Rightarrow> (bytes \<times> bytes) go" where
  "scram_loop doc tot pos st =
    (if pos < tot - 1 then do {
       typ \<leftarrow> index pos doc;
       let nameEnd = scan_nul_to doc tot (pos + 1);
       (if tot \<le> nameEnd then Some st
        else do {
          name \<leftarrow> slice (pos + 1) nameEnd doc;
          r \<leftarrow> skipBSONValue doc (nameEnd + 1) typ;
          (case r of None \<Rightarrow> Some st
           | Some valEnd \<Rightarrow> do {
               st' \<leftarrow> scram_elem doc (nameEnd + 1) typ name st;
               scram_loop doc tot valEnd st' }) }) }
     else Some st)"
  by pat_completeness auto
termination
proof (relation "measure (\<lambda>(_, t, p, _). t - p)")
  fix doc tot pos st x xa xb xc xd xe
  assume "pos < tot - 1" "xb = scan_nul_to doc tot (pos + 1)"
    "skipBSONValue doc (xb + 1) x = Some xc" "xc = Some xd"
  then have "pos < xd"
    using skipBSONValue_ge [of doc "xb + 1" x xd] scan_nul_to_ge [of "pos + 1" doc tot] by simp
  then show "((doc, tot, xd, xe), doc, tot, pos, st) \<in> measure (\<lambda>(_, t, p, _). t - p)"
    using \<open>pos < tot - 1\<close> by auto
qed simp

declare scram_loop.simps [simp del]

definition parseScramPayload :: "bytes \<Rightarrow> (bytes \<times> bytes) go" where
  "parseScramPayload doc =
    (if length doc < 4 then Some ([], [])
     else do {
       tot \<leftarrow> u32_at doc 0;
       (if tot < 4 \<or> length doc < tot then Some ([], []) else scram_loop doc tot 4 ([], [])) })"

subsection \<open>The command document\<close>

record mongo_cmd =
  mc_cmd :: bytes
  mc_user :: bytes
  mc_rnonce :: bytes
  mc_auth :: bool

definition cmd_elem :: "bytes \<Rightarrow> nat \<Rightarrow> byte \<Rightarrow> bytes \<Rightarrow> mongo_cmd \<Rightarrow> mongo_cmd go" where
  "cmd_elem doc pos typ name st =
    (if name = ''saslStart'' \<or> name = ''saslContinue'' then
       Some (if typ = CHR 0x10 then st\<lparr>mc_auth := True, mc_cmd := name\<rparr> else st)
     else if name = ''payload'' \<and> typ = CHR 0x05 then
       (if pos + 5 \<le> length doc then do {
          bLen \<leftarrow> u32_at doc pos;
          sub \<leftarrow> index (pos + 4) doc;
          (if sub = NUL \<and> pos + 5 + bLen \<le> length doc then do {
             d \<leftarrow> slice (pos + 5) (pos + 5 + bLen) doc;
             (u, n) \<leftarrow> parseScramPayload d;
             let st = (if u \<noteq> [] then st\<lparr>mc_user := u\<rparr> else st);
             Some (if n \<noteq> [] then st\<lparr>mc_rnonce := n\<rparr> else st) }
           else Some st) }
        else Some st)
     else Some st)"

function cmd_loop :: "bytes \<Rightarrow> nat \<Rightarrow> nat \<Rightarrow> mongo_cmd \<Rightarrow> mongo_cmd go" where
  "cmd_loop doc tot pos st =
    (if pos < tot - 1 then do {
       typ \<leftarrow> index pos doc;
       let nameEnd = scan_nul_to doc tot (pos + 1);
       (if tot \<le> nameEnd then Some st
        else do {
          name \<leftarrow> slice (pos + 1) nameEnd doc;
          r \<leftarrow> skipBSONValue doc (nameEnd + 1) typ;
          (case r of None \<Rightarrow> Some st
           | Some valEnd \<Rightarrow> do {
               st' \<leftarrow> cmd_elem doc (nameEnd + 1) typ name st;
               cmd_loop doc tot valEnd st' }) }) }
     else Some st)"
  by pat_completeness auto
termination
proof (relation "measure (\<lambda>(_, t, p, _). t - p)")
  fix doc tot pos st x xa xb xc xd xe
  assume "pos < tot - 1" "xb = scan_nul_to doc tot (pos + 1)"
    "skipBSONValue doc (xb + 1) x = Some xc" "xc = Some xd"
  then have "pos < xd"
    using skipBSONValue_ge [of doc "xb + 1" x xd] scan_nul_to_ge [of "pos + 1" doc tot] by simp
  then show "((doc, tot, xd, xe), doc, tot, pos, st) \<in> measure (\<lambda>(_, t, p, _). t - p)"
    using \<open>pos < tot - 1\<close> by auto
qed simp

declare cmd_loop.simps [simp del]

text \<open>None inside: not an authentication command.\<close>

definition parseMongoCommand :: "bytes \<Rightarrow> (bytes \<times> bytes \<times> bytes) option go" where
  "parseMongoCommand doc =
    (if length doc < 4 then Some None
     else do {
       tot \<leftarrow> u32_at doc 0;
       (if tot < 4 \<or> length doc < tot then Some None
        else do {
          st \<leftarrow> cmd_loop doc tot 4 \<lparr>mc_cmd = [], mc_user = [], mc_rnonce = [], mc_auth = False\<rparr>;
          Some (if mc_auth st then Some (mc_cmd st, mc_user st, mc_rnonce st) else None) }) })"

subsection \<open>The parsers do not panic\<close>

lemma scan_nul_le: "i \<le> length b \<Longrightarrow> scan_nul b i \<le> length b"
  using length_takeWhile_le [of "\<lambda>c. c \<noteq> NUL" "drop i b"] by (simp add: scan_nul_def)

lemma scram_elem_total:
  "skipBSONValue doc pos typ = Some (Some v) \<Longrightarrow> \<exists>st'. scram_elem doc pos typ name st = Some st'"
  using skipBSONValue_string [of doc pos v] by (auto simp: scram_elem_def)

lemma scram_loop_stop:
  "\<not> (pos < tot - 1 \<and> scan_nul_to doc tot (pos + 1) < tot) \<Longrightarrow> tot \<le> length doc \<Longrightarrow>
    scram_loop doc tot pos st = Some st"
  by (subst scram_loop.simps) auto

lemma scram_loop_step:
  assumes "pos < tot - 1" "scan_nul_to doc tot (pos + 1) = e" "e < tot" "tot \<le> length doc"
  shows "scram_loop doc tot pos st = do {
    r \<leftarrow> skipBSONValue doc (e + 1) (doc ! pos);
    (case r of None \<Rightarrow> Some st
     | Some v \<Rightarrow> do {
         st' \<leftarrow> scram_elem doc (e + 1) (doc ! pos) (take (e - (pos + 1)) (drop (pos + 1) doc)) st;
         scram_loop doc tot v st' }) }"
proof -
  have "pos + 1 \<le> e" using assms(2) scan_nul_to_ge by metis
  then have i: "index pos doc = Some (doc ! pos)"
    "slice (pos + 1) e doc = Some (take (e - (pos + 1)) (drop (pos + 1) doc))"
    using assms by simp_all
  show ?thesis
    unfolding scram_loop.simps [of doc tot pos st] if_P [OF assms(1)] i bind.bind_lunit Let_def assms(2)
    using assms(3) by (simp only: not_le [symmetric] if_False i bind.bind_lunit)
qed

lemma scram_loop_total: "tot \<le> length doc \<Longrightarrow> \<exists>r. scram_loop doc tot pos st = Some r"
proof (induction "tot - pos" arbitrary: pos st rule: less_induct)
  case less
  show ?case
  proof (cases "pos < tot - 1 \<and> scan_nul_to doc tot (pos + 1) < tot")
    case False
    then show ?thesis using scram_loop_stop less.prems by blast
  next
    case True
    define e where "e = scan_nul_to doc tot (pos + 1)"
    have e: "pos + 1 \<le> e" using scan_nul_to_ge by (simp add: e_def)
    obtain r where r: "skipBSONValue doc (e + 1) (doc ! pos) = Some r" using skipBSONValue_total by metis
    have s: "scram_loop doc tot pos st = (case r of None \<Rightarrow> Some st
     | Some v \<Rightarrow> do {
         st' \<leftarrow> scram_elem doc (e + 1) (doc ! pos) (take (e - (pos + 1)) (drop (pos + 1) doc)) st;
         scram_loop doc tot v st' })"
      using scram_loop_step [OF _ e_def [symmetric] _ less.prems, of st] True r by (simp add: e_def)
    show ?thesis
    proof (cases r)
      case (Some v)
      have v: "e + 1 \<le> v" using r Some skipBSONValue_ge by blast
      obtain st' where st: "scram_elem doc (e + 1) (doc ! pos) (take (e - (pos + 1)) (drop (pos + 1) doc)) st = Some st'"
        using scram_elem_total r Some by metis
      have "tot - v < tot - pos" using v e True by linarith
      then show ?thesis
        using less.hyps [of v st'] less.prems unfolding s Some option.case st bind.bind_lunit by simp
    qed (simp add: s)
  qed
qed

lemma parseScramPayload_total: "\<exists>r. parseScramPayload doc = Some r"
  using scram_loop_total by (auto simp: parseScramPayload_def)

lemma cmd_elem_total: "\<exists>st'. cmd_elem doc pos typ name st = Some st'"
proof -
  obtain P where "\<forall>d. parseScramPayload d = Some (P d)" using parseScramPayload_total by metis
  then show ?thesis by (auto simp: cmd_elem_def Let_def split: prod.split)
qed

lemma cmd_loop_stop:
  "\<not> (pos < tot - 1 \<and> scan_nul_to doc tot (pos + 1) < tot) \<Longrightarrow> tot \<le> length doc \<Longrightarrow>
    cmd_loop doc tot pos st = Some st"
  by (subst cmd_loop.simps) auto

lemma cmd_loop_step:
  assumes "pos < tot - 1" "scan_nul_to doc tot (pos + 1) = e" "e < tot" "tot \<le> length doc"
  shows "cmd_loop doc tot pos st = do {
    r \<leftarrow> skipBSONValue doc (e + 1) (doc ! pos);
    (case r of None \<Rightarrow> Some st
     | Some v \<Rightarrow> do {
         st' \<leftarrow> cmd_elem doc (e + 1) (doc ! pos) (take (e - (pos + 1)) (drop (pos + 1) doc)) st;
         cmd_loop doc tot v st' }) }"
proof -
  have "pos + 1 \<le> e" using assms(2) scan_nul_to_ge by metis
  then have i: "index pos doc = Some (doc ! pos)"
    "slice (pos + 1) e doc = Some (take (e - (pos + 1)) (drop (pos + 1) doc))"
    using assms by simp_all
  show ?thesis
    unfolding cmd_loop.simps [of doc tot pos st] if_P [OF assms(1)] i bind.bind_lunit Let_def assms(2)
    using assms(3) by (simp only: not_le [symmetric] if_False i bind.bind_lunit)
qed

lemma cmd_loop_total: "tot \<le> length doc \<Longrightarrow> \<exists>r. cmd_loop doc tot pos st = Some r"
proof (induction "tot - pos" arbitrary: pos st rule: less_induct)
  case less
  show ?case
  proof (cases "pos < tot - 1 \<and> scan_nul_to doc tot (pos + 1) < tot")
    case False
    then show ?thesis using cmd_loop_stop less.prems by blast
  next
    case True
    define e where "e = scan_nul_to doc tot (pos + 1)"
    have e: "pos + 1 \<le> e" using scan_nul_to_ge by (simp add: e_def)
    obtain r where r: "skipBSONValue doc (e + 1) (doc ! pos) = Some r" using skipBSONValue_total by metis
    have s: "cmd_loop doc tot pos st = (case r of None \<Rightarrow> Some st
     | Some v \<Rightarrow> do {
         st' \<leftarrow> cmd_elem doc (e + 1) (doc ! pos) (take (e - (pos + 1)) (drop (pos + 1) doc)) st;
         cmd_loop doc tot v st' })"
      using cmd_loop_step [OF _ e_def [symmetric] _ less.prems, of st] True r by (simp add: e_def)
    show ?thesis
    proof (cases r)
      case (Some v)
      have v: "e + 1 \<le> v" using r Some skipBSONValue_ge by blast
      obtain st' where st: "cmd_elem doc (e + 1) (doc ! pos) (take (e - (pos + 1)) (drop (pos + 1) doc)) st = Some st'"
        using cmd_elem_total by metis
      have "tot - v < tot - pos" using v e True by linarith
      then show ?thesis
        using less.hyps [of v st'] less.prems unfolding s Some option.case st bind.bind_lunit by simp
    qed (simp add: s)
  qed
qed

lemma parseMongoCommand_total: "\<exists>r. parseMongoCommand doc = Some r"
proof (cases "length doc < 4")
  case False
  define t where "t = le_val (take 4 (drop 0 doc))"
  have "u32_at doc 0 = Some t" using False by (simp add: t_def)
  moreover obtain st where "t \<le> length doc \<Longrightarrow>
      cmd_loop doc t 4 \<lparr>mc_cmd = [], mc_user = [], mc_rnonce = [], mc_auth = False\<rparr> = Some st"
    using cmd_loop_total by meson
  ultimately show ?thesis using False by (cases "t < 4 \<or> length doc < t") (simp_all add: parseMongoCommand_def)
qed (simp add: parseMongoCommand_def)

subsection \<open>The refusal\<close>

definition buildBSONAuthFail :: "bytes \<Rightarrow> bytes" where
  "buildBSONAuthFail errmsg =
    (let errLen = length errmsg + 1; tot = 4 + (1 + 3 + 4) + (1 + 7 + 4 + errLen) + 1 in
     le_bytes 4 tot @ [CHR 0x10] @ ''ok'' @ [NUL] @ replicate 4 NUL @ [CHR 0x02] @ ''errmsg'' @ [NUL]
       @ le_bytes 4 errLen @ errmsg @ [NUL] @ [NUL])"

definition buildMongoReply :: "bytes \<Rightarrow> bytes" where
  "buildMongoReply errmsg =
    (let doc = buildBSONAuthFail errmsg in
     le_bytes 4 (16 + length doc) @ replicate 8 NUL @ le_bytes 4 1 @ doc)"

text \<open>The OP_MSG written for a reply, and the write; a short reply writes nothing.\<close>

definition mongo_msg :: "bytes \<Rightarrow> nat \<Rightarrow> bytes" where
  "mongo_msg msg reqID =
    le_bytes 4 (length msg + 5) @ replicate 4 NUL @ le_bytes 4 reqID @ le_bytes 4 2013 @
    replicate 4 NUL @ [NUL] @ drop 16 msg"

definition on_mongo_msg :: "(hconn \<Rightarrow> 'r) \<Rightarrow> bytes \<Rightarrow> nat \<Rightarrow> hconn \<Rightarrow> (hconn \<Rightarrow> 'r go) \<Rightarrow> 'r go" where
  "on_mongo_msg ret msg reqID c k =
    (if length msg < 16 then k c else on_write ret (mongo_msg msg reqID) c k)"

subsection \<open>The handler\<close>

definition scram_extra :: "bytes \<Rightarrow> bytes \<Rightarrow> bytes" where
  "scram_extra cmd rnonce =
    ''SCRAM '' @ encode_runes [0x8BA4, 0x8BC1, 0xFF08] @ cmd
     @ encode_runes [0xFF09, 0xFF0C, 0x5BC6, 0x7801, 0x7ECF, 0x76D0, 0x5316, 0x54C8, 0x5E0C, 0x4E0D, 0x53EF, 0x9006]
     @ (if rnonce \<noteq> [] then encode_runes [0xFF1B] @ ''client nonce='' @ rnonce else [])"

text \<open>The command document of a message body; the inner None makes the handler read on.\<close>

definition mongo_doc :: "nat \<Rightarrow> bytes \<Rightarrow> bytes option go" where
  "mongo_doc opCode body =
    (if opCode = 2004 then
       (if length body < 12 then Some None
        else let nameEnd = scan_nul body 4 in
          if length body < nameEnd + 9 then Some None
          else do { d \<leftarrow> slice_from (nameEnd + 1 + 8) body; Some (Some d) })
     else if opCode = 2013 then
       (if length body < 5 then Some None else do { d \<leftarrow> slice_from 5 body; Some (Some d) })
     else Some None)"

text \<open>What an authentication command leads to.\<close>

definition mongo_auth :: "hconn \<Rightarrow> nat \<Rightarrow> nat \<Rightarrow> bytes \<times> bytes \<times> bytes \<Rightarrow> (hconn \<times> nat) hstep go" where
  "mongo_auth c credCount reqID a =
    (let (cmd, user, rnonce) = a;
         c = (if credCount < credsPerConnLimit then rec_cred user [] (scram_extra cmd rnonce) c else c) in
     on_mongo_msg Return (buildMongoReply ''Authentication failed'') reqID c
       (\<lambda>c. Some (Continue (c, credCount + 1))))"

fun mongo_step :: "hconn \<times> nat \<Rightarrow> (hconn \<times> nat) hstep go" where
  "mongo_step (c, credCount) =
    on_full Return 16 c (\<lambda>hdr c. do {
      msgLen \<leftarrow> u32_at hdr 0;
      reqID \<leftarrow> u32_at hdr 4;
      opCode \<leftarrow> u32_at hdr 12;
      (if msgLen < 16 \<or> 2 ^ 20 < msgLen then Some (Return c)
       else on_full Return (msgLen - 16) c (\<lambda>body c. do {
         d \<leftarrow> mongo_doc opCode body;
         (case d of None \<Rightarrow> Some (Continue (c, credCount))
          | Some cmdDoc \<Rightarrow> do {
              a \<leftarrow> parseMongoCommand cmdDoc;
              (case a of None \<Rightarrow> Some (Continue (c, credCount))
               | Some a \<Rightarrow> mongo_auth c credCount reqID a) }) })) })"

definition handleMongoDB :: "hconn \<Rightarrow> hconn go" where
  "handleMongoDB c = hloop mongo_step (c, 0)"

lemma mongo_doc_total: "\<exists>d. mongo_doc opCode body = Some d"
  by (auto simp: mongo_doc_def Let_def)

lemma mongo_auth_outcome:
  "touched c0 c \<Longrightarrow> length (inp c) < length (inp c0) \<Longrightarrow>
    outcome (round_ok (\<lambda>(c, n). left n) fst (c0, n)) (mongo_auth c n reqID a)"
  unfolding mongo_auth_def on_mongo_msg_def Let_def case_prod_beta
  by (intro outcome_intros) (auto simp: touched_def spends_alt left_def)

lemma mongo_step_ok: "outcome (round_ok (\<lambda>(c, n). left n) fst s) (mongo_step s)"
proof (cases s)
  case (Pair c n)
  obtain D where "\<forall>op b. mongo_doc op b = Some (D op b)" using mongo_doc_total by metis
  moreover obtain P where "\<forall>d. parseMongoCommand d = Some (P d)" using parseMongoCommand_total by metis
  ultimately show ?thesis
    unfolding Pair mongo_step.simps
    by (intro outcome_intros)
       (auto simp: touched_def spends_none intro!: outcome_intros mongo_auth_outcome split: option.split)
qed

lemma handles_mongodb: "handles handleMongoDB"
proof (rule handlesI)
  fix c
  show "outcome (spends credsPerConnLimit 0 c) (handleMongoDB c)"
    using hloop_outcome [OF mongo_step_ok, of "(c, 0)"] by (simp add: handleMongoDB_def left_def)
qed

subsection \<open>What a client sends and what is captured\<close>

definition bson_elem :: "byte \<Rightarrow> bytes \<Rightarrow> bytes \<Rightarrow> bytes" where
  "bson_elem typ name val = typ # name @ NUL # val"

definition bson_doc :: "bytes list \<Rightarrow> bytes" where
  "bson_doc els = le_bytes 4 (5 + length (concat els)) @ concat els @ [NUL]"

definition bson_string :: "bytes \<Rightarrow> bytes" where
  "bson_string s = le_bytes 4 (length s + 1) @ s @ [NUL]"

definition bson_binary :: "bytes \<Rightarrow> bytes" where
  "bson_binary d = le_bytes 4 (length d) @ NUL # d"

lemma le_val_4: "n < 2 ^ 32 \<Longrightarrow> le_val (le_bytes 4 n) = n"
  by (simp add: le_val_bytes)

lemma skip_string:
  "length s < 2 ^ 31 \<Longrightarrow>
    skipBSONValue (pre @ bson_string s @ post) (length pre) (CHR 0x02) = Some (Some (length pre + length (bson_string s)))"
  by (simp add: skipBSONValue_def bson_string_def u32_at_def le_val_4 slice_def)

lemma skip_int32:
  "length v = 4 \<Longrightarrow>
    skipBSONValue (pre @ v @ post) (length pre) (CHR 0x10) = Some (Some (length pre + length v))"
  by (simp add: skipBSONValue_def)

lemma skip_binary:
  "length d < 2 ^ 31 \<Longrightarrow>
    skipBSONValue (pre @ bson_binary d @ post) (length pre) (CHR 0x05) = Some (Some (length pre + length (bson_binary d)))"
  by (simp add: skipBSONValue_def bson_binary_def u32_at_def le_val_4 slice_def)

lemma scan_elem:
  assumes "doc = pre @ bson_elem typ name val @ post" "NUL \<notin> set name" "length pre + length name + 2 \<le> tot"
  shows "scan_nul_to doc tot (length pre + 1) = length pre + 1 + length name"
proof -
  have "doc = (pre @ [typ]) @ name @ NUL # (val @ post)" by (simp add: assms(1) bson_elem_def)
  then have "take tot doc = (pre @ [typ]) @ name @ NUL # take (tot - (length pre + length name + 2)) (val @ post)"
    using assms(3) by (simp add: take_Cons')
  then show ?thesis
    using scan_nul_stop [OF assms(2), of "pre @ [typ]"] by (simp add: scan_nul_to_def)
qed

lemma scram_loop_elem:
  assumes d: "doc = pre @ bson_elem typ name val @ post" and n: "NUL \<notin> set name"
    and t: "length pre + length name + 2 < tot" "tot \<le> length doc"
    and k: "skipBSONValue doc (length pre + length name + 2) typ = Some (Some v)"
    and e: "scram_elem doc (length pre + length name + 2) typ name st = Some st'"
  shows "scram_loop doc tot (length pre) st = scram_loop doc tot v st'"
proof -
  have s: "scan_nul_to doc tot (length pre + 1) = length pre + 1 + length name"
    by (rule scan_elem [OF d n]) (use t in simp)
  have "doc ! length pre = typ" "take (length name) (drop (length pre + 1) doc) = name"
    by (simp_all add: d bson_elem_def)
  then show ?thesis
    using scram_loop_step [OF _ s _ t(2), of st] t(1) k e by (simp add: add.commute [of "Suc (length name)"])
qed

lemma cmd_loop_elem:
  assumes d: "doc = pre @ bson_elem typ name val @ post" and n: "NUL \<notin> set name"
    and t: "length pre + length name + 2 < tot" "tot \<le> length doc"
    and k: "skipBSONValue doc (length pre + length name + 2) typ = Some (Some v)"
    and e: "cmd_elem doc (length pre + length name + 2) typ name st = Some st'"
  shows "cmd_loop doc tot (length pre) st = cmd_loop doc tot v st'"
proof -
  have s: "scan_nul_to doc tot (length pre + 1) = length pre + 1 + length name"
    by (rule scan_elem [OF d n]) (use t in simp)
  have "doc ! length pre = typ" "take (length name) (drop (length pre + 1) doc) = name"
    by (simp_all add: d bson_elem_def)
  then show ?thesis
    using cmd_loop_step [OF _ s _ t(2), of st] t(1) k e by (simp add: add.commute [of "Suc (length name)"])
qed

lemma scram_elem_string:
  "length s < 2 ^ 31 \<Longrightarrow> scram_elem (pre @ bson_string s @ post) (length pre) (CHR 0x02) name st =
    Some (if name = ''user'' then (s, snd st) else if name = ''rnonce'' then (fst st, s) else st)"
  by (simp add: scram_elem_def bson_string_def u32_at_def le_val_4 slice_def)

definition scram_payload :: "bytes \<Rightarrow> bytes \<Rightarrow> bytes" where
  "scram_payload u r =
    bson_doc [bson_elem (CHR 0x02) ''user'' (bson_string u), bson_elem (CHR 0x02) ''rnonce'' (bson_string r)]"

lemma length_bson [simp]:
  "length (bson_string s) = length s + 5"
  "length (bson_binary s) = length s + 5"
  "length (bson_elem t n v) = length n + length v + 2"
  "length (bson_doc els) = 5 + length (concat els)"
  by (simp_all add: bson_string_def bson_binary_def bson_elem_def bson_doc_def)

lemma parseScramPayload_roundtrip:
  assumes "length u + length r < 2 ^ 20"
  shows "parseScramPayload (scram_payload u r) = Some (u, r)"
proof -
  define doc where "doc = scram_payload u r"
  define n where "n = length doc"
  define l4 where "l4 = le_bytes 4 n"
  define e1 where "e1 = bson_elem (CHR 0x02) ''user'' (bson_string u)"
  define e2 where "e2 = bson_elem (CHR 0x02) ''rnonce'' (bson_string r)"
  have n: "n = length u + length r + 29" by (simp add: n_def doc_def scram_payload_def)
  have d: "doc = l4 @ e1 @ e2 @ [NUL]"
    by (simp add: l4_def n) (simp add: doc_def scram_payload_def bson_doc_def e1_def e2_def add.commute)
  have l: "length l4 = 4" "length e1 = length u + 11" "length e2 = length r + 13"
    by (simp_all add: l4_def e1_def e2_def)
  have d1: "doc = (l4 @ [CHR 0x02] @ ''user'' @ [NUL]) @ bson_string u @ (e2 @ [NUL])"
    by (simp add: d e1_def bson_elem_def)
  have d2: "doc = (l4 @ e1 @ [CHR 0x02] @ ''rnonce'' @ [NUL]) @ bson_string r @ [NUL]"
    by (simp add: d e2_def bson_elem_def)
  have s1: "scram_loop doc n (length l4) ([], []) = scram_loop doc n (length u + 15) (u, [])"
  proof (rule scram_loop_elem)
    show "doc = l4 @ bson_elem (CHR 0x02) ''user'' (bson_string u) @ (e2 @ [NUL])" by (simp add: d e1_def)
    show "skipBSONValue doc (length l4 + length ''user'' + 2) (CHR 0x02) = Some (Some (length u + 15))"
      using skip_string [of u "l4 @ [CHR 0x02] @ ''user'' @ [NUL]" "e2 @ [NUL]"] assms l
      unfolding d1 [symmetric] by (simp add: add.commute)
    show "scram_elem doc (length l4 + length ''user'' + 2) (CHR 0x02) ''user'' ([], []) = Some (u, [])"
      using scram_elem_string [of u "l4 @ [CHR 0x02] @ ''user'' @ [NUL]" "e2 @ [NUL]" "''user''"] assms l
      unfolding d1 [symmetric] by (simp add: add.commute)
  qed (use n l n_def in simp_all)
  have s2: "scram_loop doc n (length (l4 @ e1)) (u, []) = scram_loop doc n (n - 1) (u, r)"
  proof (rule scram_loop_elem)
    show "doc = (l4 @ e1) @ bson_elem (CHR 0x02) ''rnonce'' (bson_string r) @ [NUL]" by (simp add: d e2_def)
    show "skipBSONValue doc (length (l4 @ e1) + length ''rnonce'' + 2) (CHR 0x02) = Some (Some (n - 1))"
      using skip_string [of r "l4 @ e1 @ [CHR 0x02] @ ''rnonce'' @ [NUL]" "[NUL]"] assms l n
      unfolding d2 [symmetric] by (simp add: add.commute)
    show "scram_elem doc (length (l4 @ e1) + length ''rnonce'' + 2) (CHR 0x02) ''rnonce'' (u, []) = Some (u, r)"
      using scram_elem_string [of r "l4 @ e1 @ [CHR 0x02] @ ''rnonce'' @ [NUL]" "[NUL]" "''rnonce''"] assms l
      unfolding d2 [symmetric] by (simp add: add.commute)
  qed (use n l n_def in simp_all)
  have s3: "scram_loop doc n (n - 1) (u, r) = Some (u, r)"
    by (rule scram_loop_stop) (simp_all add: n_def)
  have "u32_at doc 0 = Some n"
    using assms n l by (simp add: d u32_at_def l4_def le_val_4 slice_def)
  then have "parseScramPayload doc = Some (u, r)"
    using s1 s2 s3 n l by (simp add: parseScramPayload_def n_def [symmetric] add.commute)
  then show ?thesis by (simp add: doc_def)
qed

text \<open>An authentication command carrying such a payload.\<close>

definition sasl_start :: "bytes \<Rightarrow> bytes" where
  "sasl_start payload =
    bson_doc [bson_elem (CHR 0x10) ''saslStart'' (le_bytes 4 1), bson_elem (CHR 0x05) ''payload'' (bson_binary payload)]"

lemma cmd_elem_payload:
  "length d < 2 ^ 31 \<Longrightarrow> parseScramPayload d = Some (u, r) \<Longrightarrow>
    cmd_elem (pre @ bson_binary d @ post) (length pre) (CHR 0x05) ''payload'' st =
      Some (let st = (if u \<noteq> [] then st\<lparr>mc_user := u\<rparr> else st) in if r \<noteq> [] then st\<lparr>mc_rnonce := r\<rparr> else st)"
  by (simp add: cmd_elem_def bson_binary_def u32_at_def le_val_4 slice_def index_def nth_append Let_def)

lemma parse_sasl_start:
  assumes "length p < 2 ^ 20" "parseScramPayload p = Some (u, r)"
  shows "parseMongoCommand (sasl_start p) = Some (Some (''saslStart'', u, r))"
proof -
  define doc where "doc = sasl_start p"
  define n where "n = length doc"
  define l4 where "l4 = le_bytes 4 n"
  define e1 where "e1 = bson_elem (CHR 0x10) ''saslStart'' (le_bytes 4 1)"
  define e2 where "e2 = bson_elem (CHR 0x05) ''payload'' (bson_binary p)"
  define st0 where "st0 = \<lparr>mc_cmd = [], mc_user = [], mc_rnonce = [], mc_auth = False\<rparr>"
  define st1 where "st1 = st0\<lparr>mc_auth := True, mc_cmd := ''saslStart''\<rparr>"
  define st2 where "st2 = st1\<lparr>mc_user := u, mc_rnonce := r\<rparr>"
  have n: "n = length p + 34" by (simp add: n_def doc_def sasl_start_def)
  have d: "doc = l4 @ e1 @ e2 @ [NUL]"
    by (simp add: l4_def n) (simp add: doc_def sasl_start_def bson_doc_def e1_def e2_def add.commute)
  have l: "length l4 = 4" "length e1 = 15" "length e2 = length p + 14"
    by (simp_all add: l4_def e1_def e2_def)
  have d1: "doc = (l4 @ [CHR 0x10] @ ''saslStart'' @ [NUL]) @ le_bytes 4 1 @ (e2 @ [NUL])"
    by (simp add: d e1_def bson_elem_def)
  have d2: "doc = (l4 @ e1 @ [CHR 0x05] @ ''payload'' @ [NUL]) @ bson_binary p @ [NUL]"
    by (simp add: d e2_def bson_elem_def)
  have s1: "cmd_loop doc n (length l4) st0 = cmd_loop doc n 19 st1"
  proof (rule cmd_loop_elem)
    show "doc = l4 @ bson_elem (CHR 0x10) ''saslStart'' (le_bytes 4 1) @ (e2 @ [NUL])" by (simp add: d e1_def)
    show "skipBSONValue doc (length l4 + length ''saslStart'' + 2) (CHR 0x10) = Some (Some 19)"
      using skip_int32 [of "le_bytes 4 1" "l4 @ [CHR 0x10] @ ''saslStart'' @ [NUL]" "e2 @ [NUL]"] l
      unfolding d1 [symmetric] by (simp add: add.commute)
    show "cmd_elem doc (length l4 + length ''saslStart'' + 2) (CHR 0x10) ''saslStart'' st0 = Some st1"
      by (simp add: cmd_elem_def st1_def)
  qed (use n l n_def in simp_all)
  have s2: "cmd_loop doc n (length (l4 @ e1)) st1 = cmd_loop doc n (n - 1) st2"
  proof (rule cmd_loop_elem)
    show "doc = (l4 @ e1) @ bson_elem (CHR 0x05) ''payload'' (bson_binary p) @ [NUL]" by (simp add: d e2_def)
    show "skipBSONValue doc (length (l4 @ e1) + length ''payload'' + 2) (CHR 0x05) = Some (Some (n - 1))"
      using skip_binary [of p "l4 @ e1 @ [CHR 0x05] @ ''payload'' @ [NUL]" "[NUL]"] assms l n
      unfolding d2 [symmetric] by (simp add: add.commute)
    show "cmd_elem doc (length (l4 @ e1) + length ''payload'' + 2) (CHR 0x05) ''payload'' st1 = Some st2"
      using cmd_elem_payload [OF _ assms(2), of "l4 @ e1 @ [CHR 0x05] @ ''payload'' @ [NUL]" "[NUL]" st1] assms(1) l
      unfolding d2 [symmetric] by (auto simp: add.commute st2_def st1_def st0_def Let_def)
  qed (use n l n_def in simp_all)
  have s3: "cmd_loop doc n (n - 1) st2 = Some st2"
    by (rule cmd_loop_stop) (simp_all add: n_def)
  have "u32_at doc 0 = Some n"
    using assms n l by (simp add: d u32_at_def l4_def le_val_4 slice_def)
  then have "parseMongoCommand doc = Some (Some (''saslStart'', u, r))"
    using s1 s2 s3 n l
    by (simp add: parseMongoCommand_def n_def [symmetric] st0_def [symmetric] add.commute)
       (simp add: st2_def st1_def)
  then show ?thesis by (simp add: doc_def)
qed

text \<open>
  The client-first message of RFC 5802 is text, not BSON: its first four bytes are a length no
  document has, so nothing is extracted from it.
\<close>

lemma parseScramPayload_text:
  "length s < 2 ^ 20 \<Longrightarrow> parseScramPayload (''n,,n='' @ s) = Some ([], [])"
  by (simp add: parseScramPayload_def u32_at_def slice_def bval_def)

subsection \<open>The refusal is well formed\<close>

lemma le_bytes_0: "le_bytes n 0 = replicate n NUL"
proof -
  have "mkbyte 0 = NUL" using mkbyte_bval [of NUL] by (simp add: bval_def)
  then show ?thesis by (induction n) simp_all
qed

lemma mongo_msg_layout:
  assumes "length e < 2 ^ 20" "reqID < 2 ^ 32"
  shows "le_val (take 4 (mongo_msg (buildMongoReply e) reqID)) = length (mongo_msg (buildMongoReply e) reqID)"
    and "le_val (take 4 (drop 8 (mongo_msg (buildMongoReply e) reqID))) = reqID"
    and "drop 21 (mongo_msg (buildMongoReply e) reqID) =
      bson_doc [bson_elem (CHR 0x10) ''ok'' (le_bytes 4 0), bson_elem (CHR 0x02) ''errmsg'' (bson_string e)]"
  using assms
  by (simp_all add: mongo_msg_def buildMongoReply_def buildBSONAuthFail_def Let_def le_val_4 bson_doc_def
      bson_elem_def bson_string_def le_bytes_0 add.commute)

interpretation mongodb: proto_handler handleMongoDB
  by unfold_locales (rule handles_mongodb)

end
