(* ===== verification/HpSmb.thy ===== *)
theory HpSmb
  imports HpMongo
begin

text \<open>
  \<^verbatim>\<open>internal/honeypot/smb.go\<close>: the SMB2 frames, the NTLMSSP AUTHENTICATE parser, the negotiate
  and error responses, the handler. Offsets and lengths come from the peer; every slice is
  checked here.
\<close>

subsection \<open>UTF-16LE fields\<close>

fun le_units :: "bytes \<Rightarrow> nat list" where
  "le_units (a # b # s) = (bval a + 256 * bval b) # le_units s"
| "le_units _ = []"

definition utf16leToString :: "bytes \<Rightarrow> nat \<Rightarrow> nat \<Rightarrow> bytes go" where
  "utf16leToString b off len =
    (if length b < off + len \<or> odd len then Some []
     else do {
       f \<leftarrow> slice off (off + len) b;
       Some (encode_runes (utf16_decode (takeWhile (\<lambda>u. u \<noteq> 0) (le_units f)))) })"

definition utf16le :: "nat list \<Rightarrow> bytes" where
  "utf16le rs = concat (map (le_bytes 2) (utf16_encode rs))"

lemma utf16leToString_total: "\<exists>s. utf16leToString b off len = Some s"
  by (auto simp: utf16leToString_def)

lemma le_units_bytes: "\<forall>u\<in>set us. u < 65536 \<Longrightarrow> le_units (concat (map (le_bytes 2) us)) = us"
proof (induction us)
  case (Cons u us)
  have "le_bytes 2 u = [mkbyte u, mkbyte (u div 256)]" by (simp add: numeral_2_eq_2)
  moreover have "u div 256 mod 256 = u div 256" "u mod 256 + 256 * (u div 256) = u"
    using Cons.prems by (auto simp: less_mult_imp_div_less)
  ultimately show ?case using Cons by simp
qed simp

lemma utf16_encode_bounds:
  "\<forall>r\<in>set rs. is_scalar r \<and> r \<noteq> 0 \<Longrightarrow> u \<in> set (utf16_encode rs) \<Longrightarrow> 0 < u \<and> u < 65536"
proof (induction rs)
  case (Cons r rs)
  have "\<forall>v\<in>set (utf16_encode_rune r). 0 < v \<and> v < 65536"
  proof (cases "r < 0x10000")
    case False
    have "(r - 0x10000) div 1024 < 1024" using Cons.prems(1) False by (auto simp: is_scalar_def)
    moreover have "(r - 0x10000) mod 1024 < 1024" by simp
    ultimately show ?thesis using False by (simp add: utf16_encode_rune_def)
  qed (use Cons.prems(1) in \<open>auto simp: utf16_encode_rune_def\<close>)
  then show ?case using Cons by (auto simp: utf16_encode_def)
qed (simp add: utf16_encode_def)

lemma even_length_utf16le: "even (length (utf16le rs))"
  by (simp add: utf16le_def length_concat comp_def sum_list_triv)

text \<open>A field written by a client is read back as its UTF-8 text.\<close>

lemma utf16leToString_field:
  assumes "\<forall>r\<in>set rs. is_scalar r \<and> r \<noteq> 0"
  shows "utf16leToString (pre @ utf16le rs @ post) (length pre) (length (utf16le rs)) = Some (encode_runes rs)"
proof -
  have u: "\<forall>u\<in>set (utf16_encode rs). 0 < u \<and> u < 65536"
    using utf16_encode_bounds [OF assms] by blast
  have l: "le_units (utf16le rs) = utf16_encode rs"
    unfolding utf16le_def using u by (intro le_units_bytes) auto
  have t: "takeWhile ((<) 0) (utf16_encode rs) = utf16_encode rs"
    using u by (simp add: takeWhile_eq_all_conv)
  have d: "utf16_decode (utf16_encode rs) = rs"
    using assms by (intro utf16_decode_encode) auto
  show ?thesis
    using even_length_utf16le [of rs] by (simp add: utf16leToString_def l t d)
qed

subsection \<open>The negotiate response\<close>

definition smb_pid :: bytes where
  "smb_pid = CHR 0xFE # ''SMB''"

definition smb_challenge :: bytes where
  "smb_challenge =
     ''NTLMSSP'' @ [NUL] @ le_bytes 4 2 @ replicate 8 NUL @ le_bytes 4 0x00088201 @ ''HPCHALNG''
     @ replicate 8 NUL @ replicate 8 NUL @ [mkbyte 6, mkbyte 1, NUL, NUL, NUL, NUL, NUL, NUL]"

definition smb_negotiate_body :: bytes where
  "smb_negotiate_body =
     [mkbyte 64, NUL] @ [CHR 0x01, NUL] @ [CHR 0x10, CHR 0x02] @ [NUL, NUL] @ ''1234567890ABCDEF''
     @ replicate 4 NUL @ [NUL, CHR 0x10, NUL, NUL] @ [NUL, CHR 0x10, NUL, NUL] @ [NUL, CHR 0x10, NUL, NUL]
     @ replicate 8 NUL @ replicate 8 NUL @ le_bytes 2 (64 + 62) @ le_bytes 2 (length smb_challenge) @ [NUL, NUL]"

definition buildSMB2NegotiateResponse :: "nat \<Rightarrow> bytes" where
  "buildSMB2NegotiateResponse msgID =
     smb_pid @ [mkbyte 64, NUL] @ [NUL, NUL] @ replicate 4 NUL @ [NUL, NUL] @ [mkbyte 1, NUL] @ replicate 4 NUL
     @ replicate 4 NUL @ le_bytes 8 msgID @ replicate 4 NUL @ replicate 4 NUL @ replicate 8 NUL @ replicate 16 NUL
     @ smb_negotiate_body @ smb_challenge"

definition writeSMB2Error :: "nat \<Rightarrow> nat \<Rightarrow> bytes" where
  "writeSMB2Error command status =
     smb_pid @ [mkbyte 64, NUL] @ [NUL, NUL] @ le_bytes 4 status @ le_bytes 2 command @ [mkbyte 1, NUL]
     @ replicate 8 NUL @ replicate 8 NUL @ replicate 8 NUL @ replicate 8 NUL @ replicate 16 NUL
     @ [mkbyte 9, NUL] @ [NUL] @ [NUL] @ replicate 4 NUL"

text \<open>The security buffer is where the response says it is, and the message id is echoed.\<close>

lemma smb_negotiate_layout:
  "le_val (take 2 (drop (64 + 56) (buildSMB2NegotiateResponse m))) = 126"
  "drop 126 (buildSMB2NegotiateResponse m) = smb_challenge"
  "le_val (take 2 (drop (64 + 58) (buildSMB2NegotiateResponse m))) = length smb_challenge"
  "take 8 (drop 24 (buildSMB2NegotiateResponse m)) = le_bytes 8 m"
  by (simp_all add: buildSMB2NegotiateResponse_def smb_pid_def smb_negotiate_body_def smb_challenge_def
      le_val_bytes)

subsection \<open>Authentication messages\<close>

text \<open>Length and offset of a field; both are read below byte 64 of the message.\<close>

definition ntlm_field :: "bytes \<Rightarrow> nat \<Rightarrow> (nat \<times> nat) go" where
  "ntlm_field b pos = do {
     l \<leftarrow> slice pos (pos + 2) b;
     off \<leftarrow> slice (pos + 4) (pos + 8) b;
     Some (le_val off, le_val l) }"

definition parseNTLMSSPAuth :: "bytes \<Rightarrow> (bytes \<times> bytes \<times> bytes) option go" where
  "parseNTLMSSPAuth b =
    (if length b < 12 then Some None
     else do {
       sig \<leftarrow> slice_to 8 b;
       mt \<leftarrow> slice 8 12 b;
       (if sig \<noteq> ''NTLMSSP'' @ [NUL] then Some None
        else if le_val mt \<noteq> 3 then Some None
        else if length b < 64 then Some None
        else do {
          (domOff, domLen) \<leftarrow> ntlm_field b 28;
          (userOff, userLen) \<leftarrow> ntlm_field b 36;
          (ntOff, ntLen) \<leftarrow> ntlm_field b 20;
          user \<leftarrow> utf16leToString b userOff userLen;
          domain \<leftarrow> utf16leToString b domOff domLen;
          ntResp \<leftarrow> (if 0 < ntLen \<and> ntOff + ntLen \<le> length b then do {
                       f \<leftarrow> slice ntOff (ntOff + ntLen) b;
                       Some (hex_encode f) }
                     else Some []);
          Some (if user = [] \<and> ntResp = [] then None else Some (user, domain, ntResp)) }) })"

lemma ntlm_field_Some:
  "pos + 8 \<le> length b \<Longrightarrow>
    ntlm_field b pos = Some (le_val (take 4 (drop (pos + 4) b)), le_val (take 2 (drop pos b)))"
  by (simp add: ntlm_field_def)

lemma parseNTLMSSPAuth_total: "\<exists>r. parseNTLMSSPAuth b = Some r"
proof -
  obtain U where "\<forall>b i l. utf16leToString b i l = Some (U b i l)" using utf16leToString_total by metis
  then show ?thesis by (auto simp: parseNTLMSSPAuth_def ntlm_field_Some)
qed

text \<open>The AUTHENTICATE message of a client: the 64-byte header and the three fields it sends.\<close>

definition ntlm_auth :: "bytes \<Rightarrow> bytes \<Rightarrow> bytes \<Rightarrow> bytes" where
  "ntlm_auth domf user nt =
     ''NTLMSSP'' @ [NUL] @ le_bytes 4 3 @ replicate 8 NUL
     @ le_bytes 2 (length nt) @ le_bytes 2 (length nt) @ le_bytes 4 (64 + length domf + length user)
     @ le_bytes 2 (length domf) @ le_bytes 2 (length domf) @ le_bytes 4 64
     @ le_bytes 2 (length user) @ le_bytes 2 (length user) @ le_bytes 4 (64 + length domf)
     @ replicate 20 NUL @ domf @ user @ nt"

lemma le_val_2: "n < 65536 \<Longrightarrow> le_val (le_bytes 2 n) = n"
  by (simp add: le_val_bytes)

lemma parseNTLMSSPAuth_roundtrip:
  assumes "\<forall>r\<in>set ds. is_scalar r \<and> r \<noteq> 0" "\<forall>r\<in>set us. is_scalar r \<and> r \<noteq> 0" "us \<noteq> []"
    "length (utf16le ds) < 65536" "length (utf16le us) < 65536" "length nt < 65536"
  shows "parseNTLMSSPAuth (ntlm_auth (utf16le ds) (utf16le us) nt)
    = Some (Some (encode_runes us, encode_runes ds, hex_encode nt))"
proof -
  define d where "d = utf16le ds"
  define u where "u = utf16le us"
  define b where "b = ntlm_auth d u nt"
  have l: "length d < 65536" "length u < 65536" using assms by (simp_all add: d_def u_def)
  obtain h where b: "b = h @ d @ u @ nt" "length h = 64"
    by (rule that [of "take 64 b"]) (simp_all add: b_def ntlm_auth_def)
  have f1: "ntlm_field b 28 = Some (64, length d)"
    using l by (simp add: ntlm_field_Some b_def ntlm_auth_def le_val_2 le_val_4)
  have f2: "ntlm_field b 36 = Some (64 + length d, length u)"
    using l by (simp add: ntlm_field_Some b_def ntlm_auth_def le_val_2 le_val_4)
  have f3: "ntlm_field b 20 = Some (64 + length d + length u, length nt)"
    using l assms(6) by (simp add: ntlm_field_Some b_def ntlm_auth_def le_val_2 le_val_4)
  have d: "utf16leToString b 64 (length d) = Some (encode_runes ds)"
    using utf16leToString_field [OF assms(1), of h "u @ nt"] by (simp add: b d_def)
  have u: "utf16leToString b (64 + length d) (length u) = Some (encode_runes us)"
    using utf16leToString_field [OF assms(2), of "h @ d" nt] by (simp add: b u_def)
  have n: "0 < length nt \<and> 64 + length d + length u + length nt \<le> length b \<Longrightarrow>
      slice (64 + length d + length u) (64 + length d + length u + length nt) b = Some nt"
    by (simp add: b)
  have s: "slice_to 8 b = Some (''NTLMSSP'' @ [NUL])" "slice 8 12 b = Some (le_bytes 4 3)"
    by (simp_all add: b_def ntlm_auth_def slice_to_def slice_def)
  have lb: "length b = 64 + length d + length u + length nt" by (simp add: b)
  have e: "encode_runes us \<noteq> []" using assms(3) by (cases us) (simp_all add: encode_runes_def)
  have "parseNTLMSSPAuth b = Some (Some (encode_runes us, encode_runes ds, hex_encode nt))"
    using lb e n
    by (cases nt) (simp_all add: parseNTLMSSPAuth_def s f1 f2 f3 d u le_val_4 hex_encode_def
        del: slice_Some slice_to_Some)
  then show ?thesis by (simp add: b_def d_def u_def)
qed

subsection \<open>Frames\<close>

text \<open>
  The body of a message by command; None: read error or malformed. The last branch reads what is
  available, at most 4096 bytes (the handler never takes it).
\<close>

definition readSMB2Body :: "bytes \<Rightarrow> hconn \<Rightarrow> bytes option \<times> hconn" where
  "readSMB2Body hdr c =
    (let cmd = le_val (take 2 (drop 8 hdr)) in
     if cmd = 0x0000 then
       (case readFull 28 c of (None, c) \<Rightarrow> (None, c)
        | (Some body, c) \<Rightarrow>
           let count = le_val (take 2 (drop 2 body)) in
           if 64 < count then (None, c)
           else (case readFull (count * 2) c of (None, c) \<Rightarrow> (None, c) | (Some _, c) \<Rightarrow> (Some body, c)))
     else if cmd = 0x0001 then
       (case readFull 24 c of (None, c) \<Rightarrow> (None, c)
        | (Some fixed, c) \<Rightarrow>
           let sbl = le_val (take 2 (drop 14 fixed)) in
           if 2 ^ 16 < sbl then (None, c)
           else (case readFull sbl c of (None, c) \<Rightarrow> (None, c) | (Some extra, c) \<Rightarrow> (Some (fixed @ extra), c)))
     else if inp c = [] then (None, c)
     else (Some (take 4096 (inp c)), c\<lparr>inp := drop 4096 (inp c)\<rparr>))"

definition on_body :: "(hconn \<Rightarrow> 'r) \<Rightarrow> bytes \<Rightarrow> hconn \<Rightarrow> (bytes \<Rightarrow> hconn \<Rightarrow> 'r go) \<Rightarrow> 'r go" where
  "on_body ret hdr c k = (case readSMB2Body hdr c of (None, c') \<Rightarrow> Some (ret c') | (Some b, c') \<Rightarrow> k b c')"

lemma touched_body: "readSMB2Body hdr c = (r, c') \<Longrightarrow> touched c c'"
proof -
  assume r: "readSMB2Body hdr c = (r, c')"
  obtain b1 c1 where 1: "readFull 28 c = (b1, c1)" by force
  obtain b2 c2 where 2: "readFull (le_val (take 2 (drop 2 (the b1))) * 2) c1 = (b2, c2)" by force
  obtain b3 c3 where 3: "readFull 24 c = (b3, c3)" by force
  obtain b4 c4 where 4: "readFull (le_val (take 2 (drop 14 (the b3)))) c3 = (b4, c4)" by force
  have "c' \<in> {c1, c2, c3, c4, c, c\<lparr>inp := drop 4096 (inp c)\<rparr>}"
    using r 1 2 3 4
    by (cases b1; cases b2; cases b3; cases b4) (auto simp: readSMB2Body_def Let_def split: if_splits)
  moreover have "touched c c1" "touched c1 c2" "touched c c3" "touched c3 c4"
    using 1 2 3 4 touched_readFull by blast+
  ultimately show ?thesis by (auto simp: touched_def)
qed

lemma outcome_on_body [outcome_intros]:
  assumes "\<And>c'. touched c c' \<Longrightarrow> Q (ret c')" "\<And>b c'. touched c c' \<Longrightarrow> outcome Q (k b c')"
  shows "outcome Q (on_body ret hdr c k)"
proof -
  obtain r c' where r: "readSMB2Body hdr c = (r, c')" by force
  show ?thesis using assms touched_body [OF r] r by (cases r) (auto simp: on_body_def)
qed

subsection \<open>The handler\<close>

definition smb_extra :: bytes where
  "smb_extra = ''NTLMv2 Response hash'' @ encode_runes [0xFF08] @ ''NTProofStr+SHA-256 ''
     @ encode_runes [0x94FE, 0xFF0C, 0x4E0D, 0x53EF, 0x9006, 0xFF09]"

text \<open>The security buffer of a SESSION_SETUP body: None inside closes the connection.\<close>

definition smb_security :: "bytes \<Rightarrow> bytes option go" where
  "smb_security body =
    (if length body < 24 then Some None
     else do {
       ob \<leftarrow> slice 12 14 body;
       lb \<leftarrow> slice 14 16 body;
       let secOff = le_val ob;
       let secLen = le_val lb;
       (if secOff < 64 \<or> 64 + length body < secOff + secLen then Some None
        else do { b \<leftarrow> slice (secOff - 64) (secOff - 64 + secLen) body; Some (Some b) }) })"

definition smb_step :: "hconn \<Rightarrow> hconn hstep go" where
  "smb_step c =
    on_full Return 4 c (\<lambda>pid c.
    if pid \<noteq> smb_pid then Some (Return c)
    else on_full Return 60 c (\<lambda>hdr c. do {
      cb \<leftarrow> slice 8 10 hdr;
      mb \<leftarrow> slice 20 28 hdr;
      let cmd = le_val cb;
      let msgID = le_val mb;
      (if cmd = 0x0000 then
         on_body Return hdr c (\<lambda>_ c.
         on_write Return (buildSMB2NegotiateResponse msgID) c (\<lambda>c. Some (Continue c)))
       else if cmd = 0x0001 then
         on_body Return hdr c (\<lambda>body c. do {
           sec \<leftarrow> smb_security body;
           (case sec of None \<Rightarrow> Some (Return c)
            | Some ntlm \<Rightarrow> do {
                a \<leftarrow> parseNTLMSSPAuth ntlm;
                (case a of None \<Rightarrow> Some (Continue c)
                 | Some (user, domain, ntResp) \<Rightarrow>
                    let username = (if domain \<noteq> [] then domain @ [CHR 0x5C] @ user else user) in
                    Some (Return (write_ignore (writeSMB2Error 0x0001 0xC000006D)
                      (rec_cred username ntResp smb_extra c)))) }) })
       else Some (Return c)) }))"

definition handleSMB :: "hconn \<Rightarrow> hconn go" where
  "handleSMB c = hloop smb_step c"

lemma smb_security_total: "\<exists>r. smb_security body = Some r"
  by (auto simp: smb_security_def Let_def)

lemma smb_step_ok: "outcome (round_ok (\<lambda>_. credsPerConnLimit) (\<lambda>c. c) c) (smb_step c)"
proof -
  obtain P where "\<forall>b. parseNTLMSSPAuth b = Some (P b)" using parseNTLMSSPAuth_total by metis
  moreover obtain S where "\<forall>b. smb_security b = Some (S b)" using smb_security_total by metis
  ultimately show ?thesis
    unfolding smb_step_def Let_def
    by (intro outcome_intros)
       (auto simp: touched_def spends_alt credsPerConnLimit_def intro!: outcome_intros split: option.split)
qed

lemma handles_smb: "handles handleSMB"
proof (rule handlesI)
  fix c
  show "outcome (spends credsPerConnLimit 0 c) (handleSMB c)"
    using hloop_outcome [OF smb_step_ok, of c] by (simp add: handleSMB_def)
qed

text \<open>
  SMB2 over TCP starts with a transport header, a zero byte and a length of three bytes. The
  handler expects the protocol identifier first.
\<close>

lemma smb_transport_header:
  assumes "inp c = NUL # s" "3 \<le> length s"
  shows "handleSMB c = Some (c\<lparr>inp := drop 3 s\<rparr>)"
proof -
  have "smb_step c = Some (Return (c\<lparr>inp := drop 3 s\<rparr>))"
    using assms by (simp add: smb_step_def on_full_enough smb_pid_def take_Cons')
  then show ?thesis by (simp add: handleSMB_def hloop_unfold)
qed

interpretation smb: proto_handler handleSMB
  by unfold_locales (rule handles_smb)

end
