(* ===== verification/HpMssql.thy ===== *)
theory HpMssql
  imports HpSmb
begin

text \<open>
  \<^verbatim>\<open>internal/honeypot/mssql.go\<close>: TDS packets, the prelogin and login-failed responses, the LOGIN7
  parser, the password de-obfuscation, the handler.
\<close>

subsection \<open>Packets\<close>

text \<open>The packet type followed by the payload; None: read error or malformed length.\<close>

definition readTDSPacket :: "hconn \<Rightarrow> bytes option \<times> hconn" where
  "readTDSPacket c =
    (case readFull 8 c of (None, c) \<Rightarrow> (None, c)
     | (Some hdr, c) \<Rightarrow>
        let len = be_val (take 2 (drop 2 hdr)) in
        if len < 8 \<or> 65536 < len then (None, c)
        else (case readFull (len - 8) c of (None, c) \<Rightarrow> (None, c)
          | (Some payload, c) \<Rightarrow> (Some (take 1 hdr @ payload), c)))"

definition writeTDSPacket :: "byte \<Rightarrow> bytes \<Rightarrow> bytes" where
  "writeTDSPacket pktType payload =
    [pktType, CHR 0x01] @ be_bytes 2 (8 + length payload) @ [NUL, NUL] @ [CHR 0x01] @ [NUL] @ payload"

function pad4 :: "bytes \<Rightarrow> bytes" where
  "pad4 b = (if length b mod 4 \<noteq> 0 then pad4 (b @ [NUL]) else b)"
  by pat_completeness auto
termination
proof (relation "measure (\<lambda>b. (4 - length b mod 4) mod 4)")
  fix b :: bytes
  assume a: "length b mod 4 \<noteq> 0"
  have "(4 - (length b + 1) mod 4) mod 4 < (4 - length b mod 4) mod 4"
    using a by (simp add: mod_Suc) presburger
  then show "(b @ [NUL], b) \<in> measure (\<lambda>b. (4 - length b mod 4) mod 4)" by simp
qed simp

declare pad4.simps [simp del]

definition buildPreloginResponse :: bytes where
  "buildPreloginResponse = pad4
     ([NUL] @ be_bytes 2 16 @ [NUL, CHR 0x08] @ [CHR 0x01] @ be_bytes 2 (16 + 8) @ [NUL, CHR 0x01]
      @ [NUL, NUL, NUL, NUL, NUL] @ [NUL]
      @ [CHR 0x07, CHR 0x04, NUL, NUL, NUL, NUL, NUL, NUL] @ [NUL])"

definition writeTDSLoginFailed :: "bytes \<Rightarrow> bytes go" where
  "writeTDSLoginFailed user = do {
     user \<leftarrow> (if 256 < length user then slice_to 256 user else Some user);
     let msg = ''Login failed for user '' @ [CHR 0x27] @ user @ [CHR 0x27] @ ''. (Microsoft SQL Server, Error: 18456)'';
     Some (writeTDSPacket (CHR 0x04)
       ([CHR 0xAA] @ be_bytes 2 (4 + 1 + 1 + length msg + 1) @ be_bytes 4 18456 @ [CHR 0x01] @ [mkbyte 14]
        @ msg @ [NUL])) }"

subsection \<open>LOGIN7\<close>

text \<open>One entry of the offset table; False stops the loop.\<close>

definition login7_entry :: "bytes \<Rightarrow> nat \<Rightarrow> bytes \<times> bytes \<Rightarrow> (bool \<times> bytes \<times> bytes) go" where
  "login7_entry data i st =
    (let base = 36 + i * 4 in
     if length data < base + 4 then Some (False, st)
     else do {
       ob \<leftarrow> slice base (base + 2) data;
       lb \<leftarrow> slice (base + 2) (base + 4) data;
       let off = be_val ob;
       let len = be_val lb;
       (if len = 0 \<or> length data < off + len then Some (True, st)
        else do {
          val \<leftarrow> slice off (off + len) data;
          (if i = 1 then do { u \<leftarrow> utf16leToString val 0 len; Some (True, u, snd st) }
           else if i = 2 then Some (True, fst st, val)
           else Some (True, st)) }) })"

fun login7_entries :: "bytes \<Rightarrow> nat list \<Rightarrow> bytes \<times> bytes \<Rightarrow> (bytes \<times> bytes) go" where
  "login7_entries data [] st = Some st"
| "login7_entries data (i # is) st = do {
     (go_on, st') \<leftarrow> login7_entry data i st;
     (if go_on then login7_entries data is st' else Some st') }"

text \<open>User and obfuscated password; a nil password is the empty one (an entry is never empty).\<close>

definition parseLogin7 :: "bytes \<Rightarrow> (bytes \<times> bytes) option go" where
  "parseLogin7 data =
    (if length data < 36 then Some None
     else if length data < 36 + 12 then Some None
     else do {
       (user, obf) \<leftarrow> login7_entries data [0, 1, 2, 3, 4] ([], []);
       Some (if user = [] \<and> obf = [] then None else Some (user, obf)) })"

lemma login7_entry_total: "\<exists>r. login7_entry data i st = Some r"
proof -
  obtain U where "\<forall>b j l. utf16leToString b j l = Some (U b j l)" using utf16leToString_total by metis
  then show ?thesis by (auto simp: login7_entry_def Let_def)
qed

lemma login7_entries_total: "\<exists>r. login7_entries data is st = Some r"
proof (induction data "is" st rule: login7_entries.induct)
  case (2 data i "is" st)
  obtain g st' where "login7_entry data i st = Some (g, st')" using login7_entry_total by (metis surj_pair)
  then show ?case using 2 [of "(g, st')" g st'] by (cases g) auto
qed simp

lemma parseLogin7_total: "\<exists>r. parseLogin7 data = Some r"
proof -
  obtain st where "login7_entries data [0, 1, 2, 3, 4] ([], []) = Some st" using login7_entries_total by metis
  then show ?thesis by (cases st) (simp add: parseLogin7_def del: login7_entries.simps)
qed

text \<open>
  The offsets of MS-TDS are little-endian. Read as big-endian, the offset of a client is past the
  end of any message shorter than 256 bytes: nothing is parsed.
\<close>

definition tds_entry :: "nat \<Rightarrow> nat \<Rightarrow> bytes" where
  "tds_entry off len = le_bytes 2 off @ le_bytes 2 len"

lemma login7_entry_far:
  "36 + i * 4 + 4 \<le> length data \<Longrightarrow> length data < be_val (take 2 (drop (36 + i * 4) data)) \<Longrightarrow>
    login7_entry data i st = Some (True, st)"
  by (simp add: login7_entry_def Let_def)

lemma be_val_le_bytes: "off < 256 \<Longrightarrow> be_val (le_bytes 2 off) = off * 256"
  by (simp add: numeral_2_eq_2)

lemma parseLogin7_little_endian:
  assumes d: "data = fixed @ concat (map (\<lambda>(off, len). tds_entry off len) es) @ rest"
    and f: "length fixed = 36" "length es = 5" "length data < 256" "\<forall>(off, len)\<in>set es. 0 < off \<and> off < 256"
  shows "parseLogin7 data = Some None"
proof -
  have e: "login7_entry data i st = Some (True, st)" if "i < 5" for i st
  proof -
    obtain off len where n: "es ! i = (off, len)" by force
    then have o: "0 < off" "off < 256" using f(2,4) that by (metis (no_types, lifting) case_prodD nth_mem)+
    have es: "es = take i es @ (off, len) # drop (Suc i) es" using id_take_nth_drop [of i es] that f(2) n by metis
    have l: "length (concat (map (\<lambda>(off, len). tds_entry off len) xs)) = 4 * length xs" for xs
      by (induction xs) (auto simp: tds_entry_def)
    let ?f = "\<lambda>(off, len). tds_entry off len"
    have "data = (fixed @ concat (map ?f (take i es))) @ tds_entry off len @ concat (map ?f (drop (Suc i) es)) @ rest"
      unfolding d by (subst es) simp
    then have t: "take 2 (drop (36 + i * 4) data) = le_bytes 2 off" "36 + i * 4 + 4 \<le> length data"
      using l [of "take i es"] f(1,2) that by (simp_all add: tds_entry_def)
    then show ?thesis
      using o f(3) by (intro login7_entry_far) (simp_all add: be_val_le_bytes)
  qed
  have "48 \<le> length data"
  proof -
    have "length (concat (map (\<lambda>(off, len). tds_entry off len) xs)) = 4 * length xs" for xs
      by (induction xs) (auto simp: tds_entry_def)
    then show ?thesis using f(1,2) by (simp add: d)
  qed
  then show ?thesis by (simp add: parseLogin7_def e)
qed

subsection \<open>Password obfuscation\<close>

definition swap_nibbles :: "u8 \<Rightarrow> u8" where
  "swap_nibbles x = push_bit 4 (x AND 0x0F) OR drop_bit 4 (x AND 0xF0)"

definition deob_byte :: "byte \<Rightarrow> byte" where
  "deob_byte b = (let x = (of_nat (bval b) :: u8) XOR 0xA5 in mkbyte (unat (swap_nibbles x)))"

text \<open>The checks of one pass over the code units: ASCII printable or a tab.\<close>

definition plain_unit :: "nat \<Rightarrow> bool" where
  "plain_unit code \<longleftrightarrow> \<not> ((code < 0x20 \<and> code \<noteq> 9) \<or> 0x7E < code)"

definition deobfuscateTDSPassword :: "bytes \<Rightarrow> bytes option" where
  "deobfuscateTDSPassword obf =
    (if obf = [] \<or> odd (length obf) then None
     else let raw = map deob_byte obf; u = le_units raw in
       if \<forall>code\<in>set u. plain_unit code then Some (encode_runes (utf16_decode u)) else None)"

text \<open>The client side of [MS-TDS]: exchange the nibbles of each UTF-16LE byte, then XOR 0xA5.\<close>

definition ob_byte :: "byte \<Rightarrow> byte" where
  "ob_byte b = mkbyte (unat (swap_nibbles (of_nat (bval b)) XOR 0xA5))"

definition obfuscate :: "bytes \<Rightarrow> bytes" where
  "obfuscate pw = concat (map (\<lambda>c. [ob_byte c, ob_byte NUL]) pw)"

definition plain_password :: "bytes \<Rightarrow> bool" where
  "plain_password pw \<longleftrightarrow> pw \<noteq> [] \<and> (\<forall>c\<in>set pw. plain_unit (bval c))"

lemma word_of_byte: "(of_nat (bval (mkbyte (unat w))) :: u8) = w" for w :: u8
proof -
  have "unat w < 256" using unsigned_less [of w, where ?'a = nat] by simp
  then show ?thesis by simp
qed

lemma byte_of_word: "mkbyte (unat (of_nat (bval b) :: u8)) = b"
  by (simp add: unat_of_nat)

lemma swap_swap: "swap_nibbles (swap_nibbles w) = w"
proof -
  have c: "(0x0F :: u8) = mask 4" "(0xF0 :: u8) = push_bit 4 (mask 4)"
    by (simp_all add: mask_eq_exp_minus_1 push_bit_eq_mult)
  show ?thesis
    unfolding swap_nibbles_def c
    by (rule bit_word_eqI) (auto simp: bit_simps)
qed

lemma deob_ob [simp]: "deob_byte (ob_byte b) = b"
  by (simp only: deob_byte_def ob_byte_def Let_def word_of_byte xor.assoc xor_self_eq xor.right_neutral
      swap_swap byte_of_word)

lemma ob_deob [simp]: "ob_byte (deob_byte b) = b"
  by (simp only: deob_byte_def ob_byte_def Let_def word_of_byte swap_swap xor.assoc xor_self_eq
      xor.right_neutral byte_of_word)

lemma le_units_ascii: "le_units (concat (map (\<lambda>c. [c, NUL]) q)) = map bval q"
  by (induction q) (simp_all add: bval_def)

lemma le_units_plain:
  "even (length raw) \<Longrightarrow> \<forall>code\<in>set (le_units raw). plain_unit code \<Longrightarrow>
    \<exists>q. raw = concat (map (\<lambda>c. [c, NUL]) q) \<and> (\<forall>c\<in>set q. plain_unit (bval c))"
proof (induction raw rule: le_units.induct)
  case (1 a b s)
  have p: "bval a + 256 * bval b \<le> 126" "plain_unit (bval a + 256 * bval b)"
    using 1(3) by (auto simp: plain_unit_def)
  then have "bval b = 0" by linarith
  moreover have "bval NUL = 0" by (simp add: bval_def)
  ultimately have "b = NUL" by (metis bval_inj)
  obtain q where "s = concat (map (\<lambda>c. [c, NUL]) q)" "\<forall>c\<in>set q. plain_unit (bval c)"
    using 1 by auto
  then show ?case
    using \<open>b = NUL\<close> \<open>bval b = 0\<close> p(2) by (intro exI [of _ "a # q"]) simp
qed (auto intro: exI [of _ "[]"])

lemma utf16_decode_plain: "\<forall>u\<in>set us. u < 0xD800 \<Longrightarrow> utf16_decode us = us"
  by (induction us rule: utf16_decode.induct) auto

lemma encode_runes_ascii: "\<forall>c\<in>set q. bval c < 128 \<Longrightarrow> encode_runes (map bval q) = q"
  by (induction q) (auto simp: encode_runes_def encode_rune_def encode_scalar_def is_scalar_def)

lemma decode_plain:
  "\<forall>c\<in>set q. plain_unit (bval c) \<Longrightarrow> encode_runes (utf16_decode (map bval q)) = q"
  by (subst utf16_decode_plain) (auto simp: plain_unit_def intro!: encode_runes_ascii)

lemma deob_obfuscate: "map deob_byte (obfuscate q) = concat (map (\<lambda>c. [c, NUL]) q)"
  by (induction q) (simp_all add: obfuscate_def)

lemma ob_concat: "map ob_byte (concat (map (\<lambda>c. [c, NUL]) q)) = obfuscate q"
  by (induction q) (simp_all add: obfuscate_def)

lemma length_obfuscate [simp]: "length (obfuscate q) = 2 * length q"
  by (induction q) (simp_all add: obfuscate_def)

lemma deobfuscate_exact:
  "deobfuscateTDSPassword obf = Some p \<longleftrightarrow> plain_password p \<and> obf = obfuscate p"
proof
  assume p: "plain_password p \<and> obf = obfuscate p"
  then have "\<forall>code\<in>set (map bval p). plain_unit code" by (auto simp: plain_password_def)
  moreover have "even (length obf)" using p by simp
  moreover have "obf \<noteq> []" using p length_obfuscate [of p] by (force simp: plain_password_def)
  ultimately show "deobfuscateTDSPassword obf = Some p"
    using p by (simp add: deobfuscateTDSPassword_def deob_obfuscate le_units_ascii decode_plain)
next
  assume d: "deobfuscateTDSPassword obf = Some p"
  let ?raw = "map deob_byte obf"
  have o: "obf \<noteq> []" "even (length obf)" "\<forall>code\<in>set (le_units ?raw). plain_unit code"
    "p = encode_runes (utf16_decode (le_units ?raw))"
    using d by (auto simp: deobfuscateTDSPassword_def Let_def split: if_splits)
  then obtain q where q: "?raw = concat (map (\<lambda>c. [c, NUL]) q)" "\<forall>c\<in>set q. plain_unit (bval c)"
    using le_units_plain [of ?raw] by auto
  then have "p = q" using o(4) by (simp add: le_units_ascii decode_plain)
  moreover have "obf = map ob_byte ?raw" by (simp add: comp_def)
  then have "obf = obfuscate q" using q(1) ob_concat by metis
  moreover have "q \<noteq> []" using \<open>obf = obfuscate q\<close> o(1) by (auto simp: obfuscate_def)
  ultimately show "plain_password p \<and> obf = obfuscate p" using q(2) by (simp add: plain_password_def)
qed

subsection \<open>The handler\<close>

definition tds_plain_extra :: bytes where
  "tds_plain_extra = ''TDS '' @ encode_runes [0x6DF7, 0x6DC6, 0x5BC6, 0x7801, 0x5DF2, 0x8FD8, 0x539F, 0x660E, 0x6587, 0xFF08]
     @ ''nibble-swap + XOR 0xA5 '' @ encode_runes [0x53EF, 0x9006, 0x6DF7, 0x6DC6, 0xFF09]"

definition tds_hex_extra :: bytes where
  "tds_hex_extra = ''TDS '' @ encode_runes [0x6DF7, 0x6DC6, 0x5BC6, 0x7801, 0x8FD8, 0x539F, 0x5931, 0x8D25, 0xFF08, 0x975E,
     0x53EF, 0x6253, 0x5370] @ ''/'' @ encode_runes [0x7578, 0x5F62, 0xFF09, 0xFF0C, 0x8BB0, 0x5F55] @ '' hex ''
     @ encode_runes [0x6458, 0x8981]"

definition tds_record :: "bytes \<Rightarrow> bytes \<Rightarrow> hconn \<Rightarrow> hconn" where
  "tds_record user obf c =
    (case deobfuscateTDSPassword obf of
       Some pass \<Rightarrow> rec_cred user pass tds_plain_extra c
     | None \<Rightarrow> rec_cred user (hex_encode obf) tds_hex_extra c)"

definition mssql_step :: "hconn \<Rightarrow> hconn hstep go" where
  "mssql_step c =
    (case readTDSPacket c of (None, c) \<Rightarrow> Some (Return c)
     | (Some pkt, c) \<Rightarrow>
        if length pkt < 1 then Some (Continue c)
        else do {
          t \<leftarrow> index 0 pkt;
          (if t = CHR 0x12 then
             on_write Return (writeTDSPacket (CHR 0x04) buildPreloginResponse) c (\<lambda>c. Some (Continue c))
           else if t = CHR 0x10 then do {
             d \<leftarrow> slice_from 1 pkt;
             r \<leftarrow> parseLogin7 d;
             (case r of None \<Rightarrow> Some (Continue c)
              | Some (user, obf) \<Rightarrow> do {
                  let c = tds_record user obf c;
                  m \<leftarrow> writeTDSLoginFailed user;
                  Some (Return (write_ignore m c)) }) }
           else if t = CHR 0x02 then Some (Return c)
           else Some (Continue c)) })"

definition handleMSSQL :: "hconn \<Rightarrow> hconn go" where
  "handleMSSQL c = hloop mssql_step c"

lemma readTDSPacket_Some:
  "readTDSPacket c = (Some p, c') \<Longrightarrow> recs c' = recs c \<and> length (inp c') < length (inp c) \<and> p \<noteq> []"
proof -
  assume r: "readTDSPacket c = (Some p, c')"
  obtain h c1 where 1: "readFull 8 c = (Some h, c1)"
    using r by (auto simp: readTDSPacket_def split: prod.splits option.splits)
  obtain b where 2: "readFull (be_val (take 2 (drop 2 h)) - 8) c1 = (Some b, c')" "p = take 1 h @ b"
    using r by (auto simp: readTDSPacket_def 1 Let_def split: prod.splits option.splits if_splits)
  show ?thesis
    using touched_readFull [OF 1] readFull_Some [OF 1] touched_readFull [OF 2(1)] 2(2)
    by (auto simp: touched_def)
qed

lemma readTDSPacket_None: "readTDSPacket c = (None, c') \<Longrightarrow> recs c' = recs c"
proof -
  assume r: "readTDSPacket c = (None, c')"
  obtain h c1 where 1: "readFull 8 c = (h, c1)" by force
  obtain b c2 where 2: "readFull (be_val (take 2 (drop 2 (the h))) - 8) c1 = (b, c2)" by force
  have "c' = c1 \<or> c' = c2"
    using r 1 2 by (cases h; cases b) (auto simp: readTDSPacket_def Let_def split: if_splits)
  then show ?thesis using touched_readFull [OF 1] touched_readFull [OF 2] by (auto simp: touched_def)
qed

lemma recs_tds: "\<exists>x. recs (tds_record u b c) = recs c @ [x]"
  by (simp add: tds_record_def split: option.split)

lemma writeTDSLoginFailed_total: "\<exists>m. writeTDSLoginFailed u = Some m"
  by (simp add: writeTDSLoginFailed_def)

lemma mssql_step_ok: "outcome (round_ok (\<lambda>_. credsPerConnLimit) (\<lambda>c. c) c) (mssql_step c)"
proof -
  obtain p c1 where r: "readTDSPacket c = (p, c1)" by force
  obtain P where P: "\<forall>b. parseLogin7 b = Some (P b)" using parseLogin7_total by metis
  obtain M where M: "\<forall>b. writeTDSLoginFailed b = Some (M b)" using writeTDSLoginFailed_total by metis
  show ?thesis
  proof (cases p)
    case None
    then show ?thesis using r readTDSPacket_None [of c c1] by (simp add: mssql_step_def spends_none)
  next
    case (Some pkt)
    have t: "recs c1 = recs c" "length (inp c1) < length (inp c)" "pkt \<noteq> []"
      using readTDSPacket_Some r Some by blast+
    have "spends credsPerConnLimit 0 c (write_ignore m (tds_record u b c1))" for m u b
      using t(1) recs_tds [of u b c1] by (auto simp: spends_def credsPerConnLimit_def)
    moreover have "outcome (round_ok (\<lambda>_. credsPerConnLimit) (\<lambda>c. c) c)
        (on_write Return (writeTDSPacket (CHR 0x04) buildPreloginResponse) c1 (\<lambda>c. Some (Continue c)))"
      using t by (intro outcome_intros) (auto simp: touched_def spends_none)
    ultimately show ?thesis
      using t r Some by (auto simp: mssql_step_def P M Let_def spends_none not_less Suc_le_eq split: option.split)
  qed
qed

lemma handles_mssql: "handles handleMSSQL"
proof (rule handlesI)
  fix c
  show "outcome (spends credsPerConnLimit 0 c) (handleMSSQL c)"
    using hloop_outcome [OF mssql_step_ok, of c] by (simp add: handleMSSQL_def)
qed

interpretation mssql: proto_handler handleMSSQL
  by unfold_locales (rule handles_mssql)

end
