(* ===== verification/HpRateLimit.thy ===== *)
theory HpRateLimit
  imports Events
begin

text \<open>
  \<^verbatim>\<open>internal/honeypot/ratelimit.go\<close>: the fixed-window limiter per source address. Instants are
  nanoseconds; one call reads the clock once. The bucket map is an association list with
  distinct keys (the source takes its length); the order of its entries is never observed.
\<close>

record ip_bucket =
  bk_count :: nat
  bk_reset :: int

record ip_limiter =
  il_limit :: nat
  il_window :: int
  il_buckets :: "(u32 \<times> ip_bucket) list"
  il_calls :: nat

definition rateLimiterMaxBuckets :: nat where
  "rateLimiterMaxBuckets = 10000"

definition newIPRateLimiter :: "nat \<Rightarrow> int \<Rightarrow> ip_limiter" where
  "newIPRateLimiter limit window = \<lparr>il_limit = limit, il_window = window, il_buckets = [], il_calls = 0\<rparr>"

definition sweep :: "int \<Rightarrow> ip_limiter \<Rightarrow> ip_limiter" where
  "sweep now r =
    (let bs = filter (\<lambda>(ip, b). \<not> bk_reset b < now) (il_buckets r) in
     r\<lparr>il_buckets := (if rateLimiterMaxBuckets < length bs then [] else bs)\<rparr>)"

text \<open>The bucket a call works on: the stored one, or a fresh window.\<close>

definition current_bucket :: "int \<Rightarrow> u32 \<Rightarrow> ip_limiter \<Rightarrow> ip_bucket" where
  "current_bucket now ip r =
    (case map_of (il_buckets r) ip of
       None \<Rightarrow> \<lparr>bk_count = 0, bk_reset = now + il_window r\<rparr>
     | Some b \<Rightarrow> if bk_reset b < now then \<lparr>bk_count = 0, bk_reset = now + il_window r\<rparr> else b)"

definition allow :: "int \<Rightarrow> u32 \<Rightarrow> ip_limiter \<Rightarrow> bool \<times> ip_limiter" where
  "allow now ip r =
    (let b = current_bucket now ip r;
         r1 = r\<lparr>il_buckets := AList.update ip b (il_buckets r)\<rparr> in
     if il_limit r \<le> bk_count b then (False, r1)
     else
       let r2 = r1\<lparr>il_buckets := AList.update ip (b\<lparr>bk_count := bk_count b + 1\<rparr>) (il_buckets r1),
                   il_calls := il_calls r1 + 1\<rparr> in
       (True, if il_calls r2 mod 1024 = 0 \<or> rateLimiterMaxBuckets < length (il_buckets r2) then sweep now r2 else r2))"

text \<open>A sequence of calls (instant, address), with the addresses that were let in.\<close>

fun allows :: "(int \<times> u32) list \<Rightarrow> ip_limiter \<Rightarrow> u32 list \<times> ip_limiter" where
  "allows [] r = ([], r)"
| "allows ((t, ip) # cs) r =
    (let q = allow t ip r; rest = allows cs (snd q)
     in (if fst q then ip # fst rest else fst rest, snd rest))"

subsection \<open>Invariant\<close>

definition limiter_ok :: "ip_limiter \<Rightarrow> bool" where
  "limiter_ok r \<longleftrightarrow> distinct (map fst (il_buckets r)) \<and> 0 < il_limit r \<and>
     length (il_buckets r) \<le> rateLimiterMaxBuckets \<and>
     (\<forall>(ip, b)\<in>set (il_buckets r). bk_count b \<le> il_limit r)"

lemma limiter_ok_new: "0 < limit \<Longrightarrow> limiter_ok (newIPRateLimiter limit window)"
  by (simp add: limiter_ok_def newIPRateLimiter_def)

lemma allow_fields [simp]:
  "il_limit (snd (allow t ip r)) = il_limit r" "il_window (snd (allow t ip r)) = il_window r"
  by (auto simp: allow_def sweep_def Let_def)

lemma sweep_buckets:
  "il_buckets (sweep now r) = [] \<or>
   il_buckets (sweep now r) = filter (\<lambda>(ip, b). \<not> bk_reset b < now) (il_buckets r)"
  by (simp add: sweep_def Let_def)

lemma length_sweep: "length (il_buckets (sweep now r)) \<le> rateLimiterMaxBuckets"
  by (simp add: sweep_def Let_def)

lemma distinct_filter_keys: "distinct (map fst xs) \<Longrightarrow> distinct (map fst (filter P xs))"
  by (induction xs) (auto simp: image_iff)

lemma count_current: "limiter_ok r \<Longrightarrow> bk_count (current_bucket t ip r) \<le> il_limit r"
  by (auto simp: limiter_ok_def current_bucket_def split: option.splits dest: map_of_SomeD)

lemma set_AList_update: "set (AList.update k v xs) \<subseteq> insert (k, v) (set xs)"
  by (induction xs) auto

lemma length_AList_update:
  "length (AList.update k v xs) = (if k \<in> fst ` set xs then length xs else length xs + 1)"
  using arg_cong [OF AList.update_keys [of k v xs], of length] by (auto split: if_splits)

text \<open>The two outcomes of a call: refused and unchanged, or let in and counted.\<close>

definition counted :: "int \<Rightarrow> u32 \<Rightarrow> ip_limiter \<Rightarrow> ip_limiter" where
  "counted t ip r = r\<lparr>il_buckets := AList.update ip ((current_bucket t ip r)\<lparr>bk_count := bk_count (current_bucket t ip r) + 1\<rparr>)
     (il_buckets r), il_calls := il_calls r + 1\<rparr>"

lemma allow_refused:
  assumes "limiter_ok r" "il_limit r \<le> bk_count (current_bucket t ip r)"
  shows "allow t ip r = (False, r)" "map_of (il_buckets r) ip = Some (current_bucket t ip r)"
    "\<not> bk_reset (current_bucket t ip r) < t"
proof -
  have "0 < il_limit r" using assms(1) by (simp add: limiter_ok_def)
  then obtain b where b: "map_of (il_buckets r) ip = Some b" "\<not> bk_reset b < t" "current_bucket t ip r = b"
    using assms(2) by (cases "map_of (il_buckets r) ip") (auto simp: current_bucket_def split: if_splits)
  then show "map_of (il_buckets r) ip = Some (current_bucket t ip r)" "\<not> bk_reset (current_bucket t ip r) < t"
    by simp_all
  show "allow t ip r = (False, r)"
    using assms(2) b by (simp add: allow_def AList.update_triv)
qed

lemma allow_counted:
  assumes "bk_count (current_bucket t ip r) < il_limit r"
  shows "allow t ip r = (True, if il_calls (counted t ip r) mod 1024 = 0 \<or>
      rateLimiterMaxBuckets < length (il_buckets (counted t ip r)) then sweep t (counted t ip r) else counted t ip r)"
  using assms by (simp add: allow_def counted_def Let_def)

lemma limiter_ok_sweep:
  "distinct (map fst (il_buckets r)) \<Longrightarrow> 0 < il_limit r \<Longrightarrow> (\<forall>(ip, b)\<in>set (il_buckets r). bk_count b \<le> il_limit r) \<Longrightarrow>
    limiter_ok (sweep t r)"
  using length_sweep [of t r] by (auto simp: limiter_ok_def sweep_def Let_def distinct_filter_keys)

lemma limiter_ok_allow:
  assumes r: "limiter_ok r"
  shows "limiter_ok (snd (allow t ip r))"
proof (cases "bk_count (current_bucket t ip r) < il_limit r")
  case True
  have d: "distinct (map fst (il_buckets (counted t ip r)))"
    using r by (simp add: counted_def limiter_ok_def AList.distinct_update)
  have c: "\<forall>(ip, b)\<in>set (il_buckets (counted t ip r)). bk_count b \<le> il_limit (counted t ip r)"
  proof -
    have "set (il_buckets (counted t ip r)) \<subseteq>
        insert (ip, (current_bucket t ip r)\<lparr>bk_count := bk_count (current_bucket t ip r) + 1\<rparr>) (set (il_buckets r))"
      using set_AList_update by (simp add: counted_def)
    then show ?thesis using r True by (auto simp: limiter_ok_def counted_def)
  qed
  show ?thesis
    using allow_counted [OF True] d c r limiter_ok_sweep [of "counted t ip r" t]
    by (auto simp: limiter_ok_def counted_def)
qed (use r allow_refused [OF r] in simp)

lemma limiter_ok_allows: "limiter_ok r \<Longrightarrow> limiter_ok (snd (allows cs r))"
  by (induction cs r rule: allows.induct) (simp_all add: Let_def limiter_ok_allow)

subsection \<open>How many connections one address gets\<close>

text \<open>No call finds more live buckets than the limiter keeps, so it never starts afresh.\<close>

definition no_purge :: "u32 set \<Rightarrow> ip_limiter \<Rightarrow> bool" where
  "no_purge ips r \<longleftrightarrow> finite ips \<and> card ips \<le> rateLimiterMaxBuckets \<and> fst ` set (il_buckets r) \<subseteq> ips"

lemma length_buckets_card: "distinct (map fst xs) \<Longrightarrow> length xs = card (fst ` set xs)"
  by (metis distinct_card length_map set_map)

lemma counted_keys: "fst ` set (il_buckets (counted t ip r)) = insert ip (fst ` set (il_buckets r))"
  by (simp add: counted_def AList.dom_update)

lemma sweep_no_purge:
  assumes "no_purge ips r" "distinct (map fst (il_buckets r))"
  shows "il_buckets (sweep t r) = filter (\<lambda>(ip, b). \<not> bk_reset b < t) (il_buckets r)"
proof -
  have "card (fst ` set (il_buckets r)) \<le> card ips"
    using assms(1) by (intro card_mono) (auto simp: no_purge_def)
  then have "length (filter (\<lambda>(ip, b). \<not> bk_reset b < t) (il_buckets r)) \<le> rateLimiterMaxBuckets"
    using length_filter_le [of _ "il_buckets r"] length_buckets_card [OF assms(2)] assms(1)
    by (metis no_purge_def order_trans)
  then show ?thesis by (simp add: sweep_def Let_def)
qed

lemma map_of_filter_keep:
  "distinct (map fst xs) \<Longrightarrow> map_of (filter P xs) k =
    (case map_of xs k of Some v \<Rightarrow> if P (k, v) then Some v else None | None \<Rightarrow> None)"
proof (induction xs)
  case (Cons a xs)
  obtain x y where a: "a = (x, y)" by force
  have "x = k \<Longrightarrow> map_of xs k = None" using Cons.prems a by (auto simp: map_of_eq_None_iff)
  then show ?case using Cons a by (auto split: option.splits)
qed simp

text \<open>What one call does to the bucket of an address.\<close>

lemma allow_bucket:
  assumes r: "limiter_ok r" and p: "no_purge ips r" "ip \<in> ips"
  shows "no_purge ips (snd (allow t ip r))"
    and "map_of (il_buckets (snd (allow t ip r))) k \<in>
      (let m = (if k = ip \<and> fst (allow t ip r)
          then Some ((current_bucket t ip r)\<lparr>bk_count := bk_count (current_bucket t ip r) + 1\<rparr>)
          else map_of (il_buckets r) k)
       in {m} \<union> (case m of Some b \<Rightarrow> if bk_reset b < t then {None} else {} | None \<Rightarrow> {}))"
proof -
  let ?c = "counted t ip r"
  have d: "distinct (map fst (il_buckets ?c))"
    using r by (simp add: counted_def limiter_ok_def AList.distinct_update)
  have pc: "no_purge ips ?c"
    using p by (auto simp: no_purge_def counted_keys)
  have m: "map_of (il_buckets ?c) k = (if k = ip
      then Some ((current_bucket t ip r)\<lparr>bk_count := bk_count (current_bucket t ip r) + 1\<rparr>)
      else map_of (il_buckets r) k)"
    by (simp add: counted_def AList.update_conv)
  have s: "map_of (il_buckets (sweep t ?c)) k =
      (case map_of (il_buckets ?c) k of Some v \<Rightarrow> if \<not> bk_reset v < t then Some v else None | None \<Rightarrow> None)"
    by (simp add: map_of_filter_keep [OF d] sweep_no_purge [OF pc d] split: option.split)
  have ps: "no_purge ips (sweep t ?c)"
    using pc by (auto simp: no_purge_def sweep_no_purge [OF pc d])
  show "no_purge ips (snd (allow t ip r))"
    using allow_counted [of t ip r] allow_refused [OF r, of t ip] p(1) pc ps
    by (cases "bk_count (current_bucket t ip r) < il_limit r") auto
  show "map_of (il_buckets (snd (allow t ip r))) k \<in>
      (let m = (if k = ip \<and> fst (allow t ip r)
          then Some ((current_bucket t ip r)\<lparr>bk_count := bk_count (current_bucket t ip r) + 1\<rparr>)
          else map_of (il_buckets r) k)
       in {m} \<union> (case m of Some b \<Rightarrow> if bk_reset b < t then {None} else {} | None \<Rightarrow> {}))"
  proof (cases "bk_count (current_bucket t ip r) < il_limit r")
    case True
    then show ?thesis using m s by (auto simp: allow_counted Let_def split: option.split)
  next
    case False
    then show ?thesis using allow_refused [OF r, of t ip] by (simp add: Let_def)
  qed
qed

lemma current_live: "map_of (il_buckets r) ip = Some b \<Longrightarrow> \<not> bk_reset b < t \<Longrightarrow> current_bucket t ip r = b"
  by (simp add: current_bucket_def)

lemma fst_allow: "limiter_ok r \<Longrightarrow> fst (allow t ip r) \<longleftrightarrow> bk_count (current_bucket t ip r) < il_limit r"
  using allow_counted [of t ip r] allow_refused [of r t ip] by (cases "bk_count (current_bucket t ip r) < il_limit r") auto

text \<open>Within a window that is already open an address gets what is left of it.\<close>

lemma window_rest:
  "limiter_ok r \<Longrightarrow> no_purge ips r \<Longrightarrow> snd ` set cs \<subseteq> ips \<Longrightarrow> map_of (il_buckets r) k = Some b \<Longrightarrow>
    \<forall>t\<in>fst ` set cs. t \<le> bk_reset b \<Longrightarrow> count_list (fst (allows cs r)) k \<le> il_limit r - bk_count b"
proof (induction cs arbitrary: r b)
  case (Cons c cs)
  obtain t ip where c: "c = (t, ip)" by force
  let ?r = "snd (allow t ip r)"
  have live: "\<not> bk_reset b < t" using Cons.prems c by auto
  have ok: "limiter_ok ?r" "no_purge ips ?r"
    using limiter_ok_allow allow_bucket(1) Cons.prems c by auto
  have mem: "map_of (il_buckets ?r) k \<in>
      (let m = (if k = ip \<and> fst (allow t ip r)
          then Some ((current_bucket t ip r)\<lparr>bk_count := bk_count (current_bucket t ip r) + 1\<rparr>)
          else map_of (il_buckets r) k)
       in {m} \<union> (case m of Some b \<Rightarrow> if bk_reset b < t then {None} else {} | None \<Rightarrow> {}))"
    using allow_bucket(2) Cons.prems(1-3) c by simp
  show ?case
  proof (cases "k = ip \<and> fst (allow t ip r)")
    case True
    have cur: "current_bucket t ip r = b" using current_live Cons.prems(4) live True by simp
    then have m: "map_of (il_buckets ?r) k = Some (b\<lparr>bk_count := bk_count b + 1\<rparr>)"
      using mem True live by (simp add: Let_def)
    have "bk_count b < il_limit r" using fst_allow [OF Cons.prems(1)] True cur by auto
    then show ?thesis
      using Cons.IH [OF ok _ m] Cons.prems(3,5) c True by (simp add: Let_def)
  next
    case False
    then have m: "map_of (il_buckets ?r) k = Some b"
      using mem [unfolded if_not_P [OF False]] Cons.prems(4) live by (simp add: Let_def)
    have "count_list (fst (allows (c # cs) r)) k = count_list (fst (allows cs ?r)) k"
      using False c by (auto simp: Let_def)
    then show ?thesis using Cons.IH [OF ok _ m] Cons.prems(3,5) c by simp
  qed
qed simp

text \<open>Within any interval of one window an address gets the rest of an open window and one more.\<close>

lemma interval_bound:
  "limiter_ok r \<Longrightarrow> no_purge ips r \<Longrightarrow> snd ` set cs \<subseteq> ips \<Longrightarrow>
    \<forall>t\<in>fst ` set cs. e - il_window r \<le> t \<and> t \<le> e \<Longrightarrow>
    count_list (fst (allows cs r)) k \<le> il_limit r
      + (case map_of (il_buckets r) k of None \<Rightarrow> 0 | Some b \<Rightarrow> il_limit r - bk_count b)"
proof (induction cs arbitrary: r)
  case (Cons c cs)
  obtain t ip where c: "c = (t, ip)" by force
  let ?r = "snd (allow t ip r)"
  have t: "e - il_window r \<le> t" "t \<le> e" using Cons.prems(4) c by auto
  have ok: "limiter_ok ?r" "no_purge ips ?r"
    using limiter_ok_allow allow_bucket(1) Cons.prems c by auto
  have rest: "snd ` set cs \<subseteq> ips" "\<forall>t\<in>fst ` set cs. e - il_window ?r \<le> t \<and> t \<le> e"
    using Cons.prems(3,4) by auto
  have mem: "map_of (il_buckets ?r) k \<in>
      (let m = (if k = ip \<and> fst (allow t ip r)
          then Some ((current_bucket t ip r)\<lparr>bk_count := bk_count (current_bucket t ip r) + 1\<rparr>)
          else map_of (il_buckets r) k)
       in {m} \<union> (case m of Some b \<Rightarrow> if bk_reset b < t then {None} else {} | None \<Rightarrow> {}))"
    using allow_bucket(2) Cons.prems(1-3) c by simp
  show ?case
  proof (cases "k = ip \<and> fst (allow t ip r)")
    case False
    have "count_list (fst (allows (c # cs) r)) k = count_list (fst (allows cs ?r)) k"
      using False c by (auto simp: Let_def)
    moreover have "map_of (il_buckets ?r) k = map_of (il_buckets r) k \<or> map_of (il_buckets ?r) k = None"
      using mem [unfolded if_not_P [OF False]] by (auto simp: Let_def split: option.splits if_splits)
    ultimately show ?thesis using Cons.IH [OF ok rest] by (auto split: option.splits)
  next
    case True
    let ?b = "current_bucket t ip r"
    have lt: "bk_count ?b < il_limit r" using fst_allow [OF Cons.prems(1)] True by auto
    have live: "\<not> bk_reset ?b < t"
      using t by (auto simp: current_bucket_def split: option.split)
    have m: "map_of (il_buckets ?r) k = Some (?b\<lparr>bk_count := bk_count ?b + 1\<rparr>)"
      using mem True live by (simp add: Let_def)
    have n: "count_list (fst (allows (c # cs) r)) k = Suc (count_list (fst (allows cs ?r)) k)"
      using True c by (simp add: Let_def)
    show ?thesis
    proof (cases "map_of (il_buckets r) k = Some ?b")
      case True
      then show ?thesis using Cons.IH [OF ok rest] n m lt by simp
    next
      case False
      then have "bk_count ?b = 0" "bk_reset ?b = t + il_window r"
        using True by (auto simp: current_bucket_def split: option.splits if_splits)
      then have "count_list (fst (allows cs ?r)) k \<le> il_limit r - 1"
        using window_rest [OF ok rest(1) m] rest(2) t by fastforce
      then show ?thesis using n lt by linarith
    qed
  qed
qed simp

lemma allows_append:
  "fst (allows (xs @ ys) r) = fst (allows xs r) @ fst (allows ys (snd (allows xs r)))"
  by (induction xs r rule: allows.induct) (simp_all add: Let_def)

lemma allows_no_purge:
  "limiter_ok r \<Longrightarrow> no_purge ips r \<Longrightarrow> snd ` set cs \<subseteq> ips \<Longrightarrow> no_purge ips (snd (allows cs r))"
  by (induction cs r rule: allows.induct) (auto simp: Let_def limiter_ok_allow allow_bucket(1))

lemma allows_fields [simp]:
  "il_limit (snd (allows cs r)) = il_limit r" "il_window (snd (allows cs r)) = il_window r"
  by (induction cs r rule: allows.induct) (simp_all add: Let_def)

text \<open>When one address too many is let in, every counter is forgotten.\<close>

lemma purge_forgets:
  assumes "limiter_ok r" "length (il_buckets r) = rateLimiterMaxBuckets"
    and "\<forall>(k, b)\<in>set (il_buckets r). \<not> bk_reset b < t" "ip \<notin> fst ` set (il_buckets r)" "0 \<le> il_window r"
  shows "il_buckets (snd (allow t ip r)) = []"
proof -
  have cur: "current_bucket t ip r = \<lparr>bk_count = 0, bk_reset = t + il_window r\<rparr>"
    using assms(4) by (simp add: current_bucket_def map_of_eq_None_iff [THEN iffD2])
  let ?c = "counted t ip r"
  have s: "set (il_buckets ?c) \<subseteq> insert (ip, \<lparr>bk_count = 1, bk_reset = t + il_window r\<rparr>) (set (il_buckets r))"
    using set_AList_update by (simp add: counted_def cur)
  have "filter (\<lambda>(ip, b). \<not> bk_reset b < t) (il_buckets ?c) = il_buckets ?c"
    by (rule filter_id) (use s assms(3,5) in auto)
  moreover have "length (il_buckets ?c) = rateLimiterMaxBuckets + 1"
    using assms(2,4) by (simp add: counted_def length_AList_update)
  ultimately have "il_buckets (sweep t ?c) = []" by (simp add: sweep_def Let_def)
  then show ?thesis
    using allow_counted [of t ip r] assms(1) cur \<open>length (il_buckets ?c) = _\<close> by (simp add: limiter_ok_def)
qed

end
