(* ===== verification/HpServer.thy ===== *)
theory HpServer
  imports HpMssql HpRateLimit
begin

text \<open>
  \<^verbatim>\<open>internal/honeypot/honeypot.go\<close>: the protocol registry, the connection governance (limiter, then
  semaphore), the handling of one connection, the credential filter and its channel, and the
  start of the listeners.

  A running server is the record \<^verbatim>\<open>server\<close>; the semaphore is the number of tokens held. Steps that
  the source runs in concurrent goroutines are separate steps of the relation \<^verbatim>\<open>gov_step\<close>: each
  step touches the semaphore or the counter at most once, so every interleaving of them is covered.
\<close>

subsection \<open>The registry\<close>

datatype capture_kind = KindPlaintext | KindHash | KindNone

definition protoHandlers :: "bytes \<Rightarrow> (hconn \<Rightarrow> hconn go) option" where
  "protoHandlers = map_of
    [(''telnet'', handleTelnet), (''ftp'', handleFTP), (''redis'', handleRedis),
     (''postgres'', handlePostgres), (''mysql'', handleMySQL), (''mongodb'', handleMongoDB),
     (''mssql'', handleMSSQL), (''smb'', handleSMB), (''rdp'', handleRDP),
     (''memcached'', handleMemcached)]"

definition ProtoKinds :: "bytes \<Rightarrow> capture_kind option" where
  "ProtoKinds = map_of
    [(''telnet'', KindPlaintext), (''ftp'', KindPlaintext), (''redis'', KindPlaintext),
     (''postgres'', KindPlaintext), (''mssql'', KindPlaintext), (''mysql'', KindHash),
     (''mongodb'', KindHash), (''smb'', KindHash), (''rdp'', KindNone), (''memcached'', KindNone)]"

definition IsValidProto :: "bytes \<Rightarrow> bool" where
  "IsValidProto p = (ProtoKinds p \<noteq> None)"

definition KindOf :: "bytes \<Rightarrow> capture_kind option" where
  "KindOf p = ProtoKinds p"

definition DefaultListen :: "(bytes \<times> bytes) list" where
  "DefaultListen =
    [(''mysql'', ''0.0.0.0:3306''), (''redis'', ''0.0.0.0:6379''), (''memcached'', ''0.0.0.0:11211''),
     (''mssql'', ''0.0.0.0:1433''), (''mongodb'', ''0.0.0.0:27017''), (''postgres'', ''0.0.0.0:5432''),
     (''rdp'', ''0.0.0.0:3389''), (''smb'', ''0.0.0.0:445''), (''telnet'', ''0.0.0.0:23''),
     (''ftp'', ''0.0.0.0:21'')]"

lemma registered_handles: "protoHandlers p = Some h \<Longrightarrow> handles h"
  by (auto simp: protoHandlers_def handles_telnet handles_ftp handles_redis handles_postgres handles_mysql
      handles_mongodb handles_mssql handles_smb handles_rdp handles_memcached split: if_splits)

lemma registered_handler: "protoHandlers p = Some h \<Longrightarrow> proto_handler h"
  using registered_handles by unfold_locales

lemma dom_protoHandlers: "dom protoHandlers = dom ProtoKinds"
  by (auto simp: protoHandlers_def ProtoKinds_def)

subsection \<open>The credential filter\<close>

definition validCredText :: "bytes \<Rightarrow> bool" where
  "validCredText s \<longleftrightarrow> (\<forall>c\<in>set s. \<not> ((bval c < 0x20 \<and> c \<noteq> TAB) \<or> bval c = 0x7F))"

definition credTextMax :: nat where
  "credTextMax = 4096"

definition truncateCredText :: "bytes \<Rightarrow> bytes" where
  "truncateCredText s =
    (if length s \<le> credTextMax then s
     else let r = runes s in
       if length r \<le> credTextMax then s else encode_runes (take credTextMax r))"

lemma decode_rune_small: "fst (decode_rune s) < 128 \<Longrightarrow> s \<noteq> [] \<and> bval (hd s) = fst (decode_rune s)"
proof (cases s)
  case (Cons a t)
  assume r: "fst (decode_rune s) < 128"
  have e: "\<not> rune_error < 128" by (simp add: rune_error_def)
  have "bval a < 128"
  proof (rule ccontr)
    assume a: "\<not> bval a < 128"
    have 2: "194 \<le> bval a \<Longrightarrow> \<not> (bval a - 192) * 64 + n < 128" for n by simp
    have 3: "(bval a = 224 \<Longrightarrow> 160 \<le> y) \<Longrightarrow> 224 \<le> bval a \<Longrightarrow> \<not> (bval a - 224) * 4096 + (y - 128) * 64 + n < 128" for n y
      by (cases "bval a = 224") (simp, simp)
    have 4: "(bval a = 240 \<Longrightarrow> 144 \<le> y) \<Longrightarrow> 240 \<le> bval a \<Longrightarrow>
        \<not> (bval a - 240) * 262144 + (y - 128) * 4096 + n + m < 128" for n m y
      by (cases "bval a = 240") (simp, simp)
    show False
      using r a e 2 3 4 unfolding Cons
      by (simp add: Let_def del: Nat.add_diff_assoc Nat.add_diff_assoc2 split: list.splits if_splits)
  qed
  then show ?thesis using Cons by simp
qed (simp add: rune_error_def)

lemma encode_rune_bytes: "c \<in> set (encode_rune r) \<Longrightarrow> (r < 128 \<and> c = mkbyte r) \<or> 128 \<le> bval c"
  by (auto simp: encode_rune_def encode_scalar_def rune_error_def is_scalar_def split: if_splits)

lemma set_segs: "x \<in> set (segs s) \<Longrightarrow> set x \<subseteq> set s"
  using segs_concat [of s] by (metis UN_upper set_concat)

lemma validCredText_truncate: "validCredText s \<Longrightarrow> validCredText (truncateCredText s)"
proof -
  assume v: "validCredText s"
  have "\<not> ((bval c < 0x20 \<and> c \<noteq> TAB) \<or> bval c = 0x7F)"
    if c: "c \<in> set (encode_runes (take credTextMax (runes s)))" for c
  proof -
    obtain r where r: "r \<in> set (runes s)" "c \<in> set (encode_rune r)"
      using c by (auto simp: encode_runes_def dest: in_set_takeD)
    obtain x where x: "x \<in> set (segs s)" "r = fst (decode_rune x)" using r(1) by (auto simp: runes_def)
    from encode_rune_bytes [OF r(2)] show ?thesis
    proof
      assume a: "r < 128 \<and> c = mkbyte r"
      then have "x \<noteq> []" "bval (hd x) = r" using decode_rune_small [of x] x(2) by auto
      then have "c = hd x" using a by (metis mkbyte_bval)
      then have "c \<in> set s" using set_segs [OF x(1)] \<open>x \<noteq> []\<close> by auto
      then show ?thesis using v by (auto simp: validCredText_def)
    qed auto
  qed
  then show ?thesis using v by (auto simp: truncateCredText_def validCredText_def Let_def)
qed

lemma runes_truncate_le: "length (runes (truncateCredText s)) \<le> credTextMax"
  using length_segs_le [of s] by (auto simp: truncateCredText_def Let_def runes_def) (simp add: segs_encode_runes)

lemma length_truncate_le: "length (truncateCredText s) \<le> 4 * credTextMax"
proof (cases "length s \<le> credTextMax \<or> credTextMax < length (runes s)")
  case True
  then show ?thesis
    using length_encode_runes_le [of "take credTextMax (runes s)"]
    by (auto simp: truncateCredText_def Let_def)
next
  case False
  have "length s \<le> 4 * length (segs s)"
  proof -
    have "length x \<le> 4" if "x \<in> set (segs s)" for x
      using that
    proof (induction s rule: segs.induct)
      case (1 s)
      then have s: "s \<noteq> []" by auto
      have "rune_width s \<le> 4"
        by (cases s) (auto simp: rune_width_def Let_def split: list.splits)
      then show ?case using 1 s by (auto simp: segs_step [OF s])
    qed
    then have "sum_list (map length (segs s)) \<le> sum_list (map (\<lambda>_. 4) (segs s))"
      by (intro sum_list_mono) auto
    moreover have "length s = sum_list (map length (segs s))"
      using length_concat [of "segs s"] by simp
    ultimately show ?thesis by (simp add: sum_list_triv)
  qed
  then show ?thesis using False by (simp add: truncateCredText_def Let_def runes_def)
qed

subsection \<open>The server\<close>

definition maxConns :: nat where "maxConns = 200"
definition ipConnLimit :: nat where "ipConnLimit = 10"
definition ipWindow :: int where "ipWindow = minute"

record hp_stats =
  st_total :: int
  st_active :: int
  st_bytes :: int
  st_rejected :: int
  st_creds :: int

record server =
  sv_listen :: "(bytes \<times> bytes) list"
  sv_credch :: "cred_event chan option"
  sv_sys :: sysch
  sv_addrs :: "(bytes \<times> bytes) list"
  sv_sem :: nat
  sv_rl :: ip_limiter
  sv_rep :: rate_limiter
  sv_stats :: hp_stats

definition NewServer :: "(bytes \<times> bytes) list \<Rightarrow> cred_event chan option \<Rightarrow> sysch \<Rightarrow> server" where
  "NewServer listen credCh sys =
    \<lparr>sv_listen = listen, sv_credch = credCh, sv_sys = sys, sv_addrs = [], sv_sem = 0,
     sv_rl = newIPRateLimiter ipConnLimit ipWindow, sv_rep = NewRateLimiter minute,
     sv_stats = \<lparr>st_total = 0, st_active = 0, st_bytes = 0, st_rejected = 0, st_creds = 0\<rparr>\<rparr>"

text \<open>The remote address: None when it is nil or not a TCP address.\<close>

definition remoteIPv4 :: "bytes option \<Rightarrow> u32" where
  "remoteIPv4 ra = (case ra of None \<Rightarrow> 0 | Some ip \<Rightarrow> IPv4ToUint32 ip)"

text \<open>A rate-limited trace (\<^verbatim>\<open>s.rep.Report\<close>) and an unlimited one (\<^verbatim>\<open>event.ReportSys\<close>).\<close>

definition rep_report :: "int \<Rightarrow> bytes \<Rightarrow> bytes list \<Rightarrow> server \<Rightarrow> server" where
  "rep_report now level msg s =
    (let (r, sys) = Report now ''honeypot'' level msg (sv_rep s) (sv_sys s) in s\<lparr>sv_rep := r, sv_sys := sys\<rparr>)"

definition sys_report :: "int \<Rightarrow> bytes \<Rightarrow> bytes list \<Rightarrow> server \<Rightarrow> server" where
  "sys_report now level msg s = s\<lparr>sv_sys := ReportSys now ''honeypot'' level msg (sv_sys s)\<rparr>"

definition reject :: "server \<Rightarrow> server" where
  "reject s = s\<lparr>sv_stats := (sv_stats s)\<lparr>st_rejected := st_rejected (sv_stats s) + 1\<rparr>\<rparr>"

definition acceptConn :: "int \<Rightarrow> bytes \<Rightarrow> u32 \<Rightarrow> server \<Rightarrow> bool \<times> server" where
  "acceptConn now proto srcIP s =
    (let (ok, rl) = allow now srcIP (sv_rl s); s = s\<lparr>sv_rl := rl\<rparr> in
     if \<not> ok then
       (False, rep_report now ''info'' [''rate limited'', proto, Uint32ToIPv4 srcIP] (reject s))
     else if sv_sem s < maxConns then (True, s\<lparr>sv_sem := sv_sem s + 1\<rparr>)
     else (False, rep_report now ''warn'' [''too many connections'', proto, show_nat maxConns] (reject s)))"

definition emit :: "int \<Rightarrow> cred_event \<Rightarrow> server \<Rightarrow> server" where
  "emit now ev s =
    (let dropped = rep_report now ''warn'' [''credential channel full''] s in
     case sv_credch s of None \<Rightarrow> dropped
     | Some ch \<Rightarrow>
        let (sent, ch') = try_send ev ch in
        if sent then s\<lparr>sv_credch := Some ch', sv_stats := (sv_stats s)\<lparr>st_creds := st_creds (sv_stats s) + 1\<rparr>\<rparr>
        else dropped)"

text \<open>The parts of \<^verbatim>\<open>handleConn\<close>: its start, the credential callback, the byte count, its deferred end.\<close>

definition conn_start :: "int \<Rightarrow> bytes \<Rightarrow> u32 \<Rightarrow> server \<Rightarrow> server" where
  "conn_start now proto srcIP s =
    (let s = s\<lparr>sv_stats := (sv_stats s)\<lparr>st_total := st_total (sv_stats s) + 1, st_active := st_active (sv_stats s) + 1\<rparr>\<rparr>
     in rep_report now ''info'' [''connection'', proto, Uint32ToIPv4 srcIP] s)"

definition conn_rec :: "int \<Rightarrow> bytes \<Rightarrow> u32 \<Rightarrow> cred_event \<Rightarrow> server \<Rightarrow> server" where
  "conn_rec now proto srcIP ev s =
    (if \<not> validCredText (ce_user ev) \<or> \<not> validCredText (ce_pass ev) \<or> \<not> validCredText (ce_extra ev) then s
     else emit now \<lparr>ce_ts = unix now, ce_proto = proto, ce_src = srcIP, ce_user = truncateCredText (ce_user ev),
       ce_pass = truncateCredText (ce_pass ev), ce_extra = truncateCredText (ce_extra ev)\<rparr> s)"

definition conn_bytes :: "int \<Rightarrow> server \<Rightarrow> server" where
  "conn_bytes n s = s\<lparr>sv_stats := (sv_stats s)\<lparr>st_bytes := st_bytes (sv_stats s) + n\<rparr>\<rparr>"

text \<open>
  The deferred end is not atomic: the token goes back first, then the connection is closed, then
  the Active counter is decremented under the mutex.
\<close>

definition conn_release :: "server \<Rightarrow> server" where
  "conn_release s = s\<lparr>sv_sem := sv_sem s - 1\<rparr>"

definition conn_inactive :: "server \<Rightarrow> server" where
  "conn_inactive s = s\<lparr>sv_stats := (sv_stats s)\<lparr>st_active := st_active (sv_stats s) - 1\<rparr>\<rparr>"

definition conn_end :: "server \<Rightarrow> server" where
  "conn_end s = conn_inactive (conn_release s)"

text \<open>
  One connection from start to end. The clock is read for the start, for each credential and for
  a report; \<^verbatim>\<open>n\<close> is the number of bytes the counting wrapper has seen. A panic of the handler runs
  the deferred end and is reported; the bytes are then not added.
\<close>

definition run_recs :: "(nat \<Rightarrow> int) \<Rightarrow> bytes \<Rightarrow> u32 \<Rightarrow> cred_event list \<Rightarrow> server \<Rightarrow> server" where
  "run_recs clock proto srcIP evs s =
    fold (\<lambda>(i, ev). conn_rec (clock (i + 1)) proto srcIP ev) (enumerate 0 evs) s"

definition handleConn :: "(nat \<Rightarrow> int) \<Rightarrow> bytes \<Rightarrow> u32 \<Rightarrow> int \<Rightarrow> hconn \<Rightarrow> server \<Rightarrow> server" where
  "handleConn clock proto srcIP n c s =
    (let s1 = conn_start (clock 0) proto srcIP s in
     case protoHandlers proto of
       None \<Rightarrow> conn_end s1
     | Some h \<Rightarrow>
        (case h c of
           None \<Rightarrow> sys_report (clock 0) ''warn'' [''handler panic'', proto] (conn_end s1)
         | Some c' \<Rightarrow> conn_end (conn_bytes n (run_recs clock proto srcIP (recs c') s1))))"

text \<open>
  The start of the listeners: \<^verbatim>\<open>net.Listen\<close> is a parameter (the bound address or an error text);
  the map is walked in the given order.
\<close>

definition listen_one :: "int \<Rightarrow> (bytes \<Rightarrow> bytes + bytes) \<Rightarrow> bytes \<times> bytes \<Rightarrow> server \<Rightarrow> server" where
  "listen_one now net pa s =
    (let (proto, addr) = pa in
     if addr = [] then s
     else case net addr of
       Inr err \<Rightarrow> sys_report now ''warn'' [''listen failed'', proto, addr, err] s
     | Inl bound \<Rightarrow>
        sys_report now ''info'' [''listening'', proto, bound]
          (s\<lparr>sv_addrs := AList.update proto bound (sv_addrs s)\<rparr>))"

definition run_listen :: "int \<Rightarrow> (bytes \<Rightarrow> bytes + bytes) \<Rightarrow> server \<Rightarrow> server" where
  "run_listen now net s =
    (let s' = fold (listen_one now net) (sv_listen s) s in
     if filter (\<lambda>(p, a). a \<noteq> [] \<and> isl (net a)) (sv_listen s) = []
     then sys_report now ''warn'' [''no listener''] s' else s')"

definition Addrs :: "server \<Rightarrow> (bytes \<times> bytes) list" where
  "Addrs s = sv_addrs s"

subsection \<open>What each step leaves alone\<close>

lemma rep_report_fields [simp]:
  "sv_sem (rep_report now level msg s) = sv_sem s" "sv_stats (rep_report now level msg s) = sv_stats s"
  "sv_credch (rep_report now level msg s) = sv_credch s" "sv_rl (rep_report now level msg s) = sv_rl s"
  by (simp_all add: rep_report_def case_prod_beta Let_def)

lemma sys_report_fields [simp]:
  "sv_sem (sys_report now level msg s) = sv_sem s" "sv_stats (sys_report now level msg s) = sv_stats s"
  "sv_credch (sys_report now level msg s) = sv_credch s" "sv_rl (sys_report now level msg s) = sv_rl s"
  by (simp_all add: sys_report_def)

lemma reject_fields [simp]:
  "sv_sem (reject s) = sv_sem s" "sv_credch (reject s) = sv_credch s" "sv_rl (reject s) = sv_rl s"
  "st_active (sv_stats (reject s)) = st_active (sv_stats s)"
  by (simp_all add: reject_def)

lemma conn_start_fields [simp]:
  "sv_sem (conn_start now proto ip s) = sv_sem s" "sv_credch (conn_start now proto ip s) = sv_credch s"
  "sv_rl (conn_start now proto ip s) = sv_rl s"
  "st_active (sv_stats (conn_start now proto ip s)) = st_active (sv_stats s) + 1"
  "st_total (sv_stats (conn_start now proto ip s)) = st_total (sv_stats s) + 1"
  "st_creds (sv_stats (conn_start now proto ip s)) = st_creds (sv_stats s)"
  by (simp_all add: conn_start_def)

lemma conn_bytes_fields [simp]:
  "sv_sem (conn_bytes n s) = sv_sem s" "sv_credch (conn_bytes n s) = sv_credch s" "sv_rl (conn_bytes n s) = sv_rl s"
  "st_active (sv_stats (conn_bytes n s)) = st_active (sv_stats s)"
  "st_total (sv_stats (conn_bytes n s)) = st_total (sv_stats s)"
  "st_creds (sv_stats (conn_bytes n s)) = st_creds (sv_stats s)"
  by (simp_all add: conn_bytes_def)

lemma conn_release_fields [simp]:
  "sv_sem (conn_release s) = sv_sem s - 1" "sv_credch (conn_release s) = sv_credch s"
  "sv_rl (conn_release s) = sv_rl s" "sv_stats (conn_release s) = sv_stats s"
  by (simp_all add: conn_release_def)

lemma conn_inactive_fields [simp]:
  "sv_sem (conn_inactive s) = sv_sem s" "sv_credch (conn_inactive s) = sv_credch s"
  "sv_rl (conn_inactive s) = sv_rl s"
  "st_active (sv_stats (conn_inactive s)) = st_active (sv_stats s) - 1"
  "st_total (sv_stats (conn_inactive s)) = st_total (sv_stats s)"
  "st_creds (sv_stats (conn_inactive s)) = st_creds (sv_stats s)"
  by (simp_all add: conn_inactive_def)

lemma conn_end_fields [simp]:
  "sv_sem (conn_end s) = sv_sem s - 1" "sv_credch (conn_end s) = sv_credch s" "sv_rl (conn_end s) = sv_rl s"
  "st_active (sv_stats (conn_end s)) = st_active (sv_stats s) - 1"
  "st_total (sv_stats (conn_end s)) = st_total (sv_stats s)"
  "st_creds (sv_stats (conn_end s)) = st_creds (sv_stats s)"
  by (simp_all add: conn_end_def)

lemma emit_fields [simp]:
  "sv_sem (emit now ev s) = sv_sem s" "sv_rl (emit now ev s) = sv_rl s"
  "st_active (sv_stats (emit now ev s)) = st_active (sv_stats s)"
  "st_total (sv_stats (emit now ev s)) = st_total (sv_stats s)"
  by (simp_all add: emit_def Let_def case_prod_beta split: option.split)

lemma conn_rec_fields [simp]:
  "sv_sem (conn_rec now proto ip ev s) = sv_sem s" "sv_rl (conn_rec now proto ip ev s) = sv_rl s"
  "st_active (sv_stats (conn_rec now proto ip ev s)) = st_active (sv_stats s)"
  "st_total (sv_stats (conn_rec now proto ip ev s)) = st_total (sv_stats s)"
  by (simp_all add: conn_rec_def)

text \<open>The channel only ever holds clean credentials, within its capacity.\<close>

definition clean_cred :: "cred_event \<Rightarrow> bool" where
  "clean_cred e \<longleftrightarrow> validCredText (ce_user e) \<and> validCredText (ce_pass e) \<and> validCredText (ce_extra e) \<and>
     length (runes (ce_user e)) \<le> credTextMax \<and> length (runes (ce_pass e)) \<le> credTextMax \<and>
     length (runes (ce_extra e)) \<le> credTextMax"

definition creds_ok :: "cred_event chan option \<Rightarrow> bool" where
  "creds_ok co \<longleftrightarrow> (case co of None \<Rightarrow> True | Some ch \<Rightarrow> chan_ok ch \<and> (\<forall>e\<in>set (ch_buf ch). clean_cred e))"

lemma emit_creds_ok: "creds_ok (sv_credch s) \<Longrightarrow> clean_cred ev \<Longrightarrow> creds_ok (sv_credch (emit now ev s))"
proof (cases "sv_credch s")
  case (Some ch)
  assume "creds_ok (sv_credch s)" "clean_cred ev"
  then show ?thesis
    using Some chan.send_inv [of ch ev] chan.send_contents [of ev ch]
    by (auto simp: emit_def Let_def case_prod_beta creds_ok_def)
qed (simp add: emit_def Let_def creds_ok_def)

lemma emit_count:
  "st_creds (sv_stats s) \<le> st_creds (sv_stats (emit now ev s)) \<and>
   st_creds (sv_stats (emit now ev s)) \<le> st_creds (sv_stats s) + 1"
  by (simp add: emit_def Let_def case_prod_beta split: option.split)

lemma conn_rec_creds_ok: "creds_ok (sv_credch s) \<Longrightarrow> creds_ok (sv_credch (conn_rec now proto ip ev s))"
  by (auto simp: conn_rec_def clean_cred_def validCredText_truncate runes_truncate_le intro!: emit_creds_ok)

lemma conn_rec_count:
  "st_creds (sv_stats s) \<le> st_creds (sv_stats (conn_rec now proto ip ev s)) \<and>
   st_creds (sv_stats (conn_rec now proto ip ev s)) \<le> st_creds (sv_stats s) + 1"
  using emit_count by (simp add: conn_rec_def)

lemma run_recs_fields [simp]:
  "sv_sem (run_recs clock proto ip evs s) = sv_sem s"
  "st_active (sv_stats (run_recs clock proto ip evs s)) = st_active (sv_stats s)"
  "st_total (sv_stats (run_recs clock proto ip evs s)) = st_total (sv_stats s)"
proof -
  have "sv_sem (fold (\<lambda>(i, ev). conn_rec (clock (i + 1)) proto ip ev) xs s) = sv_sem s \<and>
    st_active (sv_stats (fold (\<lambda>(i, ev). conn_rec (clock (i + 1)) proto ip ev) xs s)) = st_active (sv_stats s) \<and>
    st_total (sv_stats (fold (\<lambda>(i, ev). conn_rec (clock (i + 1)) proto ip ev) xs s)) = st_total (sv_stats s)" for xs
    by (induction xs arbitrary: s) (auto simp: case_prod_beta)
  then show "sv_sem (run_recs clock proto ip evs s) = sv_sem s"
    "st_active (sv_stats (run_recs clock proto ip evs s)) = st_active (sv_stats s)"
    "st_total (sv_stats (run_recs clock proto ip evs s)) = st_total (sv_stats s)"
    by (simp_all add: run_recs_def)
qed

lemma run_recs_count:
  "st_creds (sv_stats (run_recs clock proto ip evs s)) \<le> st_creds (sv_stats s) + int (length evs)"
proof -
  have "st_creds (sv_stats (fold (\<lambda>(i, ev). conn_rec (clock (i + 1)) proto ip ev) xs s)) \<le> st_creds (sv_stats s) + int (length xs)" for xs
  proof (induction xs arbitrary: s)
    case (Cons x xs)
    show ?case
      using Cons.IH [of "conn_rec (clock (fst x + 1)) proto ip (snd x) s"]
        conn_rec_count [of s "clock (fst x + 1)" proto ip "snd x"]
      by (simp add: case_prod_beta)
  qed simp
  from this [of "enumerate 0 evs"] show ?thesis by (simp add: run_recs_def)
qed

subsection \<open>One connection\<close>

lemma handleConn_fields [simp]:
  "sv_sem (handleConn clock proto ip n c s) = sv_sem s - 1"
  "st_active (sv_stats (handleConn clock proto ip n c s)) = st_active (sv_stats s)"
  "st_total (sv_stats (handleConn clock proto ip n c s)) = st_total (sv_stats s) + 1"
  by (simp_all add: handleConn_def Let_def split: option.split)

lemma handleConn_registered:
  assumes "protoHandlers proto = Some h"
  obtains c' where "h c = Some c'"
    "handleConn clock proto ip n c s =
      conn_end (conn_bytes n (run_recs clock proto ip (recs c') (conn_start (clock 0) proto ip s)))"
proof -
  obtain c' where "h c = Some c'"
    using proto_handler.returns [OF registered_handler [OF assms]] by blast
  then show thesis using that assms by (simp add: handleConn_def Let_def)
qed

lemma handleConn_creds:
  assumes "recs c = []"
  shows "st_creds (sv_stats (handleConn clock proto ip n c s)) \<le> st_creds (sv_stats s) + int credsPerConnLimit"
proof (cases "protoHandlers proto")
  case (Some h)
  obtain c' where c': "h c = Some c'" "handleConn clock proto ip n c s =
      conn_end (conn_bytes n (run_recs clock proto ip (recs c') (conn_start (clock 0) proto ip s)))"
    by (rule handleConn_registered [OF Some])
  have "length (recs c') \<le> credsPerConnLimit"
    using proto_handler.at_most [OF registered_handler [OF Some] c'(1) assms] .
  then show ?thesis
    using run_recs_count [of clock proto ip "recs c'" "conn_start (clock 0) proto ip s"] c'(2) by simp
qed (simp add: handleConn_def Let_def)

subsection \<open>Governance under every interleaving\<close>

record gov =
  gv_srv :: server
  gv_pending :: nat
  gv_active :: nat
  gv_ending :: nat

text \<open>
  Steps of the accept loops, of the connections from acceptance to the end of their deferred
  function, and of the consumer of the credential channel. A pending connection holds a token but has
  not started; an active one holds a token and is counted in Active; an ending one has given its
  token back and is still counted, so that others can be accepted and started before it leaves the
  counter. Each step changes the semaphore or the Active counter at most once; what it merges with
  that change (the limiter before the semaphore, the report after the counting) touches neither.
\<close>

inductive gov_step :: "gov \<Rightarrow> gov \<Rightarrow> bool" where
  step_accept: "acceptConn now proto ip (gv_srv g) = (True, s') \<Longrightarrow>
    gov_step g (g\<lparr>gv_srv := s', gv_pending := gv_pending g + 1\<rparr>)"
| step_refuse: "acceptConn now proto ip (gv_srv g) = (False, s') \<Longrightarrow> gov_step g (g\<lparr>gv_srv := s'\<rparr>)"
| step_start: "0 < gv_pending g \<Longrightarrow>
    gov_step g (g\<lparr>gv_srv := conn_start now proto ip (gv_srv g), gv_pending := gv_pending g - 1, gv_active := gv_active g + 1\<rparr>)"
| step_record: "0 < gv_active g \<Longrightarrow> gov_step g (g\<lparr>gv_srv := conn_rec now proto ip ev (gv_srv g)\<rparr>)"
| step_bytes: "0 < gv_active g \<Longrightarrow> gov_step g (g\<lparr>gv_srv := conn_bytes n (gv_srv g)\<rparr>)"
| step_release: "0 < gv_active g \<Longrightarrow>
    gov_step g (g\<lparr>gv_srv := conn_release (gv_srv g), gv_active := gv_active g - 1, gv_ending := gv_ending g + 1\<rparr>)"
| step_inactive: "0 < gv_ending g \<Longrightarrow>
    gov_step g (g\<lparr>gv_srv := conn_inactive (gv_srv g), gv_ending := gv_ending g - 1\<rparr>)"
| step_consume: "sv_credch (gv_srv g) = Some ch \<Longrightarrow> try_recv ch = Some (ev, ch') \<Longrightarrow>
    gov_step g (g\<lparr>gv_srv := (gv_srv g)\<lparr>sv_credch := Some ch'\<rparr>\<rparr>)"

inductive_cases gov_stepE: "gov_step g g'"

definition gov_init :: "(bytes \<times> bytes) list \<Rightarrow> nat \<Rightarrow> sysch \<Rightarrow> gov" where
  "gov_init listen buf sys =
    \<lparr>gv_srv = NewServer listen (Some (make_chan buf)) sys, gv_pending = 0, gv_active = 0, gv_ending = 0\<rparr>"

definition gov_inv :: "gov \<Rightarrow> bool" where
  "gov_inv g \<longleftrightarrow> sv_sem (gv_srv g) = gv_pending g + gv_active g \<and> sv_sem (gv_srv g) \<le> maxConns \<and>
     st_active (sv_stats (gv_srv g)) = int (gv_active g + gv_ending g) \<and> creds_ok (sv_credch (gv_srv g)) \<and>
     limiter_ok (sv_rl (gv_srv g))"

lemma acceptConn_True:
  "acceptConn now proto ip s = (True, s') \<Longrightarrow>
    sv_sem s < maxConns \<and> sv_sem s' = sv_sem s + 1 \<and> sv_stats s' = sv_stats s \<and>
    sv_credch s' = sv_credch s \<and> sv_rl s' = snd (allow now ip (sv_rl s))"
  by (auto simp: acceptConn_def Let_def case_prod_beta split: if_splits)

lemma acceptConn_False:
  "acceptConn now proto ip s = (False, s') \<Longrightarrow>
    sv_sem s' = sv_sem s \<and> st_active (sv_stats s') = st_active (sv_stats s) \<and>
    st_rejected (sv_stats s') = st_rejected (sv_stats s) + 1 \<and>
    sv_credch s' = sv_credch s \<and> sv_rl s' = snd (allow now ip (sv_rl s))"
  by (auto simp: acceptConn_def Let_def case_prod_beta reject_def split: if_splits)

lemma gov_inv_init: "gov_inv (gov_init listen buf sys)"
  using limiter_ok_new [of ipConnLimit ipWindow]
  by (simp add: gov_inv_def gov_init_def NewServer_def creds_ok_def make_chan_def chan_ok_def ipConnLimit_def)

lemma gov_inv_step: "gov_step g g' \<Longrightarrow> gov_inv g \<Longrightarrow> gov_inv g'"
proof (induction rule: gov_step.induct)
  case (step_accept now proto ip g s')
  then show ?case
    using acceptConn_True [OF step_accept(1)] limiter_ok_allow by (auto simp: gov_inv_def)
next
  case (step_refuse now proto ip g s')
  then show ?case
    using acceptConn_False [OF step_refuse(1)] limiter_ok_allow by (auto simp: gov_inv_def)
next
  case (step_consume g ch ev ch')
  then show ?case
    using chan.recv_inv [of ch ev ch'] chan.recv_next [of ch ev ch']
    by (auto simp: gov_inv_def creds_ok_def)
qed (auto simp: gov_inv_def intro: conn_rec_creds_ok)

lemma gov_inv_reachable: "gov_step\<^sup>*\<^sup>* (gov_init listen buf sys) g \<Longrightarrow> gov_inv g"
  by (induction rule: rtranclp_induct) (auto intro: gov_inv_init gov_inv_step)

end
