(* ===== verification/PropHoneypot.thy ===== *)
theory PropHoneypot
  imports HpServer
begin

text \<open>
  The properties of the honeypot: what every protocol handler guarantees, the governance of
  connections, and, protocol by protocol, what a client sends against what is recorded.
\<close>

subsection \<open>Handlers and governance\<close>

text \<open>C8: For every registered protocol, whatever bytes the peer sends and whenever writes start to fail, the
  handler returns without a panic, keeps what was recorded before and appends at most ten credentials.\<close>

theorem handlers_safe:
  assumes "protoHandlers proto = Some h"
  shows "\<exists>c' rs. h c = Some c' \<and> recs c' = recs c @ rs \<and> length rs \<le> 10"
  using proto_handler.returns [OF registered_handler [OF assms], of c]
    proto_handler.appends [OF registered_handler [OF assms]]
  by (fastforce simp: credsPerConnLimit_def)

definition sample_conn :: hconn where
  "sample_conn = \<lparr>inp = ''PASS x'' @ crlf, outp = [], wleft = 5, recs = []\<rparr>"

lemma handlers_safe_witness:
  "protoHandlers ''ftp'' = Some handleFTP \<and>
   (\<exists>c' rs. handleFTP sample_conn = Some c' \<and> recs c' = recs sample_conn @ rs \<and> length rs \<le> 10)"
proof -
  have "protoHandlers ''ftp'' = Some handleFTP" by (simp add: protoHandlers_def)
  then show ?thesis using handlers_safe by blast
qed

text \<open>C4: Under every interleaving of accepts, refusals, starts, records, releases of the token and updates of
  the counter, the semaphore holds exactly the tokens of the accepted connections that have not given
  theirs back, never more than 200, so that at most 200 connections are handled at once. The
  Active counter is the number of the connections handled plus those that have given back their
  token and not yet left the counter (the deferred function does it in this order).\<close>

theorem governance_bounded:
  assumes "gov_step\<^sup>*\<^sup>* (gov_init listen buf sys) g"
  shows "sv_sem (gv_srv g) = gv_pending g + gv_active g \<and> gv_pending g + gv_active g \<le> 200 \<and>
    st_active (sv_stats (gv_srv g)) = int (gv_active g) + int (gv_ending g)"
  using gov_inv_reachable [OF assms] by (auto simp: gov_inv_def maxConns_def)

definition sample_server :: server where
  "sample_server = NewServer [] (Some (make_chan 1)) None"

lemma sample_accept: "fst (acceptConn 0 ''ftp'' 7 sample_server)"
  by (simp add: acceptConn_def allow_def current_bucket_def sample_server_def NewServer_def newIPRateLimiter_def
      ipConnLimit_def maxConns_def Let_def case_prod_beta)

definition sample_gov :: gov where
  "sample_gov = \<lparr>gv_srv = snd (acceptConn 0 ''ftp'' 7 sample_server), gv_pending = 1, gv_active = 0, gv_ending = 0\<rparr>"

lemma sample_reachable: "gov_step\<^sup>*\<^sup>* (gov_init [] 1 None) sample_gov"
proof -
  have "acceptConn 0 ''ftp'' 7 sample_server = (True, snd (acceptConn 0 ''ftp'' 7 sample_server))"
    using sample_accept by (metis prod.collapse)
  from step_accept [of 0 "''ftp''" 7 "gov_init [] 1 None", folded sample_server_def] this show ?thesis
    by (auto simp: gov_init_def sample_gov_def sample_server_def)
qed

text \<open>The connection starts and gives back its token; another is accepted and started before the first one
  has left the counter.\<close>

definition sample_gov2 :: gov where
  "sample_gov2 = \<lparr>gv_srv = conn_release (conn_start 0 ''ftp'' 7 (gv_srv sample_gov)), gv_pending = 0, gv_active = 0, gv_ending = 1\<rparr>"

definition sample_gov4 :: gov where
  "sample_gov4 = \<lparr>gv_srv = conn_start 0 ''ftp'' 8 (snd (acceptConn 0 ''ftp'' 8 (gv_srv sample_gov2))),
     gv_pending = 0, gv_active = 1, gv_ending = 1\<rparr>"

lemma sample_accept2: "fst (acceptConn 0 ''ftp'' 8 (gv_srv sample_gov2))"
  by (simp add: acceptConn_def allow_def current_bucket_def sample_gov2_def sample_gov_def sample_server_def NewServer_def
      newIPRateLimiter_def ipConnLimit_def maxConns_def rateLimiterMaxBuckets_def Let_def case_prod_beta)

lemma sample_reachable4: "gov_step\<^sup>*\<^sup>* (gov_init [] 1 None) sample_gov4"
proof -
  let ?a = "sample_gov\<lparr>gv_srv := conn_start 0 ''ftp'' 7 (gv_srv sample_gov), gv_pending := 0, gv_active := 1\<rparr>"
  let ?b = "sample_gov2\<lparr>gv_srv := snd (acceptConn 0 ''ftp'' 8 (gv_srv sample_gov2)), gv_pending := 1\<rparr>"
  have 1: "gov_step sample_gov ?a"
    using step_start [of sample_gov 0 "''ftp''" 7] by (simp add: sample_gov_def)
  have 2: "gov_step ?a sample_gov2"
    using step_release [of ?a] by (simp add: sample_gov_def sample_gov2_def)
  have "acceptConn 0 ''ftp'' 8 (gv_srv sample_gov2) = (True, snd (acceptConn 0 ''ftp'' 8 (gv_srv sample_gov2)))"
    using sample_accept2 by (metis prod.collapse)
  from step_accept [OF this] have 3: "gov_step sample_gov2 ?b" by (simp add: sample_gov2_def)
  have 4: "gov_step ?b sample_gov4"
    using step_start [of ?b 0 "''ftp''" 8] by (simp add: sample_gov2_def sample_gov4_def)
  show ?thesis
    using sample_reachable 1 2 3 4 rtranclp.rtrancl_into_rtrancl [of gov_step "gov_init [] 1 None"] by blast
qed

lemma governance_bounded_witness:
  "gov_step\<^sup>*\<^sup>* (gov_init [] 1 None) sample_gov4 \<and> sv_sem (gv_srv sample_gov4) = 1 \<and>
   st_active (sv_stats (gv_srv sample_gov4)) = 2"
  using governance_bounded [OF sample_reachable4] sample_reachable4 by (simp add: sample_gov4_def)

text \<open>C6: Every credential waiting in the channel has only valid text (no control byte but the tab) in its
  three fields, each of at most 4096 runes, and the channel never exceeds its capacity.\<close>

theorem credentials_clean:
  assumes "gov_step\<^sup>*\<^sup>* (gov_init listen buf sys) g" "sv_credch (gv_srv g) = Some ch" "e \<in> set (ch_buf ch)"
  shows "validCredText (ce_user e) \<and> validCredText (ce_pass e) \<and> validCredText (ce_extra e) \<and>
    length (runes (ce_user e)) \<le> 4096 \<and> length (runes (ce_pass e)) \<le> 4096 \<and> length (runes (ce_extra e)) \<le> 4096 \<and>
    length (ch_buf ch) \<le> ch_cap ch"
  using gov_inv_reachable [OF assms(1)] assms(2,3)
  by (auto simp: gov_inv_def creds_ok_def clean_cred_def credTextMax_def chan_ok_def)

definition sample_gov3 :: gov where
  "sample_gov3 = \<lparr>gv_srv = conn_rec 0 ''ftp'' 7 (cred ''root'' ''toor'' []) (conn_start 0 ''ftp'' 7 (gv_srv sample_gov)),
     gv_pending = 0, gv_active = 1, gv_ending = 0\<rparr>"

lemma sample_reachable3: "gov_step\<^sup>*\<^sup>* (gov_init [] 1 None) sample_gov3"
proof -
  let ?a = "sample_gov\<lparr>gv_srv := conn_start 0 ''ftp'' 7 (gv_srv sample_gov), gv_pending := 0, gv_active := 1\<rparr>"
  have "gov_step sample_gov ?a"
    using step_start [of sample_gov 0 "''ftp''" 7] by (simp add: sample_gov_def)
  moreover have "gov_step ?a sample_gov3"
    using step_record [of ?a 0 "''ftp''" 7] by (simp add: sample_gov_def sample_gov3_def)
  ultimately show ?thesis using sample_reachable by (meson rtranclp.rtrancl_into_rtrancl)
qed

lemma sample_channel:
  "sv_credch (gv_srv sample_gov3) =
    Some \<lparr>ch_cap = 1, ch_buf = [(cred ''root'' ''toor'' [])\<lparr>ce_ts := 0, ce_proto := ''ftp'', ce_src := 7\<rparr>]\<rparr>"
proof -
  have "sv_credch (snd (acceptConn 0 ''ftp'' 7 sample_server)) = Some (make_chan 1)"
    using acceptConn_True [of 0 "''ftp''" 7 sample_server] sample_accept
    by (metis prod.collapse sample_server_def NewServer_def server.select_convs(2))
  then show ?thesis
    by (simp add: sample_gov3_def sample_gov_def conn_rec_def emit_def validCredText_def truncateCredText_def
        credTextMax_def cred_def unix_def bval_def make_chan_def try_send_def)
qed

lemma credentials_clean_witness:
  "\<exists>ch e. sv_credch (gv_srv sample_gov3) = Some ch \<and> e \<in> set (ch_buf ch) \<and> validCredText (ce_pass e) \<and>
     length (ch_buf ch) \<le> ch_cap ch"
  using credentials_clean [OF sample_reachable3 sample_channel,
      of "(cred ''root'' ''toor'' [])\<lparr>ce_ts := 0, ce_proto := ''ftp'', ce_src := 7\<rparr>"] sample_channel
  by auto

text \<open>One whole connection, whatever its protocol and traffic, releases exactly its one token, leaves the
  Active counter where it was, counts itself once and delivers at most ten credentials.\<close>

theorem connection_accounted:
  assumes "recs c = []" "sv_sem s = Suc k"
  shows "let s' = handleConn clock proto srcIP n c s in
    sv_sem s' = k \<and> st_active (sv_stats s') = st_active (sv_stats s) \<and>
    st_total (sv_stats s') = st_total (sv_stats s) + 1 \<and> st_creds (sv_stats s') \<le> st_creds (sv_stats s) + 10"
  using handleConn_creds [OF assms(1), of clock proto srcIP n s] assms(2)
  by (simp add: Let_def credsPerConnLimit_def)

lemma connection_accounted_witness:
  "recs sample_conn = [] \<and>
   sv_sem (handleConn (\<lambda>_. 0) ''ftp'' 7 9 sample_conn (gv_srv sample_gov)) = 0"
proof -
  have "sv_sem (gv_srv sample_gov) = Suc 0"
    using gov_inv_reachable [OF sample_reachable] by (simp add: gov_inv_def sample_gov_def)
  from connection_accounted [OF _ this, of sample_conn "\<lambda>_. 0" "''ftp''" 7 9] show ?thesis
    by (simp add: Let_def sample_conn_def)
qed

text \<open>C12: In any interval of one window length, after any earlier traffic, an address gets at most twice the limit,
  as long as the addresses seen fit the limiter's map.\<close>

theorem connections_per_interval:
  assumes "0 < limit" "card (snd ` set (pre @ cs)) \<le> rateLimiterMaxBuckets"
    and "\<forall>t\<in>fst ` set cs. e - window \<le> t \<and> t \<le> e"
  shows "count_list (fst (allows cs (snd (allows pre (newIPRateLimiter limit window))))) k \<le> 2 * limit"
proof -
  define r0 where "r0 = newIPRateLimiter limit window"
  have n: "limiter_ok r0" unfolding r0_def by (rule limiter_ok_new [OF assms(1)])
  have p0: "no_purge (snd ` set (pre @ cs)) r0"
    using assms(2) by (simp add: no_purge_def r0_def newIPRateLimiter_def)
  have "snd ` set pre \<subseteq> snd ` set (pre @ cs)" by auto
  from limiter_ok_allows [OF n] allows_no_purge [OF n p0 this]
  have ok: "limiter_ok (snd (allows pre r0))" "no_purge (snd ` set (pre @ cs)) (snd (allows pre r0))" .
  have l: "il_limit r0 = limit" "il_window r0 = window" by (simp_all add: r0_def newIPRateLimiter_def)
  have "snd ` set cs \<subseteq> snd ` set (pre @ cs)" by auto
  then have "count_list (fst (allows cs (snd (allows pre r0)))) k \<le> limit
      + (case map_of (il_buckets (snd (allows pre r0))) k of None \<Rightarrow> 0 | Some b \<Rightarrow> limit - bk_count b)"
    using interval_bound [OF ok, of cs e k] assms(3) by (simp add: l cong: option.case_cong)
  then show ?thesis by (auto simp: r0_def split: option.splits)
qed

lemma connections_per_interval_witness:
  "count_list (fst (allows [(10, 7), (11, 7), (12, 7)] (snd (allows [(1, 7)] (newIPRateLimiter 1 5))))) 7 \<le> 2"
  using connections_per_interval [of 1 "[(1, 7)]" "[(10, 7), (11, 7), (12, 7)]" 12 5 7]
  by (simp add: rateLimiterMaxBuckets_def)

text \<open>When the map is full of live buckets, one connection from a new address empties it: any other address,
  even one that has used up its limit, is let in again within the same window.\<close>

theorem purge_lets_through:
  assumes "limiter_ok r" "length (il_buckets r) = rateLimiterMaxBuckets"
    and "\<forall>(a, b)\<in>set (il_buckets r). \<not> bk_reset b < t" "ip \<notin> fst ` set (il_buckets r)" "0 \<le> il_window r"
  shows "fst (allow t k (snd (allow t ip r)))"
proof -
  have "current_bucket t k (snd (allow t ip r)) = \<lparr>bk_count = 0, bk_reset = t + il_window r\<rparr>"
    using purge_forgets [OF assms] by (simp add: current_bucket_def)
  then show ?thesis
    using assms(1) fst_allow [OF limiter_ok_allow [OF assms(1)], of t k t ip] by (simp add: limiter_ok_def)
qed

definition full_limiter :: ip_limiter where
  "full_limiter = \<lparr>il_limit = 10, il_window = minute,
     il_buckets = map (\<lambda>i. (of_nat i, \<lparr>bk_count = 10, bk_reset = 100\<rparr>)) [0..<10000], il_calls = 0\<rparr>"

lemma full_limiter_ok: "limiter_ok full_limiter" "length (il_buckets full_limiter) = rateLimiterMaxBuckets"
  "\<forall>(a, b)\<in>set (il_buckets full_limiter). \<not> bk_reset b < 0" "10000 \<notin> fst ` set (il_buckets full_limiter)"
proof -
  have "inj_on (of_nat :: nat \<Rightarrow> u32) {0..<10001}"
    by (rule inj_onI) (simp add: of_nat_inverse unsigned_of_nat word_of_nat_eq_iff take_bit_eq_mod)
  then have i: "(of_nat i :: u32) = of_nat j \<longleftrightarrow> i = j" if "i \<le> 10000" "j \<le> 10000" for i j
    using that by (auto dest!: inj_onD [of _ _ i j])
  then show "10000 \<notin> fst ` set (il_buckets full_limiter)"
    using i [of 10000] by (fastforce simp: full_limiter_def)
  have "inj_on (of_nat :: nat \<Rightarrow> u32) (set [0..<10000])"
    using i by (auto intro!: inj_onI)
  then show "limiter_ok full_limiter"
    by (auto simp: limiter_ok_def full_limiter_def rateLimiterMaxBuckets_def distinct_map comp_def)
qed (auto simp: full_limiter_def rateLimiterMaxBuckets_def)

lemma purge_lets_through_witness:
  "\<not> fst (allow 0 5 full_limiter) \<and> fst (allow 0 5 (snd (allow 0 10000 full_limiter)))"
proof
  have "map_of (il_buckets full_limiter) 5 = Some \<lparr>bk_count = 10, bk_reset = 100\<rparr>"
  proof (rule map_of_is_SomeI)
    show "distinct (map fst (il_buckets full_limiter))" using full_limiter_ok(1) by (simp add: limiter_ok_def)
    show "(5, \<lparr>bk_count = 10, bk_reset = 100\<rparr>) \<in> set (il_buckets full_limiter)"
      unfolding full_limiter_def by (auto intro!: image_eqI [of _ _ 5])
  qed
  then have "bk_count (current_bucket 0 5 full_limiter) = 10" by (simp add: current_bucket_def)
  then show "\<not> fst (allow 0 5 full_limiter)"
    using fst_allow [OF full_limiter_ok(1)] by (simp add: full_limiter_def)
  show "fst (allow 0 5 (snd (allow 0 10000 full_limiter)))"
    by (rule purge_lets_through [OF full_limiter_ok]) (simp add: full_limiter_def)
qed

subsection \<open>Protocols\<close>

text \<open>The de-obfuscation of a TDS password succeeds exactly on the obfuscated forms of non-empty passwords of
  printable ASCII and tabs, and then returns that password.\<close>

theorem tds_password_exact:
  "deobfuscateTDSPassword obf = Some p \<longleftrightarrow>
    (p \<noteq> [] \<and> (\<forall>c\<in>set p. plain_unit (bval c))) \<and> obf = obfuscate p"
  using deobfuscate_exact [of obf p] by (simp add: plain_password_def)

lemma tds_password_exact_witness: "deobfuscateTDSPassword (obfuscate ''sa1'') = Some ''sa1''"
  using tds_password_exact [of "obfuscate ''sa1''" "''sa1''"] by (simp add: plain_unit_def bval_def)

text \<open>A Redis client that sends AUTH commands as RESP arrays, with arbitrary bytes in user and password, has
  its first ten pairs recorded exactly and in order.\<close>

theorem redis_captures:
  assumes "\<forall>(u, p)\<in>set ps. length u \<le> 65536 \<and> length p \<le> 65536" "inp c = redis_script ps"
  shows "\<exists>c'. handleRedis c = Some c' \<and> recs c' = recs c @ map (\<lambda>(u, p). cred u p []) (take 10 ps)"
  using redis_loop_capture [OF assms, of 0]
  by (auto simp: handleRedis_def outcome_def left_def credsPerConnLimit_def)

lemma redis_captures_witness:
  "\<exists>c'. handleRedis \<lparr>inp = redis_script [(''u'', [CR, LF, NUL])], outp = [], wleft = 0, recs = []\<rparr> = Some c' \<and>
    recs c' = [cred ''u'' [CR, LF, NUL] []]"
  using redis_captures [of "[(''u'', [CR, LF, NUL])]"
      "\<lparr>inp = redis_script [(''u'', [CR, LF, NUL])], outp = [], wleft = 0, recs = []\<rparr>"] by simp

text \<open>An FTP script of USER and PASS lines with printable ASCII words has its first ten pairs recorded.\<close>

theorem ftp_captures:
  assumes "\<forall>(u, p)\<in>set ps. is_word u \<and> length u \<le> 4000 \<and> is_word p \<and> length p \<le> 4000"
    and "inp c = ftp_script ps" "2 * length ps < wleft c"
  shows "\<exists>c'. handleFTP c = Some c' \<and> recs c' = recs c @ map (\<lambda>(u, p). cred u p []) (take 10 ps)"
  using ftp_loop_capture [OF assms(1), of "c\<lparr>outp := outp c @ [''220 FTP Server ready'' @ crlf], wleft := wleft c - 1\<rparr>" 0 "[]"] assms(2,3)
  by (auto simp: handleFTP_def on_write_ok outcome_def left_def credsPerConnLimit_def)

lemma ftp_captures_witness:
  "\<exists>c'. handleFTP \<lparr>inp = ftp_script [(''root'', ''toor''), (''a'', ''b'')], outp = [], wleft = 9, recs = []\<rparr> = Some c' \<and>
    recs c' = [cred ''root'' ''toor'' [], cred ''a'' ''b'' []]"
  using ftp_captures [of "[(''root'', ''toor''), (''a'', ''b'')]"
      "\<lparr>inp = ftp_script [(''root'', ''toor''), (''a'', ''b'')], outp = [], wleft = 9, recs = []\<rparr>"]
  by (simp add: is_word_def bval_def)

text \<open>A telnet client gets five rounds: the five pairs it sends as lines are recorded, and what follows them is
  left unread.\<close>

theorem telnet_captures:
  assumes "\<forall>(u, p)\<in>set ps. clean_line u \<and> clean_line p" "length ps = 5"
    and "inp c = login_lines ps @ rest" "15 < wleft c"
  shows "\<exists>c'. handleTelnet c = Some c' \<and> recs c' = recs c @ map (\<lambda>(u, p). cred u p []) ps \<and> inp c' = rest"
  using telnet_rounds_capture [OF assms(1), of "c\<lparr>outp := outp c @ [telnetBanner], wleft := wleft c - 1\<rparr>" rest 5] assms(2-4)
  by (auto simp: handleTelnet_def on_write_ok outcome_def loginRoundsMax_def)

definition sample_logins :: "(bytes \<times> bytes) list" where
  "sample_logins = [(''root'', ''a''), (''root'', ''b''), (''admin'', ''c''), ([], ''d''), (''e'', ''f g'')]"

lemma telnet_captures_witness:
  "\<exists>c'. handleTelnet \<lparr>inp = login_lines sample_logins @ ''more'', outp = [], wleft = 20, recs = []\<rparr> = Some c' \<and>
    recs c' = map (\<lambda>(u, p). cred u p []) sample_logins \<and> inp c' = ''more''"
  using telnet_captures [of sample_logins "\<lparr>inp = login_lines sample_logins @ ''more'', outp = [], wleft = 20, recs = []\<rparr>" "''more''"]
  by (simp add: sample_logins_def clean_line_def)

text \<open>A MySQL HandshakeResponse41 with the secure-connection capability yields exactly its user and the
  hexadecimal form of its auth response.\<close>

theorem mysql_captures:
  assumes "length pre = 28" "NUL \<notin> set user" "length auth < 256" "caps AND 0x00008000 \<noteq> (0 :: u32)"
    and "length user + length auth + length suffix + 34 \<le> 2 ^ 20" "0 < wleft c"
    and "inp c = mysql_client_packet sq caps pre user auth suffix" "user \<noteq> []"
  shows "\<exists>c'. handleMySQL c = Some c' \<and> recs c' = recs c @ [cred user (hex_encode auth) mysql_extra]"
  using mysql_capture [OF assms(1-7)] assms(8) by (auto simp: outcome_def)

lemma mysql_captures_witness:
  "\<exists>c'. handleMySQL \<lparr>inp = mysql_client_packet (mkbyte 1) 0x8000 (replicate 28 NUL) ''root'' ''ab'' [], outp = [],
      wleft = 2, recs = []\<rparr> = Some c' \<and> recs c' = [cred ''root'' ''6162'' mysql_extra]"
proof -
  have "hex_encode ''ab'' = ''6162''" by code_simp
  then show ?thesis
    using mysql_captures [of "replicate 28 NUL" "''root''" "''ab''" "0x8000" "[]"
        "\<lparr>inp = mysql_client_packet (mkbyte 1) 0x8000 (replicate 28 NUL) ''root'' ''ab'' [], outp = [], wleft = 2, recs = []\<rparr>"
        "mkbyte 1"] by simp
qed

text \<open>After a well-formed start-up message, a PostgreSQL password message is recorded only when its length field
  is at most the length of the password string: the handler reads that many bytes after the field, so
  the message of a conforming client, whose length counts its own four bytes, is never recorded.\<close>

theorem postgres_password:
  assumes "\<forall>kv\<in>set ps. pg_pair_ok kv" "length (pg_pairs ps) \<le> 65000" "0 < wleft c" "1 \<le> n" "n \<le> 65536"
    and "inp c = pg_startup ps @ ''p'' @ be_bytes 4 n @ pass @ [NUL]"
  shows "\<exists>c'. handlePostgres c = Some c' \<and> recs c' = recs c @
    (if n \<le> length pass + 1 then [cred (pg_user ps) (take (n - 1) pass) []] else [])"
proof -
  obtain c1 where c1: "handlePostgres c = pg_wait (pg_user ps) c1" "inp c1 = ''p'' @ be_bytes 4 n @ pass @ [NUL]"
    "recs c1 = recs c"
    using pg_startup_read [OF assms(1-3,6)] by blast
  show ?thesis
    using pg_wait_password [OF c1(2) assms(4,5), of "pg_user ps"] c1(1,3) by (auto simp: outcome_def)
qed

definition sample_pg :: "nat \<Rightarrow> hconn" where
  "sample_pg n = \<lparr>inp = pg_startup [(''user'', ''bob'')] @ ''p'' @ be_bytes 4 n @ ''pw'' @ [NUL], outp = [], wleft = 3, recs = []\<rparr>"

lemma postgres_password_witness:
  "(\<exists>c'. handlePostgres (sample_pg 3) = Some c' \<and> recs c' = [cred ''bob'' ''pw'' []]) \<and>
   (\<exists>c'. handlePostgres (sample_pg 7) = Some c' \<and> recs c' = [])"
  using postgres_password [of "[(''user'', ''bob'')]" "sample_pg 3" 3 "''pw''"]
    postgres_password [of "[(''user'', ''bob'')]" "sample_pg 7" 7 "''pw''"]
  by (simp add: pg_pair_ok_def pg_pairs_def pg_user_def sample_pg_def)

text \<open>C30: The NTLMSSP AUTHENTICATE message of an SMB client, with domain and user of any Unicode scalars but NUL, is
  parsed back into exactly its user, domain and hexadecimal response.\<close>

theorem smb_auth_roundtrip:
  assumes "\<forall>r\<in>set ds. is_scalar r \<and> r \<noteq> 0" "\<forall>r\<in>set us. is_scalar r \<and> r \<noteq> 0" "us \<noteq> []"
    and "length (utf16le ds) < 65536" "length (utf16le us) < 65536" "length nt < 65536"
  shows "parseNTLMSSPAuth (ntlm_auth (utf16le ds) (utf16le us) nt)
    = Some (Some (encode_runes us, encode_runes ds, hex_encode nt))"
  by (rule parseNTLMSSPAuth_roundtrip [OF assms])

lemma smb_auth_roundtrip_witness:
  "parseNTLMSSPAuth (ntlm_auth (utf16le [0x41]) (utf16le [0x1F600]) ''x'')
    = Some (Some (encode_runes [0x1F600], encode_runes [0x41], hex_encode ''x''))"
  by (rule smb_auth_roundtrip)
     (simp_all add: is_scalar_def utf16le_def utf16_encode_def utf16_encode_rune_def)

text \<open>A connection that starts with the transport header of SMB2 over TCP (a zero byte and a length) is closed
  after four bytes: nothing is answered and nothing is recorded.\<close>

theorem smb_over_tcp_dropped:
  assumes "inp c = NUL # s" "3 \<le> length s"
  shows "handleSMB c = Some (c\<lparr>inp := drop 3 s\<rparr>)"
  by (rule smb_transport_header [OF assms])

lemma smb_over_tcp_dropped_witness:
  "handleSMB \<lparr>inp = NUL # NUL # NUL # mkbyte 64 # smb_pid, outp = [], wleft = 9, recs = []\<rparr> =
    Some \<lparr>inp = smb_pid, outp = [], wleft = 9, recs = []\<rparr>"
  using smb_over_tcp_dropped [of "\<lparr>inp = NUL # NUL # NUL # mkbyte 64 # smb_pid, outp = [], wleft = 9, recs = []\<rparr>"
      "NUL # NUL # mkbyte 64 # smb_pid"] by (simp add: smb_pid_def)

text \<open>A MongoDB saslStart command whose payload is the BSON document of a user and a nonce is recognised as an
  authentication command with exactly that user and nonce, while the text form of RFC 5802 yields neither.\<close>

theorem mongo_sasl_parsed:
  assumes "length u + length r < 2 ^ 19" "length txt < 2 ^ 19"
  shows "parseMongoCommand (sasl_start (scram_payload u r)) = Some (Some (''saslStart'', u, r)) \<and>
    parseMongoCommand (sasl_start (''n,,n='' @ txt)) = Some (Some (''saslStart'', [], []))"
proof
  show "parseMongoCommand (sasl_start (scram_payload u r)) = Some (Some (''saslStart'', u, r))"
    using assms(1) by (intro parse_sasl_start parseScramPayload_roundtrip) (simp_all add: scram_payload_def)
  show "parseMongoCommand (sasl_start (''n,,n='' @ txt)) = Some (Some (''saslStart'', [], []))"
    using assms(2) by (intro parse_sasl_start parseScramPayload_text) simp_all
qed

lemma mongo_sasl_parsed_witness:
  "parseMongoCommand (sasl_start (scram_payload ''admin'' ''abc'')) = Some (Some (''saslStart'', ''admin'', ''abc''))"
  using mongo_sasl_parsed [of "''admin''" "''abc''" "''root,r=x''"] by simp

text \<open>A LOGIN7 message of fewer than 256 bytes with the little-endian offsets of MS-TDS is not recognised: the
  handler reads the offsets big-endian and finds every field out of range.\<close>

theorem login7_little_endian_ignored:
  assumes "data = fixed @ concat (map (\<lambda>(off, len). tds_entry off len) es) @ rest"
    and "length fixed = 36" "length es = 5" "length data < 256" "\<forall>(off, len)\<in>set es. 0 < off \<and> off < 256"
  shows "parseLogin7 data = Some None"
  by (rule parseLogin7_little_endian [OF assms])

definition sample_login7 :: bytes where
  "sample_login7 = replicate 36 NUL @ concat (map (\<lambda>(off, len). tds_entry off len) [(56, 1), (58, 2), (62, 2), (66, 0), (66, 0)])
     @ utf16le [0x48] @ utf16le [0x73, 0x61] @ obfuscate ''pw''"

lemma login7_little_endian_ignored_witness: "parseLogin7 sample_login7 = Some None"
  by (rule login7_little_endian_ignored [OF sample_login7_def])
     (simp_all add: sample_login7_def tds_entry_def utf16le_def utf16_encode_def utf16_encode_rune_def)

text \<open>To a connection request of an RDP client the handler records one event, with the cookie it extracted, and
  answers one Connection Confirm whose bytes 7 and 8 are the client's source reference: the destination
  reference field, bytes 6 and 7, is therefore zero and its first byte.\<close>

theorem rdp_request_answered:
  assumes "7 \<le> length cr" "length cr \<le> 65531" "cr ! 1 = CHR 0xE0" "0 < wleft c"
    and "inp c = [CHR 0x03, x] @ be_bytes 2 (4 + length cr) @ cr @ rest"
  shows "\<exists>c' cc. handleRDP c = Some c' \<and> outp c' = outp c @ [cc] \<and> length cc = 11 \<and>
    take 2 (drop 6 cc) = [NUL, cr ! 4] \<and> take 2 (drop 7 cc) = [cr ! 4, cr ! 5] \<and>
    (\<exists>k. extractRDCCookie cr = Some k \<and> length k \<le> 128 \<and>
      recs c' = recs c @ [cred [] [] (rdp_extra @ (if k = [] then [] else rdp_cookie_sep @ k))])"
  using rdp_reply [OF assms] extractRDCCookie_total [of cr] by (auto simp: outcome_def)

definition sample_cr :: bytes where
  "sample_cr = [mkbyte 40, CHR 0xE0, NUL, NUL, mkbyte 1, mkbyte 2, NUL] @ ''Cookie: mstshash='' @ ''bob'' @ crlf @ []"

lemma rdp_request_answered_witness:
  "\<exists>c'. handleRDP \<lparr>inp = [CHR 0x03, NUL] @ be_bytes 2 (4 + length sample_cr) @ sample_cr @ [], outp = [], wleft = 1, recs = []\<rparr>
     = Some c' \<and> recs c' = [cred [] [] (rdp_extra @ rdp_cookie_sep @ ''bob'')]"
proof -
  have "extractRDCCookie sample_cr = Some ''bob''"
    unfolding sample_cr_def by (rule rdp_cookie) (simp_all add: is_word_def bval_def)
  then show ?thesis
    using rdp_request_answered [of sample_cr
        "\<lparr>inp = [CHR 0x03, NUL] @ be_bytes 2 (4 + length sample_cr) @ sample_cr @ [], outp = [], wleft = 1, recs = []\<rparr>" NUL "[]"]
    by (auto simp: sample_cr_def)
qed

text \<open>A line of the bounded reader is at most 4096 bytes and free of TELNET commands, whatever is sent; a clean
  line followed by CR LF is returned exactly, and the rest of the input stays.\<close>

theorem readLine_exact_and_bounded:
  "(\<forall>l c'. readLine c = (Some l, c') \<longrightarrow> length l \<le> 4096 \<and> CHR 0xFF \<notin> set l \<and> length (inp c') < length (inp c)) \<and>
   (clean_line s \<longrightarrow> readLine (c\<lparr>inp := s @ crlf @ rest\<rparr>) = (Some s, c\<lparr>inp := rest\<rparr>))"
  using readLine_bound [of c] readLine_progress [of c] readLine_clean [of s "c\<lparr>inp := s @ crlf @ rest\<rparr>" rest]
  by auto

lemma readLine_exact_and_bounded_witness:
  "readLine (sample_conn\<lparr>inp := ''USER a b'' @ crlf @ ''x''\<rparr>) = (Some ''USER a b'', sample_conn\<lparr>inp := ''x''\<rparr>)"
  using readLine_exact_and_bounded [of sample_conn "''USER a b''" "''x''"] by (simp add: clean_line_def)

end
