(* ===== verification/FwFilter.thy ===== *)
theory FwFilter
  imports Events
begin

text \<open>
  \<^verbatim>\<open>internal/fw/filter.go\<close>: which parsed firewall events are dropped before they are sent.

  The dynamic exclusion list is shared by the copies of a filter: a filter holds the address of a
  slot, and the slots are an explicit store.
\<close>

subsection \<open>Networks\<close>

text \<open>\<^verbatim>\<open>net.IPNet\<close> as \<^verbatim>\<open>net.ParseCIDR\<close> makes it: the masked address and the size of the mask.\<close>

record ipnet =
  net_ip :: bytes
  net_ones :: nat
  net_bits :: nat

definition is_v4_literal :: "bytes \<Rightarrow> bool" where
  "is_v4_literal s =
    (case find_first (\<lambda>c. c = CHR ''.'' \<or> c = CHR '':'' \<or> c = CHR ''%'') s of
       None \<Rightarrow> False | Some i \<Rightarrow> s ! i = CHR ''.'')"

text \<open>The bytes of an address masked to its first \<^verbatim>\<open>n\<close> bits.\<close>

fun mask_bytes :: "nat \<Rightarrow> bytes \<Rightarrow> bytes" where
  "mask_bytes n [] = []"
| "mask_bytes n (c # s) =
    (if 8 \<le> n then c # mask_bytes (n - 8) s
     else mkbyte (bval c div 2 ^ (8 - n) * 2 ^ (8 - n)) # mask_bytes 0 s)"

definition ParseCIDR :: "bytes \<Rightarrow> ipnet option" where
  "ParseCIDR s =
    (case find_first (\<lambda>c. c = CHR ''/'') s of None \<Rightarrow> None
     | Some i \<Rightarrow>
       (let a = take i s; m = drop (i + 1) s; ip = ParseIP a; bits = (if is_v4_literal a then 32 else 128) in
        if ip = [] \<or> \<not> all_digits m \<or> bits < digits_val m then None
        else Some \<lparr>net_ip = mask_bytes (digits_val m) (if bits = 32 then drop 12 ip else ip),
                   net_ones = digits_val m, net_bits = bits\<rparr>))"

definition defaultInternalCIDRs :: "bytes list" where
  "defaultInternalCIDRs = [''127.0.0.0/8'', ''10.0.0.0/8'', ''172.16.0.0/12'', ''192.168.0.0/16'',
     ''100.64.0.0/10'', ''169.254.0.0/16'', ''224.0.0.0/4'']"

text \<open>The compiled list, or the first text that is not a network.\<close>

fun parse_all :: "(bytes \<Rightarrow> 'a option) \<Rightarrow> bytes list \<Rightarrow> bytes + 'a list" where
  "parse_all f [] = Inr []"
| "parse_all f (s # ss) =
    (case f s of None \<Rightarrow> Inl s
     | Some n \<Rightarrow> (case parse_all f ss of Inl e \<Rightarrow> Inl e | Inr ns \<Rightarrow> Inr (n # ns)))"

definition ParseCIDRs :: "bytes list \<Rightarrow> bytes + ipnet list" where
  "ParseCIDRs cidrs = parse_all ParseCIDR (if cidrs = [] then defaultInternalCIDRs else cidrs)"

definition parse_exclude_ip :: "bytes \<Rightarrow> bytes option" where
  "parse_exclude_ip s = (let ip = ParseIP s in if ip = [] \<or> To4 ip = [] then None else Some (To4 ip))"

definition ParseExcludeIPs :: "bytes list \<Rightarrow> bytes + bytes list" where
  "ParseExcludeIPs ips = parse_all parse_exclude_ip ips"

subsection \<open>Membership\<close>

definition net_mask :: "nat \<Rightarrow> u32" where
  "net_mask ones = push_bit (32 - ones) (NOT 0)"

fun IsInternalIPv4 :: "u32 \<Rightarrow> ipnet list \<Rightarrow> bool" where
  "IsInternalIPv4 ip [] = False"
| "IsInternalIPv4 ip (n # ns) =
    (if net_bits n \<noteq> 32 then IsInternalIPv4 ip ns
     else if ip AND net_mask (net_ones n) = IPv4ToUint32 (net_ip n) AND net_mask (net_ones n) then True
     else IsInternalIPv4 ip ns)"

definition IsInternalSrc :: "fw_event \<Rightarrow> ipnet list \<Rightarrow> bool" where
  "IsInternalSrc ev cidrs = (if fe_src ev = 0 then False else IsInternalIPv4 (fe_src ev) cidrs)"

definition IsInternalEither :: "fw_event \<Rightarrow> ipnet list \<Rightarrow> bool" where
  "IsInternalEither ev cidrs =
    (if IsInternalSrc ev cidrs then True
     else if fe_dst ev \<noteq> 0 \<and> IsInternalIPv4 (fe_dst ev) cidrs then True else False)"

fun containsIPv4 :: "u32 \<Rightarrow> bytes list \<Rightarrow> bool" where
  "containsIPv4 ip [] = False"
| "containsIPv4 ip (n # ns) = (if To4 n \<noteq> [] \<and> IPv4ToUint32 n = ip then True else containsIPv4 ip ns)"

subsection \<open>The filter\<close>

text \<open>A slot is nil until the first list is stored into it.\<close>

type_synonym slots = "bytes list option list"

record fw_filter =
  ff_exclude_internal :: bool
  ff_dst_internal :: bool
  ff_cidrs :: "ipnet list"
  ff_exclude_ips :: "bytes list"
  ff_dynamic :: "nat option"

definition SetDynamicExcludeIPs :: "bytes list \<Rightarrow> fw_filter \<Rightarrow> slots \<Rightarrow> fw_filter \<times> slots" where
  "SetDynamicExcludeIPs ips f st =
    (case ff_dynamic f of
       None \<Rightarrow> (f\<lparr>ff_dynamic := Some (length st)\<rparr>, st @ [Some ips])
     | Some a \<Rightarrow> (f, st[a := Some ips]))"

definition dynamic_ips :: "fw_filter \<Rightarrow> slots \<Rightarrow> bytes list" where
  "dynamic_ips f st =
    (case ff_dynamic f of None \<Rightarrow> []
     | Some a \<Rightarrow> (if a < length st then (case st ! a of None \<Rightarrow> [] | Some ips \<Rightarrow> ips) else []))"

definition ShouldDrop :: "slots \<Rightarrow> fw_filter \<Rightarrow> fw_event \<Rightarrow> bool" where
  "ShouldDrop st f ev =
    (if fe_src ev \<noteq> 0 \<and> ff_exclude_ips f \<noteq> [] \<and> containsIPv4 (fe_src ev) (ff_exclude_ips f) then True
     else if fe_src ev \<noteq> 0 \<and> dynamic_ips f st \<noteq> [] \<and> containsIPv4 (fe_src ev) (dynamic_ips f st) then True
     else if \<not> ff_exclude_internal f \<or> ff_cidrs f = [] then False
     else if ff_dst_internal f then IsInternalEither ev (ff_cidrs f)
     else IsInternalSrc ev (ff_cidrs f))"

text \<open>The count of dropped events and its hourly note.\<close>

record filter_stats =
  fs_dropped :: u64
  fs_rep :: rate_limiter

definition newFilterStats :: filter_stats where
  "newFilterStats = \<lparr>fs_dropped = 0, fs_rep = NewRateLimiter (60 * minute)\<rparr>"

definition stats_drop :: "int \<Rightarrow> filter_stats \<Rightarrow> sysch \<Rightarrow> filter_stats \<times> sysch" where
  "stats_drop now fs sys =
    (let n = fs_dropped fs + 1;
         (r, sys') = Report now ''fw'' ''info'' [''filtered internal events'', show_nat (unat n)] (fs_rep fs) sys
     in (fs\<lparr>fs_dropped := n, fs_rep := r\<rparr>, sys'))"

subsection \<open>Lemmas\<close>

text \<open>The mask keeps the leading bits: two addresses agree under it when their quotients agree.\<close>

lemma and_net_mask: "x AND net_mask n = push_bit (32 - n) (drop_bit (32 - n) x)" for x :: u32
  by (rule bit_word_eqI) (auto simp: net_mask_def bit_simps)

lemma unat_drop: "unat (drop_bit k z) = unat z div 2 ^ k" for z :: u32
proof -
  have "take_bit LENGTH(32) (unat z) = unat z"
    using unsigned_less [of z] unfolding take_bit_eq_mod by (rule mod_less)
  then show ?thesis unfolding unsigned_drop_bit_eq by (simp add: drop_bit_eq_div)
qed

lemma net_mask_eq_iff:
  fixes x y :: u32
  shows "x AND net_mask n = y AND net_mask n \<longleftrightarrow> unat x div 2 ^ (32 - n) = unat y div 2 ^ (32 - n)"
proof -
  have "drop_bit k (push_bit k (drop_bit k z)) = drop_bit k z" for k and z :: u32
    by (rule bit_word_eqI) (auto simp: bit_simps dest: bit_imp_le_length)
  then have "x AND net_mask n = y AND net_mask n \<longleftrightarrow> drop_bit (32 - n) x = drop_bit (32 - n) y"
    unfolding and_net_mask by metis
  also have "\<dots> \<longleftrightarrow> unat (drop_bit (32 - n) x) = unat (drop_bit (32 - n) y)"
    by (metis unsigned_word_eqI)
  also have "\<dots> \<longleftrightarrow> unat x div 2 ^ (32 - n) = unat y div 2 ^ (32 - n)"
    by (simp only: unat_drop)
  finally show ?thesis .
qed

definition in_net :: "u32 \<Rightarrow> ipnet \<Rightarrow> bool" where
  "in_net ip n \<longleftrightarrow> net_bits n = 32 \<and>
     unat ip div 2 ^ (32 - net_ones n) = unat (IPv4ToUint32 (net_ip n)) div 2 ^ (32 - net_ones n)"

lemma IsInternalIPv4_iff: "IsInternalIPv4 ip ns \<longleftrightarrow> (\<exists>n\<in>set ns. in_net ip n)"
  by (induction ns) (auto simp: in_net_def net_mask_eq_iff)

lemma containsIPv4_iff: "containsIPv4 ip ns \<longleftrightarrow> (\<exists>n\<in>set ns. To4 n \<noteq> [] \<and> IPv4ToUint32 n = ip)"
  by (induction ns) auto

lemma ShouldDrop_iff:
  "ShouldDrop st f ev \<longleftrightarrow>
    (fe_src ev \<noteq> 0 \<and>
      (\<exists>n\<in>set (ff_exclude_ips f) \<union> set (dynamic_ips f st). To4 n \<noteq> [] \<and> IPv4ToUint32 n = fe_src ev)) \<or>
    (ff_exclude_internal f \<and>
      (fe_src ev \<noteq> 0 \<and> (\<exists>n\<in>set (ff_cidrs f). in_net (fe_src ev) n) \<or>
       ff_dst_internal f \<and> fe_dst ev \<noteq> 0 \<and> (\<exists>n\<in>set (ff_cidrs f). in_net (fe_dst ev) n)))"
  by (auto simp: ShouldDrop_def containsIPv4_iff IsInternalEither_def IsInternalSrc_def IsInternalIPv4_iff)

lemma dynamic_ips_set:
  "SetDynamicExcludeIPs ips f st = (f', st') \<Longrightarrow>
    (\<forall>a. ff_dynamic f = Some a \<longrightarrow> a < length st) \<Longrightarrow> dynamic_ips f' st' = ips"
  by (auto simp: SetDynamicExcludeIPs_def dynamic_ips_def split: option.splits)

lemma SetDynamic_shared:
  "ff_dynamic f = Some a \<Longrightarrow> SetDynamicExcludeIPs ips f st = (f, st[a := Some ips])"
  by (simp add: SetDynamicExcludeIPs_def)

lemma parse_all_Inr: "parse_all f ss = Inr ns \<longleftrightarrow> map f ss = map Some ns"
proof (induction ss arbitrary: ns)
  case (Cons s ss)
  show ?case
    by (cases ns) (auto simp: Cons.IH split: option.splits sum.splits dest: Cons.IH [THEN iffD2])
qed auto

lemma parse_exclude_To4: "parse_exclude_ip s = Some q \<Longrightarrow> length q = 4"
  using To4_length [of "ParseIP s"] by (auto simp: parse_exclude_ip_def Let_def split: if_splits)

subsection \<open>The built-in networks\<close>

lemma default_nets:
  "ParseCIDRs [] = Inr
    [\<lparr>net_ip = map mkbyte [127, 0, 0, 0], net_ones = 8, net_bits = 32\<rparr>,
     \<lparr>net_ip = map mkbyte [10, 0, 0, 0], net_ones = 8, net_bits = 32\<rparr>,
     \<lparr>net_ip = map mkbyte [172, 16, 0, 0], net_ones = 12, net_bits = 32\<rparr>,
     \<lparr>net_ip = map mkbyte [192, 168, 0, 0], net_ones = 16, net_bits = 32\<rparr>,
     \<lparr>net_ip = map mkbyte [100, 64, 0, 0], net_ones = 10, net_bits = 32\<rparr>,
     \<lparr>net_ip = map mkbyte [169, 254, 0, 0], net_ones = 16, net_bits = 32\<rparr>,
     \<lparr>net_ip = map mkbyte [224, 0, 0, 0], net_ones = 4, net_bits = 32\<rparr>]"
  by code_simp

text \<open>The leading octets of an address.\<close>

definition octet :: "nat \<Rightarrow> u32 \<Rightarrow> nat" where
  "octet i ip = unat ip div 256 ^ (3 - i) mod 256"

lemma octets_parts:
  fixes ip :: u32
  obtains a b r where "unat ip = (a * 256 + b) * 65536 + r" "a < 256" "b < 256" "r < 65536"
    "octet 0 ip = a" "octet 1 ip = b"
proof
  have l: "unat ip < 4294967296" using unsigned_less [of ip] by simp
  define y where "y = unat ip div 65536"
  have y: "y < 65536" using l by (simp add: y_def less_mult_imp_div_less)
  have ab: "octet 0 ip = y div 256" "octet 1 ip = y mod 256"
    using y by (simp_all add: octet_def y_def div_mult2_eq [symmetric] less_mult_imp_div_less)
  show "unat ip = (y div 256 * 256 + y mod 256) * 65536 + unat ip mod 65536"
    by (simp add: y_def)
  show "y div 256 < 256" using y by (simp add: less_mult_imp_div_less)
  show "y mod 256 < 256" "unat ip mod 65536 < 65536" by simp_all
  show "octet 0 ip = y div 256" "octet 1 ip = y mod 256" by (fact ab)+
qed

lemma mixed_radix:
  fixes q :: nat
  assumes "x < q" "y < q"
  shows "q * a + x = q * b + y \<longleftrightarrow> a = b \<and> x = y"
proof
  assume e: "q * a + x = q * b + y"
  have "(q * a + x) div q = a" "(q * b + y) div q = b" using assms by simp_all
  then show "a = b \<and> x = y" using e by simp
qed simp

lemma net_octets:
  shows "unat ip div 16777216 = k \<longleftrightarrow> octet 0 ip = k"
    and "unat ip div 268435456 = m \<longleftrightarrow> octet 0 ip div 16 = m"
    and "j < 256 \<Longrightarrow> unat ip div 65536 = 256 * k + j \<longleftrightarrow> octet 0 ip = k \<and> octet 1 ip = j"
    and "i < 16 \<Longrightarrow> unat ip div 1048576 = 16 * k + i \<longleftrightarrow> octet 0 ip = k \<and> octet 1 ip div 16 = i"
    and "h < 4 \<Longrightarrow> unat ip div 4194304 = 4 * k + h \<longleftrightarrow> octet 0 ip = k \<and> octet 1 ip div 64 = h"
proof -
  obtain a b r where x: "unat ip = (a * 256 + b) * 65536 + r" "a < 256" "b < 256" "r < 65536"
    "octet 0 ip = a" "octet 1 ip = b"
    by (rule octets_parts)
  have d16: "unat ip div 65536 = a * 256 + b" using x by simp
  have d8: "unat ip div 16777216 = a"
    using div_mult2_eq [of "unat ip" 65536 256] d16 x by simp
  have d12: "unat ip div 1048576 = 16 * a + b div 16"
    using div_mult2_eq [of "unat ip" 65536 16] d16 by simp
  have d10: "unat ip div 4194304 = 4 * a + b div 64"
    using div_mult2_eq [of "unat ip" 65536 64] d16 by simp
  have d4: "unat ip div 268435456 = a div 16"
    using div_mult2_eq [of "unat ip" 16777216 16] d8 by simp
  have small: "b div 16 < 16" "b div 64 < 4" using x(3) by auto
  show "unat ip div 16777216 = k \<longleftrightarrow> octet 0 ip = k" "unat ip div 268435456 = m \<longleftrightarrow> octet 0 ip div 16 = m"
    using d8 d4 x by simp_all
  show "unat ip div 65536 = 256 * k + j \<longleftrightarrow> octet 0 ip = k \<and> octet 1 ip = j" if "j < 256"
    using mixed_radix [of b 256 j a k] x that unfolding d16 by (simp add: mult.commute)
  show "unat ip div 1048576 = 16 * k + i \<longleftrightarrow> octet 0 ip = k \<and> octet 1 ip div 16 = i" if "i < 16"
    using mixed_radix [OF small(1) that, of a k] x unfolding d12 by simp
  show "unat ip div 4194304 = 4 * k + h \<longleftrightarrow> octet 0 ip = k \<and> octet 1 ip div 64 = h" if "h < 4"
    using mixed_radix [OF small(2) that, of a k] x unfolding d10 by simp
qed

text \<open>Membership in the built-in networks, by the leading octets.\<close>

definition builtin_internal :: "u32 \<Rightarrow> bool" where
  "builtin_internal ip \<longleftrightarrow>
     octet 0 ip = 127 \<or> octet 0 ip = 10 \<or> (octet 0 ip = 172 \<and> octet 1 ip div 16 = 1) \<or>
     (octet 0 ip = 192 \<and> octet 1 ip = 168) \<or> (octet 0 ip = 100 \<and> octet 1 ip div 64 = 1) \<or>
     (octet 0 ip = 169 \<and> octet 1 ip = 254) \<or> octet 0 ip div 16 = 14"

lemma base_values:
  "unat (IPv4ToUint32 (map mkbyte [127, 0, 0, 0])) = 2130706432"
  "unat (IPv4ToUint32 (map mkbyte [10, 0, 0, 0])) = 167772160"
  "unat (IPv4ToUint32 (map mkbyte [172, 16, 0, 0])) = 2886729728"
  "unat (IPv4ToUint32 (map mkbyte [192, 168, 0, 0])) = 3232235520"
  "unat (IPv4ToUint32 (map mkbyte [100, 64, 0, 0])) = 1681915904"
  "unat (IPv4ToUint32 (map mkbyte [169, 254, 0, 0])) = 2851995648"
  "unat (IPv4ToUint32 (map mkbyte [224, 0, 0, 0])) = 3758096384"
  by (simp_all add: IPv4ToUint32_def To4_def)

lemma builtin_nets:
  assumes "ParseCIDRs [] = Inr ns"
  shows "IsInternalIPv4 ip ns \<longleftrightarrow> builtin_internal ip"
proof -
  have ns: "ns = [\<lparr>net_ip = map mkbyte [127, 0, 0, 0], net_ones = 8, net_bits = 32\<rparr>,
     \<lparr>net_ip = map mkbyte [10, 0, 0, 0], net_ones = 8, net_bits = 32\<rparr>,
     \<lparr>net_ip = map mkbyte [172, 16, 0, 0], net_ones = 12, net_bits = 32\<rparr>,
     \<lparr>net_ip = map mkbyte [192, 168, 0, 0], net_ones = 16, net_bits = 32\<rparr>,
     \<lparr>net_ip = map mkbyte [100, 64, 0, 0], net_ones = 10, net_bits = 32\<rparr>,
     \<lparr>net_ip = map mkbyte [169, 254, 0, 0], net_ones = 16, net_bits = 32\<rparr>,
     \<lparr>net_ip = map mkbyte [224, 0, 0, 0], net_ones = 4, net_bits = 32\<rparr>]"
    using assms default_nets by simp
  have v: "in_net ip \<lparr>net_ip = map mkbyte q, net_ones = n, net_bits = 32\<rparr>
      \<longleftrightarrow> unat ip div 2 ^ (32 - n) = unat (IPv4ToUint32 (map mkbyte q)) div 2 ^ (32 - n)" for q n
    by (simp add: in_net_def)
  note o = net_octets [where ip = ip]
  have "in_net ip (ns ! 0) \<longleftrightarrow> octet 0 ip = 127" "in_net ip (ns ! 1) \<longleftrightarrow> octet 0 ip = 10"
    "in_net ip (ns ! 6) \<longleftrightarrow> octet 0 ip div 16 = 14"
    unfolding ns nth_Cons_0 by (simp_all add: v base_values o(1,2) del: list.map)
  moreover have "in_net ip (ns ! 2) \<longleftrightarrow> octet 0 ip = 172 \<and> octet 1 ip div 16 = 1"
    unfolding ns using o(4) [where i = 1 and k = 172] by (simp add: v base_values del: list.map)
  moreover have "in_net ip (ns ! 3) \<longleftrightarrow> octet 0 ip = 192 \<and> octet 1 ip = 168"
    unfolding ns using o(3) [where j = 168 and k = 192] by (simp add: v base_values del: list.map)
  moreover have "in_net ip (ns ! 4) \<longleftrightarrow> octet 0 ip = 100 \<and> octet 1 ip div 64 = 1"
    unfolding ns using o(5) [where h = 1 and k = 100] by (simp add: v base_values del: list.map)
  moreover have "in_net ip (ns ! 5) \<longleftrightarrow> octet 0 ip = 169 \<and> octet 1 ip = 254"
    unfolding ns using o(3) [where j = 254 and k = 169] by (simp add: v base_values del: list.map)
  moreover have "set ns = {ns ! 0, ns ! 1, ns ! 2, ns ! 3, ns ! 4, ns ! 5, ns ! 6}"
    unfolding ns by simp
  moreover from this have "IsInternalIPv4 ip ns \<longleftrightarrow> in_net ip (ns ! 0) \<or> in_net ip (ns ! 1) \<or> in_net ip (ns ! 2) \<or>
      in_net ip (ns ! 3) \<or> in_net ip (ns ! 4) \<or> in_net ip (ns ! 5) \<or> in_net ip (ns ! 6)"
    unfolding IsInternalIPv4_iff by (simp only: bex_simps simp_thms)
  ultimately show ?thesis
    unfolding builtin_internal_def by (simp only:)
qed

end
