(* ===== verification/LogStream.thy ===== *)
theory LogStream
  imports Events
begin

text \<open>
  \<^verbatim>\<open>internal/logstream/logstream.go\<close> and \<^verbatim>\<open>internal/util/util.go\<close>: one run of a child process whose
  standard output is consumed line by line, and the loop that restarts it with a growing pause.

  The child is outside the program: what it writes before it ends, the errors of its pipe, start
  and wait, and whether the context was cancelled by then are the fields of a run.
\<close>

subsection \<open>Lines of a stream\<close>

definition maxLineSize :: nat where
  "maxLineSize = 1024 * 1024"

text \<open>
  \<^verbatim>\<open>bufio.Scanner\<close> with \<^verbatim>\<open>ScanLines\<close>: lines without their LF and one CR before it; the scan stops for
  good (True) at a line that does not fit the buffer, which holds the line and its LF.
\<close>

definition dropCR :: "bytes \<Rightarrow> bytes" where
  "dropCR l = (if l \<noteq> [] \<and> last l = CR then butlast l else l)"

function scan_lines :: "nat \<Rightarrow> bytes \<Rightarrow> bytes list \<times> bool" where
  "scan_lines mx s =
    (if s = [] then ([], False)
     else (let l = takeWhile (\<lambda>c. c \<noteq> LF) s; r = drop (length l + 1) s in
       if mx \<le> length l then ([], True)
       else (let (ls, e) = scan_lines mx r in (dropCR l # ls, e))))"
  by pat_completeness auto
termination
  by (relation "measure (\<lambda>(_, s). length s)") auto

declare scan_lines.simps [simp del]

subsection \<open>One run\<close>

record child =
  pipe_err :: "bytes option"
  start_err :: "bytes option"
  stdout :: bytes
  wait_err :: bytes
  cancelled :: bool

text \<open>The lines the callback gets and the error returned, None for nil.\<close>

definition Run :: "bytes \<Rightarrow> child \<Rightarrow> bytes list \<times> bytes list option" where
  "Run nam c =
    (case pipe_err c of Some e \<Rightarrow> ([], Some [nam, ''stdout pipe failed'', e])
     | None \<Rightarrow>
       (case start_err c of Some e \<Rightarrow> ([], Some [nam, ''start failed'', e])
        | None \<Rightarrow>
          (let (ls, toolong) = scan_lines maxLineSize (stdout c) in
           if cancelled c then (ls, None)
           else if toolong then (ls, Some [nam, ''stream read failed'', ''token too long'', wait_err c])
           else (ls, Some [nam, ''stream ended early'', wait_err c]))))"

subsection \<open>Restarting\<close>

definition restartBaseBackoff :: int where "restartBaseBackoff = 2 * second"
definition restartMaxBackoff :: int where "restartMaxBackoff = minute"
definition restartInterval :: int where "restartInterval = minute"

text \<open>
  One round of the loop: the child, the clock when its run has ended, and whether the context is
  cancelled in the pause that follows.
\<close>

record round =
  rd_child :: child
  rd_now :: int
  rd_done :: bool

record restart_state =
  rt_backoff :: int
  rt_last :: "int option"
  rt_first :: bool

definition next_backoff :: "int \<Rightarrow> int" where
  "next_backoff b =
    (if b < restartMaxBackoff
     then (let b2 = b * 2 in if restartMaxBackoff < b2 then restartMaxBackoff else b2) else b)"

text \<open>
  What the loop does, in order: lines handed to the callback, errors reported, pauses. Its result
  is True when it has returned nil, False when the rounds are used up and it still runs.
\<close>

datatype rt_event = Line bytes | Reported int "bytes list" | Paused int

definition due :: "int \<Rightarrow> restart_state \<Rightarrow> bool" where
  "due now s \<longleftrightarrow> rt_first s \<or> (case rt_last s of None \<Rightarrow> True | Some l \<Rightarrow> restartInterval \<le> now - l)"

fun restart_loop :: "bytes \<Rightarrow> restart_state \<Rightarrow> round list \<Rightarrow> rt_event list \<times> bool \<times> restart_state" where
  "restart_loop nam s [] = ([], False, s)"
| "restart_loop nam s (r # rs) =
    (let (ls, err) = Run nam (rd_child r) in
     if cancelled (rd_child r) then (map Line ls, True, s)
     else (let now = rd_now r;
               rep = (if due now s then [Reported now (the err)] else []);
               s1 = s\<lparr>rt_last := (if due now s then Some now else rt_last s), rt_first := False\<rparr> in
       if rd_done r then (map Line ls @ rep, True, s1)
       else (let s2 = s1\<lparr>rt_backoff := next_backoff (rt_backoff s)\<rparr>;
                 (es, fin, s') = restart_loop nam s2 rs
             in (map Line ls @ rep @ Paused (rt_backoff s) # es, fin, s'))))"

definition RunRestarted :: "bytes \<Rightarrow> round list \<Rightarrow> rt_event list \<times> bool \<times> restart_state" where
  "RunRestarted nam rs = restart_loop nam \<lparr>rt_backoff = restartBaseBackoff, rt_last = None, rt_first = True\<rparr> rs"

text \<open>\<^verbatim>\<open>util.Periodic\<close>: the instants the task is called with, given the ticks before cancellation.\<close>

definition Periodic :: "int \<Rightarrow> bool \<Rightarrow> int list \<Rightarrow> int list" where
  "Periodic start runImmediately ticks = (if runImmediately then [start] else []) @ ticks"

subsection \<open>Lemmas\<close>

lemma scan_lines_cons:
  assumes "LF \<notin> set l"
  shows "scan_lines mx (l @ LF # s) =
    (if mx \<le> length l then ([], True) else (let (ls, e) = scan_lines mx s in (dropCR l # ls, e)))"
proof -
  have "takeWhile (\<lambda>c. c \<noteq> LF) (l @ LF # s) = l"
    using assms by (induction l) auto
  then show ?thesis by (subst scan_lines.simps) (simp add: Let_def)
qed

lemma scan_lines_map:
  "\<forall>l\<in>set ls. LF \<notin> set l \<and> length l < mx \<Longrightarrow>
    scan_lines mx (concat (map (\<lambda>l. l @ [LF]) ls) @ s) =
      (map dropCR ls @ fst (scan_lines mx s), snd (scan_lines mx s))"
  by (induction ls) (auto simp: scan_lines_cons case_prod_beta)

lemma scan_lines_toolong:
  assumes "LF \<notin> set l" "mx \<le> length l" "0 < mx"
  shows "scan_lines mx (l @ s) = ([], True)"
proof -
  have "takeWhile (\<lambda>c. c \<noteq> LF) (l @ s) = l @ takeWhile (\<lambda>c. c \<noteq> LF) s"
    using assms(1) by (intro takeWhile_append2) auto
  then show ?thesis
    using assms(2,3) by (subst scan_lines.simps) (auto simp: Let_def)
qed

lemma dropCR_sub: "length (dropCR k) \<le> length k \<and> set (dropCR k) \<subseteq> set k"
  by (auto simp: dropCR_def dest: in_set_butlastD)

lemma LF_takeWhile: "LF \<notin> set (takeWhile (\<lambda>c. c \<noteq> LF) s)"
  by (auto dest: set_takeWhileD)

lemma scan_lines_short: "l \<in> set (fst (scan_lines mx s)) \<Longrightarrow> length l < mx \<and> LF \<notin> set l"
proof (induction mx s rule: scan_lines.induct)
  case (1 mx s)
  define k where "k = takeWhile (\<lambda>c. c \<noteq> LF) s"
  show ?case
  proof (cases "s = [] \<or> mx \<le> length k")
    case True
    then show ?thesis using 1(2) by (simp add: scan_lines.simps [of mx s] Let_def k_def split: if_splits)
  next
    case False
    then have "l = dropCR k \<or> l \<in> set (fst (scan_lines mx (drop (length k + 1) s)))"
      using 1(2) by (simp add: scan_lines.simps [of mx s] Let_def k_def case_prod_beta)
    then show ?thesis
      using 1(1) [of k] False dropCR_sub [of k] LF_takeWhile [of s] by (auto simp: k_def)
  qed
qed

lemma next_backoff_min: "next_backoff (min b restartMaxBackoff) = min (2 * b) restartMaxBackoff" if "0 \<le> b"
  using that by (auto simp: next_backoff_def Let_def min_def restartMaxBackoff_def)

lemma next_backoff_pow:
  "next_backoff (min (restartBaseBackoff * 2 ^ k) restartMaxBackoff) =
     min (restartBaseBackoff * 2 ^ Suc k) restartMaxBackoff"
  by (subst next_backoff_min) (simp_all add: restartBaseBackoff_def)

lemma Run_err: "\<not> cancelled c \<Longrightarrow> \<exists>e. snd (Run nam c) = Some e"
  by (auto simp: Run_def Let_def case_prod_beta split: option.splits)

fun pauses :: "rt_event list \<Rightarrow> int list" where
  "pauses [] = []"
| "pauses (Paused d # es) = d # pauses es"
| "pauses (_ # es) = pauses es"

fun report_times :: "rt_event list \<Rightarrow> int list" where
  "report_times [] = []"
| "report_times (Reported t _ # es) = t # report_times es"
| "report_times (_ # es) = report_times es"

lemma pauses_append [simp]: "pauses (xs @ ys) = pauses xs @ pauses ys"
  by (induction xs rule: pauses.induct) auto

lemma report_times_append [simp]: "report_times (xs @ ys) = report_times xs @ report_times ys"
  by (induction xs rule: report_times.induct) auto

lemma events_Line [simp]: "pauses (map Line ls) = []" "report_times (map Line ls) = []"
  by (induction ls) auto

lemma restart_pauses:
  "rt_backoff s = min (restartBaseBackoff * 2 ^ k) restartMaxBackoff \<Longrightarrow>
   \<exists>n \<le> length rs. pauses (fst (restart_loop nam s rs)) =
      map (\<lambda>i. min (restartBaseBackoff * 2 ^ (k + i)) restartMaxBackoff) [0..<n]"
proof (induction rs arbitrary: s k)
  case (Cons r rs)
  obtain ls err where run: "Run nam (rd_child r) = (ls, err)" by force
  show ?case
  proof (cases "cancelled (rd_child r) \<or> rd_done r")
    case True
    then show ?thesis by (auto simp: run Let_def intro!: exI [of _ 0])
  next
    case False
    define s2 where "s2 = s\<lparr>rt_last := (if due (rd_now r) s then Some (rd_now r) else rt_last s),
      rt_first := False, rt_backoff := next_backoff (rt_backoff s)\<rparr>"
    have "rt_backoff s2 = min (restartBaseBackoff * 2 ^ Suc k) restartMaxBackoff"
      using Cons.prems next_backoff_pow [of k] by (simp add: s2_def)
    then have "\<exists>n \<le> length rs. pauses (fst (restart_loop nam s2 rs)) =
        map (\<lambda>i. min (restartBaseBackoff * 2 ^ (Suc k + i)) restartMaxBackoff) [0..<n]"
      by (rule Cons.IH)
    then obtain n where n: "n \<le> length rs" "pauses (fst (restart_loop nam s2 rs)) =
        map (\<lambda>i. min (restartBaseBackoff * 2 ^ (Suc k + i)) restartMaxBackoff) [0..<n]"
      by blast
    have "pauses (fst (restart_loop nam s (r # rs))) = rt_backoff s # pauses (fst (restart_loop nam s2 rs))"
      using False by (auto simp: run Let_def s2_def case_prod_beta)
    also have "\<dots> = map (\<lambda>i. min (restartBaseBackoff * 2 ^ (k + i)) restartMaxBackoff) [0..<Suc n]"
      using Cons.prems n(2) by (simp add: map_Suc_upt [symmetric] upt_conv_Cons del: upt_Suc)
    finally show ?thesis using n(1) by (intro exI [of _ "Suc n"]) simp
  qed
qed auto

text \<open>Reports of the loop after one at \<^verbatim>\<open>l\<close> are a minute after it and a minute apart.\<close>

definition spaced_after :: "int option \<Rightarrow> int list \<Rightarrow> bool" where
  "spaced_after l ts \<longleftrightarrow> sorted_wrt (\<lambda>a b. restartInterval \<le> b - a)
     (case l of None \<Rightarrow> ts | Some t \<Rightarrow> t # ts)"

lemma spaced_after_cons:
  assumes "\<And>u. l = Some u \<Longrightarrow> restartInterval \<le> t - u" "spaced_after (Some t) ts"
  shows "spaced_after l (t # ts)"
proof (cases l)
  case (Some u)
  have "restartInterval \<le> t - u" using assms(1) Some by blast
  moreover have "0 \<le> restartInterval" by (simp add: restartInterval_def)
  ultimately show ?thesis using assms(2) Some by (force simp: spaced_after_def)
qed (use assms(2) in \<open>simp add: spaced_after_def\<close>)

lemma restart_reports:
  "(rt_first s \<longrightarrow> rt_last s = None) \<Longrightarrow>
   spaced_after (rt_last s) (report_times (fst (restart_loop nam s rs)))"
proof (induction rs arbitrary: s)
  case (Cons r rs)
  obtain ls err where run: "Run nam (rd_child r) = (ls, err)" by force
  define s1 where "s1 = s\<lparr>rt_last := (if due (rd_now r) s then Some (rd_now r) else rt_last s),
      rt_first := False\<rparr>"
  define s2 where "s2 = s1\<lparr>rt_backoff := next_backoff (rt_backoff s)\<rparr>"
  have d: "restartInterval \<le> rd_now r - u" if "rt_last s = Some u" "due (rd_now r) s" for u
    using that Cons.prems by (auto simp: due_def)
  show ?case
  proof (cases "cancelled (rd_child r)")
    case True
    then show ?thesis by (simp add: run spaced_after_def split: option.splits)
  next
    case nc: False
    define ts where "ts = (if rd_done r then [] else report_times (fst (restart_loop nam s2 rs)))"
    have rt: "report_times (fst (restart_loop nam s (r # rs))) = (if due (rd_now r) s then [rd_now r] else []) @ ts"
      using nc by (auto simp: run Let_def s1_def s2_def ts_def case_prod_beta)
    have "spaced_after (rt_last s1) ts"
    proof (cases "rd_done r")
      case True
      then show ?thesis by (simp add: ts_def spaced_after_def split: option.splits)
    next
      case False
      then show ?thesis
        using Cons.IH [of s2] by (simp add: ts_def s2_def s1_def)
    qed
    then show ?thesis
      using spaced_after_cons [of "rt_last s" "rd_now r" ts] d rt by (auto simp: s1_def)
  qed
qed (simp add: spaced_after_def split: option.splits)

end
