(* ===== verification/GoRegex.thy ===== *)
theory GoRegex
  imports GoStr
begin

text \<open>
  The regular expressions of the source, with Go's leftmost-first meaning: a pattern is matched by
  trying its alternatives in order, greedy repetitions longest first, and the first way through is
  the match. Every class that occurs is a set of ASCII bytes or contains every byte from 128 up, and
  what follows a repetition of the latter starts with an ASCII byte or ends the pattern, so matching
  byte by byte finds the same groups as matching rune by rune.
\<close>

datatype regex =
    Lit bytes                                    \<comment> \<open>literal text\<close>
  | Run "byte \<Rightarrow> bool" nat "nat option"       \<comment> \<open>class{lo,hi}, greedy\<close>
  | Seq regex regex
  | Alt regex regex
  | Opt regex                                    \<comment> \<open>(?: ... )?\<close>
  | Cap nat regex                                \<comment> \<open>numbered group\<close>

type_synonym caps = "(nat \<times> bytes) list"

definition consumed :: "bytes \<Rightarrow> bytes \<Rightarrow> bytes" where
  "consumed s r = take (length s - length r) s"

fun matches :: "regex \<Rightarrow> bytes \<Rightarrow> (caps \<times> bytes) list" where
  "matches (Lit t) s = (if has_prefix s t then [([], drop (length t) s)] else [])"
| "matches (Run P lo hi) s =
    (let k = length (takeWhile P s); m = (case hi of None \<Rightarrow> k | Some h \<Rightarrow> min h k)
     in map (\<lambda>i. ([], drop i s)) (rev [lo..<Suc m]))"
| "matches (Seq a b) s = concat (map (\<lambda>(c, r). map (\<lambda>(c', r'). (c @ c', r')) (matches b r)) (matches a s))"
| "matches (Alt a b) s = matches a s @ matches b s"
| "matches (Opt a) s = matches a s @ [([], s)]"
| "matches (Cap n a) s = map (\<lambda>(c, r). ((n, consumed s r) # c, r)) (matches a s)"

fun seqs :: "regex list \<Rightarrow> regex" where
  "seqs [] = Lit []"
| "seqs [r] = r"
| "seqs (r # rs) = Seq r (seqs rs)"

text \<open>A group that took no part has the empty text.\<close>

definition group :: "nat \<Rightarrow> caps \<Rightarrow> bytes" where
  "group n c = (case map_of c n of None \<Rightarrow> [] | Some x \<Rightarrow> x)"

text \<open>A match of a pattern that starts with \<^verbatim>\<open>^\<close>.\<close>

definition match_start :: "regex \<Rightarrow> bytes \<Rightarrow> (caps \<times> bytes) option" where
  "match_start r s = (case matches r s of [] \<Rightarrow> None | m # _ \<Rightarrow> Some m)"

text \<open>A search: the leftmost position where the assertion holds and the pattern matches.\<close>

definition no_assertion :: "byte option \<Rightarrow> bytes \<Rightarrow> bool" where
  "no_assertion p s = True"

definition word_byte :: "byte \<Rightarrow> bool" where
  "word_byte c \<longleftrightarrow> is_digit c \<or> (65 \<le> bval c \<and> bval c \<le> 90) \<or> (97 \<le> bval c \<and> bval c \<le> 122) \<or> c = CHR ''_''"

definition at_word_boundary :: "byte option \<Rightarrow> bytes \<Rightarrow> bool" where
  "at_word_boundary p s \<longleftrightarrow>
     (case p of None \<Rightarrow> False | Some c \<Rightarrow> word_byte c) \<noteq> (case s of [] \<Rightarrow> False | c # _ \<Rightarrow> word_byte c)"

fun search :: "(byte option \<Rightarrow> bytes \<Rightarrow> bool) \<Rightarrow> regex \<Rightarrow> byte option \<Rightarrow> bytes \<Rightarrow> (caps \<times> bytes) option" where
  "search g r p [] = (if g p [] then match_start r [] else None)"
| "search g r p (c # s) =
    (case (if g p (c # s) then match_start r (c # s) else None) of
       Some m \<Rightarrow> Some m | None \<Rightarrow> search g r (Some c) s)"

text \<open>All matches of a pattern that never matches the empty text, from left to right.\<close>

definition last_byte :: "byte option \<Rightarrow> bytes \<Rightarrow> byte option" where
  "last_byte p s = (if s = [] then p else Some (last s))"

fun search_all :: "(byte option \<Rightarrow> bytes \<Rightarrow> bool) \<Rightarrow> regex \<Rightarrow> byte option \<Rightarrow> nat \<Rightarrow> bytes \<Rightarrow> caps list" where
  "search_all g r p skip [] = []"
| "search_all g r p (Suc k) (c # s) = search_all g r (Some c) k s"
| "search_all g r p 0 (c # s) =
    (case (if g p (c # s) then match_start r (c # s) else None) of
       Some (m, rest) \<Rightarrow> m # search_all g r (Some c) (length s - length rest) s
     | None \<Rightarrow> search_all g r (Some c) 0 s)"

subsection \<open>Classes\<close>

definition re_space :: "byte \<Rightarrow> bool" where
  "re_space c \<longleftrightarrow> c = TAB \<or> c = LF \<or> c = CHR 0x0C \<or> c = CR \<or> c = SP"

definition not_space :: "byte \<Rightarrow> bool" where
  "not_space c \<longleftrightarrow> \<not> re_space c"

definition re_lower :: "byte \<Rightarrow> bool" where
  "re_lower c \<longleftrightarrow> 97 \<le> bval c \<and> bval c \<le> 122"

definition re_upper :: "byte \<Rightarrow> bool" where
  "re_upper c \<longleftrightarrow> 65 \<le> bval c \<and> bval c \<le> 90"

abbreviation "Spaces \<equiv> Run re_space 1 None"
abbreviation "Words \<equiv> Run not_space 1 None"
abbreviation "Digits \<equiv> Run is_digit 1 None"

subsection \<open>Lemmas\<close>

lemma has_prefix_append [simp]: "has_prefix (t @ s) t"
  by (simp add: has_prefix_def)

lemma matches_Lit_append [simp]: "matches (Lit t) (t @ s) = [([], s)]"
  by simp

lemma matches_Seq_Lit: "matches (Seq (Lit t) r) (t @ s) = matches r s"
  by (simp add: case_prod_beta)

lemma match_start_Seq_Lit [simp]: "match_start (Seq (Lit t) r) (t @ s) = match_start r s"
  by (simp add: match_start_def case_prod_beta)

text \<open>Matching a whole token: what follows it cannot start inside it.\<close>

lemma matches_Run_stop:
  assumes "\<forall>c\<in>set u. P c" "s = [] \<or> \<not> P (hd s)"
  shows "matches (Run P lo None) (u @ s) = map (\<lambda>i. ([], drop i (u @ s))) (rev [lo..<Suc (length u)])"
proof -
  have "takeWhile P (u @ s) = u"
    using assms by (cases s) (auto simp: takeWhile_append_stop)
  then show ?thesis unfolding matches.simps Let_def option.case by simp
qed

definition stuck_in :: "regex \<Rightarrow> (byte \<Rightarrow> bool) \<Rightarrow> bool" where
  "stuck_in r P \<longleftrightarrow> (\<forall>c s. P c \<longrightarrow> matches r (c # s) = [])"

lemma stuck_Lit: "t \<noteq> [] \<Longrightarrow> \<not> P (hd t) \<Longrightarrow> stuck_in (Lit t) P"
  by (cases t) (auto simp: stuck_in_def has_prefix_def)

lemma stuck_Seq: "stuck_in a P \<Longrightarrow> stuck_in (Seq a b) P"
  by (simp add: stuck_in_def)

lemma stuck_Cap: "stuck_in a P \<Longrightarrow> stuck_in (Cap n a) P"
  by (simp add: stuck_in_def)

lemma stuck_Run: "0 < lo \<Longrightarrow> (\<forall>c. P c \<longrightarrow> \<not> Q c) \<Longrightarrow> stuck_in (Run Q lo hi) P"
  by (auto simp: stuck_in_def split: option.splits)

lemma rev_upt_Suc: "lo \<le> n \<Longrightarrow> rev [lo..<Suc n] = n # rev [lo..<n]"
  by simp

lemma concat_map_Nil: "(\<forall>x\<in>set xs. f x = []) \<Longrightarrow> concat (map f xs) = []"
  by (induction xs) auto

lemma matches_token:
  assumes u: "\<forall>c\<in>set u. P c" "lo \<le> length u" and s: "s = [] \<or> \<not> P (hd s)" and r: "stuck_in r P"
  shows "matches (Seq (Run P lo None) r) (u @ s) = matches r s"
proof -
  have "matches r (drop i (u @ s)) = []" if "i < length u" for i
  proof -
    have "drop i (u @ s) = u ! i # drop (Suc i) u @ s"
      using that by (simp add: Cons_nth_drop_Suc [symmetric])
    then show ?thesis using r u(1) that by (simp add: stuck_in_def)
  qed
  then have "concat (map (\<lambda>i. matches r (drop i (u @ s))) (rev [lo..<length u])) = []"
    by (intro concat_map_Nil) auto
  then show ?thesis
    using u(2) matches_Run_stop [OF u(1) s, of lo]
    by (simp add: rev_upt_Suc comp_def case_prod_beta del: upt_Suc matches.simps(2))
qed

lemma matches_cap_token:
  assumes u: "\<forall>c\<in>set u. P c" "lo \<le> length u" and s: "s = [] \<or> \<not> P (hd s)" and r: "stuck_in r P"
  shows "matches (Seq (Cap n (Run P lo None)) r) (u @ s) = map (\<lambda>(c, t). ((n, u) # c, t)) (matches r s)"
proof -
  have "matches r (drop i (u @ s)) = []" if "i < length u" for i
  proof -
    have "drop i (u @ s) = u ! i # drop (Suc i) u @ s"
      using that by (simp add: Cons_nth_drop_Suc [symmetric])
    then show ?thesis using r u(1) that by (simp add: stuck_in_def)
  qed
  then have e: "concat (map (\<lambda>i. map (f i) (matches r (drop i (u @ s)))) (rev [lo..<length u])) = []" for f
    by (intro concat_map_Nil) auto
  show ?thesis
    using u(2) matches_Run_stop [OF u(1) s, of lo] e
    by (simp add: rev_upt_Suc comp_def case_prod_beta consumed_def del: upt_Suc matches.simps(2))
qed

lemma matches_cap_token_end:
  assumes u: "\<forall>c\<in>set u. P c" "lo \<le> length u" and s: "s = [] \<or> \<not> P (hd s)"
  shows "\<exists>ms. matches (Cap n (Run P lo None)) (u @ s) = ([(n, u)], s) # ms"
  using u(2) matches_Run_stop [OF u(1) s, of lo]
  by (simp add: rev_upt_Suc consumed_def del: upt_Suc matches.simps(2))

subsection \<open>Matches found at the first attempt\<close>

lemma match_start_Seq:
  assumes "match_start a s = Some (c, r)" "match_start b r = Some (c', r')"
  shows "match_start (Seq a b) s = Some (c @ c', r')"
  using assms by (auto simp: match_start_def split: list.splits)

lemma match_start_Lit: "match_start (Lit t) (t @ s) = Some ([], s)"
  by (simp add: match_start_def)

lemma match_start_Run:
  assumes "\<forall>c\<in>set u. P c" "lo \<le> length u" "s = [] \<or> \<not> P (hd s)"
  shows "match_start (Run P lo None) (u @ s) = Some ([], s)"
  using assms(2) matches_Run_stop [OF assms(1,3), of lo]
  by (simp add: match_start_def rev_upt_Suc del: upt_Suc matches.simps(2))

lemma match_start_Run_to:
  assumes "\<forall>c\<in>set u. P c" "lo \<le> length u" "length u = hi"
  shows "match_start (Run P lo (Some hi)) (u @ s) = Some ([], s)"
proof -
  have "hi \<le> length (takeWhile P (u @ s))"
    using assms by (simp add: takeWhile_append)
  then show ?thesis using assms by (simp add: match_start_def min_absorb1 rev_upt_Suc del: upt_Suc)
qed

lemma match_start_Cap:
  assumes "match_start r (u @ s) = Some (c, s)"
  shows "match_start (Cap n r) (u @ s) = Some ((n, u) # c, s)"
  using assms by (auto simp: match_start_def consumed_def split: list.splits)

lemma match_start_Opt: "match_start r s = Some m \<Longrightarrow> match_start (Opt r) s = Some m"
  by (auto simp: match_start_def split: list.splits)

lemma match_start_Opt_none: "match_start r s = None \<Longrightarrow> match_start (Opt r) s = Some ([], s)"
  by (auto simp: match_start_def split: list.splits)

lemma match_start_Alt: "match_start a s = Some m \<Longrightarrow> match_start (Alt a b) s = Some m"
  by (auto simp: match_start_def split: list.splits)

lemma match_start_Alt2: "match_start a s = None \<Longrightarrow> match_start (Alt a b) s = match_start b s"
  by (auto simp: match_start_def split: list.splits)

lemma match_start_Seq_None: "match_start a s = None \<Longrightarrow> match_start (Seq a b) s = None"
  by (auto simp: match_start_def split: list.splits)

lemma match_start_None_iff: "match_start r s = None \<longleftrightarrow> matches r s = []"
  by (auto simp: match_start_def split: list.splits)

lemma match_start_token:
  assumes "\<forall>c\<in>set u. P c" "u \<noteq> []" "s = [] \<or> \<not> P (hd s)"
  shows "match_start (Run P (Suc 0) None) (u @ s) = Some ([], s)"
    "match_start (Cap n (Run P (Suc 0) None)) (u @ s) = Some ([(n, u)], s)"
proof -
  have "Suc 0 \<le> length u" using assms(2) by (cases u) auto
  then show "match_start (Run P (Suc 0) None) (u @ s) = Some ([], s)"
    using match_start_Run [OF assms(1) _ assms(3)] by blast
  then show "match_start (Cap n (Run P (Suc 0) None)) (u @ s) = Some ([(n, u)], s)"
    by (rule match_start_Cap)
qed

text \<open>A search passes over positions where the pattern does not match.\<close>

lemma search_skip:
  assumes "\<forall>x y. u = x @ y \<and> y \<noteq> [] \<longrightarrow> match_start r (y @ s) = None"
  shows "search no_assertion r p (u @ s) = search no_assertion r (last_byte p u) s"
  using assms
proof (induction u arbitrary: p)
  case (Cons c u)
  have "match_start r (c # u @ s) = None" using Cons.prems by (metis append_Cons append_Nil list.distinct(1))
  moreover have "\<forall>x y. u = x @ y \<and> y \<noteq> [] \<longrightarrow> match_start r (y @ s) = None"
    using Cons.prems by (metis append_Cons)
  ultimately show ?case
    using Cons.IH by (simp add: no_assertion_def last_byte_def)
qed (simp add: last_byte_def)

lemma search_here: "match_start r (c # s) = Some m \<Longrightarrow> search no_assertion r p (c # s) = Some m"
  by (simp add: no_assertion_def)

lemma search_all_over: "search_all g r p (length u) (u @ s) = search_all g r (last_byte p u) 0 s"
proof (induction u arbitrary: p)
  case (Cons c u)
  then show ?case by (cases u) (auto simp: last_byte_def)
qed (simp add: last_byte_def)

end
