(* ===== verification/GoJson.thy ===== *)
theory GoJson
  imports GoStr
begin

text \<open>
  \<^verbatim>\<open>encoding/json\<close> as far as the source uses it: the syntax of a JSON text, the value it denotes, and
  the decoding of an object into string fields. A text is split into tokens and the tokens drive a
  stack machine, as in Go's scanner; containers may be nested 10000 deep.
\<close>

datatype json = JNull | JBool bool | JNum bytes | JStr bytes | JArr "json list" | JObj "(bytes \<times> json) list"

datatype token = TLBrace | TRBrace | TLBrack | TRBrack | TColon | TComma | TVal json

subsection \<open>Tokens\<close>

definition json_space :: "byte \<Rightarrow> bool" where
  "json_space c \<longleftrightarrow> c = SP \<or> c = TAB \<or> c = LF \<or> c = CR"

fun hex_digit_val :: "byte \<Rightarrow> nat option" where
  "hex_digit_val c = (let x = bval c in
     if 48 \<le> x \<and> x \<le> 57 then Some (x - 48)
     else if 97 \<le> x \<and> x \<le> 102 then Some (x - 87)
     else if 65 \<le> x \<and> x \<le> 70 then Some (x - 55) else None)"

definition hex4 :: "bytes \<Rightarrow> nat option" where
  "hex4 s = (case map hex_digit_val (take 4 s) of
     [Some a, Some b, Some c, Some d] \<Rightarrow> Some (a * 4096 + b * 256 + c * 16 + d) | _ \<Rightarrow> None)"

definition simple_escape :: "byte \<Rightarrow> byte option" where
  "simple_escape c =
    (if c = CHR 0x22 \<or> c = CHR 0x5C \<or> c = CHR ''/'' then Some c
     else if c = CHR ''b'' then Some (CHR 0x08) else if c = CHR ''f'' then Some (CHR 0x0C)
     else if c = CHR ''n'' then Some LF else if c = CHR ''r'' then Some CR
     else if c = CHR ''t'' then Some TAB else None)"

text \<open>
  The body of a string after its opening quote: code points, and the rest after the closing quote.
  An unpaired surrogate and an invalid UTF-8 byte become U+FFFD.
\<close>

function scan_string :: "bytes \<Rightarrow> (nat list \<times> bytes) option" where
  "scan_string s =
    (case s of [] \<Rightarrow> None
     | c # r \<Rightarrow>
       if c = CHR 0x22 then Some ([], r)
       else if bval c < 32 then None
       else if c = CHR 0x5C then
         (case r of [] \<Rightarrow> None
          | e # r' \<Rightarrow>
            if e = CHR ''u'' then
              (case hex4 r' of None \<Rightarrow> None
               | Some u \<Rightarrow>
                 (let r1 = drop 4 r' in
                  if 0xD800 \<le> u \<and> u < 0xE000 then
                    (case (if u < 0xDC00 \<and> has_prefix r1 [CHR 0x5C, CHR ''u''] then hex4 (drop 2 r1) else None) of
                       Some v \<Rightarrow>
                         if 0xDC00 \<le> v \<and> v < 0xE000 then
                           map_option (\<lambda>(cs, t). (((u - 0xD800) * 1024 + (v - 0xDC00) + 0x10000) # cs, t))
                             (scan_string (drop 6 r1))
                         else map_option (\<lambda>(cs, t). (rune_error # cs, t)) (scan_string r1)
                     | None \<Rightarrow> map_option (\<lambda>(cs, t). (rune_error # cs, t)) (scan_string r1))
                  else map_option (\<lambda>(cs, t). (u # cs, t)) (scan_string r1)))
            else
              (case simple_escape e of None \<Rightarrow> None
               | Some b \<Rightarrow> map_option (\<lambda>(cs, t). (bval b # cs, t)) (scan_string r')))
       else map_option (\<lambda>(cs, t). (fst (decode_rune s) # cs, t)) (scan_string (drop (max 1 (rune_width s)) s)))"
  by pat_completeness auto
termination
  by (relation "measure length") auto

declare scan_string.simps [simp del]

text \<open>A number: the longest text of the number grammar.\<close>

definition span :: "('a \<Rightarrow> bool) \<Rightarrow> 'a list \<Rightarrow> 'a list \<times> 'a list" where
  "span P s = (takeWhile P s, dropWhile P s)"

definition scan_number :: "bytes \<Rightarrow> (bytes \<times> bytes) option" where
  "scan_number s =
    (let (sg, s1) = (if has_prefix s ''-'' then (''-'', drop 1 s) else ([], s));
         (i, s2) = (if has_prefix s1 ''0'' then (''0'', drop 1 s1) else span is_digit s1)
     in if i = [] then None
        else
          (case (if has_prefix s2 ''.'' then
                   (let (f, r) = span is_digit (drop 1 s2) in if f = [] then None else Some (CHR ''.'' # f, r))
                 else Some ([], s2)) of
             None \<Rightarrow> None
           | Some (f, s3) \<Rightarrow>
             (if has_prefix s3 ''e'' \<or> has_prefix s3 ''E'' then
                (let t = drop 1 s3;
                     (es, t1) = (if has_prefix t ''+'' \<or> has_prefix t ''-'' then (take 1 t, drop 1 t) else ([], t));
                     (d, r) = span is_digit t1
                 in if d = [] then None else Some (sg @ i @ f @ take 1 s3 @ es @ d, r))
              else Some (sg @ i @ f, s3))))"

definition next_token :: "bytes \<Rightarrow> (token \<times> bytes) option" where
  "next_token s =
    (case s of [] \<Rightarrow> None
     | c # r \<Rightarrow>
       if c = CHR ''{'' then Some (TLBrace, r) else if c = CHR ''}'' then Some (TRBrace, r)
       else if c = CHR ''['' then Some (TLBrack, r) else if c = CHR '']'' then Some (TRBrack, r)
       else if c = CHR '':'' then Some (TColon, r) else if c = CHR '','' then Some (TComma, r)
       else if c = CHR 0x22 then map_option (\<lambda>(cs, t). (TVal (JStr (encode_runes cs)), t)) (scan_string r)
       else if has_prefix s ''null'' then Some (TVal JNull, drop 4 s)
       else if has_prefix s ''true'' then Some (TVal (JBool True), drop 4 s)
       else if has_prefix s ''false'' then Some (TVal (JBool False), drop 5 s)
       else map_option (\<lambda>(n, t). (TVal (JNum n), t)) (scan_number s))"

function tokens :: "bytes \<Rightarrow> token list option" where
  "tokens s =
    (let s1 = dropWhile json_space s in
     if s1 = [] then Some []
     else (case next_token s1 of None \<Rightarrow> None
       | Some (t, r) \<Rightarrow> if length r < length s1 then map_option (Cons t) (tokens r) else None))"
  by pat_completeness auto
termination
  by (relation "measure length") (auto, metis length_dropWhile_le order_less_le_trans)

declare tokens.simps [simp del]

subsection \<open>The stack machine\<close>

text \<open>An open array holds its elements, an open object its members and the key being read.\<close>

datatype frame = FArr "json list" | FObj "(bytes \<times> json) list" bytes

datatype mode =
    BeginValue            \<comment> \<open>a value must follow\<close>
  | BeginValueOrEnd       \<comment> \<open>just after \<^verbatim>\<open>[\<close>\<close>
  | BeginKey              \<comment> \<open>just after a comma in an object\<close>
  | BeginKeyOrEnd         \<comment> \<open>just after \<^verbatim>\<open>{\<close>\<close>
  | AfterKey
  | AfterValue
  | EndTop json

text \<open>A complete value is added to the innermost open container, or ends the text.\<close>

fun close :: "json \<Rightarrow> frame list \<Rightarrow> frame list \<times> mode" where
  "close v [] = ([], EndTop v)"
| "close v (FArr vs # st) = (FArr (vs @ [v]) # st, AfterValue)"
| "close v (FObj ms k # st) = (FObj (ms @ [(k, v)]) k # st, AfterValue)"

definition max_depth :: nat where "max_depth = 10000"

fun begin_value :: "token \<Rightarrow> frame list \<Rightarrow> (frame list \<times> mode) option" where
  "begin_value TLBrack st = (if length st < max_depth then Some (FArr [] # st, BeginValueOrEnd) else None)"
| "begin_value TLBrace st = (if length st < max_depth then Some (FObj [] [] # st, BeginKeyOrEnd) else None)"
| "begin_value (TVal v) st = Some (close v st)"
| "begin_value _ st = None"

definition key_of :: "token \<Rightarrow> bytes option" where
  "key_of t = (case t of TVal v \<Rightarrow> (case v of JStr k \<Rightarrow> Some k | _ \<Rightarrow> None) | _ \<Rightarrow> None)"

definition begin_key :: "token \<Rightarrow> frame list \<Rightarrow> (frame list \<times> mode) option" where
  "begin_key t st =
    (case st of FObj ms k' # st' \<Rightarrow> map_option (\<lambda>k. (FObj ms k # st', AfterKey)) (key_of t) | _ \<Rightarrow> None)"

definition json_step :: "token \<Rightarrow> frame list \<Rightarrow> mode \<Rightarrow> (frame list \<times> mode) option" where
  "json_step t st m =
    (case m of
       BeginValue \<Rightarrow> begin_value t st
     | BeginValueOrEnd \<Rightarrow>
         (case st of FArr vs # st' \<Rightarrow> if t = TRBrack then Some (close (JArr vs) st') else begin_value t st
          | _ \<Rightarrow> None)
     | BeginKey \<Rightarrow> begin_key t st
     | BeginKeyOrEnd \<Rightarrow>
         (case st of FObj ms k # st' \<Rightarrow> if t = TRBrace then Some (close (JObj ms) st') else begin_key t st
          | _ \<Rightarrow> None)
     | AfterKey \<Rightarrow> if t = TColon then Some (st, BeginValue) else None
     | AfterValue \<Rightarrow>
         (case st of
            FArr vs # st' \<Rightarrow> if t = TComma then Some (st, BeginValue)
              else if t = TRBrack then Some (close (JArr vs) st') else None
          | FObj ms k # st' \<Rightarrow> if t = TComma then Some (st, BeginKey)
              else if t = TRBrace then Some (close (JObj ms) st') else None
          | [] \<Rightarrow> None)
     | EndTop v \<Rightarrow> None)"

fun json_run :: "token list \<Rightarrow> frame list \<Rightarrow> mode \<Rightarrow> json option" where
  "json_run [] st m = (case m of EndTop v \<Rightarrow> Some v | _ \<Rightarrow> None)"
| "json_run (t # ts) st m = (case json_step t st m of None \<Rightarrow> None | Some (st', m') \<Rightarrow> json_run ts st' m')"

definition json_parse :: "bytes \<Rightarrow> json option" where
  "json_parse s = (case tokens s of None \<Rightarrow> None | Some ts \<Rightarrow> json_run ts [] BeginValue)"

subsection \<open>Decoding into fields\<close>

text \<open>
  The field of a key: its exact name, otherwise the name up to case, where \<^verbatim>\<open>U+017F\<close> and \<^verbatim>\<open>U+212A\<close>
  fold to S and K.
\<close>

definition fold_rune :: "nat \<Rightarrow> nat" where
  "fold_rune r =
    (if r = 0x17F then 83 else if r = 0x212A then 75 else if 97 \<le> r \<and> r \<le> 122 then r - 32 else r)"

definition fold_name :: "bytes \<Rightarrow> nat list" where
  "fold_name s = map fold_rune (runes s)"

definition field_of :: "bytes list \<Rightarrow> bytes \<Rightarrow> bytes option" where
  "field_of names k =
    (if k \<in> set names then Some k
     else map_option (\<lambda>i. names ! i) (find_first (\<lambda>n. fold_name n = fold_name k) names))"

text \<open>
  Decoding into string fields: the last member of a field wins, \<^verbatim>\<open>null\<close> leaves it alone, any other
  value is an error, found after the whole text is decoded.
\<close>

fun string_field :: "bytes list \<Rightarrow> (bytes \<times> json) list \<Rightarrow> bytes \<Rightarrow> bytes \<Rightarrow> bytes option" where
  "string_field names [] f v = Some v"
| "string_field names ((k, x) # ms) f v =
    (if field_of names k = Some f then
       (case x of JStr t \<Rightarrow> string_field names ms f t | JNull \<Rightarrow> string_field names ms f v | _ \<Rightarrow> None)
     else string_field names ms f v)"

definition unmarshal_strings :: "bytes list \<Rightarrow> bytes \<Rightarrow> bytes list option" where
  "unmarshal_strings names s =
    (case json_parse s of
       Some (JObj ms) \<Rightarrow> those (map (\<lambda>f. string_field names ms f []) names)
     | Some JNull \<Rightarrow> Some (map (\<lambda>_. []) names)
     | _ \<Rightarrow> None)"

end
