(* ===== verification/Fw.thy ===== *)
theory Fw
  imports FwFilter LogStream GoRegex GoJson
begin

text \<open>
  \<^verbatim>\<open>internal/fw\<close>: parsing kernel log lines into firewall events (\<^verbatim>\<open>parse.go\<close>), handling one line
  and the two sources (\<^verbatim>\<open>fw.go\<close>, \<^verbatim>\<open>fw_kmsg_linux.go\<close>), and the learner that keeps the dynamic
  exclusion list (\<^verbatim>\<open>ssh_learn.go\<close>).
\<close>

subsection \<open>Parsing\<close>

definition fw_keys :: regex where
  "fw_keys = Alt (Lit ''SRC'') (Alt (Lit ''DST'') (Alt (Lit ''PROTO'') (Alt (Lit ''SPT'') (Lit ''DPT''))))"

definition reFWKV :: regex where
  "reFWKV = Seq (Cap 1 fw_keys) (Seq (Lit ''='') (Cap 2 Words))"

definition protoByName :: "bytes \<rightharpoonup> u8" where
  "protoByName = map_of [(''TCP'', of_nat ProtoTCP), (''UDP'', of_nat ProtoUDP), (''ICMP'', of_nat ProtoICMP),
     (''SCTP'', 132), (''GRE'', 47), (''ICMPV6'', 58)]"

fun ip_parts :: "u32 \<Rightarrow> bytes list \<Rightarrow> u32" where
  "ip_parts v [] = v"
| "ip_parts v (p # ps) =
    (case atoi p of None \<Rightarrow> 0
     | Some n \<Rightarrow> if n < 0 \<or> 255 < n then 0 else ip_parts (push_bit 8 v OR of_int n) ps)"

definition ipToUint32 :: "bytes \<Rightarrow> u32" where
  "ipToUint32 s = (let ps = split_on (CHR ''.'') s in if length ps \<noteq> 4 then 0 else ip_parts 0 ps)"

definition atou16 :: "bytes \<Rightarrow> u16" where
  "atou16 s = (case parse_uint 16 s of None \<Rightarrow> 0 | Some n \<Rightarrow> of_nat n)"

text \<open>The effect of one key and value; the flag says that an address key was seen.\<close>

definition kv_update :: "bytes \<Rightarrow> bytes \<Rightarrow> fw_event \<times> bool \<Rightarrow> fw_event \<times> bool" where
  "kv_update key v e =
    (if key = ''SRC'' then ((fst e)\<lparr>fe_src := ipToUint32 v\<rparr>, True)
     else if key = ''DST'' then ((fst e)\<lparr>fe_dst := ipToUint32 v\<rparr>, True)
     else if key = ''PROTO'' then
       (case protoByName (to_upper v) of Some p \<Rightarrow> ((fst e)\<lparr>fe_proto := p\<rparr>, snd e) | None \<Rightarrow> e)
     else if key = ''SPT'' then ((fst e)\<lparr>fe_sport := atou16 v\<rparr>, snd e)
     else if key = ''DPT'' then ((fst e)\<lparr>fe_dport := atou16 v\<rparr>, snd e)
     else e)"

definition fw_kvs :: "bytes \<Rightarrow> (bytes \<times> bytes) list" where
  "fw_kvs line = map (\<lambda>m. (group 1 m, group 2 m)) (search_all at_word_boundary reFWKV None 0 line)"

definition fw_zero :: fw_event where
  "fw_zero = \<lparr>fe_ts = 0, fe_chain = [], fe_action = [], fe_proto = 0, fe_src = 0, fe_sport = 0,
     fe_dst = 0, fe_dport = 0, fe_raw = []\<rparr>"

definition ParseFWLine :: "bytes \<Rightarrow> bytes \<Rightarrow> fw_event option" where
  "ParseFWLine line prefix =
    (case index_of line prefix of None \<Rightarrow> None
     | Some idx \<Rightarrow>
       (let rest = trim_space (drop (idx + length prefix) line) in
        case Fields rest of [] \<Rightarrow> None
        | tag # _ \<Rightarrow>
          (let ev0 = fw_zero\<lparr>fe_raw := Truncate512 line\<rparr>;
               ev1 = (case split_on (CHR '':'') tag of
                        [c, a] \<Rightarrow> ev0\<lparr>fe_chain := c, fe_action := a\<rparr>
                      | _ \<Rightarrow> ev0\<lparr>fe_action := tag\<rparr>);
               (ev, hasAddr) = fold (\<lambda>(k, v). kv_update k v) (fw_kvs line) (ev1, False)
           in if hasAddr then Some ev else None)))"

subsection \<open>Handling one line\<close>

text \<open>
  Events sent, in order, with the channel of system events, the rate limiter and the statistics.
  A send blocks until there is room; \<^verbatim>\<open>sent\<close> says that it completed before cancellation.
\<close>

record fw_state =
  fh_sink :: "fw_event list"
  fh_sys :: sysch
  fh_rep :: rate_limiter
  fh_stats :: "filter_stats option"

definition fw_handleLine :: "int \<Rightarrow> bool \<Rightarrow> slots \<Rightarrow> bytes \<Rightarrow> int \<Rightarrow> bytes \<Rightarrow> fw_filter \<Rightarrow> fw_state \<Rightarrow> fw_state" where
  "fw_handleLine now sent sl line ts prefix f s =
    (if \<not> contains line prefix then s
     else case ParseFWLine line prefix of
       None \<Rightarrow>
         (let (r, sys) = Report now ''fw'' ''warn'' [''prefix but unparsable'', Truncate512 line] (fh_rep s) (fh_sys s)
          in s\<lparr>fh_rep := r, fh_sys := sys\<rparr>)
     | Some ev0 \<Rightarrow>
         (let ev = ev0\<lparr>fe_ts := ts\<rparr> in
          if ShouldDrop sl f ev then
            (case fh_stats s of None \<Rightarrow> s
             | Some fs \<Rightarrow> (let (fs', sys) = stats_drop now fs (fh_sys s) in s\<lparr>fh_stats := Some fs', fh_sys := sys\<rparr>))
          else if sent then s\<lparr>fh_sink := fh_sink s @ [ev]\<rparr> else s))"

text \<open>One line of \<^verbatim>\<open>journalctl -o json\<close>: a line that does not decode is skipped.\<close>

definition journal_kernel_fields :: "bytes list" where
  "journal_kernel_fields = [''MESSAGE'', ''__REALTIME_TIMESTAMP'']"

definition journal_kernel_line :: "int \<Rightarrow> bool \<Rightarrow> slots \<Rightarrow> bytes \<Rightarrow> fw_filter \<Rightarrow> bytes \<Rightarrow> fw_state \<Rightarrow> fw_state" where
  "journal_kernel_line now sent sl prefix f line s =
    (case unmarshal_strings journal_kernel_fields line of
       Some [m, rt] \<Rightarrow>
         (let ts = (case MicrosToUnix rt of (v, ok) \<Rightarrow> if ok then v else unix now)
          in fw_handleLine now sent sl m ts prefix f s)
     | _ \<Rightarrow> s)"

text \<open>
  The events of the restart loop, each with the clock, whether a send completes, and the slots at
  that moment; the restart reports have a rate limiter of their own.
\<close>

fun journald_events :: "bytes \<Rightarrow> fw_filter \<Rightarrow> (rt_event \<times> int \<times> bool \<times> slots) list
    \<Rightarrow> rate_limiter \<Rightarrow> fw_state \<Rightarrow> rate_limiter \<times> fw_state" where
  "journald_events prefix f [] rr s = (rr, s)"
| "journald_events prefix f ((Line l, now, sent, sl) # es) rr s =
    journald_events prefix f es rr (journal_kernel_line now sent sl prefix f l s)"
| "journald_events prefix f ((Reported t msg, now, sent, sl) # es) rr s =
    (let (rr', sys) = Report now ''fw'' ''warn'' msg rr (fh_sys s)
     in journald_events prefix f es rr' (s\<lparr>fh_sys := sys\<rparr>))"
| "journald_events prefix f ((Paused d, now, sent, sl) # es) rr s = journald_events prefix f es rr s"

definition runJournaldKernel :: "bool \<Rightarrow> bytes \<Rightarrow> fw_filter \<Rightarrow> round list \<Rightarrow> (int \<times> bool \<times> slots) list
    \<Rightarrow> fw_state \<Rightarrow> bytes list option \<times> fw_state" where
  "runJournaldKernel found prefix f rounds env s =
    (if \<not> found then (Some [''journald-kernel needs journalctl''], s)
     else (None, snd (journald_events prefix f (zip (fst (RunRestarted ''journalctl -k'' rounds)) env)
                        (NewRateLimiter minute) s)))"

subsection \<open>The kernel ring buffer\<close>

text \<open>What one non-blocking read of \<^verbatim>\<open>/dev/kmsg\<close> returns.\<close>

datatype kmsg_read = Again | Failed bytes | Rec bytes

fun seq_digits :: "u64 \<Rightarrow> nat \<Rightarrow> bytes \<Rightarrow> (u64 \<times> nat) option" where
  "seq_digits q n [] = Some (q, n)"
| "seq_digits q n (c # s) =
    (if c = CHR '','' then Some (q, n)
     else if \<not> is_digit c then None
     else seq_digits (q * 10 + of_nat (bval c - 48)) (Suc n) s)"

definition kmsgSeq :: "bytes \<Rightarrow> u64 option" where
  "kmsgSeq record =
    (case dropWhile (\<lambda>c. c \<noteq> CHR '','') record of
       [] \<Rightarrow> None
     | _ # r \<Rightarrow> (case seq_digits 0 0 r of None \<Rightarrow> None | Some (q, n) \<Rightarrow> if n = 0 then None else Some q))"

datatype drained = DrainCancelled | DrainFailed bytes | Drained u64 "kmsg_read list" | Draining

text \<open>
  Phase one: each read with whether the context is cancelled before it. A read that would block ends
  the phase, which hands over the last sequence number read and the reads to come.
\<close>

fun kmsg_drain :: "u64 \<Rightarrow> bool list \<Rightarrow> kmsg_read list \<Rightarrow> drained" where
  "kmsg_drain q (True # ds) rs = DrainCancelled"
| "kmsg_drain q ds [] = Draining"
| "kmsg_drain q ds (Again # rs) = Drained q rs"
| "kmsg_drain q ds (Failed e # rs) = DrainFailed e"
| "kmsg_drain q ds (Rec b # rs) =
    kmsg_drain (case kmsgSeq b of Some s \<Rightarrow> s | None \<Rightarrow> q) (tl ds) rs"

text \<open>The line of a record: trailing NUL and LF dropped, then everything up to the first semicolon.\<close>

definition kmsg_line :: "bytes \<Rightarrow> bytes" where
  "kmsg_line raw =
    (let l = trim_right [NUL, LF] raw in
     case find_first (\<lambda>c. c = CHR '';'') l of None \<Rightarrow> l | Some i \<Rightarrow> drop (i + 1) l)"

text \<open>Phase two: the lines given to the callback; the flags say whether the context is cancelled.\<close>

fun kmsg_live :: "u64 \<Rightarrow> (kmsg_read \<times> bool) list \<Rightarrow> bytes list \<times> bytes list option" where
  "kmsg_live q [] = ([], None)"
| "kmsg_live q ((Again, done) # rs) = (if done then ([], None) else kmsg_live q rs)"
| "kmsg_live q ((Failed e, done) # rs) = (if done then ([], None) else ([], Some [''kmsg read failed'', e]))"
| "kmsg_live q ((Rec b, done) # rs) =
    (case kmsgSeq b of
       Some s \<Rightarrow> if s \<le> q then kmsg_live q rs
                 else (let (ls, e) = kmsg_live q rs in (kmsg_line b # ls, e))
     | None \<Rightarrow> (let (ls, e) = kmsg_live q rs in (kmsg_line b # ls, e)))"

text \<open>The two phases; the sequence number starts at 0 and the reads carry cancellation flags.\<close>

definition kmsgReadLoop :: "bytes option \<Rightarrow> bool list \<Rightarrow> kmsg_read list \<Rightarrow> bool list \<Rightarrow> bytes list \<times> bytes list option" where
  "kmsgReadLoop open_err ds reads done =
    (case open_err of Some e \<Rightarrow> ([], Some [''open /dev/kmsg failed'', e])
     | None \<Rightarrow>
       (case kmsg_drain 0 ds reads of
          DrainCancelled \<Rightarrow> ([], None)
        | DrainFailed e \<Rightarrow> ([], Some [''draining /dev/kmsg failed'', e])
        | Draining \<Rightarrow> ([], None)
        | Drained q rs \<Rightarrow> kmsg_live q (zip rs done)))"

definition runKmsg :: "bytes option \<Rightarrow> bool list \<Rightarrow> kmsg_read list \<Rightarrow> bool list \<Rightarrow> bytes \<Rightarrow> fw_filter
    \<Rightarrow> (int \<times> bool \<times> slots) list \<Rightarrow> fw_state \<Rightarrow> bytes list option \<times> fw_state" where
  "runKmsg open_err ds reads done prefix f env s =
    (let (ls, e) = kmsgReadLoop open_err ds reads done
     in (e, fold (\<lambda>(l, now, sent, sl). fw_handleLine now sent sl l (unix now) prefix f) (zip ls env) s))"

subsection \<open>The entry point\<close>

text \<open>What surrounds the parser: the rounds of journalctl or the reads of the ring buffer.\<close>

record fw_env =
  fx_found :: bool
  fx_rounds :: "round list"
  fx_open_err :: "bytes option"
  fx_cancel :: "bool list"
  fx_reads :: "kmsg_read list"
  fx_done :: "bool list"
  fx_clock :: "(int \<times> bool \<times> slots) list"

definition RunFwParser :: "bytes \<Rightarrow> bytes \<Rightarrow> fw_filter \<Rightarrow> fw_env \<Rightarrow> sysch \<Rightarrow> bytes list option \<times> fw_state" where
  "RunFwParser source prefix f x sys =
    (let s = \<lparr>fh_sink = [], fh_sys = sys, fh_rep = NewRateLimiter minute, fh_stats = Some newFilterStats\<rparr> in
     if source = ''journald-kernel'' then runJournaldKernel (fx_found x) prefix f (fx_rounds x) (fx_clock x) s
     else if source = ''kmsg'' then
       runKmsg (fx_open_err x) (fx_cancel x) (fx_reads x) (fx_done x) prefix f (fx_clock x) s
     else (Some [''unknown fw.source'', source], s))"

subsection \<open>The learner\<close>

definition ipv4ToNetIP :: "u32 \<Rightarrow> bytes" where
  "ipv4ToNetIP v = map mkbyte [byte_at 24 v, byte_at 16 v, byte_at 8 v, byte_at 0 v]"

text \<open>The filter lives behind a pointer: the learner updates it and the slots.\<close>

record learner =
  le_filter :: fw_filter
  le_slots :: slots
  le_rep :: rate_limiter
  le_sys :: sysch

definition learn :: "int \<Rightarrow> nat \<Rightarrow> bytes + u32 list \<Rightarrow> learner \<Rightarrow> learner" where
  "learn now windowDays q l =
    (case q of
       Inl e \<Rightarrow>
         (let (r, sys) = Report now ''fw'' ''warn'' [''learning failed'', e] (le_rep l) (le_sys l)
          in l\<lparr>le_rep := r, le_sys := sys\<rparr>)
     | Inr ips \<Rightarrow>
         (let (f, st) = SetDynamicExcludeIPs (map ipv4ToNetIP ips) (le_filter l) (le_slots l)
          in l\<lparr>le_filter := f, le_slots := st,
               le_sys := ReportSys now ''fw'' ''info''
                 [''dynamic exclusion updated'', show_nat (length ips), show_nat windowDays] (le_sys l)\<rparr>))"

text \<open>
  The runs of the learner: at once and at every tick, each with the query's result. None as filter:
  cancelled before the filter was ready.
\<close>

definition RunSSHLearner :: "fw_filter option \<Rightarrow> nat \<Rightarrow> int \<Rightarrow> int list \<Rightarrow> (bytes + u32 list) list
    \<Rightarrow> slots \<Rightarrow> sysch \<Rightarrow> learner option" where
  "RunSSHLearner ready windowDays start ticks qs sl sys =
    map_option
      (\<lambda>f. fold (\<lambda>(now, q). learn now windowDays q) (zip (Periodic start True ticks) qs)
         \<lparr>le_filter = f, le_slots = sl, le_rep = NewRateLimiter (5 * minute), le_sys = sys\<rparr>)
      ready"

subsection \<open>Key-value texts\<close>

text \<open>A kernel log line is its first word and further words: known keys with values, or others.\<close>

datatype fw_word = KV bytes bytes | Other bytes

definition fw_key_names :: "bytes list" where
  "fw_key_names = [''SRC'', ''DST'', ''PROTO'', ''SPT'', ''DPT'']"

definition quiet :: "bytes \<Rightarrow> bool" where
  "quiet t \<longleftrightarrow> (\<forall>c\<in>set t. not_space c) \<and> (\<forall>k\<in>set fw_key_names. \<not> contains t (k @ ''=''))"

fun word_ok :: "fw_word \<Rightarrow> bool" where
  "word_ok (KV k v) = (k \<in> set fw_key_names \<and> v \<noteq> [] \<and> (\<forall>c\<in>set v. not_space c))"
| "word_ok (Other t) = quiet t"

fun word_text :: "fw_word \<Rightarrow> bytes" where
  "word_text (KV k v) = k @ ''='' @ v"
| "word_text (Other t) = t"

definition words_text :: "fw_word list \<Rightarrow> bytes" where
  "words_text ws = concat (map (\<lambda>w. SP # word_text w) ws)"

fun word_kvs :: "fw_word list \<Rightarrow> (bytes \<times> bytes) list" where
  "word_kvs [] = []"
| "word_kvs (KV k v # ws) = (k, v) # word_kvs ws"
| "word_kvs (Other t # ws) = word_kvs ws"

lemma words_text_simps [simp]:
  "words_text [] = []" "words_text (w # ws) = SP # word_text w @ words_text ws"
  by (simp_all add: words_text_def)

lemma words_text_stop: "words_text ws = [] \<or> re_space (hd (words_text ws))"
  by (cases ws) (auto simp: re_space_def)

lemma not_space_SP2 [simp]: "\<not> not_space SP"
  by (simp add: not_space_def re_space_def)

lemma has_prefix_split: "has_prefix s p \<Longrightarrow> \<exists>z. s = p @ z"
  by (metis append_take_drop_id has_prefix_def)

lemma matches_Lit_iff: "m \<in> set (matches (Lit t) s) \<longleftrightarrow> has_prefix s t \<and> m = ([], drop (length t) s)"
  by auto

lemma kv_none:
  assumes "\<forall>k\<in>set fw_key_names. \<not> has_prefix s (k @ ''='')"
  shows "match_start reFWKV s = None"
proof -
  have lit: "matches (Seq (Cap 1 (Lit k)) (Seq (Lit ''='') r)) s = []" if "k \<in> set fw_key_names" for k r
  proof (cases "has_prefix s k")
    case True
    then obtain z where z: "s = k @ z" using has_prefix_split by blast
    then have "\<not> has_prefix z ''=''"
      using assms that by (auto simp: has_prefix_def)
    then show ?thesis by (simp add: z)
  qed simp
  have alt: "matches (Seq (Cap 1 (Alt a b)) r) s = matches (Seq (Cap 1 a) r) s @ matches (Seq (Cap 1 b) r) s" for a b r
    by simp
  have "matches reFWKV s = []"
    unfolding reFWKV_def fw_keys_def alt by (simp only: lit fw_key_names_def list.set insert_iff simp_thms append_Nil)
  then show ?thesis by (simp add: match_start_def)
qed

lemma kv_match:
  assumes "k \<in> set fw_key_names" "v \<noteq> []" "\<forall>c\<in>set v. not_space c" "s = [] \<or> re_space (hd s)"
  shows "match_start reFWKV (k @ ''='' @ v @ s) = Some ([(1, k), (2, v)], s)"
proof -
  have v: "match_start (Cap 2 Words) (v @ s) = Some ([(2, v)], s)"
    using match_start_token(2) [of v not_space s 2] assms(2-4) by (auto simp: not_space_def)
  have "matches fw_keys (k @ ''='' @ v @ s) = [([], ''='' @ v @ s)]"
    using assms(1) by (auto simp: fw_keys_def fw_key_names_def has_prefix_def)
  then have "match_start fw_keys (k @ ''='' @ v @ s) = Some ([], ''='' @ v @ s)"
    by (simp add: match_start_def)
  then have "match_start (Cap 1 fw_keys) (k @ ''='' @ v @ s) = Some ([(1, k)], ''='' @ v @ s)"
    by (rule match_start_Cap)
  then have "match_start reFWKV (k @ ''='' @ v @ s) = Some ([(1, k)] @ [] @ [(2, v)], s)"
    unfolding reFWKV_def by (rule match_start_Seq) (rule match_start_Seq [OF match_start_Lit v])
  then show ?thesis by simp
qed

lemma index_of_here: "index_of (p @ z) p = Some 0"
proof (cases "p @ z")
  case (Cons a l)
  then have "has_prefix (a # l) p" by (metis append_eq_conv_conj has_prefix_def)
  then show ?thesis using Cons by simp
qed simp

lemma contains_here: "contains (p @ z) p"
  by (simp add: contains_def index_of_here)

lemma contains_later: "contains s p \<Longrightarrow> contains (x @ s) p"
proof (induction x)
  case (Cons c x)
  then show ?case by (auto simp: contains_def)
qed simp

text \<open>Inside a quiet word no key starts, whatever follows the blank after it.\<close>

lemma quiet_none:
  assumes "quiet (x @ y)" "y \<noteq> []" "s = [] \<or> re_space (hd s)"
  shows "match_start reFWKV (y @ s) = None"
proof (rule kv_none, rule ballI, rule notI)
  fix k assume k: "k \<in> set fw_key_names" "has_prefix (y @ s) (k @ ''='')"
  then obtain z where z: "y @ s = (k @ ''='') @ z" using has_prefix_split by blast
  have ns: "\<forall>c\<in>set (k @ ''=''). not_space c"
    using k(1) by (auto simp: fw_key_names_def not_space_def re_space_def)
  have "length (k @ ''='') \<le> length y"
  proof (rule ccontr)
    assume "\<not> length (k @ ''='') \<le> length y"
    then have l: "length y < length (k @ ''='')" by simp
    have n: "(y @ s) ! length y = (k @ ''='') ! length y"
      unfolding z using l by (simp only: nth_append if_True)
    have "s \<noteq> []" using arg_cong [OF z, of length] l by auto
    then have "re_space ((k @ ''='') ! length y)" using assms(3) n by (simp add: hd_conv_nth nth_append)
    then show False using ns l nth_mem [of "length y" "k @ ''=''"] by (auto simp: not_space_def)
  qed
  then have "take (length (k @ ''='')) y = k @ ''=''"
    using arg_cong [OF z, of "take (length (k @ ''=''))"] by simp
  then have "contains y (k @ ''='')"
    using contains_here [of "k @ ''=''" "drop (length (k @ ''='')) y"] by (metis append_take_drop_id)
  then show False
    using assms(1) k(1) contains_later by (auto simp: quiet_def)
qed

abbreviation "kv_search \<equiv> search_all at_word_boundary reFWKV"

lemma search_quiet:
  "quiet (x @ y) \<Longrightarrow> s = [] \<or> re_space (hd s) \<Longrightarrow> kv_search p 0 (y @ s) = kv_search (last_byte p y) 0 s"
proof (induction y arbitrary: x p)
  case (Cons c y)
  have "match_start reFWKV (c # y @ s) = None" using quiet_none [OF Cons.prems(1)] Cons.prems(2) by simp
  moreover have "kv_search (Some c) 0 (y @ s) = kv_search (last_byte (Some c) y) 0 s"
    using Cons.IH [of "x @ [c]"] Cons.prems by simp
  ultimately show ?case by (cases y) (simp_all add: last_byte_def)
qed (simp add: last_byte_def)

lemma blank_none: "match_start reFWKV (SP # s) = None"
  by (rule kv_none) (auto simp: fw_key_names_def has_prefix_def)

lemma search_kv:
  assumes "k \<in> set fw_key_names" "v \<noteq> []" "\<forall>c\<in>set v. not_space c" "s = [] \<or> re_space (hd s)"
  shows "\<exists>p. kv_search (Some SP) 0 (k @ ''='' @ v @ s) = [(1, k), (2, v)] # kv_search p 0 s"
proof -
  have "k \<noteq> [] \<and> word_byte (hd k)"
    using assms(1) by (auto simp: fw_key_names_def word_byte_def is_digit_def bval_def)
  then obtain c k' where k: "k = c # k'" "word_byte c" by (cases k) auto
  have b: "at_word_boundary (Some SP) (c # u)" for u
    using k(2) by (simp add: at_word_boundary_def word_byte_def is_digit_def bval_def)
  have "kv_search (Some SP) 0 (c # k' @ ''='' @ v @ s) =
      [(1, k), (2, v)] # kv_search (Some c) (length (k' @ ''='' @ v @ s) - length s) (k' @ ''='' @ v @ s)"
    using kv_match [OF assms] b by (simp add: k(1))
  moreover have "kv_search (Some c) (length (k' @ ''='' @ v @ s) - length s) (k' @ ''='' @ v @ s)
      = kv_search (last_byte (Some c) (k' @ ''='' @ v)) 0 s"
    using search_all_over [of at_word_boundary reFWKV "Some c" "k' @ ''='' @ v" s] by simp
  ultimately show ?thesis using k(1) by auto
qed

lemma search_words:
  "\<forall>w\<in>set ws. word_ok w \<Longrightarrow>
    map (\<lambda>m. (group 1 m, group 2 m)) (kv_search p 0 (words_text ws)) = word_kvs ws"
proof (induction ws arbitrary: p)
  case (Cons w ws)
  have blank: "kv_search p 0 (SP # s) = kv_search (Some SP) 0 s" for s
    by (simp add: blank_none)
  show ?case
  proof (cases w)
    case (KV k v)
    then obtain q where "kv_search (Some SP) 0 (k @ ''='' @ v @ words_text ws)
        = [(1, k), (2, v)] # kv_search q 0 (words_text ws)"
      using search_kv [of k v "words_text ws"] Cons.prems words_text_stop by auto
    then have "kv_search p 0 (words_text (w # ws)) = [(1, k), (2, v)] # kv_search q 0 (words_text ws)"
      using blank [of "k @ ''='' @ v @ words_text ws"] by (simp add: KV)
    then show ?thesis using Cons by (simp add: KV group_def)
  next
    case (Other t)
    then have "kv_search (Some SP) 0 (t @ words_text ws) = kv_search (last_byte (Some SP) t) 0 (words_text ws)"
      using search_quiet [of "[]" t "words_text ws"] Cons.prems words_text_stop by auto
    then show ?thesis using blank [of "t @ words_text ws"] Cons by (simp add: Other)
  qed
qed simp

lemma fw_kvs_words:
  "quiet t \<Longrightarrow> \<forall>w\<in>set ws. word_ok w \<Longrightarrow> fw_kvs (t @ words_text ws) = word_kvs ws"
  using search_quiet [of "[]" t "words_text ws" None] words_text_stop [of ws] search_words
  by (simp add: fw_kvs_def)

subsection \<open>The tag\<close>

lemma space_seg_byte: "bval c < 128 \<Longrightarrow> space_seg [c] \<longleftrightarrow> space_rune (bval c)"
  by (simp add: space_seg_def)

definition plain :: "bytes \<Rightarrow> bool" where
  "plain t \<longleftrightarrow> t \<noteq> [] \<and> (\<forall>c\<in>set t. bval c < 128 \<and> \<not> space_rune (bval c))"

lemma plain_ascii: "plain t \<Longrightarrow> is_ascii t"
  by (induction t) (auto simp: plain_def is_ascii_def)

lemma fields_acc_plain:
  "(\<forall>c\<in>set t. bval c < 128 \<and> \<not> space_rune (bval c)) \<Longrightarrow>
    fields_acc acc (map (\<lambda>c. [c]) t @ r) = fields_acc (acc @ t) r"
  by (induction t arbitrary: acc) (auto simp: space_seg_byte)

lemma segs_ascii_append: "\<forall>c\<in>set t. bval c < 128 \<Longrightarrow> segs (t @ s) = map (\<lambda>c. [c]) t @ segs s"
  by (induction t) simp_all

lemma segs_plain: "plain t \<Longrightarrow> segs (t @ s) = map (\<lambda>c. [c]) t @ segs s"
  by (rule segs_ascii_append) (simp add: plain_def)

lemma trim_right_by_take: "\<exists>k. trim_right_by P xs = take k xs"
  using trim_right_by_prefix [of xs P] by (metis append_eq_conv_conj)

lemma trim_right_by_keeps:
  assumes "xs \<noteq> []" "\<not> P (last xs)"
  shows "\<exists>k. trim_right_by P (xs @ ys) = xs @ take k ys"
proof -
  have "trim_right_by P (xs @ ys) = xs @ trim_right_by P ys"
  proof (induction ys rule: rev_induct)
    case Nil
    then show ?case using trim_right_by_id [of xs P] assms by (simp add: trim_right_by_def)
  next
    case (snoc y ys)
    then show ?case
      by (cases "P y") (simp_all add: trim_right_by_append [of "[y]" P, simplified] trim_right_by_id flip: append_assoc)
  qed
  then show ?thesis using trim_right_by_take by metis
qed

lemma first_field:
  assumes "plain t" "s = [] \<or> hd s = SP"
  shows "\<exists>fs. Fields (trim_space (t @ s)) = t # fs"
proof -
  let ?t = "map (\<lambda>c. [c]) t"
  have t: "t \<noteq> []" "\<forall>c\<in>set t. bval c < 128 \<and> \<not> space_rune (bval c)"
    using assms(1) by (auto simp: plain_def)
  have sg: "segs (t @ s) = ?t @ segs s" by (rule segs_plain [OF assms(1)])
  have "dropWhile space_seg (?t @ segs s) = ?t @ segs s"
    using t by (cases t) (auto simp: space_seg_byte)
  moreover have "\<not> space_seg (last ?t)"
    using t by (auto simp: last_map space_seg_byte dest: last_in_set)
  ultimately obtain k where k: "trim_space (t @ s) = concat (?t @ take k (segs s))"
    using trim_right_by_keeps [of ?t space_seg "segs s"] t(1) unfolding trim_space_def sg by auto
  have "?t @ take k (segs s) = take (length ?t + k) (segs (t @ s))"
    unfolding sg by simp
  then have "segs (trim_space (t @ s)) = ?t @ take k (segs s)"
    unfolding k using segs_concat_take by metis
  then have f: "Fields (trim_space (t @ s)) = fields_acc t (take k (segs s))"
    using fields_acc_plain [OF t(2), of "[]"] by (simp add: Fields_def)
  have "take k (segs s) = [] \<or> (\<exists>xs. take k (segs s) = [SP] # xs)"
  proof (cases s)
    case (Cons c s')
    then have "c = SP" using assms(2) by simp
    moreover have "bval SP = 32" by (simp add: bval_def)
    ultimately have "segs s = [SP] # segs s'" using Cons by simp
    then show ?thesis by (cases k) auto
  qed simp
  moreover have "space_seg [SP]" by (simp add: space_seg_byte bval_def space_rune_def)
  ultimately show ?thesis using t(1) by (auto simp: f)
qed

lemma ipToUint32_dotted: "ipToUint32 (Uint32ToIPv4 v) = v"
proof -
  have at: "atoi (show_nat (byte_at n v)) = Some (int (byte_at n v))" for n
    by (rule atoi_show, rule order_le_less_trans [OF byte_at_le]) simp
  show ?thesis
    using word_of_bytes [of v] byte_at_le [THEN leD]
    by (simp add: ipToUint32_def Uint32ToIPv4_def dotted_four split_on_stop split_on_none show_nat_no_dot at
        Let_def push_bit_or push_bit_push_bit or.assoc)
qed

lemma atou16_show: "n < 2 ^ 16 \<Longrightarrow> atou16 (show_nat n) = of_nat n"
  by (simp add: atou16_def parse_uint_show)

subsection \<open>Records of the ring buffer\<close>

definition kmsg_record :: "bytes \<Rightarrow> nat \<Rightarrow> bytes \<Rightarrow> bytes \<Rightarrow> bytes" where
  "kmsg_record pri n rest msg = pri @ '','' @ show_nat n @ '','' @ rest @ '';'' @ msg @ [LF]"

definition record_ok :: "bytes \<Rightarrow> nat \<Rightarrow> bytes \<Rightarrow> bytes \<Rightarrow> bool" where
  "record_ok pri n rest msg \<longleftrightarrow> CHR '','' \<notin> set pri \<and> CHR '';'' \<notin> set pri \<and> n < 2 ^ 64 \<and>
     CHR '';'' \<notin> set rest \<and> msg \<noteq> [] \<and> last msg \<noteq> LF \<and> last msg \<noteq> NUL"

lemma seq_digits_show:
  "\<forall>c\<in>set s. is_digit c \<Longrightarrow>
    seq_digits q n (s @ CHR '','' # r) = Some (of_nat (foldl (\<lambda>n c. n * 10 + (bval c - 48)) (unat q) s), n + length s)"
proof (induction s arbitrary: q n)
  case (Cons c s)
  have "c \<noteq> CHR '',''" using Cons.prems by (auto simp: is_digit_def bval_def)
  moreover have "(of_nat (foldl (\<lambda>n c. n * 10 + (bval c - 48)) a s) :: u64)
      = of_nat (foldl (\<lambda>n c. n * 10 + (bval c - 48)) b s)"
    if "(of_nat a :: u64) = of_nat b" for a b s
    using that by (induction s arbitrary: a b) auto
  from this [of "unat (q * 10 + of_nat (bval c - 48))" "unat q * 10 + (bval c - 48)" s]
  have "(of_nat (foldl (\<lambda>n c. n * 10 + (bval c - 48)) (unat (q * 10 + of_nat (bval c - 48))) s) :: u64)
      = of_nat (foldl (\<lambda>n c. n * 10 + (bval c - 48)) (unat q * 10 + (bval c - 48)) s)"
    by simp
  ultimately show ?case using Cons by simp
qed simp

lemma kmsgSeq_record: "record_ok pri n rest msg \<Longrightarrow> kmsgSeq (kmsg_record pri n rest msg) = Some (of_nat n)"
proof -
  assume ok: "record_ok pri n rest msg"
  then have pri: "\<forall>c\<in>set pri. c \<noteq> CHR '',''" by (auto simp: record_ok_def)
  have "dropWhile (\<lambda>c. c \<noteq> CHR '','') (kmsg_record pri n rest msg)
      = CHR '','' # show_nat n @ CHR '','' # rest @ '';'' @ msg @ [LF]"
    using pri dropWhile_append_stop [of pri "\<lambda>c. c \<noteq> CHR '',''" "CHR '',''" "show_nat n @ '','' @ rest @ '';'' @ msg @ [LF]"]
    by (simp add: kmsg_record_def)
  moreover have "\<forall>c\<in>set (show_nat n). is_digit c" using show_nat_digits by blast
  ultimately show ?thesis
    using seq_digits_show [of "show_nat n" 0 0 "rest @ '';'' @ msg @ [LF]"]
    using ok by (simp add: kmsgSeq_def digits_val_def [symmetric])
qed

lemma kmsg_line_record: "record_ok pri n rest msg \<Longrightarrow> kmsg_line (kmsg_record pri n rest msg) = msg"
proof -
  assume ok: "record_ok pri n rest msg"
  define h where "h = pri @ '','' @ show_nat n @ '','' @ rest"
  have "trim_right [NUL, LF] ((h @ '';'' @ msg) @ [LF]) = h @ '';'' @ msg"
    unfolding trim_right_def
    by (subst trim_right_by_append, simp) (rule trim_right_by_id, use ok in \<open>simp add: record_ok_def\<close>)
  moreover have "CHR '';'' \<notin> set (show_nat n)"
    using show_nat_digits [of "CHR '';''" n] by (auto simp: is_digit_def bval_def)
  then have "\<forall>c\<in>set h. c \<noteq> CHR '';''"
    using ok by (auto simp: h_def record_ok_def)
  then have "find_first (\<lambda>c. c = CHR '';'') (h @ CHR '';'' # msg) = Some (length h)"
    by (intro find_first_append_stop) auto
  moreover have "kmsg_record pri n rest msg = (h @ '';'' @ msg) @ [LF]"
    by (simp add: kmsg_record_def h_def)
  ultimately show ?thesis by (simp add: kmsg_line_def)
qed

fun read_recs :: "kmsg_read list \<Rightarrow> bytes list" where
  "read_recs [] = []"
| "read_recs (Rec b # rs) = b # read_recs rs"
| "read_recs (_ # rs) = read_recs rs"

definition last_seq :: "u64 \<Rightarrow> bytes list \<Rightarrow> u64" where
  "last_seq q bs = fold (\<lambda>b q. case kmsgSeq b of Some s \<Rightarrow> s | None \<Rightarrow> q) bs q"

lemma kmsg_drain_recs:
  "kmsg_drain q [] (map Rec old @ Again # live) = Drained (last_seq q old) live"
  by (induction old arbitrary: q) (auto simp: last_seq_def)

lemma kmsg_live_recs:
  "\<forall>r\<in>set live. \<forall>e. r \<noteq> Failed e \<Longrightarrow>
    kmsg_live q (zip live (replicate (length live) False)) =
      (map kmsg_line (filter (\<lambda>b. case kmsgSeq b of Some s \<Rightarrow> q < s | None \<Rightarrow> True) (read_recs live)), None)"
proof (induction live)
  case (Cons r live)
  then show ?case by (cases r) (auto split: option.splits simp: not_le)
qed simp

end
