(* ===== verification/GoTime.thy ===== *)
theory GoTime
  imports Complex_Main GoStr
begin

text \<open>
  The parts of Go's \<^verbatim>\<open>time\<close> package the source uses: the proleptic Gregorian calendar, time zones as
  offsets (\<^verbatim>\<open>time.Date\<close>, \<^verbatim>\<open>AddDate\<close>, the calendar fields of an instant), and \<^verbatim>\<open>ParseInLocation\<close> for
  layouts made of the components that occur. Instants are Unix seconds.
\<close>

subsection \<open>The calendar\<close>

definition leap :: "int \<Rightarrow> bool" where
  "leap y \<longleftrightarrow> y mod 4 = 0 \<and> (y mod 100 \<noteq> 0 \<or> y mod 400 = 0)"

text \<open>Days before 1 January of a year, counted from 1 January of year 1.\<close>

definition year_days :: "int \<Rightarrow> int" where
  "year_days y = 365 * (y - 1) + (y - 1) div 4 - (y - 1) div 100 + (y - 1) div 400"

text \<open>Days before the first of month \<^verbatim>\<open>m\<close> (1 to 13) in a year.\<close>

definition month_days :: "bool \<Rightarrow> nat \<Rightarrow> int" where
  "month_days lp m =
    (case m of 0 \<Rightarrow> 0 | Suc k \<Rightarrow>
      [0, 31, 59, 90, 120, 151, 181, 212, 243, 273, 304, 334, 365] ! min k 12 + (if lp \<and> 2 < m then 1 else 0))"

definition daysIn :: "int \<Rightarrow> nat \<Rightarrow> int" where
  "daysIn y m = month_days (leap y) (Suc m) - month_days (leap y) m"

definition unix_epoch :: int where "unix_epoch = 719162"

text \<open>The day number of \<^verbatim>\<open>time.Date(y, m, d, ...)\<close>; months and days outside their range carry over.\<close>

definition civil_day :: "int \<Rightarrow> int \<Rightarrow> int \<Rightarrow> int" where
  "civil_day y m d =
    (let y' = y + (m - 1) div 12; m' = nat ((m - 1) mod 12) + 1
     in year_days y' + month_days (leap y') m' + d - 1)"

text \<open>The date of a day number.\<close>

definition year_of_day :: "int \<Rightarrow> int \<times> int" where
  "year_of_day d =
    (let n400 = d div 146097; r = d mod 146097;
         n100 = min 3 (r div 36524); r1 = r - 36524 * n100;
         n4 = r1 div 1461; r2 = r1 mod 1461;
         n1 = min 3 (r2 div 365)
     in (400 * n400 + 100 * n100 + 4 * n4 + n1 + 1, r2 - 365 * n1))"

definition month_of_yday :: "bool \<Rightarrow> int \<Rightarrow> nat" where
  "month_of_yday lp yd = length (filter (\<lambda>m. month_days lp m \<le> yd) [1..<13])"

definition civil_of_day :: "int \<Rightarrow> int \<times> nat \<times> int" where
  "civil_of_day d =
    (let (y, yd) = year_of_day d; m = month_of_yday (leap y) yd
     in (y, m, yd - month_days (leap y) m + 1))"

lemma year_days_parts:
  assumes "0 \<le> b" "b \<le> 3" "0 \<le> c" "c \<le> 24" "0 \<le> e" "e \<le> 3"
  shows "year_days (400 * a + 100 * b + 4 * c + e + 1) = 146097 * a + 36524 * b + 1461 * c + 365 * e"
proof -
  have "(400 * a + 100 * b + 4 * c + e) div 4 = 100 * a + 25 * b + c"
    using assms by (intro int_div_pos_eq [where r = "e"]) auto
  moreover have "(400 * a + 100 * b + 4 * c + e) div 100 = 4 * a + b"
    using assms by (intro int_div_pos_eq [where r = "4 * c + e"]) auto
  moreover have "(400 * a + 100 * b + 4 * c + e) div 400 = a"
    using assms by (intro int_div_pos_eq [where r = "100 * b + 4 * c + e"]) auto
  ultimately show ?thesis by (simp add: year_days_def)
qed

text \<open>Splitting off at most \<^verbatim>\<open>k\<close> whole periods leaves a remainder below one period, or the excess.\<close>

lemma capped_div:
  fixes x p k :: int
  assumes "0 < p" "0 \<le> x" "0 \<le> k"
  shows "0 \<le> min k (x div p)" "min k (x div p) \<le> k" "0 \<le> x - p * min k (x div p)"
    "x - p * min k (x div p) < p \<or> min k (x div p) = k"
proof -
  have "p * (x div p) \<le> x" "x - p * (x div p) < p"
    using assms(1) by (simp_all add: minus_mult_div_eq_mod mult.commute) (metis mult_div_mod_eq pos_mod_sign add.commute le_add_same_cancel2 mult.commute)
  moreover have "p * min k (x div p) \<le> p * (x div p)" using assms(1) by (intro mult_left_mono) auto
  ultimately show "0 \<le> x - p * min k (x div p)" by linarith
  show "x - p * min k (x div p) < p \<or> min k (x div p) = k"
    using \<open>x - p * (x div p) < p\<close> by (cases "k \<le> x div p") auto
  show "0 \<le> min k (x div p)" "min k (x div p) \<le> k"
    using assms by (auto simp: pos_imp_zdiv_nonneg_iff)
qed

lemma year_of_day_sum:
  assumes "year_of_day d = (y, yd)"
  shows "year_days y + yd = d" "0 \<le> yd" "yd < 365 + of_bool (leap y)"
proof -
  define r where "r = d mod 146097"
  define b where "b = min 3 (r div 36524)"
  define r1 where "r1 = r - 36524 * b"
  define c where "c = r1 div 1461"
  define r2 where "r2 = r1 mod 1461"
  define e where "e = min 3 (r2 div 365)"
  define a where "a = d div 146097"
  have r: "0 \<le> r" "r < 146097" by (simp_all add: r_def)
  have d: "d = 146097 * a + r" by (simp add: r_def a_def)
  note B = capped_div [of 36524 r 3, folded b_def, folded r1_def]
  have b: "0 \<le> b" "b \<le> 3" using B r by simp_all
  have r1: "0 \<le> r1" "r1 < 36524 \<or> b = 3 \<and> r1 \<le> 36524"
    using B r by (auto simp: r1_def)
  have "r1 \<le> 36524" using r1 b by linarith
  then have "r1 div 1461 \<le> 36524 div 1461" by (rule zdiv_mono1) simp
  then have c: "0 \<le> c" "c \<le> 24" using r1(1) by (simp_all add: c_def pos_imp_zdiv_nonneg_iff)
  have r2: "0 \<le> r2" "r2 < 1461" "r1 = 1461 * c + r2" by (simp_all add: r2_def c_def)
  note E = capped_div [of 365 r2 3, folded e_def]
  have e: "0 \<le> e" "e \<le> 3" using E r2 by simp_all
  have yd: "y = 400 * a + 100 * b + 4 * c + e + 1" "yd = r2 - 365 * e"
    using assms unfolding year_of_day_def Let_def a_def [symmetric] r_def [symmetric]
      b_def [symmetric] r1_def [symmetric] c_def [symmetric] r2_def [symmetric] e_def [symmetric]
    by (simp_all only: prod.inject)
  show "year_days y + yd = d"
    unfolding yd year_days_parts [OF b c e, of a] using d r1_def r2(3) by linarith
  show "0 \<le> yd" using E r2 by (simp add: yd)
  show "yd < 365 + of_bool (leap y)"
  proof (cases "e = 3 \<and> r2 = 1460")
    case False
    have "yd < 365" using E r2 False by (auto simp: yd)
    then show ?thesis by (simp split: split_of_bool)
  next
    case True
    have ym: "y = 4 * (100 * a + 25 * b + c + 1)" using True yd by simp
    have "c = 24 \<and> b = 3 \<or> c < 24" using r1 r2 c True by auto
    then have "leap y"
    proof
      assume "c = 24 \<and> b = 3"
      then have "y mod 400 = 0" using ym by simp
      moreover have "y mod 4 = 0" using ym by simp
      ultimately show ?thesis unfolding leap_def by blast
    next
      assume "c < 24"
      then have "y mod 100 = 4 * (c + 1)"
        using c(1) unfolding ym by (intro int_mod_pos_eq [where q = "4 * a + b"]) auto
      then show ?thesis using \<open>c < 24\<close> c(1) unfolding leap_def ym by simp
    qed
    then show ?thesis using True yd by simp
  qed
qed

lemma month_list: "[1..<13] = [1, 2, 3, 4, 5, 6, 7, 8, 9, 10, 11, 12::nat]"
  by (simp add: upt_rec)

lemma civil_roundtrip:
  assumes "civil_of_day n = (y, m, d)"
  shows "civil_day y (int m) d = n" "1 \<le> m" "m \<le> 12" "1 \<le> d" "d \<le> daysIn y m"
proof -
  obtain yd where y: "year_of_day n = (y, yd)"
    using assms by (auto simp: civil_of_day_def Let_def case_prod_beta prod_eq_iff)
  have m: "m = month_of_yday (leap y) yd" "d = yd - month_days (leap y) m + 1"
    using assms y by (auto simp: civil_of_day_def Let_def)
  have b: "1 \<le> m \<and> m \<le> 12 \<and> month_days (leap y) m \<le> yd \<and> yd < month_days (leap y) (Suc m)"
    using year_of_day_sum [OF y] unfolding m(1) month_of_yday_def month_list
    by (cases "leap y") (auto simp: month_days_def)
  then show "1 \<le> m" "m \<le> 12" by auto
  show "1 \<le> d" "d \<le> daysIn y m" using b by (auto simp: m(2) daysIn_def)
  have "(int m - 1) div 12 = 0" "(int m - 1) mod 12 = int m - 1" "nat (int m - 1) + 1 = m"
    using b by auto
  then show "civil_day y (int m) d = n"
    using year_of_day_sum(1) [OF y] unfolding civil_day_def Let_def m(2) by simp
qed

subsection \<open>Instants and zones\<close>

text \<open>A zone gives the offset in force at an instant.\<close>

type_synonym zone = "int \<Rightarrow> int"

definition fixed_zone :: "int \<Rightarrow> zone" where
  "fixed_zone off = (\<lambda>_. off)"

definition Date :: "int \<Rightarrow> int \<Rightarrow> int \<Rightarrow> int \<Rightarrow> int \<Rightarrow> int \<Rightarrow> zone \<Rightarrow> int" where
  "Date y m d hh mm ss z =
    (let g = (civil_day y m d - unix_epoch) * 86400 + hh * 3600 + mm * 60 + ss in g - z (g - z g))"

text \<open>Year, month, day, and the second of the day, in a zone.\<close>

definition date_of :: "zone \<Rightarrow> int \<Rightarrow> int \<times> nat \<times> int" where
  "date_of z t = civil_of_day ((t + z t) div 86400 + unix_epoch)"

definition Year :: "zone \<Rightarrow> int \<Rightarrow> int" where "Year z t = fst (date_of z t)"
definition Month :: "zone \<Rightarrow> int \<Rightarrow> int" where "Month z t = int (fst (snd (date_of z t)))"
definition Day :: "zone \<Rightarrow> int \<Rightarrow> int" where "Day z t = snd (snd (date_of z t))"
definition sec_of_day :: "zone \<Rightarrow> int \<Rightarrow> int" where "sec_of_day z t = (t + z t) mod 86400"
definition Hour :: "zone \<Rightarrow> int \<Rightarrow> int" where "Hour z t = sec_of_day z t div 3600"
definition Minute :: "zone \<Rightarrow> int \<Rightarrow> int" where "Minute z t = sec_of_day z t div 60 mod 60"
definition Second :: "zone \<Rightarrow> int \<Rightarrow> int" where "Second z t = sec_of_day z t mod 60"

definition AddDate :: "zone \<Rightarrow> int \<Rightarrow> int \<Rightarrow> int \<Rightarrow> int \<Rightarrow> int" where
  "AddDate z t ys ms ds =
    Date (Year z t + ys) (Month z t + ms) (Day z t + ds) (Hour z t) (Minute z t) (Second z t) z"

lemma sec_of_day_parts: "Hour z t * 3600 + Minute z t * 60 + Second z t = sec_of_day z t"
proof -
  define v where "v = sec_of_day z t"
  have "v div 3600 = v div 60 div 60"
    using zdiv_zmult2_eq [of 60 v 60] by simp
  moreover have "v div 60 = 60 * (v div 60 div 60) + v div 60 mod 60" by simp
  moreover have "v = 60 * (v div 60) + v mod 60" by simp
  ultimately show ?thesis
    unfolding Hour_def Minute_def Second_def v_def [symmetric] by linarith
qed

lemma civil_day_add: "civil_day y m (d + k) = civil_day y m d + (k :: int)"
  by (simp add: civil_day_def Let_def)

lemma civil_day_today:
  "civil_day (Year z t) (Month z t) (Day z t) = (t + z t) div 86400 + unix_epoch"
  unfolding Year_def Month_def Day_def date_of_def
  by (rule civil_roundtrip(1)) simp

lemma Date_today:
  "Date (Year z t) (Month z t) (Day z t + k) hh mm ss (fixed_zone off)
    = ((t + z t) div 86400 + k) * 86400 + hh * 3600 + mm * 60 + ss - off"
  unfolding Date_def Let_def fixed_zone_def civil_day_add civil_day_today by simp

lemma AddDate_days: "AddDate (fixed_zone off) t 0 0 k = t + k * 86400"
proof -
  let ?z = "fixed_zone off"
  have "AddDate ?z t 0 0 k = ((t + off) div 86400 + k) * 86400 + sec_of_day ?z t - off"
    using sec_of_day_parts [of ?z t] Date_today [of ?z t k "Hour ?z t" "Minute ?z t" "Second ?z t" off]
    by (simp add: AddDate_def fixed_zone_def)
  then show ?thesis by (simp add: sec_of_day_def fixed_zone_def algebra_simps)
qed

subsection \<open>Parsing\<close>

datatype chunk = LMonth3 | LDayPad | LDay2 | LYear4 | LMonth2 | LHour | LMin | LSec | LSpace | LChar byte

record parsed =
  p_year :: int
  p_month :: nat
  p_day :: nat
  p_hour :: nat
  p_min :: nat
  p_sec :: nat

definition digit_at :: "bytes \<Rightarrow> nat \<Rightarrow> bool" where
  "digit_at s i \<longleftrightarrow> i < length s \<and> is_digit (s ! i)"

text \<open>\<^verbatim>\<open>getnum\<close>: two digits, or one when the width is not fixed.\<close>

definition getnum :: "bytes \<Rightarrow> bool \<Rightarrow> (nat \<times> bytes) option" where
  "getnum s fixed =
    (if \<not> digit_at s 0 then None
     else if \<not> digit_at s 1 then (if fixed then None else Some (bval (s ! 0) - 48, drop 1 s))
     else Some ((bval (s ! 0) - 48) * 10 + (bval (s ! 1) - 48), drop 2 s))"

definition month_names :: "bytes list" where
  "month_names = [''Jan'', ''Feb'', ''Mar'', ''Apr'', ''May'', ''Jun'',
                  ''Jul'', ''Aug'', ''Sep'', ''Oct'', ''Nov'', ''Dec'']"

definition fold_letter :: "byte \<Rightarrow> nat" where
  "fold_letter c = bval c OR 32"

definition match_char :: "byte \<Rightarrow> byte \<Rightarrow> bool" where
  "match_char a b \<longleftrightarrow> a = b \<or>
     (fold_letter a = fold_letter b \<and> 97 \<le> fold_letter a \<and> fold_letter a \<le> 122)"

definition lookup_month :: "bytes \<Rightarrow> (nat \<times> bytes) option" where
  "lookup_month s =
    (case find_first (\<lambda>n. 3 \<le> length s \<and> list_all2 match_char (take 3 s) n) month_names of
       None \<Rightarrow> None | Some i \<Rightarrow> Some (i + 1, drop 3 s))"

definition skip_fraction :: "bytes \<Rightarrow> bytes" where
  "skip_fraction s =
    (if 2 \<le> length s \<and> (s ! 0 = CHR ''.'' \<or> s ! 0 = CHR '','') \<and> digit_at s 1
     then dropWhile is_digit (drop 1 s) else s)"

fun parse_chunk :: "chunk \<Rightarrow> parsed \<Rightarrow> bytes \<Rightarrow> (parsed \<times> bytes) option" where
  "parse_chunk LMonth3 p s = map_option (\<lambda>(v, r). (p\<lparr>p_month := v\<rparr>, r)) (lookup_month s)"
| "parse_chunk LDayPad p s =
    map_option (\<lambda>(v, r). (p\<lparr>p_day := v\<rparr>, r)) (getnum (if has_prefix s '' '' then drop 1 s else s) False)"
| "parse_chunk LDay2 p s = map_option (\<lambda>(v, r). (p\<lparr>p_day := v\<rparr>, r)) (getnum s True)"
| "parse_chunk LYear4 p s =
    (if 4 \<le> length s \<and> all_digits (take 4 s) then Some (p\<lparr>p_year := int (digits_val (take 4 s))\<rparr>, drop 4 s) else None)"
| "parse_chunk LMonth2 p s =
    (case getnum s True of Some (v, r) \<Rightarrow> if 0 < v \<and> v \<le> 12 then Some (p\<lparr>p_month := v\<rparr>, r) else None | None \<Rightarrow> None)"
| "parse_chunk LHour p s =
    (case getnum s False of Some (v, r) \<Rightarrow> if v < 24 then Some (p\<lparr>p_hour := v\<rparr>, r) else None | None \<Rightarrow> None)"
| "parse_chunk LMin p s =
    (case getnum s True of Some (v, r) \<Rightarrow> if v < 60 then Some (p\<lparr>p_min := v\<rparr>, r) else None | None \<Rightarrow> None)"
| "parse_chunk LSec p s =
    (case getnum s True of Some (v, r) \<Rightarrow> if v < 60 then Some (p\<lparr>p_sec := v\<rparr>, skip_fraction r) else None | None \<Rightarrow> None)"
| "parse_chunk LSpace p s =
    (if s \<noteq> [] \<and> hd s \<noteq> SP then None else Some (p, dropWhile (\<lambda>c. c = SP) s))"
| "parse_chunk (LChar c) p s = (if has_prefix s [c] then Some (p, drop 1 s) else None)"

fun parse_layout :: "chunk list \<Rightarrow> parsed \<Rightarrow> bytes \<Rightarrow> parsed option" where
  "parse_layout [] p s = (if s = [] then Some p else None)"
| "parse_layout (c # cs) p s =
    (case parse_chunk c p s of None \<Rightarrow> None | Some (p', s') \<Rightarrow> parse_layout cs p' s')"

definition no_date :: parsed where
  "no_date = \<lparr>p_year = 0, p_month = 1, p_day = 1, p_hour = 0, p_min = 0, p_sec = 0\<rparr>"

definition time_Parse :: "chunk list \<Rightarrow> bytes \<Rightarrow> parsed option" where
  "time_Parse layout s =
    (case parse_layout layout no_date s of None \<Rightarrow> None
     | Some p \<Rightarrow> if 1 \<le> p_day p \<and> int (p_day p) \<le> daysIn (p_year p) (p_month p) then Some p else None)"

definition instant :: "parsed \<Rightarrow> zone \<Rightarrow> int" where
  "instant p z = Date (p_year p) (int (p_month p)) (int (p_day p)) (int (p_hour p)) (int (p_min p)) (int (p_sec p)) z"

text \<open>The layouts \<^verbatim>\<open>Jan _2 15:04:05\<close> and \<^verbatim>\<open>2006-01-02 15:04:05\<close>.\<close>

definition stamp_layout :: "chunk list" where
  "stamp_layout = [LMonth3, LSpace, LDayPad, LSpace, LHour, LChar (CHR '':''), LMin, LChar (CHR '':''), LSec]"

definition datetime_layout :: "chunk list" where
  "datetime_layout = [LYear4, LChar (CHR ''-''), LMonth2, LChar (CHR ''-''), LDay2, LSpace,
     LHour, LChar (CHR '':''), LMin, LChar (CHR '':''), LSec]"

text \<open>Two digits of a number below 100, and the date forms the layouts read back.\<close>

definition dd :: "nat \<Rightarrow> bytes" where
  "dd n = [mkbyte (48 + n div 10 mod 10), mkbyte (48 + n mod 10)]"

lemma is_digit_dd: "c \<in> set (dd n) \<Longrightarrow> is_digit c"
  by (auto simp: dd_def)

lemma getnum_dd: "n < 100 \<Longrightarrow> getnum (dd n @ s) fixed = Some (n, s)"
  by (auto simp: getnum_def dd_def digit_at_def less_mult_imp_div_less)

lemma Date_fixed:
  "Date y m d hh mm ss (fixed_zone off) =
    (civil_day y m d - unix_epoch) * 86400 + hh * 3600 + mm * 60 + ss - off"
  by (simp add: Date_def Let_def fixed_zone_def)

end
