(* ===== verification/Ssh.thy ===== *)
theory Ssh
  imports LogStream GoRegex GoJson GoTime
begin

text \<open>
  \<^verbatim>\<open>internal/ssh\<close>: the patterns of SSH authentication lines and their parsing (\<^verbatim>\<open>parse.go\<close>), and the
  handling of lines from the journal and from \<^verbatim>\<open>auth.log\<close> (\<^verbatim>\<open>ssh.go\<close>).
\<close>

subsection \<open>Patterns\<close>

record ssh_pattern =
  sp_re :: regex
  sp_method :: bytes
  sp_result :: nat
  sp_user :: nat
  sp_ip :: nat
  sp_fingerprint :: "nat option"

definition from_port :: "regex list" where
  "from_port = [Cap 2 Words, Lit '' port '', Cap 3 Digits]"

definition key_text :: "regex list" where
  "key_text = [Lit '' ssh2: '', Words, Lit '' '', Cap 4 Words]"

definition user_from :: "bytes \<Rightarrow> regex list" where
  "user_from t = [Lit t, Cap 1 Words, Lit '' from '']"

definition ssh_pat :: "regex list \<Rightarrow> bytes \<Rightarrow> nat \<Rightarrow> nat option \<Rightarrow> ssh_pattern" where
  "ssh_pat rs meth res fp =
    \<lparr>sp_re = seqs rs, sp_method = meth, sp_result = res, sp_user = 1, sp_ip = 2, sp_fingerprint = fp\<rparr>"

definition sshPatterns :: "ssh_pattern list" where
  "sshPatterns =
    [ssh_pat (user_from ''Failed password for invalid user '' @ from_port) ''password'' ResultFail None,
     ssh_pat (user_from ''Failed password for '' @ from_port) ''password'' ResultFail None,
     ssh_pat (user_from ''Accepted password for '' @ from_port) ''password'' ResultOK None,
     ssh_pat (user_from ''Accepted publickey for '' @ from_port @ key_text) ''publickey'' ResultOK (Some 4),
     ssh_pat (user_from ''Failed publickey for '' @ from_port @ key_text) ''publickey'' ResultFail (Some 4),
     ssh_pat (user_from ''Invalid user '' @ from_port) [] ResultFail None,
     ssh_pat ([Lit ''Connection closed by authenticating user '', Cap 1 Words, Lit '' ''] @ from_port)
       [] ResultUnknown None,
     ssh_pat ([Lit ''error: maximum authentication attempts exceeded'',
               Opt (Seq (Lit '' for '') (Cap 1 Words)), Lit '' from ''] @ from_port) [] ResultFail None]"

definition rePrefix :: regex where
  "rePrefix = seqs
    [Run re_upper 1 (Some 1), Run re_lower 2 (Some 2), Spaces, Run is_digit 1 (Some 2), Spaces,
     Run is_digit 2 (Some 2), Lit '':'', Run is_digit 2 (Some 2), Lit '':'', Run is_digit 2 (Some 2), Spaces,
     Words, Spaces, Lit ''sshd['', Digits, Lit '']:'', Run re_space 0 None]"

definition stripPrefix :: "bytes \<Rightarrow> bytes" where
  "stripPrefix line = (case match_start rePrefix line of None \<Rightarrow> line | Some (c, rest) \<Rightarrow> rest)"

subsection \<open>One line\<close>

definition ssh_attempt_of :: "bytes \<Rightarrow> int \<Rightarrow> ssh_pattern \<Rightarrow> caps \<Rightarrow> ssh_attempt" where
  "ssh_attempt_of line ts p m =
    \<lparr>sa_ts = ts,
     sa_src = (let ip = ParseIP (group (sp_ip p) m) in if ip = [] then 0 else IPv4ToUint32 ip),
     sa_user = Truncate512 (group (sp_user p) m),
     sa_method = sp_method p,
     sa_result = sp_result p,
     sa_fingerprint = (case sp_fingerprint p of None \<Rightarrow> [] | Some i \<Rightarrow> group i m),
     sa_detail = Truncate512 line\<rparr>"

fun first_pattern :: "ssh_pattern list \<Rightarrow> bytes \<Rightarrow> (ssh_pattern \<times> caps) option" where
  "first_pattern [] msg = None"
| "first_pattern (p # ps) msg =
    (case match_start (sp_re p) msg of None \<Rightarrow> first_pattern ps msg | Some (m, _) \<Rightarrow> Some (p, m))"

definition ParseSSHLine :: "bytes \<Rightarrow> int \<Rightarrow> ssh_attempt option" where
  "ParseSSHLine line ts =
    (case first_pattern sshPatterns (stripPrefix line) of
       None \<Rightarrow> None | Some (p, m) \<Rightarrow> Some (ssh_attempt_of line ts p m))"

text \<open>
  The time stamp of a syslog line has no year: the year of the clock in the zone \<^verbatim>\<open>local\<close>, one less
  when that lies more than a day ahead.
\<close>

definition log_zone :: zone where
  "log_zone = fixed_zone LogTZ"

definition parseSyslogTimestamp :: "zone \<Rightarrow> int \<Rightarrow> bytes \<Rightarrow> int option" where
  "parseSyslogTimestamp local now line =
    (if length line < 15 \<or> line ! 3 \<noteq> SP then None
     else case time_Parse stamp_layout (take 15 line) of None \<Rightarrow> None
     | Some p \<Rightarrow>
       (let t = Date (Year local (unix now)) (int (p_month p)) (int (p_day p)) (int (p_hour p)) (int (p_min p))
                  (int (p_sec p)) log_zone in
        if now + 24 * 60 * minute < t * second then Some (AddDate log_zone t (- 1) 0 0) else Some t))"

subsection \<open>Handling lines\<close>

record ssh_state =
  hs_sink :: "ssh_attempt list"
  hs_sys :: sysch
  hs_rep :: rate_limiter

definition ssh_handleLine :: "int \<Rightarrow> bool \<Rightarrow> bytes \<Rightarrow> int \<Rightarrow> ssh_state \<Rightarrow> ssh_state" where
  "ssh_handleLine now sent line ts s =
    (case ParseSSHLine line ts of
       None \<Rightarrow>
         (let (r, sys) = Report now ''ssh'' ''info'' [''unmatched line'', Truncate512 line] (hs_rep s) (hs_sys s)
          in s\<lparr>hs_rep := r, hs_sys := sys\<rparr>)
     | Some a \<Rightarrow> if sent then s\<lparr>hs_sink := hs_sink s @ [a]\<rparr> else s)"

definition journal_fields :: "bytes list" where
  "journal_fields = [''MESSAGE'', ''_SOURCE_REALTIME_TIMESTAMP'', ''__REALTIME_TIMESTAMP'']"

record journal_entry =
  je_message :: bytes
  je_source_realtime :: bytes
  je_realtime :: bytes

definition parseJournalLine :: "bytes \<Rightarrow> journal_entry option" where
  "parseJournalLine s =
    (case unmarshal_strings journal_fields s of
       Some [m, sr, rt] \<Rightarrow> Some \<lparr>je_message = m, je_source_realtime = sr, je_realtime = rt\<rparr>
     | _ \<Rightarrow> None)"

definition entry_ts :: "int \<Rightarrow> journal_entry \<Rightarrow> int" where
  "entry_ts now e =
    (case MicrosToUnix (je_source_realtime e) of (v, ok) \<Rightarrow>
       if ok then v
       else (case MicrosToUnix (je_realtime e) of (v, ok) \<Rightarrow> if ok then v else unix now))"

definition journald_line :: "int \<Rightarrow> bool \<Rightarrow> bytes \<Rightarrow> ssh_state \<Rightarrow> ssh_state" where
  "journald_line now sent line s =
    (case parseJournalLine line of None \<Rightarrow> s
     | Some e \<Rightarrow> ssh_handleLine now sent (je_message e) (entry_ts now e) s)"

definition rsyslog_line :: "zone \<Rightarrow> int \<Rightarrow> bool \<Rightarrow> bytes \<Rightarrow> ssh_state \<Rightarrow> ssh_state" where
  "rsyslog_line local now sent line s =
    (let ts = (case parseSyslogTimestamp local now line of Some t \<Rightarrow> t | None \<Rightarrow> unix now)
     in ssh_handleLine now sent line ts s)"

text \<open>The events of the restart loop, with the clock and whether a send completes.\<close>

fun ssh_events :: "(int \<Rightarrow> bool \<Rightarrow> bytes \<Rightarrow> ssh_state \<Rightarrow> ssh_state) \<Rightarrow> (rt_event \<times> int \<times> bool) list
    \<Rightarrow> rate_limiter \<Rightarrow> ssh_state \<Rightarrow> rate_limiter \<times> ssh_state" where
  "ssh_events h [] rr s = (rr, s)"
| "ssh_events h ((Line l, now, sent) # es) rr s = ssh_events h es rr (h now sent l s)"
| "ssh_events h ((Reported t msg, now, sent) # es) rr s =
    (let (rr', sys) = Report now ''ssh'' ''warn'' msg rr (hs_sys s) in ssh_events h es rr' (s\<lparr>hs_sys := sys\<rparr>))"
| "ssh_events h ((Paused d, now, sent) # es) rr s = ssh_events h es rr s"

definition runJournald :: "bool \<Rightarrow> round list \<Rightarrow> (int \<times> bool) list \<Rightarrow> ssh_state \<Rightarrow> bytes list option \<times> ssh_state" where
  "runJournald found rounds env s =
    (if \<not> found then (Some [''journald needs journalctl''], s)
     else (None, snd (ssh_events journald_line (zip (fst (RunRestarted ''journalctl'' rounds)) env)
                        (NewRateLimiter minute) s)))"

definition runRsyslog :: "zone \<Rightarrow> bool \<Rightarrow> round list \<Rightarrow> (int \<times> bool) list \<Rightarrow> ssh_state \<Rightarrow> bytes list option \<times> ssh_state" where
  "runRsyslog local found rounds env s =
    (if \<not> found then (Some [''rsyslog needs tail''], s)
     else (None, snd (ssh_events (rsyslog_line local) (zip (fst (RunRestarted ''tail'' rounds)) env)
                        (NewRateLimiter minute) s)))"

definition RunSSHParser :: "zone \<Rightarrow> bytes \<Rightarrow> bool \<Rightarrow> round list \<Rightarrow> (int \<times> bool) list \<Rightarrow> sysch
    \<Rightarrow> bytes list option \<times> ssh_state" where
  "RunSSHParser local source found rounds env sys =
    (let s = \<lparr>hs_sink = [], hs_sys = sys, hs_rep = NewRateLimiter minute\<rparr> in
     if source = ''journald'' then runJournald found rounds env s
     else if source = ''rsyslog'' then runRsyslog local found rounds env s
     else (Some [''unknown ssh.source'', source], s))"

subsection \<open>What sshd prints\<close>

text \<open>
  The messages the patterns are written for, with the user, address and port in them. The last one
  carries no user: its text does not depend on the user argument.
\<close>

datatype ssh_msg =
    FailedInvalid | FailedPassword | AcceptedPassword
  | AcceptedKey bytes bytes | FailedKey bytes bytes
  | InvalidUser | ClosedAuthenticating | MaxAttempts | MaxAttemptsNoUser

fun ssh_text :: "ssh_msg \<Rightarrow> bytes \<Rightarrow> bytes \<Rightarrow> bytes \<Rightarrow> bytes" where
  "ssh_text FailedInvalid u i p = ''Failed password for invalid user '' @ u @ '' from '' @ i @ '' port '' @ p"
| "ssh_text FailedPassword u i p = ''Failed password for '' @ u @ '' from '' @ i @ '' port '' @ p"
| "ssh_text AcceptedPassword u i p = ''Accepted password for '' @ u @ '' from '' @ i @ '' port '' @ p"
| "ssh_text (AcceptedKey a f) u i p =
    ''Accepted publickey for '' @ u @ '' from '' @ i @ '' port '' @ p @ '' ssh2: '' @ a @ '' '' @ f"
| "ssh_text (FailedKey a f) u i p =
    ''Failed publickey for '' @ u @ '' from '' @ i @ '' port '' @ p @ '' ssh2: '' @ a @ '' '' @ f"
| "ssh_text InvalidUser u i p = ''Invalid user '' @ u @ '' from '' @ i @ '' port '' @ p"
| "ssh_text ClosedAuthenticating u i p =
    ''Connection closed by authenticating user '' @ u @ '' '' @ i @ '' port '' @ p"
| "ssh_text MaxAttempts u i p =
    ''error: maximum authentication attempts exceeded for '' @ u @ '' from '' @ i @ '' port '' @ p"
| "ssh_text MaxAttemptsNoUser u i p =
    ''error: maximum authentication attempts exceeded from '' @ i @ '' port '' @ p"

fun msg_user :: "ssh_msg \<Rightarrow> bytes \<Rightarrow> bytes" where
  "msg_user MaxAttemptsNoUser u = []"
| "msg_user _ u = u"

definition word :: "bytes \<Rightarrow> bool" where
  "word w \<longleftrightarrow> w \<noteq> [] \<and> (\<forall>c\<in>set w. not_space c)"

fun msg_words :: "ssh_msg \<Rightarrow> bool" where
  "msg_words (AcceptedKey a f) = (word a \<and> word f)"
| "msg_words (FailedKey a f) = (word a \<and> word f)"
| "msg_words _ = True"

text \<open>What may follow: nothing, or text the last group cannot take.\<close>

fun tail_ok :: "ssh_msg \<Rightarrow> bytes \<Rightarrow> bool" where
  "tail_ok (AcceptedKey a f) r = (r = [] \<or> re_space (hd r))"
| "tail_ok (FailedKey a f) r = (r = [] \<or> re_space (hd r))"
| "tail_ok _ r = (r = [] \<or> \<not> is_digit (hd r))"

fun msg_method :: "ssh_msg \<Rightarrow> bytes" where
  "msg_method (AcceptedKey a f) = ''publickey''"
| "msg_method (FailedKey a f) = ''publickey''"
| "msg_method InvalidUser = []"
| "msg_method ClosedAuthenticating = []"
| "msg_method MaxAttempts = []"
| "msg_method MaxAttemptsNoUser = []"
| "msg_method _ = ''password''"

fun msg_result :: "ssh_msg \<Rightarrow> nat" where
  "msg_result AcceptedPassword = ResultOK"
| "msg_result (AcceptedKey a f) = ResultOK"
| "msg_result ClosedAuthenticating = ResultUnknown"
| "msg_result _ = ResultFail"

fun msg_fingerprint :: "ssh_msg \<Rightarrow> bytes" where
  "msg_fingerprint (AcceptedKey a f) = f"
| "msg_fingerprint (FailedKey a f) = f"
| "msg_fingerprint _ = []"

lemma not_space_SP [simp]: "\<not> not_space SP"
  by (simp add: not_space_def re_space_def)

lemma is_digit_SP [simp]: "\<not> is_digit SP"
  by (simp add: is_digit_def bval_def)

lemma words_stop:
  assumes "word u" "s = [] \<or> re_space (hd s)"
  shows "match_start Words (u @ s) = Some ([], s)" "match_start (Cap n Words) (u @ s) = Some ([(n, u)], s)"
  using assms match_start_token(1) [of u not_space s] match_start_token(2) [of u not_space s n] by (auto simp: word_def not_space_def)

lemma digits_stop:
  assumes "all_digits p" "s = [] \<or> \<not> is_digit (hd s)"
  shows "match_start (Cap n Digits) (p @ s) = Some ([(n, p)], s)" "match_start Digits (p @ s) = Some ([], s)"
  using assms match_start_token(1) [of p is_digit s] match_start_token(2) [of p is_digit s n] by (auto simp: all_digits_def)

lemma from_port_match:
  assumes "word i" "all_digits p" "r = [] \<or> \<not> is_digit (hd r)"
  shows "match_start (seqs from_port) (i @ '' port '' @ p @ r) = Some ([(2, i), (3, p)], r)"
proof -
  have "match_start (Seq (Cap 2 Words) (Seq (Lit '' port '') (Cap 3 Digits))) (i @ '' port '' @ p @ r)
      = Some ([(2, i)] @ [] @ [(3, p)], r)"
    by (rule match_start_Seq words_stop match_start_Lit digits_stop assms | simp add: re_space_def)+
  then show ?thesis by (simp add: from_port_def)
qed

lemma key_text_match:
  assumes "word i" "all_digits p" "word a" "word f" "r = [] \<or> re_space (hd r)"
  shows "match_start (seqs (from_port @ key_text)) (i @ '' port '' @ p @ '' ssh2: '' @ a @ '' '' @ f @ r)
    = Some ([(2, i), (3, p), (4, f)], r)"
proof -
  have "match_start (Seq (Cap 2 Words) (Seq (Lit '' port '') (Seq (Cap 3 Digits)
      (Seq (Lit '' ssh2: '') (Seq Words (Seq (Lit '' '') (Cap 4 Words)))))))
      (i @ '' port '' @ p @ '' ssh2: '' @ a @ '' '' @ f @ r) = Some ([(2, i)] @ [] @ [(3, p)] @ [] @ [] @ [] @ [(4, f)], r)"
    by (rule match_start_Seq words_stop match_start_Lit digits_stop assms | simp add: re_space_def)+
  then show ?thesis by (simp add: from_port_def key_text_def)
qed

lemma seqs_Cons: "rs \<noteq> [] \<Longrightarrow> seqs (r # rs) = Seq r (seqs rs)"
  by (cases rs) auto

lemma user_from_match:
  assumes "word u" "match_start (seqs rs) s = Some (c, r)" "rs \<noteq> []"
  shows "match_start (seqs (user_from t @ rs)) (t @ u @ '' from '' @ s) = Some ((1, u) # c, r)"
proof -
  have "match_start (Seq (Lit t) (Seq (Cap 1 Words) (Seq (Lit '' from '') (seqs rs)))) (t @ u @ '' from '' @ s)
      = Some ([] @ [(1, u)] @ [] @ c, r)"
    by (rule match_start_Seq words_stop match_start_Lit assms(1,2) | simp add: re_space_def)+
  then show ?thesis using assms(3) by (simp add: user_from_def seqs_Cons)
qed

lemma user_from_none: "rs \<noteq> [] \<Longrightarrow> \<not> has_prefix s t \<Longrightarrow> match_start (seqs (user_from t @ rs)) s = None"
  by (simp add: user_from_def seqs_Cons match_start_def)

lemma from_port_nonempty [simp]: "from_port \<noteq> []"
  by (simp add: from_port_def)

lemma not_invalid_user:
  assumes "word u"
  shows "\<not> has_prefix (u @ '' from '' @ s) ''invalid user ''"
proof
  assume "has_prefix (u @ '' from '' @ s) ''invalid user ''"
  then obtain z where z: "u @ '' from '' @ s = ''invalid user '' @ z"
    by (metis append_take_drop_id has_prefix_def)
  have u: "\<forall>c\<in>set u. c \<noteq> SP" using assms by (auto simp: word_def)
  have "takeWhile (\<lambda>c. c \<noteq> SP) (u @ '' from '' @ s) = u"
    using takeWhile_append_stop [of u "\<lambda>c. c \<noteq> SP" SP] u by simp
  moreover have "takeWhile (\<lambda>c. c \<noteq> SP) (''invalid user '' @ z) = ''invalid''" by simp
  ultimately have "u = ''invalid''" using z by simp
  then show False using z by simp
qed

lemma opt_for_match:
  assumes "word u" "match_start (seqs rs) s = Some (c, r)" "rs \<noteq> []"
  shows "match_start (seqs ([Lit ''error: maximum authentication attempts exceeded'',
      Opt (Seq (Lit '' for '') (Cap 1 Words)), Lit '' from ''] @ rs))
    (''error: maximum authentication attempts exceeded'' @ '' for '' @ u @ '' from '' @ s) = Some ((1, u) # c, r)"
proof -
  have "match_start (Seq (Lit ''error: maximum authentication attempts exceeded'')
      (Seq (Opt (Seq (Lit '' for '') (Cap 1 Words))) (Seq (Lit '' from '') (seqs rs))))
      (''error: maximum authentication attempts exceeded'' @ '' for '' @ u @ '' from '' @ s)
      = Some ([] @ ([] @ [(1, u)]) @ [] @ c, r)"
    by (rule match_start_Seq match_start_Opt words_stop match_start_Lit assms(1,2) | simp add: re_space_def)+
  then show ?thesis using assms(3) by (simp add: seqs_Cons)
qed

lemma opt_absent_match:
  assumes "match_start (seqs rs) s = Some (c, r)" "rs \<noteq> []"
  shows "match_start (seqs ([Lit ''error: maximum authentication attempts exceeded'',
      Opt (Seq (Lit '' for '') (Cap 1 Words)), Lit '' from ''] @ rs))
    (''error: maximum authentication attempts exceeded'' @ '' from '' @ s) = Some (c, r)"
proof -
  have "match_start (Seq (Lit '' for '') (Cap 1 Words)) ('' from '' @ s) = None"
    by (simp add: match_start_def has_prefix_def)
  then have "match_start (Opt (Seq (Lit '' for '') (Cap 1 Words))) ('' from '' @ s) = Some ([], '' from '' @ s)"
    by (rule match_start_Opt_none)
  then have "match_start (Seq (Lit ''error: maximum authentication attempts exceeded'')
      (Seq (Opt (Seq (Lit '' for '') (Cap 1 Words))) (Seq (Lit '' from '') (seqs rs))))
      (''error: maximum authentication attempts exceeded'' @ '' from '' @ s) = Some ([] @ [] @ [] @ c, r)"
    by (rule match_start_Seq [OF match_start_Lit match_start_Seq [OF _ match_start_Seq [OF match_start_Lit assms(1)]]])
  then show ?thesis using assms(2) by (simp add: seqs_Cons)
qed

lemma closed_match:
  assumes "word u" "match_start (seqs rs) s = Some (c, r)" "rs \<noteq> []"
  shows "match_start (seqs ([Lit ''Connection closed by authenticating user '', Cap 1 Words, Lit '' ''] @ rs))
    (''Connection closed by authenticating user '' @ u @ '' '' @ s) = Some ((1, u) # c, r)"
proof -
  have "match_start (Seq (Lit ''Connection closed by authenticating user '')
      (Seq (Cap 1 Words) (Seq (Lit '' '') (seqs rs))))
      (''Connection closed by authenticating user '' @ u @ '' '' @ s)
      = Some ([] @ [(1, u)] @ [] @ c, r)"
    by (rule match_start_Seq words_stop match_start_Lit assms(1,2) | simp add: re_space_def)+
  then show ?thesis using assms(3) by (simp add: seqs_Cons)
qed

definition msg_caps :: "ssh_msg \<Rightarrow> bytes \<Rightarrow> bytes \<Rightarrow> bytes \<Rightarrow> caps" where
  "msg_caps m u i p = (case m of MaxAttemptsNoUser \<Rightarrow> [] | _ \<Rightarrow> [(1, u)]) @ [(2, i), (3, p)] @
     (case m of AcceptedKey a f \<Rightarrow> [(4, f)] | FailedKey a f \<Rightarrow> [(4, f)] | _ \<Rightarrow> [])"

fun msg_pattern :: "ssh_msg \<Rightarrow> nat" where
  "msg_pattern FailedInvalid = 0"
| "msg_pattern FailedPassword = 1"
| "msg_pattern AcceptedPassword = 2"
| "msg_pattern (AcceptedKey a f) = 3"
| "msg_pattern (FailedKey a f) = 4"
| "msg_pattern InvalidUser = 5"
| "msg_pattern ClosedAuthenticating = 6"
| "msg_pattern MaxAttempts = 7"
| "msg_pattern MaxAttemptsNoUser = 7"

lemma first_pattern_step:
  "match_start (sp_re p) s = None \<Longrightarrow> first_pattern (p # ps) s = first_pattern ps s"
  "match_start (sp_re p) s = Some (c, r) \<Longrightarrow> first_pattern (p # ps) s = Some (p, c)"
  by simp_all

lemma sp_re_pat [simp]: "sp_re (ssh_pat rs a b c) = seqs rs"
  by (simp add: ssh_pat_def)

lemma closed_none:
  "\<not> has_prefix s ''Connection closed by authenticating user '' \<Longrightarrow>
    match_start (seqs ([Lit ''Connection closed by authenticating user '', Cap 1 Words, Lit '' ''] @ from_port)) s = None"
  by (simp only: append_Cons seqs_Cons list.distinct match_start_def matches.simps) simp

lemma first_pattern_text:
  assumes "word u" "word i" "all_digits p" "msg_words m" "tail_ok m t"
  shows "first_pattern sshPatterns (ssh_text m u i p @ t) = Some (sshPatterns ! msg_pattern m, msg_caps m u i p)"
proof -
  note usr = user_from_match [OF assms(1) from_port_match [OF assms(2,3)] from_port_nonempty]
  note key = user_from_match [OF assms(1) key_text_match [OF assms(2,3)]]
  note no = user_from_none has_prefix_def from_port_nonempty
  show ?thesis
  proof (cases m)
    case FailedInvalid
    then show ?thesis
      using usr [of t "''Failed password for invalid user ''"] assms(5)
      by (simp add: sshPatterns_def msg_caps_def)
  next
    case FailedPassword
    have "\<not> has_prefix (ssh_text m u i p @ t) ''Failed password for invalid user ''"
      using not_invalid_user [OF assms(1), of "i @ '' port '' @ p @ t"] FailedPassword
      by (simp add: has_prefix_def)
    then show ?thesis
      using usr [of t "''Failed password for ''"] assms(5) FailedPassword
      by (simp add: sshPatterns_def msg_caps_def user_from_none)
  next
    case AcceptedPassword
    then show ?thesis
      using usr [of t "''Accepted password for ''"] assms(5)
      by (simp add: sshPatterns_def msg_caps_def no)
  next
    case (AcceptedKey a f)
    then show ?thesis
      using key [of a f t "''Accepted publickey for ''"] assms(4,5)
      by (simp add: sshPatterns_def msg_caps_def no)
  next
    case (FailedKey a f)
    then show ?thesis
      using key [of a f t "''Failed publickey for ''"] assms(4,5)
      by (simp add: sshPatterns_def msg_caps_def no)
  next
    case InvalidUser
    then show ?thesis
      using usr [of t "''Invalid user ''"] assms(5)
      by (simp add: sshPatterns_def msg_caps_def no)
  next
    case ClosedAuthenticating
    then show ?thesis
      using closed_match [OF assms(1) from_port_match [OF assms(2,3)] from_port_nonempty, of t] assms(5)
      by (simp add: sshPatterns_def msg_caps_def no)
  next
    case MaxAttempts
    then show ?thesis
      using opt_for_match [OF assms(1) from_port_match [OF assms(2,3)] from_port_nonempty, of t] assms(5)
        closed_none [of "ssh_text m u i p @ t"]
      by (simp add: sshPatterns_def msg_caps_def no)
  next
    case MaxAttemptsNoUser
    then show ?thesis
      using opt_absent_match [OF from_port_match [OF assms(2,3)] from_port_nonempty, of t] assms(5)
        closed_none [of "ssh_text m u i p @ t"]
      by (simp add: sshPatterns_def msg_caps_def no)
  qed
qed

text \<open>The header of a syslog line; a day of one digit is padded with a blank.\<close>

definition day_gap :: "nat \<Rightarrow> bytes" where
  "day_gap d = (if d < 10 then ''  '' else '' '')"

definition day_digits :: "nat \<Rightarrow> bytes" where
  "day_digits d = (if d < 10 then [mkbyte (48 + d)] else dd d)"

definition sshd_header :: "bytes \<Rightarrow> nat \<Rightarrow> nat \<Rightarrow> nat \<Rightarrow> nat \<Rightarrow> bytes \<Rightarrow> nat \<Rightarrow> bytes" where
  "sshd_header mon d h mi se host pid =
    mon @ day_gap d @ day_digits d @ '' '' @ dd h @ '':'' @ dd mi @ '':'' @ dd se @ '' '' @ host @ '' sshd['' @ show_nat pid @ '']: ''"

lemma run_exact: "matches (Run P n (Some n)) s = (if n \<le> length (takeWhile P s) then [([], drop n s)] else [])"
  by (auto simp: Let_def min_def)

lemma seq_run_exact:
  "matches (Seq (Run P n (Some n)) r) s = (if n \<le> length (takeWhile P s) then matches r (drop n s) else [])"
  by (simp add: run_exact del: matches.simps(2))

lemma strip_none:
  assumes "4 \<le> length s" "\<not> re_space (s ! 3)"
  shows "stripPrefix s = s"
proof -
  obtain r where re: "rePrefix = Seq (Run re_upper 1 (Some 1)) (Seq (Run re_lower 2 (Some 2)) (Seq Spaces r))"
    by (simp add: rePrefix_def)
  have "drop 3 s \<noteq> []" "hd (drop 3 s) = s ! 3" using assms(1) by (auto simp: hd_drop_conv_nth)
  then have sp: "matches (Seq Spaces r) (drop (Suc (Suc (Suc 0))) s) = []"
    using assms(2) by (cases "drop 3 s") (auto simp: numeral_3_eq_3)
  have "matches rePrefix s = []"
    unfolding re seq_run_exact drop_drop using sp by (simp add: numeral_2_eq_2 del: matches.simps(2,3))
  then show ?thesis by (simp add: stripPrefix_def match_start_def)
qed

lemma re_space_SP [simp]: "re_space SP"
  by (simp add: re_space_def)

lemma dd_split: "match_start (Run is_digit lo (Some 2)) (dd n @ s) = Some ([], s)" if "lo \<le> 2"
  using match_start_Run_to [of "dd n" is_digit lo 2 s] is_digit_dd [of _ n] that by (auto simp: dd_def)

lemma spaces_stop: "u \<noteq> [] \<Longrightarrow> \<forall>c\<in>set u. re_space c \<Longrightarrow> s = [] \<or> not_space (hd s) \<Longrightarrow>
    match_start Spaces (u @ s) = Some ([], s)"
  using match_start_token(1) [of u re_space s] by (auto simp: not_space_def)

lemma digit_not_space: "is_digit c \<Longrightarrow> not_space c"
  by (auto simp: is_digit_def not_space_def re_space_def bval_def)

lemma one_space: "s = [] \<or> not_space (hd s) \<Longrightarrow> match_start Spaces ('' '' @ s) = Some ([], s)"
  by (rule spaces_stop) auto

definition month3 :: "bytes \<Rightarrow> bool" where
  "month3 mon \<longleftrightarrow> length mon = 3 \<and> re_upper (mon ! 0) \<and> re_lower (mon ! 1) \<and> re_lower (mon ! 2)"

lemma dd_hd: "not_space (hd (dd n @ s))"
  using digit_not_space is_digit_dd [of "hd (dd n)" n] by (simp add: dd_def)

lemma day_spaces: "match_start Spaces (day_gap d @ day_digits d @ s) = Some ([], day_digits d @ s)"
proof (rule spaces_stop)
  show "day_digits d @ s = [] \<or> not_space (hd (day_digits d @ s))"
    using dd_hd digit_not_space [of "mkbyte (48 + d)"] by (simp add: day_digits_def)
qed (auto simp: day_gap_def)

lemma day_split:
  assumes "s = [] \<or> \<not> is_digit (hd s)"
  shows "match_start (Run is_digit 1 (Some 2)) (day_digits d @ s) = Some ([], s)"
proof (cases "d < 10")
  case True
  then have "is_digit (mkbyte (48 + d))" by (simp add: is_digit_def bval_mkbyte_small)
  then have "takeWhile is_digit (mkbyte (48 + d) # s) = [mkbyte (48 + d)]"
    using assms by (cases s) auto
  then show ?thesis using True by (simp add: day_digits_def match_start_def)
next
  case False
  then show ?thesis using dd_split [of 1 d s] by (simp add: day_digits_def)
qed

lemma month3_match:
  assumes "month3 mon" "match_start r s = Some m"
  shows "match_start (Seq (Run re_upper 1 (Some 1)) (Seq (Run re_lower 2 (Some 2)) r)) (mon @ s) = Some m"
proof -
  obtain a b c where m: "mon = [a] @ [b, c]" "re_upper a" "re_lower b" "re_lower c"
    using assms(1) by (auto simp: month3_def numeral_3_eq_3 length_Suc_conv)
  obtain x y where xy: "m = (x, y)" by force
  have "match_start (Run re_upper 1 (Some 1)) ([a] @ [b, c] @ s) = Some ([], [b, c] @ s)"
    by (rule match_start_Run_to) (use m in auto)
  moreover have "match_start (Run re_lower 2 (Some 2)) ([b, c] @ s) = Some ([], s)"
    by (rule match_start_Run_to) (use m in auto)
  ultimately have "match_start (Seq (Run re_upper 1 (Some 1)) (Seq (Run re_lower 2 (Some 2)) r)) ([a] @ [b, c] @ s)
      = Some ([] @ [] @ x, y)"
    using assms(2) xy by (intro match_start_Seq) auto
  then show ?thesis by (simp add: m(1) xy)
qed

lemma strip_header:
  assumes "month3 mon" "word host" "s \<noteq> []" "not_space (hd s)"
  shows "stripPrefix (sshd_header mon d h mi se host pid @ s) = s"
proof -
  have h: "not_space (hd (host @ '' sshd['' @ show_nat pid @ '']: '' @ s))"
    using assms(2) by (cases host) (auto simp: word_def)
  have sp: "match_start (Run re_space 0 None) ('' '' @ s) = Some ([], s)"
    using match_start_Run [of "'' ''" re_space 0 s] assms(4) by (simp add: not_space_def)
  have rest: "match_start (Seq Spaces (Seq (Run is_digit 1 (Some 2)) (Seq Spaces (Seq (Run is_digit 2 (Some 2))
      (Seq (Lit '':'') (Seq (Run is_digit 2 (Some 2)) (Seq (Lit '':'') (Seq (Run is_digit 2 (Some 2)) (Seq Spaces
      (Seq Words (Seq Spaces (Seq (Lit ''sshd['') (Seq Digits (Seq (Lit '']:'') (Run re_space 0 None)))))))))))))))
      (day_gap d @ day_digits d @ '' '' @ dd h @ '':'' @ dd mi @ '':'' @ dd se @ '' '' @ host @ '' '' @ ''sshd['' @ show_nat pid
        @ '']:'' @ '' '' @ s)
      = Some ([] @ [] @ [] @ [] @ [] @ [] @ [] @ [] @ [] @ [] @ [] @ [] @ [] @ [] @ [], s)"
    by (rule match_start_Seq day_spaces day_split one_space dd_split match_start_Lit words_stop assms digits_stop sp all_digits_show
      | use h dd_hd in \<open>simp add: not_space_def re_space_def is_digit_def bval_def\<close>)+
  have "match_start rePrefix (sshd_header mon d h mi se host pid @ s) = Some ([], s)"
    using month3_match [OF assms(1) rest] by (simp add: rePrefix_def sshd_header_def)
  then show ?thesis by (simp add: stripPrefix_def)
qed

lemma text_start: "4 \<le> length (ssh_text m u i p) \<and> not_space (ssh_text m u i p ! 3) \<and> not_space (hd (ssh_text m u i p))"
  by (cases m) (simp_all add: not_space_def re_space_def)

text \<open>The header is missing in journal messages and present in \<^verbatim>\<open>auth.log\<close>.\<close>

definition header_ok :: "bytes \<Rightarrow> bool" where
  "header_ok hdr \<longleftrightarrow> hdr = [] \<or>
     (\<exists>mon d h mi se host pid. month3 mon \<and> word host \<and> hdr = sshd_header mon d h mi se host pid)"

lemma strip_any:
  assumes "header_ok hdr"
  shows "stripPrefix (hdr @ ssh_text m u i p @ t) = ssh_text m u i p @ t"
proof -
  have "ssh_text m u i p @ t \<noteq> []" "not_space (hd (ssh_text m u i p @ t))"
    "4 \<le> length (ssh_text m u i p @ t)" "\<not> re_space ((ssh_text m u i p @ t) ! 3)"
    using text_start [of m u i p] by (auto simp: hd_append nth_append not_space_def)
  then show ?thesis
    using assms strip_none strip_header unfolding header_ok_def by (metis append_Nil)
qed

text \<open>
  Two messages of sshd about unknown users that no pattern takes: a failed key, and a failed password
  with an empty name.
\<close>

lemma invalid_user_none:
  assumes "rs \<noteq> []"
  shows "match_start (seqs (user_from t @ rs)) (t @ ''invalid user '' @ z) = None"
proof -
  have "takeWhile not_space (''invalid user '' @ z) = ''invalid''"
    by (simp add: not_space_def re_space_def)
  then show ?thesis
    using assms by (simp add: user_from_def seqs_Cons match_start_def has_prefix_def rev_upt_Suc del: upt_Suc)
qed

lemma first_pattern_none: "first_pattern ps s = None \<longleftrightarrow> (\<forall>p\<in>set ps. match_start (sp_re p) s = None)"
  by (induction ps) (auto split: option.splits)

lemma attempts_none:
  "\<not> has_prefix s ''error: maximum authentication attempts exceeded'' \<Longrightarrow>
    match_start (seqs ([Lit ''error: maximum authentication attempts exceeded'',
      Opt (Seq (Lit '' for '') (Cap 1 Words)), Lit '' from ''] @ from_port)) s = None"
  by (simp only: append_Cons seqs_Cons list.distinct match_start_def matches.simps) simp

lemma invalid_key_unparsed:
  assumes "header_ok hdr"
  shows "ParseSSHLine (hdr @ ''Failed publickey for invalid user '' @ z) ts = None"
proof -
  let ?s = "''Failed publickey for '' @ ''invalid user '' @ z"
  have "\<not> re_space (?s ! 3)" "4 \<le> length ?s" "?s \<noteq> []" "not_space (hd ?s)"
    by (simp_all add: not_space_def re_space_def)
  then have "stripPrefix (hdr @ ?s) = ?s"
    using assms strip_none [of ?s] strip_header [of _ _ ?s] unfolding header_ok_def by (metis append_Nil)
  moreover have "first_pattern sshPatterns ?s = None"
    using invalid_user_none [of "from_port @ key_text" "''Failed publickey for ''" z] closed_none [of ?s]
      attempts_none [of ?s]
    by (simp add: sshPatterns_def user_from_none has_prefix_def)
  ultimately show ?thesis by (simp add: ParseSSHLine_def)
qed

end
