(* ===== verification/F2b.thy ===== *)
theory F2b
  imports LogStream GoRegex GoTime
begin

text \<open>
  \<^verbatim>\<open>internal/f2b\<close>: parsing fail2ban log lines (\<^verbatim>\<open>parse.go\<close>), the listener and the query for the
  addresses banned now (\<^verbatim>\<open>f2b.go\<close>), with its refresh in \<^verbatim>\<open>cmd/sentry-agent/main.go\<close>.

  The fail2ban database is outside the program: what its queries return is an argument. A row of
  \<^verbatim>\<open>bips\<close> carries the fields its WHERE clause reads, NULL as None; the clause itself is modelled.
\<close>

subsection \<open>Lines\<close>

definition jail_byte :: "byte \<Rightarrow> bool" where
  "jail_byte c \<longleftrightarrow> word_byte c \<or> c = CHR ''.'' \<or> c = CHR ''-''"

definition octets_re :: regex where
  "octets_re = seqs [Run is_digit 1 (Some 3), Lit ''.'', Run is_digit 1 (Some 3), Lit ''.'',
                     Run is_digit 1 (Some 3), Lit ''.'', Run is_digit 1 (Some 3)]"

definition action_re :: regex where
  "action_re = Alt (Seq (Opt (Lit ''Restore '')) (Lit ''Ban'')) (Alt (Lit ''Unban'') (Lit ''Found''))"

definition reF2B :: regex where
  "reF2B = seqs [Lit ''['', Cap 1 (Run jail_byte 1 None), Lit '']'', Spaces, Cap 2 action_re, Spaces, Cap 3 octets_re]"

definition restorePrefix :: nat where
  "restorePrefix = length ''Restore ''"

definition to_lower :: "bytes \<Rightarrow> bytes" where
  "to_lower s = map lower_byte s"

definition ParseF2BLine :: "bytes \<Rightarrow> int \<Rightarrow> ban_event option" where
  "ParseF2BLine line ts =
    (case search no_assertion reF2B None line of None \<Rightarrow> None
     | Some (m, _) \<Rightarrow>
       (let ip = ParseIP (group 3 m); a = group 2 m;
            action = (if restorePrefix < length a \<and> take restorePrefix a = ''Restore '' then drop restorePrefix a else a)
        in if ip = [] then None
           else Some \<lparr>be_ts = ts, be_ip = IPv4ToUint32 ip, be_type = to_lower action, be_jail = group 1 m\<rparr>))"

definition ParseF2BTime :: "bytes \<Rightarrow> int option" where
  "ParseF2BTime line =
    (if length line < 19 then None
     else map_option (\<lambda>p. instant p (fixed_zone LogTZ)) (time_Parse datetime_layout (take 19 line)))"

record f2b_state =
  hb_sink :: "ban_event list"
  hb_sys :: sysch

definition f2b_line :: "int \<Rightarrow> bool \<Rightarrow> bytes \<Rightarrow> f2b_state \<Rightarrow> f2b_state" where
  "f2b_line now sent line s =
    (let ts = (case ParseF2BTime line of Some t \<Rightarrow> t | None \<Rightarrow> unix now) in
     case ParseF2BLine line ts of None \<Rightarrow> s
     | Some ev \<Rightarrow> if sent then s\<lparr>hb_sink := hb_sink s @ [ev]\<rparr> else s)"

fun f2b_events :: "(rt_event \<times> int \<times> bool) list \<Rightarrow> rate_limiter \<Rightarrow> f2b_state \<Rightarrow> rate_limiter \<times> f2b_state" where
  "f2b_events [] rr s = (rr, s)"
| "f2b_events ((Line l, now, sent) # es) rr s = f2b_events es rr (f2b_line now sent l s)"
| "f2b_events ((Reported t msg, now, sent) # es) rr s =
    (let (rr', sys) = Report now ''f2b'' ''warn'' msg rr (hb_sys s) in f2b_events es rr' (s\<lparr>hb_sys := sys\<rparr>))"
| "f2b_events ((Paused d, now, sent) # es) rr s = f2b_events es rr s"

definition RunF2BListener :: "bool \<Rightarrow> round list \<Rightarrow> (int \<times> bool) list \<Rightarrow> sysch \<Rightarrow> bytes list option \<times> f2b_state" where
  "RunF2BListener found rounds env sys =
    (let s = \<lparr>hb_sink = [], hb_sys = sys\<rparr> in
     if \<not> found then (Some [''f2b listener needs tail''], s)
     else (None, snd (f2b_events (zip (fst (RunRestarted ''fail2ban log'' rounds)) env) (NewRateLimiter minute) s)))"

subsection \<open>The addresses banned now\<close>

datatype f2b_kind = Unreadable | Empty | Schema | HotJournal

text \<open>A driver error: its SQLite code when it has one, and its text.\<close>

record db_error =
  db_code :: "int option"
  db_msg :: bytes

record banned_error =
  bq_kind :: f2b_kind
  bq_msg :: "bytes list"

definition readonlyRecoveryCode :: int where
  "readonlyRecoveryCode = 264"

definition classifyQueryErr :: "db_error \<Rightarrow> bytes \<Rightarrow> banned_error" where
  "classifyQueryErr e msg =
    (if db_code e = Some readonlyRecoveryCode then \<lparr>bq_kind = HotJournal, bq_msg = [''hot journal'']\<rparr>
     else \<lparr>bq_kind = Unreadable, bq_msg = [msg, db_msg e]\<rparr>)"

text \<open>A row of \<^verbatim>\<open>bips\<close>; a row whose ip cannot be read into a string ends the scan with an error.\<close>

record bip =
  bp_ip :: "bytes option"
  bp_timeofban :: "int option"
  bp_bantime :: "int option"

definition bipsActive :: "int \<Rightarrow> bip \<Rightarrow> bool" where
  "bipsActive now r \<longleftrightarrow>
     bp_bantime r = Some (- 1) \<or> bp_bantime r = None \<or> bp_timeofban r = None \<or>
     (case (bp_timeofban r, bp_bantime r) of (Some t, Some b) \<Rightarrow> now < t + b | _ \<Rightarrow> False)"

text \<open>
  The answers of the database: the error of opening it, whether a table exists, its columns, its
  rows, the error of a query, and the error met after the rows.
\<close>

record f2b_db =
  fd_open :: "db_error option"
  fd_exists :: "bytes \<Rightarrow> db_error + bool"
  fd_columns :: "bytes \<Rightarrow> db_error + bytes list"
  fd_query :: "bytes \<Rightarrow> db_error option"
  fd_bips :: "bip list"
  fd_bans :: "bytes option list"
  fd_rows_err :: "db_error option"

fun scan_rows :: "bytes option list \<Rightarrow> db_error option \<Rightarrow> u32 list \<Rightarrow> db_error + u32 list" where
  "scan_rows [] e acc = (case e of None \<Rightarrow> Inr acc | Some x \<Rightarrow> Inl x)"
| "scan_rows (None # rs) e acc = Inl \<lparr>db_code = None, db_msg = ''scan''\<rparr>"
| "scan_rows (Some s # rs) e acc =
    (let ip = ParseIP s in
     if ip = [] \<or> To4 ip = [] then scan_rows rs e acc else scan_rows rs e (acc @ [IPv4ToUint32 ip]))"

definition scanBannedIPs :: "bytes option list \<Rightarrow> db_error option \<Rightarrow> db_error + u32 list" where
  "scanBannedIPs rs e = scan_rows rs e []"

definition containsStr :: "bytes list \<Rightarrow> bytes \<Rightarrow> bool" where
  "containsStr cols want \<longleftrightarrow> want \<in> set cols"

definition queryBannedBans :: "f2b_db \<Rightarrow> banned_error + u32 list" where
  "queryBannedBans db =
    (case fd_exists db ''bans'' of
       Inl e \<Rightarrow> Inl (classifyQueryErr e ''probing'')
     | Inr ok \<Rightarrow>
       if \<not> ok then Inl \<lparr>bq_kind = Empty, bq_msg = [''no tables'']\<rparr>
       else (case fd_columns db ''bans'' of
           Inl e \<Rightarrow> Inl (classifyQueryErr e ''columns of bans'')
         | Inr cols \<Rightarrow>
           if \<not> containsStr cols ''ip'' then Inl \<lparr>bq_kind = Schema, bq_msg = ''bans without ip'' # cols\<rparr>
           else (case fd_query db ''bans'' of
               Some e \<Rightarrow> Inl (classifyQueryErr e ''querying bans'')
             | None \<Rightarrow>
               (case scanBannedIPs (remdups (fd_bans db)) (fd_rows_err db) of
                  Inl e \<Rightarrow> Inl (classifyQueryErr e ''reading bans'') | Inr ips \<Rightarrow> Inr ips))))"

definition queryBannedBips :: "int \<Rightarrow> f2b_db \<Rightarrow> banned_error + u32 list" where
  "queryBannedBips now db =
    (case fd_columns db ''bips'' of
       Inl e \<Rightarrow> Inl (classifyQueryErr e ''columns of bips'')
     | Inr cols \<Rightarrow>
       if \<not> containsStr cols ''ip'' then Inl \<lparr>bq_kind = Schema, bq_msg = ''bips without ip'' # cols\<rparr>
       else if \<not> containsStr cols ''timeofban'' \<or> \<not> containsStr cols ''bantime'' then queryBannedBans db
       else (case fd_query db ''bips'' of
           Some e \<Rightarrow> Inl (classifyQueryErr e ''querying bips'')
         | None \<Rightarrow>
           (case scanBannedIPs (remdups (map bp_ip (filter (bipsActive (unix now)) (fd_bips db)))) (fd_rows_err db) of
              Inl e \<Rightarrow> Inl (classifyQueryErr e ''reading bips'') | Inr ips \<Rightarrow> Inr ips)))"

definition QueryBanned :: "int \<Rightarrow> f2b_db \<Rightarrow> banned_error + u32 list" where
  "QueryBanned now db =
    (case fd_open db of
       Some e \<Rightarrow> Inl \<lparr>bq_kind = Unreadable, bq_msg = [''opening failed'', db_msg e]\<rparr>
     | None \<Rightarrow>
       (case fd_exists db ''bips'' of
          Inl e \<Rightarrow> Inl (classifyQueryErr e ''probing'')
        | Inr ok \<Rightarrow> if ok then queryBannedBips now db else queryBannedBans db))"

subsection \<open>The refresh\<close>

record banned_snapshot =
  bs_ts :: int
  bs_ips :: "u32 list"

record refresher =
  rf_snapshot :: "banned_snapshot option"
  rf_last :: int
  rf_rep :: rate_limiter
  rf_sys :: sysch

definition refreshBanned :: "int \<Rightarrow> f2b_db \<Rightarrow> refresher \<Rightarrow> refresher" where
  "refreshBanned now db r =
    (case QueryBanned now db of
       Inl e \<Rightarrow>
         (let (rep, sys) =
            (if bq_kind e = HotJournal then Report now ''f2b'' ''info'' (''list not available'' # bq_msg e) (rf_rep r) (rf_sys r)
             else Report now ''f2b'' ''warn'' (''query failed'' # bq_msg e) (rf_rep r) (rf_sys r))
          in r\<lparr>rf_rep := rep, rf_sys := sys\<rparr>)
     | Inr ips \<Rightarrow>
         (let r1 = r\<lparr>rf_snapshot := Some \<lparr>bs_ts = unix now, bs_ips = sort ips\<rparr>\<rparr> in
          if int (length ips) \<noteq> rf_last r
          then r1\<lparr>rf_last := int (length ips),
                  rf_sys := ReportSys now ''f2b'' ''info'' [''banned now'', show_nat (length ips)] (rf_sys r)\<rparr>
          else r1))"

definition refresh_start :: "sysch \<Rightarrow> refresher" where
  "refresh_start sys = \<lparr>rf_snapshot = None, rf_last = - 1, rf_rep = NewRateLimiter (5 * minute), rf_sys = sys\<rparr>"

subsection \<open>Lemmas\<close>

lemma scan_rows_ok:
  "scan_rows rs e acc = Inr out \<longleftrightarrow>
    e = None \<and> None \<notin> set rs \<and>
    out = acc @ map (\<lambda>s. IPv4ToUint32 (ParseIP s)) (filter (\<lambda>s. To4 (ParseIP s) \<noteq> []) (map the rs))"
proof (induction rs e acc rule: scan_rows.induct)
  case (3 s rs e acc)
  have "ParseIP s = [] \<Longrightarrow> To4 (ParseIP s) = []" by (simp add: To4_def)
  then show ?case using 3 by (auto simp: Let_def)
qed (auto split: option.splits)

subsection \<open>What fail2ban prints\<close>

datatype f2b_action = Ban | RestoreBan | Unban | Found

fun action_text :: "f2b_action \<Rightarrow> bytes" where
  "action_text Ban = ''Ban''"
| "action_text RestoreBan = ''Restore Ban''"
| "action_text Unban = ''Unban''"
| "action_text Found = ''Found''"

fun action_type :: "f2b_action \<Rightarrow> bytes" where
  "action_type Ban = ''ban''"
| "action_type RestoreBan = ''ban''"
| "action_type Unban = ''unban''"
| "action_type Found = ''found''"

definition blanks :: "bytes \<Rightarrow> bool" where
  "blanks b \<longleftrightarrow> b \<noteq> [] \<and> (\<forall>c\<in>set b. re_space c)"

definition jail_name :: "bytes \<Rightarrow> bool" where
  "jail_name j \<longleftrightarrow> j \<noteq> [] \<and> (\<forall>c\<in>set j. jail_byte c)"

lemma match_start_Run_upto:
  assumes "\<forall>c\<in>set u. P c" "lo \<le> length u" "length u \<le> hi" "s = [] \<or> \<not> P (hd s)"
  shows "match_start (Run P lo (Some hi)) (u @ s) = Some ([], s)"
proof -
  have "takeWhile P (u @ s) = u"
    using assms(1,4) by (cases s) (auto simp: takeWhile_append_stop)
  then show ?thesis
    using assms(2,3) by (simp add: match_start_def Let_def min_def rev_upt_Suc del: upt_Suc)
qed

lemma octet_match:
  assumes "n \<le> 255" "s = [] \<or> \<not> is_digit (hd s)"
  shows "match_start (Run is_digit 1 (Some 3)) (show_nat n @ s) = Some ([], s)"
proof (rule match_start_Run_upto)
  show "s = [] \<or> \<not> is_digit (hd s)" by (rule assms(2))
  show "\<forall>c\<in>set (show_nat n). is_digit c" using show_nat_digits by blast
  show "1 \<le> length (show_nat n)" by (simp add: Suc_le_eq)
  show "length (show_nat n) \<le> 3" using length_show_nat [of n 3] assms(1) by simp
qed

lemma octets_match:
  assumes "s = [] \<or> \<not> is_digit (hd s)"
  shows "match_start octets_re (Uint32ToIPv4 v @ s) = Some ([], s)"
proof -
  have dot: "\<not> is_digit (CHR ''.'')" by (simp add: is_digit_def bval_def)
  have "match_start (Seq (Run is_digit 1 (Some 3)) (Seq (Lit ''.'') (Seq (Run is_digit 1 (Some 3)) (Seq (Lit ''.'')
      (Seq (Run is_digit 1 (Some 3)) (Seq (Lit ''.'') (Run is_digit 1 (Some 3))))))))
      (show_nat (byte_at 24 v) @ ''.'' @ show_nat (byte_at 16 v) @ ''.'' @ show_nat (byte_at 8 v) @ ''.'' @ show_nat (byte_at 0 v) @ s)
    = Some ([] @ [] @ [] @ [] @ [] @ [] @ [], s)"
    by (rule match_start_Seq octet_match match_start_Lit byte_at_le assms | simp add: dot)+
  then show ?thesis by (simp add: octets_re_def Uint32ToIPv4_def dotted_four)
qed

lemma not_digit_jail: "\<not> jail_byte (CHR '']'')"
  by (simp add: jail_byte_def word_byte_def is_digit_def bval_def)

lemma action_match: "match_start action_re (action_text a @ SP # s) = Some ([], SP # s)"
  by (cases a) (auto simp: action_re_def match_start_def has_prefix_def)

lemma space_start: "blanks b \<Longrightarrow> \<exists>c b'. b = c # b' \<and> re_space c"
  by (cases b) (auto simp: blanks_def)

lemma action_match_blanks:
  assumes "blanks b"
  shows "match_start action_re (action_text a @ b @ s) = Some ([], b @ s)"
proof -
  obtain c b' where b: "b = c # b'" "re_space c" using space_start [OF assms] by blast
  then show ?thesis
    by (cases a) (auto simp: action_re_def match_start_def has_prefix_def)
qed

lemma blanks_match:
  assumes "blanks b" "s \<noteq> []" "\<not> re_space (hd s)"
  shows "match_start Spaces (b @ s) = Some ([], s)"
  using match_start_token(1) [of b re_space s] assms by (auto simp: blanks_def)

lemma reF2B_match:
  assumes "jail_name j" "blanks b1" "blanks b2" "t = [] \<or> \<not> is_digit (hd t)"
  shows "match_start reF2B (''['' @ j @ '']'' @ b1 @ action_text a @ b2 @ Uint32ToIPv4 v @ t)
    = Some ([(1, j), (2, action_text a), (3, Uint32ToIPv4 v)], t)"
proof -
  have jail: "match_start (Cap 1 (Run jail_byte 1 None)) (j @ '']'' @ s) = Some ([(1, j)], '']'' @ s)" for s
    using match_start_token(2) [of j jail_byte "'']'' @ s" 1] assms(1) not_digit_jail by (simp add: jail_name_def)
  have a: "action_text a @ s \<noteq> []" "\<not> re_space (hd (action_text a @ s))" for s
    by (cases a; simp add: re_space_def)+
  obtain c w where ip: "Uint32ToIPv4 v = c # w" "is_digit c"
    using show_nat_digits [of "hd (show_nat (byte_at 24 v))" "byte_at 24 v"]
    by (cases "show_nat (byte_at 24 v)") (auto simp: Uint32ToIPv4_def dotted_four)
  have i: "Uint32ToIPv4 v @ t \<noteq> []" "\<not> re_space (hd (Uint32ToIPv4 v @ t))"
    using ip by (auto simp: re_space_def is_digit_def bval_def)
  have act: "match_start (Cap 2 action_re) (action_text a @ b2 @ s) = Some ([(2, action_text a)], b2 @ s)" for s
    using match_start_Cap [OF action_match_blanks [OF assms(3)]] .
  have oct: "match_start (Cap 3 octets_re) (Uint32ToIPv4 v @ t) = Some ([(3, Uint32ToIPv4 v)], t)"
    using match_start_Cap [OF octets_match [OF assms(4)]] .
  have "match_start (Seq (Lit ''['') (Seq (Cap 1 (Run jail_byte 1 None)) (Seq (Lit '']'') (Seq Spaces
      (Seq (Cap 2 action_re) (Seq Spaces (Cap 3 octets_re)))))))
      (''['' @ j @ '']'' @ b1 @ action_text a @ b2 @ Uint32ToIPv4 v @ t)
    = Some ([] @ [(1, j)] @ [] @ [] @ [(2, action_text a)] @ [] @ [(3, Uint32ToIPv4 v)], t)"
    by (rule match_start_Seq match_start_Lit jail blanks_match act oct assms a i)+
  then show ?thesis by (simp add: reF2B_def)
qed

lemma no_bracket: "\<forall>c\<in>set u. c \<noteq> CHR ''['' \<Longrightarrow> u \<noteq> [] \<Longrightarrow> match_start reF2B (u @ s) = None"
  by (cases u) (auto simp: reF2B_def match_start_def has_prefix_def)

lemma search_no_bracket:
  assumes "\<forall>c\<in>set u. c \<noteq> CHR ''[''"
  shows "search no_assertion reF2B p (u @ s) = search no_assertion reF2B (last_byte p u) s"
  by (rule search_skip) (use assms no_bracket in auto)

text \<open>The process id in brackets is followed by a colon, so the pattern does not match there.\<close>

lemma pid_none:
  assumes "jail_name pid" "\<not> re_space c"
  shows "match_start reF2B (''['' @ pid @ '']'' @ c # s) = None"
proof -
  obtain r where re: "reF2B = Seq (Lit ''['') (Seq (Cap 1 (Run jail_byte 1 None)) (Seq (Lit '']'') (Seq Spaces r)))"
    by (simp add: reF2B_def)
  have st: "stuck_in (Seq (Lit '']'') (Seq Spaces r)) jail_byte"
    by (intro stuck_Seq stuck_Lit) (simp_all add: not_digit_jail)
  have z: "matches (Seq (Lit '']'') (Seq Spaces r)) ('']'' @ c # s) = []"
    using assms(2) by simp
  have "matches (Seq (Cap 1 (Run jail_byte 1 None)) (Seq (Lit '']'') (Seq Spaces r))) (pid @ '']'' @ c # s) = []"
    using matches_cap_token [OF _ _ _ st, of pid 1 "'']'' @ c # s" 1] z assms(1) not_digit_jail
    by (simp add: jail_name_def Suc_le_eq del: matches.simps)
  then show ?thesis
    unfolding re match_start_None_iff matches_Seq_Lit by simp
qed

lemma search_f2b:
  assumes "\<forall>c\<in>set lead. c \<noteq> CHR ''[''" "jail_name pid" "mid \<noteq> []" "\<forall>c\<in>set mid. c \<noteq> CHR ''[''" "\<not> re_space (hd mid)"
    "match_start reF2B (''['' @ s) = Some m" "CHR ''['' \<notin> set pid"
  shows "search no_assertion reF2B None (lead @ ''['' @ pid @ '']'' @ mid @ ''['' @ s) = Some m"
proof -
  obtain c mid' where mid: "mid = c # mid'" "\<not> re_space c" using assms(3,5) by (cases mid) auto
  have n: "match_start reF2B (CHR ''['' # pid @ '']'' @ mid @ ''['' @ s) = None"
    using pid_none [OF assms(2) mid(2), of "mid' @ ''['' @ s"] by (simp add: mid)
  have "search no_assertion reF2B None (lead @ ''['' @ pid @ '']'' @ mid @ ''['' @ s)
      = search no_assertion reF2B (last_byte None lead) (CHR ''['' # pid @ '']'' @ mid @ ''['' @ s)"
    using search_no_bracket [OF assms(1)] by simp
  also have "\<dots> = search no_assertion reF2B (Some (CHR ''['')) ((pid @ '']'' @ mid) @ ''['' @ s)"
    using n by simp
  also have "\<dots> = search no_assertion reF2B (last_byte (Some (CHR ''['')) (pid @ '']'' @ mid)) (''['' @ s)"
    by (rule search_no_bracket) (use assms(4,7) in auto)
  also have "\<dots> = Some m" using search_here assms(6) by simp
  finally show ?thesis .
qed

lemma jail_no_bracket: "jail_name j \<Longrightarrow> CHR ''['' \<notin> set j"
  by (auto simp: jail_name_def jail_byte_def word_byte_def is_digit_def bval_def)

lemma action_norm:
  "to_lower (if restorePrefix < length (action_text a) \<and> take restorePrefix (action_text a) = ''Restore ''
     then drop restorePrefix (action_text a) else action_text a) = action_type a"
  by (cases a; hypsubst; code_simp)

lemma ParseIP_nonempty: "ParseIP (Uint32ToIPv4 v) \<noteq> []"
  by (simp add: Uint32ToIPv4_def ParseIP_dotted)

end
