(* ===== verification/PropIngest.thy ===== *)
theory PropIngest
  imports Fw Ssh F2b "HOL-Library.Multiset"
begin

text \<open>
  Properties of the event layer and of the log ingestion: channels, conversions, restarts, firewall,
  SSH and fail2ban lines.
\<close>

subsection \<open>Events\<close>

text \<open>C9: The drain delivers exactly what was in the seven channels: every event once, those of a
  channel in the order they were sent, and nothing is left in transit when it returns.\<close>

theorem drain_exactly_once:
  "let got = fst (Drain cs) in
     resources_of got = ch_buf (c_resource cs) \<and> conns_of got = ch_buf (c_conn cs) \<and>
     sshs_of got = ch_buf (c_ssh cs) \<and> fws_of got = ch_buf (c_fw cs) \<and> bans_of got = ch_buf (c_f2b cs) \<and>
     creds_of got = ch_buf (c_cred cs) \<and> systems_of got = ch_buf (c_system cs) \<and>
     in_transit (snd (Drain cs)) = 0"
  using Drain_accounts [of cs "fst (Drain cs)" "snd (Drain cs)"]
  by (auto simp: accounts_def in_transit_def)

text \<open>A timestamp text is accepted when it is a nonempty string of digits; below 2^63 its seconds
  are exact. Longer digit strings are accepted too, and their value has wrapped around.\<close>

theorem micros_to_unix:
  "snd (MicrosToUnix s) = all_digits s \<and>
   (all_digits s \<and> digits_val s < 2 ^ 63 \<longrightarrow> fst (MicrosToUnix s) = int (digits_val s) div 1000000) \<and>
   MicrosToUnix ''9223372036854775808'' = (- 9223372036854, True)"
proof (intro conjI impI)
  show "MicrosToUnix ''9223372036854775808'' = (- 9223372036854, True)"
    by (simp add: MicrosToUnix_def is_digit_def bval_def quot_trunc_def)
qed (simp_all add: MicrosToUnix_ok MicrosToUnix_digits)

theorem micros_to_unix_witness:
  "MicrosToUnix ''1690000000123456'' = (1690000000, True)"
proof -
  have "all_digits ''1690000000123456'' \<and> digits_val ''1690000000123456'' = 1690000000123456"
    by (simp add: all_digits_def is_digit_def bval_def digits_val_def)
  then show ?thesis
    using micros_to_unix [of "''1690000000123456''"] by (auto simp: prod_eq_iff)
qed

text \<open>A 32-bit address survives printing and both parsers that read it back: the one of the
  network package used for SSH and fail2ban lines, and the firewall's own.\<close>

theorem address_roundtrip:
  "IPv4ToUint32 (ParseIP (Uint32ToIPv4 v)) = v \<and> ipToUint32 (Uint32ToIPv4 v) = v"
  by (simp add: ipv4_roundtrip_word ipToUint32_dotted)

subsection \<open>Restarts\<close>

text \<open>The pauses of the restart loop double from two seconds to a minute and stay there, its
  reports are at least a minute apart, and the first failure is reported.\<close>

theorem restart_schedule:
  "(\<exists>n \<le> length rs. pauses (fst (RunRestarted nam rs)) = map (\<lambda>i. min (2 * second * 2 ^ i) minute) [0..<n]) \<and>
   sorted_wrt (\<lambda>a b. minute \<le> b - a) (report_times (fst (RunRestarted nam rs))) \<and>
   (rs \<noteq> [] \<and> \<not> cancelled (rd_child (hd rs)) \<longrightarrow>
      hd (report_times (fst (RunRestarted nam rs))) = rd_now (hd rs))"
proof (intro conjI impI)
  let ?s = "\<lparr>rt_backoff = restartBaseBackoff, rt_last = None, rt_first = True\<rparr>"
  show "\<exists>n \<le> length rs. pauses (fst (RunRestarted nam rs)) = map (\<lambda>i. min (2 * second * 2 ^ i) minute) [0..<n]"
    using restart_pauses [of ?s 0 rs nam]
    by (simp add: RunRestarted_def restartBaseBackoff_def restartMaxBackoff_def)
  show "sorted_wrt (\<lambda>a b. minute \<le> b - a) (report_times (fst (RunRestarted nam rs)))"
    using restart_reports [of ?s nam rs] by (simp add: RunRestarted_def spaced_after_def restartInterval_def)
  assume "rs \<noteq> [] \<and> \<not> cancelled (rd_child (hd rs))"
  then show "hd (report_times (fst (RunRestarted nam rs))) = rd_now (hd rs)"
    by (cases rs) (auto simp: RunRestarted_def Let_def case_prod_beta due_def)
qed

definition dead_child :: child where
  "dead_child = \<lparr>pipe_err = None, start_err = None, stdout = ''x'' @ [LF], wait_err = ''killed'', cancelled = False\<rparr>"

theorem restart_schedule_witness:
  "hd (report_times (fst (RunRestarted ''tail'' [\<lparr>rd_child = dead_child, rd_now = 5, rd_done = False\<rparr>]))) = 5"
  using restart_schedule [of "[\<lparr>rd_child = dead_child, rd_now = 5, rd_done = False\<rparr>]" "''tail''"]
  by (simp add: dead_child_def)

text \<open>The lines given to the callback are the lines of the stream, without their line ends, up to
  the first one that does not fit the buffer; that one ends the run with an error.\<close>

theorem stream_lines:
  assumes "\<forall>l\<in>set ls. LF \<notin> set l \<and> length l < 1048576" "LF \<notin> set big" "1048576 \<le> length big"
  shows "scan_lines maxLineSize (concat (map (\<lambda>l. l @ [LF]) ls)) = (map dropCR ls, False) \<and>
    scan_lines maxLineSize (concat (map (\<lambda>l. l @ [LF]) ls) @ big @ s) = (map dropCR ls, True)"
proof -
  have m: "maxLineSize = 1048576" by (simp add: maxLineSize_def)
  have "scan_lines maxLineSize (concat (map (\<lambda>l. l @ [LF]) ls)) = (map dropCR ls, False)"
    using scan_lines_map [of ls 1048576 "[]"] assms(1) by (simp add: m scan_lines.simps [of _ "[]"])
  moreover have "scan_lines maxLineSize (concat (map (\<lambda>l. l @ [LF]) ls) @ big @ s) = (map dropCR ls, True)"
    using scan_lines_map [of ls 1048576 "big @ s"] scan_lines_toolong [of big 1048576 s] assms by (simp add: m)
  ultimately show ?thesis by blast
qed

theorem stream_lines_witness:
  "scan_lines maxLineSize (''ab'' @ [CR, LF] @ ''c'' @ [LF]) = ([''ab'', ''c''], False)"
  using stream_lines [of "[''ab'' @ [CR], ''c'']" "replicate 1048576 (CHR ''x'')"]
  by (simp add: dropCR_def)

subsection \<open>Firewall lines\<close>

text \<open>The keys and values of a packet: addresses and protocol, and the ports where the protocol has them.\<close>

fun port_kvs :: "(nat \<times> nat) option \<Rightarrow> (bytes \<times> bytes) list" where
  "port_kvs None = []"
| "port_kvs (Some (sp, dp)) = [(''SPT'', show_nat sp), (''DPT'', show_nat dp)]"

definition packet_kvs :: "u32 \<Rightarrow> u32 \<Rightarrow> bytes \<Rightarrow> (nat \<times> nat) option \<Rightarrow> (bytes \<times> bytes) list" where
  "packet_kvs src dst proto ports =
    (''SRC'', Uint32ToIPv4 src) # (''DST'', Uint32ToIPv4 dst) # (''PROTO'', proto) # port_kvs ports"

lemma kv_update_commute:
  assumes "k \<in> set fw_key_names" "k' \<in> set fw_key_names" "k \<noteq> k'"
  shows "kv_update k v (kv_update k' v' e) = kv_update k' v' (kv_update k v e)"
proof -
  have "k \<in> {''SRC'', ''DST'', ''PROTO'', ''SPT'', ''DPT''}" "k' \<in> {''SRC'', ''DST'', ''PROTO'', ''SPT'', ''DPT''}"
    using assms(1,2) by (simp_all add: fw_key_names_def)
  then show ?thesis
    using assms(3) by (elim insertE emptyE) (simp_all add: kv_update_def split: option.split)
qed

lemma packet_kvs_order:
  assumes "mset kvs = mset (packet_kvs src dst proto ports)"
  shows "fold (\<lambda>(k, v). kv_update k v) kvs = fold (\<lambda>(k, v). kv_update k v) (packet_kvs src dst proto ports)"
proof (rule fold_multiset_equiv [OF _ assms])
  fix x y assume "x \<in> set kvs" "y \<in> set kvs"
  moreover have "set kvs = set (packet_kvs src dst proto ports)" using assms by (rule mset_eq_setD)
  ultimately have m: "x \<in> set (packet_kvs src dst proto ports)" "y \<in> set (packet_kvs src dst proto ports)" by simp_all
  then have k: "fst x \<in> set fw_key_names" "fst y \<in> set fw_key_names" "fst x = fst y \<Longrightarrow> x = y"
    by (cases ports; auto simp: packet_kvs_def fw_key_names_def)+
  show "(\<lambda>(k, v). kv_update k v) x \<circ> (\<lambda>(k, v). kv_update k v) y =
      (\<lambda>(k, v). kv_update k v) y \<circ> (\<lambda>(k, v). kv_update k v) x"
  proof (cases "fst x = fst y")
    case False
    then show ?thesis using kv_update_commute [OF k(1,2)] by (simp add: fun_eq_iff case_prod_beta)
  qed (simp add: k(3))
qed

text \<open>C21: A kernel log line that starts with the prefix, a chain and an action, and carries the source, the
  destination, the protocol and, where the protocol has them, both ports, once each, in any order and
  among any other words, is parsed into exactly those fields, the ports being 0 when they are absent.
  What is kept as the raw line are its first 512 runes.\<close>

theorem fw_line_parsed:
  assumes "plain (chain @ '':'' @ action)" "quiet (prefix @ chain @ '':'' @ action)"
    "CHR '':'' \<notin> set chain" "CHR '':'' \<notin> set action" "\<forall>w\<in>set ws. word_ok w"
    "mset (word_kvs ws) = mset (packet_kvs src dst proto ports)"
    "protoByName (to_upper proto) = Some pn" "\<forall>(sp, dp)\<in>set_option ports. sp < 2 ^ 16 \<and> dp < 2 ^ 16"
  shows "ParseFWLine (prefix @ chain @ '':'' @ action @ words_text ws) prefix =
    Some \<lparr>fe_ts = 0, fe_chain = chain, fe_action = action, fe_proto = pn, fe_src = src,
      fe_sport = (case ports of None \<Rightarrow> 0 | Some (sp, dp) \<Rightarrow> of_nat sp),
      fe_dst = dst, fe_dport = (case ports of None \<Rightarrow> 0 | Some (sp, dp) \<Rightarrow> of_nat dp),
      fe_raw = Truncate512 (prefix @ chain @ '':'' @ action @ words_text ws)\<rparr>"
proof -
  let ?tag = "chain @ '':'' @ action"
  let ?line = "prefix @ ?tag @ words_text ws"
  have idx: "index_of ?line prefix = Some 0" by (rule index_of_here)
  have "words_text ws = [] \<or> hd (words_text ws) = SP" by (cases ws) auto
  then obtain fs where f: "Fields (trim_space (?tag @ words_text ws)) = ?tag # fs"
    using first_field [OF assms(1)] by blast
  have c: "\<forall>c\<in>set chain. c \<noteq> CHR '':''" "\<forall>c\<in>set action. c \<noteq> CHR '':''"
    using assms(3,4) by auto
  have tag: "split_on (CHR '':'') ?tag = [chain, action]"
    using split_on_stop [OF c(1), of action] split_on_none [OF c(2)] by simp
  have kv: "fold (\<lambda>(k, v). kv_update k v) (fw_kvs ?line) = fold (\<lambda>(k, v). kv_update k v) (packet_kvs src dst proto ports)"
    using fw_kvs_words [OF assms(2,5)] packet_kvs_order [OF assms(6)] by simp
  have "fold (\<lambda>(k, v). kv_update k v) (packet_kvs src dst proto ports) (ev, False) =
      (ev\<lparr>fe_src := src, fe_dst := dst, fe_proto := pn,
        fe_sport := (case ports of None \<Rightarrow> fe_sport ev | Some (sp, dp) \<Rightarrow> of_nat sp),
        fe_dport := (case ports of None \<Rightarrow> fe_dport ev | Some (sp, dp) \<Rightarrow> of_nat dp)\<rparr>, True)" for ev
    using assms(7,8) by (cases ports) (auto simp: packet_kvs_def kv_update_def ipToUint32_dotted atou16_show)
  then show ?thesis
    using f tag kv idx by (simp add: ParseFWLine_def Let_def fw_zero_def split: option.split)
qed

definition sample_words :: "fw_word list" where
  "sample_words = [Other ''IN=eth0'', KV ''DST'' (Uint32ToIPv4 0x05060708), KV ''SRC'' (Uint32ToIPv4 0x01020304), Other ''LEN=40'',
     KV ''PROTO'' ''TCP'', KV ''DPT'' (show_nat 22), KV ''SPT'' (show_nat 1234)]"

lemma not_space_ip: "\<forall>c\<in>set (Uint32ToIPv4 v). not_space c"
  using show_nat_digits digit_not_space by (auto simp: Uint32ToIPv4_def dotted_four not_space_def re_space_def)

lemma not_space_nat: "\<forall>c\<in>set (show_nat n). not_space c"
  using show_nat_digits digit_not_space by blast

lemma sample_words_ok: "\<forall>w\<in>set sample_words. word_ok w"
proof -
  have "quiet ''IN=eth0''" "quiet ''LEN=40''" "\<forall>c\<in>set ''TCP''. not_space c" by code_simp+
  then show ?thesis
    using not_space_ip not_space_nat
    by (simp add: sample_words_def fw_key_names_def) (simp add: Uint32ToIPv4_def dotted_four)
qed

theorem fw_line_parsed_witness:
  "map_option fe_src (ParseFWLine (''SENTRY_FW:'' @ ''input'' @ '':'' @ ''drop'' @ words_text sample_words) ''SENTRY_FW:'')
     = Some 0x01020304"
proof -
  have p: "plain (''input'' @ '':'' @ ''drop'')" "quiet (''SENTRY_FW:'' @ ''input'' @ '':'' @ ''drop'')"
    by (simp_all add: plain_def space_rune_def bval_def quiet_def fw_key_names_def contains_def has_prefix_def
        not_space_def re_space_def)
  have t: "protoByName (to_upper ''TCP'') = Some 6"
    by (simp add: protoByName_def to_upper_ascii is_ascii_def upper_byte_def bval_def ProtoTCP_def)
  have c: "CHR '':'' \<notin> set ''input''" "CHR '':'' \<notin> set ''drop''" by simp_all
  have k: "mset (word_kvs sample_words) = mset (packet_kvs 0x01020304 0x05060708 ''TCP'' (Some (1234, 22)))"
    by (simp only: sample_words_def word_kvs.simps packet_kvs_def port_kvs.simps) simp
  have n: "\<forall>(sp, dp)\<in>set_option (Some (1234, 22)). sp < (2 :: nat) ^ 16 \<and> dp < (2 :: nat) ^ 16" by simp
  show ?thesis
    unfolding fw_line_parsed [OF p c sample_words_ok k t n] by simp
qed

text \<open>C15: An event is dropped exactly when its source is an excluded or learned address, or the
  internal filter is on and its source (or, in the extended mode, its destination) lies in a listed
  network; the zero address of an IPv6 line is never a reason. With no networks configured the listed
  ones are exactly the seven built-in ranges.\<close>

theorem fw_drop_exact:
  "(ShouldDrop st f ev \<longleftrightarrow>
     fe_src ev \<noteq> 0 \<and> (\<exists>n\<in>set (ff_exclude_ips f) \<union> set (dynamic_ips f st). To4 n \<noteq> [] \<and> IPv4ToUint32 n = fe_src ev) \<or>
     ff_exclude_internal f \<and>
       (fe_src ev \<noteq> 0 \<and> IsInternalIPv4 (fe_src ev) (ff_cidrs f) \<or>
        ff_dst_internal f \<and> fe_dst ev \<noteq> 0 \<and> IsInternalIPv4 (fe_dst ev) (ff_cidrs f))) \<and>
   (IsInternalIPv4 ip ns \<longleftrightarrow> (\<exists>n\<in>set ns. net_bits n = 32 \<and>
        unat ip div 2 ^ (32 - net_ones n) = unat (IPv4ToUint32 (net_ip n)) div 2 ^ (32 - net_ones n))) \<and>
   (ParseCIDRs [] = Inr ms \<longrightarrow> IsInternalIPv4 ip ms = builtin_internal ip)"
  using builtin_nets [of ms ip]
  by (auto simp: ShouldDrop_iff IsInternalIPv4_iff in_net_def)

theorem fw_drop_exact_witness:
  "\<exists>ms. ParseCIDRs [] = Inr ms \<and> IsInternalIPv4 0x0A000001 ms \<and> \<not> IsInternalIPv4 0x08080808 ms"
proof -
  obtain ms where m: "ParseCIDRs [] = Inr ms" using default_nets by blast
  have "octet 0 0x0A000001 = 10" "octet 0 0x08080808 = 8" by (simp_all add: octet_def)
  then have "builtin_internal 0x0A000001" "\<not> builtin_internal 0x08080808"
    by (auto simp: builtin_internal_def)
  then show ?thesis
    using fw_drop_exact [of "[]" f ev "0x0A000001" ms ms] fw_drop_exact [of "[]" f ev "0x08080808" ms ms] m by blast
qed

text \<open>After the learner has stored a list, every copy of the filter that shares its slot drops
  all events from the learned addresses, and the rest of the filter decides the others as before.\<close>

theorem learned_dropped:
  assumes "ff_dynamic (le_filter l) = Some a" "a < length (le_slots l)" "ff_dynamic copy = Some a"
    "l' = learn now days (Inr ips) l" "fe_src ev \<noteq> 0"
  shows "ShouldDrop (le_slots l') copy ev \<longleftrightarrow> fe_src ev \<in> set ips \<or> ShouldDrop [] copy ev"
proof -
  have b: "byte_at n v < 256" for n v by (rule order_le_less_trans [OF byte_at_le]) simp
  have q: "To4 (ipv4ToNetIP v) = ipv4ToNetIP v" "ipv4ToNetIP v \<noteq> []" "IPv4ToUint32 (ipv4ToNetIP v) = v" for v
    using word_of_bytes [of v] by (simp_all add: ipv4ToNetIP_def To4_def IPv4ToUint32_def b)
  have mem: "(\<exists>n\<in>A \<union> ipv4ToNetIP ` set ips. To4 n \<noteq> [] \<and> IPv4ToUint32 n = s)
      \<longleftrightarrow> (\<exists>n\<in>A. To4 n \<noteq> [] \<and> IPv4ToUint32 n = s) \<or> s \<in> set ips" for A s
    unfolding bex_Un by (simp add: q image_iff)
  have "le_slots l' = (le_slots l)[a := Some (map ipv4ToNetIP ips)]"
    using assms(1,4) by (simp add: learn_def SetDynamicExcludeIPs_def)
  then have d: "dynamic_ips copy (le_slots l') = map ipv4ToNetIP ips" "dynamic_ips copy [] = []"
    using assms(2,3) by (simp_all add: dynamic_ips_def)
  show ?thesis
    unfolding ShouldDrop_iff d set_map mem using assms(5) by auto
qed

theorem learned_dropped_witness:
  "\<exists>l' copy. l' = learn 0 30 (Inr [0x01020304])
       \<lparr>le_filter = copy, le_slots = [Some []], le_rep = NewRateLimiter minute, le_sys = None\<rparr> \<and>
     ShouldDrop (le_slots l') copy (fw_zero\<lparr>fe_src := 0x01020304\<rparr>)"
proof -
  define copy where "copy = \<lparr>ff_exclude_internal = False, ff_dst_internal = False, ff_cidrs = [],
    ff_exclude_ips = [], ff_dynamic = Some 0\<rparr>"
  show ?thesis
    using learned_dropped [of "\<lparr>le_filter = copy, le_slots = [Some []], le_rep = NewRateLimiter minute, le_sys = None\<rparr>"
        0 copy _ 0 30 "[0x01020304]" "fw_zero\<lparr>fe_src := 0x01020304\<rparr>"]
    by (auto simp: copy_def intro!: exI [of _ copy])
qed

text \<open>C19: The kernel buffer is not replayed: of the records read after the buffer was drained, exactly
  those with a sequence number above the last one drained reach the callback, once, in order, as their
  message text.\<close>

theorem kmsg_no_replay:
  assumes "\<forall>(pri, n, rest, msg)\<in>set old \<union> set live. record_ok pri n rest msg"
    "read_recs reads = map (\<lambda>(pri, n, rest, msg). kmsg_record pri n rest msg) live"
    "\<forall>r\<in>set reads. \<forall>e. r \<noteq> Failed e"
  shows "kmsgReadLoop None [] (map (\<lambda>(pri, n, rest, msg). Rec (kmsg_record pri n rest msg)) old @ Again # reads)
      (replicate (length reads) False)
    = (map (\<lambda>(pri, n, rest, msg). msg)
         (filter (\<lambda>(pri, n, rest, msg). (if old = [] then 0 else fst (snd (last old))) < n) live), None)"
proof -
  let ?rec = "\<lambda>(pri, n, rest, msg). kmsg_record pri n rest msg"
  let ?m = "if old = [] then 0 else fst (snd (last old))"
  have old: "map (\<lambda>(pri, n, rest, msg). Rec (kmsg_record pri n rest msg)) old = map Rec (map ?rec old)"
    by auto
  have seq: "kmsgSeq (?rec x) = Some (of_nat (fst (snd x)))" if "x \<in> set old \<union> set live" for x
    using bspec [OF assms(1) that] kmsgSeq_record by (cases x rule: prod_cases4) auto
  have q: "last_seq 0 (map ?rec old) = of_nat ?m"
    using seq by (cases old rule: rev_cases) (auto simp: last_seq_def)
  have small: "n < 2 ^ 64" if "(pri, n, rest, msg) \<in> set old \<union> set live" for pri n rest msg
    using bspec [OF assms(1) that] by (simp add: record_ok_def)
  have m: "?m < 2 ^ 64"
    using small [of "fst (last old)" "fst (snd (last old))" "fst (snd (snd (last old)))" "snd (snd (snd (last old)))"] by simp
  have less: "(of_nat ?m :: u64) < of_nat n \<longleftrightarrow> ?m < n" if "(pri, n, rest, msg) \<in> set live" for pri n rest msg
    using m small [of pri n rest msg] that by (simp add: word_less_nat_alt unsigned_of_nat take_bit_nat_eq_self)
  have f: "filter (\<lambda>b. case kmsgSeq b of Some s \<Rightarrow> of_nat ?m < s | None \<Rightarrow> True) (map ?rec live)
      = map ?rec (filter (\<lambda>(pri, n, rest, msg). ?m < n) live)"
    unfolding filter_map using seq less by (intro arg_cong [where f = "map ?rec"] filter_cong) auto
  have l: "map kmsg_line (map ?rec (filter P live)) = map (\<lambda>(pri, n, rest, msg). msg) (filter P live)" for P
    using assms(1) kmsg_line_record by fastforce
  show ?thesis
    unfolding kmsgReadLoop_def old kmsg_drain_recs option.case drained.case kmsg_live_recs [OF assms(3)] assms(2) q f l ..
qed

theorem kmsg_no_replay_witness:
  "kmsgReadLoop None [] [Rec (kmsg_record ''6'' 7 ''1,-'' ''old''), Again, Rec (kmsg_record ''6'' 7 ''1,-'' ''dup''),
     Rec (kmsg_record ''6'' 8 ''2,-'' ''new'')] [False, False] = ([''new''], None)"
proof -
  have "record_ok ''6'' n t m" if "n < 10" "t = ''1,-'' \<or> t = ''2,-''" "m = ''old'' \<or> m = ''dup'' \<or> m = ''new''" for n t m
    using that by (auto simp: record_ok_def)
  then show ?thesis
    using kmsg_no_replay [of "[(''6'', 7, ''1,-'', ''old'')]" "[(''6'', 7, ''1,-'', ''dup''), (''6'', 8, ''2,-'', ''new'')]"
        "[Rec (kmsg_record ''6'' 7 ''1,-'' ''dup''), Rec (kmsg_record ''6'' 8 ''2,-'' ''new'')]"]
    by (simp add: numeral_2_eq_2)
qed

subsection \<open>SSH lines\<close>

text \<open>C20: Every message form the patterns are written for, with a user and an address free of blanks and
  with or without the syslog header, is parsed into the user, the address, the method, the result and
  the fingerprint it carries; the form without a user, which sshd prints when too many attempts were
  made before a user is known, gives the empty user.\<close>

theorem ssh_line_parsed:
  assumes "header_ok hdr" "word u" "word i" "all_digits p" "msg_words m" "tail_ok m t"
  shows "ParseSSHLine (hdr @ ssh_text m u i p @ t) ts =
    Some \<lparr>sa_ts = ts, sa_src = (if ParseIP i = [] then 0 else IPv4ToUint32 (ParseIP i)),
      sa_user = Truncate512 (msg_user m u),
      sa_method = msg_method m, sa_result = msg_result m, sa_fingerprint = msg_fingerprint m,
      sa_detail = Truncate512 (hdr @ ssh_text m u i p @ t)\<rparr>"
proof -
  have "first_pattern sshPatterns (stripPrefix (hdr @ ssh_text m u i p @ t))
      = Some (sshPatterns ! msg_pattern m, msg_caps m u i p)"
    unfolding strip_any [OF assms(1)] by (rule first_pattern_text [OF assms(2-6)])
  then show ?thesis
    unfolding ParseSSHLine_def
    by (cases m) (simp_all add: ssh_attempt_of_def sshPatterns_def ssh_pat_def msg_caps_def group_def Let_def)
qed

theorem ssh_line_parsed_witness:
  "map_option sa_user (ParseSSHLine (sshd_header ''Aug'' 3 12 30 5 ''vps'' 911 @
     ssh_text FailedInvalid ''admin'' ''1.2.3.4'' ''4711'' @ '' ssh2'') 0) = Some ''admin'' \<and>
   map_option sa_user (ParseSSHLine (''error: maximum authentication attempts exceeded from 1.2.3.4 port 4711 ssh2'') 0) = Some []"
proof -
  have h: "header_ok (sshd_header ''Aug'' 3 12 30 5 ''vps'' 911)" "header_ok []"
    unfolding header_ok_def by (intro disjI2 exI conjI, rule_tac [3] refl) (code_simp, code_simp, simp)
  have w: "word ''admin''" "word ''1.2.3.4''" "all_digits ''4711''" "tail_ok FailedInvalid '' ssh2''"
    "Truncate512 ''admin'' = ''admin''" "tail_ok MaxAttemptsNoUser '' ssh2''" "Truncate512 [] = []"
    by code_simp+
  show ?thesis
    using ssh_line_parsed [OF h(1) w(1-3) _ w(4), of 0] ssh_line_parsed [OF h(2) w(1-3) _ w(6), of 0] w(5,7) by simp
qed

text \<open>C34: The source address of an attempt can be forged: a user name that contains a blank, the word
  from, an address and a port makes the attempt carry that address, whatever the real one is.\<close>

theorem ssh_source_forged:
  assumes "word u" "word forged" "all_digits fp"
  shows "map_option sa_src
      (ParseSSHLine (''Failed password for invalid user '' @ (u @ '' from '' @ forged @ '' port '' @ fp) @ '' from '' @ real_ip @ tail) ts)
    = Some (if ParseIP forged = [] then 0 else IPv4ToUint32 (ParseIP forged))"
proof -
  have "first_pattern sshPatterns (stripPrefix (ssh_text FailedInvalid u forged fp @ '' from '' @ real_ip @ tail))
      = Some (sshPatterns ! 0, msg_caps FailedInvalid u forged fp)"
    using strip_any [of "[]" FailedInvalid u forged fp] first_pattern_text [OF assms, of FailedInvalid]
    by (simp add: header_ok_def)
  then show ?thesis
    by (simp add: ParseSSHLine_def ssh_attempt_of_def sshPatterns_def ssh_pat_def msg_caps_def group_def Let_def)
qed

theorem ssh_source_forged_witness:
  "map_option sa_src (ParseSSHLine ''Failed password for invalid user x from 8.8.8.8 port 1 from 1.2.3.4 port 22 ssh2'' 0)
     = Some 0x08080808"
proof -
  have w: "word ''x''" "word ''8.8.8.8''" "all_digits ''1''" by code_simp+
  have i: "ParseIP ''8.8.8.8'' = v4_in_v6_prefix @ map mkbyte [8, 8, 8, 8]"
  proof -
    have "dotted [8, 8, 8, 8] = ''8.8.8.8''" by code_simp
    then show ?thesis using ParseIP_dotted [of 8 8 8 8] by simp
  qed
  have v: "IPv4ToUint32 (ParseIP ''8.8.8.8'') = 0x08080808" "ParseIP ''8.8.8.8'' \<noteq> []"
    unfolding i by (simp_all add: IPv4ToUint32_def)
  show ?thesis using ssh_source_forged [OF w, of "''1.2.3.4''" "'' port 22 ssh2''" 0] v by simp
qed

subsection \<open>fail2ban\<close>

text \<open>A fail2ban line with a process id, a jail, an action and an address yields the ban event of
  that jail and address; a restored ban counts as a ban.\<close>

theorem f2b_line_parsed:
  assumes "CHR ''['' \<notin> set lead" "jail_name pid" "mid \<noteq> []" "CHR ''['' \<notin> set mid" "\<not> re_space (hd mid)"
    "jail_name jail" "blanks b1" "blanks b2" "t = [] \<or> \<not> is_digit (hd t)"
  shows "ParseF2BLine (lead @ ''['' @ pid @ '']'' @ mid @ ''['' @ jail @ '']'' @ b1 @ action_text a @ b2 @ Uint32ToIPv4 v @ t) ts
    = Some \<lparr>be_ts = ts, be_ip = v, be_type = action_type a, be_jail = jail\<rparr>"
proof -
  have n: "\<forall>c\<in>set lead. c \<noteq> CHR ''[''" "\<forall>c\<in>set mid. c \<noteq> CHR ''[''" using assms(1,4) by auto
  have "search no_assertion reF2B None (lead @ ''['' @ pid @ '']'' @ mid @ ''['' @
      (jail @ '']'' @ b1 @ action_text a @ b2 @ Uint32ToIPv4 v @ t))
    = Some ([(1, jail), (2, action_text a), (3, Uint32ToIPv4 v)], t)"
    using search_f2b [OF n(1) assms(2,3) n(2) assms(5)] reF2B_match [OF assms(6-9)] jail_no_bracket [OF assms(2)]
    by blast
  then show ?thesis
    using action_norm [of a] ParseIP_nonempty [of v] ipv4_roundtrip_word [of v]
    by (auto simp: ParseF2BLine_def group_def Let_def split: if_splits)
qed

theorem f2b_line_parsed_witness:
  "ParseF2BLine (''2023-01-01 00:00:00,123 fail2ban.actions '' @ ''['' @ ''2912'' @ '']'' @ '': NOTICE  '' @ ''['' @ ''sshd'' @ '']''
       @ '' '' @ ''Restore Ban'' @ '' '' @ Uint32ToIPv4 0x01020304 @ []) 9
     = Some \<lparr>be_ts = 9, be_ip = 0x01020304, be_type = ''ban'', be_jail = ''sshd''\<rparr>"
proof -
  have w: "jail_name ''2912''" "jail_name ''sshd''" "blanks '' ''" "\<not> re_space (hd '': NOTICE  '')" by code_simp+
  show ?thesis
    using f2b_line_parsed [OF _ w(1) _ _ w(4,2,3,3), where lead = "''2023-01-01 00:00:00,123 fail2ban.actions ''" and t = "[]"
        and a = RestoreBan and v = "0x01020304" and ts = 9]
    by simp
qed

text \<open>C29: With the standard tables the query returns the addresses of the IPv4 rows whose ban is
  permanent, of unknown extent or not over; the refresh publishes them sorted and keeps the old list
  when the query fails.\<close>

theorem banned_exact:
  assumes "fd_open db = None" "fd_exists db ''bips'' = Inr True" "fd_columns db ''bips'' = Inr cols"
    "{''ip'', ''timeofban'', ''bantime''} \<subseteq> set cols" "fd_query db ''bips'' = None" "fd_rows_err db = None"
    "\<forall>r\<in>set (fd_bips db). bp_ip r \<noteq> None"
  shows "\<exists>ips. QueryBanned now db = Inr ips \<and>
      set ips = {IPv4ToUint32 (ParseIP s) | s r. r \<in> set (fd_bips db) \<and> bp_ip r = Some s \<and> To4 (ParseIP s) \<noteq> [] \<and>
        (bp_bantime r = Some (- 1) \<or> bp_bantime r = None \<or> bp_timeofban r = None \<or>
         unix now < the (bp_timeofban r) + the (bp_bantime r))} \<and>
      rf_snapshot (refreshBanned now db r0) = Some \<lparr>bs_ts = unix now, bs_ips = sort ips\<rparr> \<and>
      (\<forall>e. QueryBanned now db' = Inl e \<longrightarrow> rf_snapshot (refreshBanned now db' r0) = rf_snapshot r0)"
proof -
  define rows where "rows = remdups (map bp_ip (filter (bipsActive (unix now)) (fd_bips db)))"
  have "None \<notin> set rows" using assms(7) by (auto simp: rows_def)
  then have sc: "scan_rows rows None [] = Inr (map (\<lambda>s. IPv4ToUint32 (ParseIP s)) (filter (\<lambda>s. To4 (ParseIP s) \<noteq> []) (map the rows)))"
    by (intro iffD2 [OF scan_rows_ok]) simp
  have q: "QueryBanned now db = Inr (map (\<lambda>s. IPv4ToUint32 (ParseIP s)) (filter (\<lambda>s. To4 (ParseIP s) \<noteq> []) (map the rows)))"
    using assms(1-6) sc
    by (simp add: QueryBanned_def queryBannedBips_def containsStr_def scanBannedIPs_def rows_def [symmetric])
  have a: "bipsActive (unix now) r \<longleftrightarrow> bp_bantime r = Some (- 1) \<or> bp_bantime r = None \<or> bp_timeofban r = None \<or>
      unix now < the (bp_timeofban r) + the (bp_bantime r)" for r
    by (auto simp: bipsActive_def split: option.splits)
  have st: "set (map the rows) = {s. \<exists>r. r \<in> set (fd_bips db) \<and> bp_ip r = Some s \<and> bipsActive (unix now) r}"
    using assms(7) by (fastforce simp: rows_def image_iff)
  define ips where "ips = map (\<lambda>s. IPv4ToUint32 (ParseIP s)) (filter (\<lambda>s. To4 (ParseIP s) \<noteq> []) (map the rows))"
  have "set ips = (\<lambda>s. IPv4ToUint32 (ParseIP s)) ` {s \<in> set (map the rows). To4 (ParseIP s) \<noteq> []}"
    by (simp add: ips_def)
  also have "\<dots> = {IPv4ToUint32 (ParseIP s) | s r. r \<in> set (fd_bips db) \<and> bp_ip r = Some s \<and> To4 (ParseIP s) \<noteq> [] \<and>
        (bp_bantime r = Some (- 1) \<or> bp_bantime r = None \<or> bp_timeofban r = None \<or>
         unix now < the (bp_timeofban r) + the (bp_bantime r))}"
    unfolding st a by auto
  finally show ?thesis
    using q unfolding ips_def [symmetric]
    by (intro exI [of _ ips]) (simp add: refreshBanned_def Let_def case_prod_beta)
qed

definition sample_db :: f2b_db where
  "sample_db = \<lparr>fd_open = None, fd_exists = (\<lambda>t. Inr True), fd_columns = (\<lambda>t. Inr [''ip'', ''timeofban'', ''bantime'']),
     fd_query = (\<lambda>t. None), fd_bips = [\<lparr>bp_ip = Some (Uint32ToIPv4 1), bp_timeofban = Some 5, bp_bantime = Some (- 1)\<rparr>],
     fd_bans = [], fd_rows_err = None\<rparr>"

theorem banned_exact_witness:
  "\<exists>ips. QueryBanned 0 sample_db = Inr ips \<and> 1 \<in> set ips"
proof -
  have t: "To4 (ParseIP (Uint32ToIPv4 1)) \<noteq> []"
    by (simp add: Uint32ToIPv4_def ParseIP_dotted)
  have i: "IPv4ToUint32 (ParseIP (Uint32ToIPv4 1)) = 1" by (rule ipv4_roundtrip_word)
  have "\<forall>r\<in>set (fd_bips sample_db). bp_ip r \<noteq> None" by (simp add: sample_db_def)
  then obtain ips where q: "QueryBanned 0 sample_db = Inr ips"
    "set ips = {IPv4ToUint32 (ParseIP s) | s r. r \<in> set (fd_bips sample_db) \<and> bp_ip r = Some s \<and> To4 (ParseIP s) \<noteq> [] \<and>
        (bp_bantime r = Some (- 1) \<or> bp_bantime r = None \<or> bp_timeofban r = None \<or>
         unix 0 < the (bp_timeofban r) + the (bp_bantime r))}"
    using banned_exact [of sample_db "[''ip'', ''timeofban'', ''bantime'']" 0 "refresh_start None" sample_db]
    by (auto simp: sample_db_def)
  have "1 \<in> set ips"
    unfolding q(2) using t i by (auto simp: sample_db_def intro!: exI [of _ "Uint32ToIPv4 1"])
  then show ?thesis using q(1) by blast
qed

end
