(* ===== verification/Config.thy ===== *)
theory Config
  imports "HOL-Library.AList" HpServer FwFilter GoJson GoTime
begin

text \<open>
  \<^verbatim>\<open>internal/config/config.go\<close>: the configuration, its defaults, its loading from a JSON text over
  the defaults, and its validation.

  A configuration is a record of one record per section; the map of listen addresses is the list of
  its entries in the order an iteration visits them. An error is its texts, the first one the key.
\<close>

subsection \<open>Sections\<close>

record collect_cfg =
  ResourceIntervalSeconds :: int

record ss_cfg =
  SnapshotIntervalS :: int

record conntrack_cfg =
  BufferSizeKB :: int
  EnableAcct :: bool
  OverrunWarnIntervalS :: int
  FallbackIntervalS :: int
  ct_Mode :: bytes

record ssh_cfg =
  ssh_Source :: bytes

record fw_cfg =
  fw_Source :: bytes
  fw_Prefix :: bytes
  ExcludeInternal :: bool
  InternalCIDRs :: "bytes list"
  FilterDstInternal :: bool
  ExcludeIPs :: "bytes list"
  SSHLearnEnabled :: bool
  SSHLearnWindowDays :: int
  SSHLearnIntervalMin :: int

record f2b_cfg =
  f2b_Enabled :: bool
  f2b_LogPath :: bytes
  f2b_DBPath :: bytes

record db_cfg =
  db_Path :: bytes
  BatchIntervalMS :: int
  BatchSize :: int
  ArchiveDir :: bytes
  RetentionDays :: int
  CredRetentionDays :: int

record archive_cfg =
  MonthlyHour :: bytes
  GzipLevel :: int
  CopyAfterDays :: int

record web_cfg =
  web_Listen :: bytes
  WSOriginAllow :: bytes
  WSMaxConns :: int
  RateLimitRPS :: int
  RateLimitBurst :: int
  HeavyLimitRPS :: int

record disk_cfg =
  WarnPercent :: int
  CriticalPercent :: int
  EmergencyPercent :: int

record geoip_cfg =
  geo_DBPath :: bytes
  AccountID :: bytes
  LicenseKey :: bytes
  UpdateEnabled :: bool
  UpdateHour :: int
  UpdateMinute :: int

record honeypot_cfg =
  hp_Enabled :: bool
  hp_Listen :: "(bytes \<times> bytes) list"

record config =
  cfg_Collect :: collect_cfg
  cfg_SS :: ss_cfg
  cfg_Conntrack :: conntrack_cfg
  cfg_SSH :: ssh_cfg
  cfg_FW :: fw_cfg
  cfg_F2B :: f2b_cfg
  cfg_DB :: db_cfg
  cfg_Archive :: archive_cfg
  cfg_Web :: web_cfg
  cfg_Disk :: disk_cfg
  cfg_GeoIP :: geoip_cfg
  cfg_Honeypot :: honeypot_cfg

definition Defaults :: config where
  "Defaults = \<lparr>
    cfg_Collect = \<lparr>ResourceIntervalSeconds = 5\<rparr>,
    cfg_SS = \<lparr>SnapshotIntervalS = 20\<rparr>,
    cfg_Conntrack = \<lparr>BufferSizeKB = 2048, EnableAcct = True, OverrunWarnIntervalS = 60,
      FallbackIntervalS = 5, ct_Mode = ''auto''\<rparr>,
    cfg_SSH = \<lparr>ssh_Source = ''journald''\<rparr>,
    cfg_FW = \<lparr>fw_Source = ''journald-kernel'', fw_Prefix = ''SENTRY_FW:'', ExcludeInternal = True,
      InternalCIDRs = [], FilterDstInternal = False, ExcludeIPs = [], SSHLearnEnabled = True,
      SSHLearnWindowDays = 30, SSHLearnIntervalMin = 10\<rparr>,
    cfg_F2B = \<lparr>f2b_Enabled = True, f2b_LogPath = ''/var/log/fail2ban.log'',
      f2b_DBPath = ''/var/lib/fail2ban/fail2ban.sqlite3''\<rparr>,
    cfg_DB = \<lparr>db_Path = ''/var/lib/sentry-agent/state.db'', BatchIntervalMS = 1000, BatchSize = 500,
      ArchiveDir = ''/var/lib/sentry-agent/archive'', RetentionDays = 7, CredRetentionDays = 90\<rparr>,
    cfg_Archive = \<lparr>MonthlyHour = ''02:00'', GzipLevel = 6, CopyAfterDays = 60\<rparr>,
    cfg_Web = \<lparr>web_Listen = ''127.0.0.1:8080'', WSOriginAllow = ''http://127.0.0.1:8080'', WSMaxConns = 100,
      RateLimitRPS = 10, RateLimitBurst = 20, HeavyLimitRPS = 1\<rparr>,
    cfg_Disk = \<lparr>WarnPercent = 80, CriticalPercent = 90, EmergencyPercent = 95\<rparr>,
    cfg_GeoIP = \<lparr>geo_DBPath = ''/var/lib/sentry-agent/GeoLite2-Country.mmdb'', AccountID = [], LicenseKey = [],
      UpdateEnabled = True, UpdateHour = 2, UpdateMinute = 30\<rparr>,
    cfg_Honeypot = \<lparr>hp_Enabled = False, hp_Listen = DefaultListen\<rparr>\<rparr>"

subsection \<open>Validation\<close>

type_synonym failure = "bytes list option"

text \<open>The loop over the runes of the hour, and of the minute.\<close>

definition hm_number :: "bytes \<Rightarrow> nat option" where
  "hm_number t = fold (\<lambda>r v. if r < 48 \<or> 57 < r then None else map_option (\<lambda>n. n * 10 + (r - 48)) v) (runes t) (Some 0)"

definition ParseHourMinute :: "bytes \<Rightarrow> (nat \<times> nat) option" where
  "ParseHourMinute s =
    (if length s \<noteq> 5 \<or> s ! 2 \<noteq> CHR '':'' then None
     else case hm_number (take 2 s) of None \<Rightarrow> None
     | Some h \<Rightarrow>
       (case hm_number (drop 3 s) of None \<Rightarrow> None
        | Some m \<Rightarrow> if 23 < h \<or> 59 < m then None else Some (h, m)))"

definition validateCollect :: "config \<Rightarrow> failure" where
  "validateCollect c =
    (if ResourceIntervalSeconds (cfg_Collect c) < 5
     then Some [''collect.resource_interval_seconds'', show_int (ResourceIntervalSeconds (cfg_Collect c))] else None)"

definition validateSS :: "config \<Rightarrow> failure" where
  "validateSS c =
    (if SnapshotIntervalS (cfg_SS c) < 5 then Some [''ss.snapshot_interval_s'', show_int (SnapshotIntervalS (cfg_SS c))] else None)"

definition validateConntrack :: "config \<Rightarrow> failure" where
  "validateConntrack c =
    (let t = cfg_Conntrack c in
     if BufferSizeKB t < 1 \<or> 8192 < BufferSizeKB t then Some [''conntrack.buffer_size_kb'', show_int (BufferSizeKB t)]
     else if OverrunWarnIntervalS t < 5 then Some [''conntrack.overrun_warn_interval_s'', show_int (OverrunWarnIntervalS t)]
     else if FallbackIntervalS t < 5 then Some [''conntrack.fallback_interval_s'', show_int (FallbackIntervalS t)]
     else if ct_Mode t \<noteq> ''auto'' \<and> ct_Mode t \<noteq> ''fallback'' then Some [''conntrack.mode'', ct_Mode t]
     else None)"

definition validateSSH :: "config \<Rightarrow> failure" where
  "validateSSH c =
    (if ssh_Source (cfg_SSH c) \<noteq> ''journald'' \<and> ssh_Source (cfg_SSH c) \<noteq> ''rsyslog''
     then Some [''ssh.source'', ssh_Source (cfg_SSH c)] else None)"

fun first_failure :: "('a \<Rightarrow> failure) \<Rightarrow> 'a list \<Rightarrow> failure" where
  "first_failure f [] = None"
| "first_failure f (x # xs) = (case f x of Some e \<Rightarrow> Some e | None \<Rightarrow> first_failure f xs)"

definition check_cidr :: "bytes \<Rightarrow> failure" where
  "check_cidr cidr =
    (case ParseCIDR cidr of None \<Rightarrow> Some [''fw.internal_cidrs'', cidr]
     | Some n \<Rightarrow> if net_bits n \<noteq> 32 then Some [''fw.internal_cidrs'', cidr, ''IPv6''] else None)"

definition check_exclude :: "bytes \<Rightarrow> failure" where
  "check_exclude ip =
    (let parsed = ParseIP ip in if parsed = [] \<or> To4 parsed = [] then Some [''fw.exclude_ips'', ip] else None)"

definition validateFW :: "config \<Rightarrow> failure" where
  "validateFW c =
    (let w = cfg_FW c in
     if fw_Source w \<noteq> ''journald-kernel'' \<and> fw_Source w \<noteq> ''kmsg'' then Some [''fw.source'', fw_Source w]
     else if fw_Prefix w = [] then Some [''fw.prefix'']
     else case first_failure check_cidr (InternalCIDRs w) of Some e \<Rightarrow> Some e
     | None \<Rightarrow>
       (case first_failure check_exclude (ExcludeIPs w) of Some e \<Rightarrow> Some e
        | None \<Rightarrow>
          (if SSHLearnWindowDays w < 1 then Some [''fw.ssh_learn_window_days'', show_int (SSHLearnWindowDays w)]
           else if SSHLearnIntervalMin w < 1 then Some [''fw.ssh_learn_interval_min'', show_int (SSHLearnIntervalMin w)]
           else None)))"

definition validateF2B :: "config \<Rightarrow> failure" where
  "validateF2B c =
    (if f2b_LogPath (cfg_F2B c) = [] \<or> f2b_DBPath (cfg_F2B c) = [] then Some [''f2b.log_path'', ''f2b.db_path''] else None)"

definition validateDB :: "config \<Rightarrow> failure" where
  "validateDB c =
    (let d = cfg_DB c in
     if db_Path d = [] \<or> ArchiveDir d = [] then Some [''db.path'', ''db.archive_dir'']
     else if BatchIntervalMS d < 100 \<or> 60000 < BatchIntervalMS d then Some [''db.batch_interval_ms'', show_int (BatchIntervalMS d)]
     else if BatchSize d < 1 \<or> 100000 < BatchSize d then Some [''db.batch_size'', show_int (BatchSize d)]
     else None)"

definition validateArchive :: "config \<Rightarrow> failure" where
  "validateArchive c =
    (let a = cfg_Archive c in
     if GzipLevel a < 1 \<or> 9 < GzipLevel a then Some [''archive.gzip_level'', show_int (GzipLevel a)]
     else if CopyAfterDays a < 1 then Some [''archive.copy_after_days'', show_int (CopyAfterDays a)]
     else if ParseHourMinute (MonthlyHour a) = None then Some [''archive.monthly_hour'', MonthlyHour a]
     else None)"

definition validateWeb :: "config \<Rightarrow> failure" where
  "validateWeb c =
    (let w = cfg_Web c in
     if web_Listen w = [] then Some [''web.listen'']
     else if WSOriginAllow w = [] then Some [''web.ws_origin_allow'']
     else if \<not> has_prefix (WSOriginAllow w) ''http://'' \<and> \<not> has_prefix (WSOriginAllow w) ''https://''
     then Some [''web.ws_origin_allow'', WSOriginAllow w]
     else if WSMaxConns w < 1 \<or> 10000 < WSMaxConns w then Some [''web.ws_max_conns'', show_int (WSMaxConns w)]
     else if RateLimitRPS w < 1 \<or> 1000 < RateLimitRPS w then Some [''web.rate_limit_rps'', show_int (RateLimitRPS w)]
     else if RateLimitBurst w < 1 \<or> 10000 < RateLimitBurst w then Some [''web.rate_limit_burst'', show_int (RateLimitBurst w)]
     else if HeavyLimitRPS w < 1 \<or> 100 < HeavyLimitRPS w then Some [''web.heavy_limit_rps'', show_int (HeavyLimitRPS w)]
     else None)"

definition validateDisk :: "config \<Rightarrow> failure" where
  "validateDisk c =
    (let d = cfg_Disk c in
     if WarnPercent d < 1 \<or> 100 < WarnPercent d \<or> CriticalPercent d < 1 \<or> 100 < CriticalPercent d \<or>
        EmergencyPercent d < 1 \<or> 100 < EmergencyPercent d then Some [''disk'', ''range'']
     else if CriticalPercent d \<le> WarnPercent d \<or> EmergencyPercent d \<le> CriticalPercent d then Some [''disk'', ''order'']
     else None)"

definition validateGeoIP :: "config \<Rightarrow> failure" where
  "validateGeoIP c =
    (let g = cfg_GeoIP c in
     if geo_DBPath g = [] then Some [''geoip.db_path'']
     else if UpdateHour g < 0 \<or> 23 < UpdateHour g then Some [''geoip.update_hour'', show_int (UpdateHour g)]
     else if UpdateMinute g < 0 \<or> 59 < UpdateMinute g then Some [''geoip.update_minute'', show_int (UpdateMinute g)]
     else None)"

definition check_listen :: "bytes \<times> bytes \<Rightarrow> failure" where
  "check_listen e =
    (let (proto, addr) = e in
     if \<not> IsValidProto proto then Some [''honeypot.listen'', proto]
     else if addr = [] then None
     else case SplitHostPort addr of None \<Rightarrow> Some [''honeypot.listen'', proto, addr]
     | Some (h, portStr) \<Rightarrow>
       (case atoi portStr of None \<Rightarrow> Some [''honeypot.listen'', proto, addr, ''port'']
        | Some p \<Rightarrow> if p < 1 \<or> 65535 < p then Some [''honeypot.listen'', proto, addr, ''port''] else None))"

definition validateHoneypot :: "config \<Rightarrow> failure" where
  "validateHoneypot c =
    (if \<not> hp_Enabled (cfg_Honeypot c) \<and> hp_Listen (cfg_Honeypot c) = [] then None
     else first_failure check_listen (hp_Listen (cfg_Honeypot c)))"

definition validations :: "(config \<Rightarrow> failure) list" where
  "validations = [validateCollect, validateSS, validateConntrack, validateSSH, validateFW, validateF2B, validateDB,
     validateArchive, validateWeb, validateDisk, validateGeoIP, validateHoneypot]"

definition Validate :: "config \<Rightarrow> failure" where
  "Validate c = first_failure (\<lambda>v. v c) validations"

subsection \<open>Loading\<close>

text \<open>
  Decoding a JSON value over an existing one: \<^verbatim>\<open>null\<close> leaves a scalar or a section alone and empties a
  list or a map, a value of another type is an error, unknown keys are ignored.
\<close>

type_synonym 'r decoder = "json \<Rightarrow> 'r \<Rightarrow> 'r option"

definition dec_int :: "(int \<Rightarrow> 'r \<Rightarrow> 'r) \<Rightarrow> 'r decoder" where
  "dec_int upd j r = (case j of JNull \<Rightarrow> Some r | JNum n \<Rightarrow> map_option (\<lambda>i. upd i r) (atoi n) | _ \<Rightarrow> None)"

definition dec_bool :: "(bool \<Rightarrow> 'r \<Rightarrow> 'r) \<Rightarrow> 'r decoder" where
  "dec_bool upd j r = (case j of JNull \<Rightarrow> Some r | JBool b \<Rightarrow> Some (upd b r) | _ \<Rightarrow> None)"

definition dec_str :: "(bytes \<Rightarrow> 'r \<Rightarrow> 'r) \<Rightarrow> 'r decoder" where
  "dec_str upd j r = (case j of JNull \<Rightarrow> Some r | JStr s \<Rightarrow> Some (upd s r) | _ \<Rightarrow> None)"

text \<open>A \<^verbatim>\<open>null\<close> element keeps what a list given before under the same key had there, else it is empty.\<close>

definition dec_elem :: "bytes \<Rightarrow> json \<Rightarrow> bytes option" where
  "dec_elem old j = (case j of JNull \<Rightarrow> Some old | JStr s \<Rightarrow> Some s | _ \<Rightarrow> None)"

definition dec_strs :: "('r \<Rightarrow> bytes list) \<Rightarrow> (bytes list \<Rightarrow> 'r \<Rightarrow> 'r) \<Rightarrow> 'r decoder" where
  "dec_strs get upd j r =
    (case j of JNull \<Rightarrow> Some (upd [] r)
     | JArr vs \<Rightarrow> map_option (\<lambda>ss. upd ss r)
         (those (map2 dec_elem (map (\<lambda>i. if i < length (get r) then get r ! i else []) [0..<length vs]) vs))
     | _ \<Rightarrow> None)"

fun dec_entries :: "(bytes \<times> json) list \<Rightarrow> (bytes \<times> bytes) list \<Rightarrow> (bytes \<times> bytes) list option" where
  "dec_entries [] m = Some m"
| "dec_entries ((k, v) # ms) m = (case dec_elem [] v of None \<Rightarrow> None | Some s \<Rightarrow> dec_entries ms (AList.update k s m))"

definition dec_map :: "('r \<Rightarrow> (bytes \<times> bytes) list) \<Rightarrow> ((bytes \<times> bytes) list \<Rightarrow> 'r \<Rightarrow> 'r) \<Rightarrow> 'r decoder" where
  "dec_map get upd j r =
    (case j of JNull \<Rightarrow> Some (upd [] r) | JObj ms \<Rightarrow> map_option (\<lambda>m. upd m r) (dec_entries ms (get r)) | _ \<Rightarrow> None)"

fun dec_members :: "(bytes \<times> 'r decoder) list \<Rightarrow> (bytes \<times> json) list \<Rightarrow> 'r \<Rightarrow> 'r option" where
  "dec_members fs [] r = Some r"
| "dec_members fs ((k, v) # ms) r =
    (case field_of (map fst fs) k of None \<Rightarrow> dec_members fs ms r
     | Some f \<Rightarrow> (case map_of fs f of None \<Rightarrow> dec_members fs ms r
         | Some d \<Rightarrow> (case d v r of None \<Rightarrow> None | Some r' \<Rightarrow> dec_members fs ms r')))"

definition dec_struct :: "(bytes \<times> 'r decoder) list \<Rightarrow> 'r decoder" where
  "dec_struct fs j r = (case j of JNull \<Rightarrow> Some r | JObj ms \<Rightarrow> dec_members fs ms r | _ \<Rightarrow> None)"

definition dec_section :: "('c \<Rightarrow> 'r) \<Rightarrow> ('r \<Rightarrow> 'c \<Rightarrow> 'c) \<Rightarrow> (bytes \<times> 'r decoder) list \<Rightarrow> 'c decoder" where
  "dec_section get upd fs j c = map_option (\<lambda>r. upd r c) (dec_struct fs j (get c))"

definition collect_fields :: "(bytes \<times> collect_cfg decoder) list" where
  "collect_fields = [(''resource_interval_seconds'', dec_int (\<lambda>v. ResourceIntervalSeconds_update (\<lambda>_. v)))]"

definition ss_fields :: "(bytes \<times> ss_cfg decoder) list" where
  "ss_fields = [(''snapshot_interval_s'', dec_int (\<lambda>v. SnapshotIntervalS_update (\<lambda>_. v)))]"

definition conntrack_fields :: "(bytes \<times> conntrack_cfg decoder) list" where
  "conntrack_fields =
    [(''buffer_size_kb'', dec_int (\<lambda>v. BufferSizeKB_update (\<lambda>_. v))),
     (''enable_acct'', dec_bool (\<lambda>v. EnableAcct_update (\<lambda>_. v))),
     (''overrun_warn_interval_s'', dec_int (\<lambda>v. OverrunWarnIntervalS_update (\<lambda>_. v))),
     (''fallback_interval_s'', dec_int (\<lambda>v. FallbackIntervalS_update (\<lambda>_. v))),
     (''mode'', dec_str (\<lambda>v. ct_Mode_update (\<lambda>_. v)))]"

definition ssh_fields :: "(bytes \<times> ssh_cfg decoder) list" where
  "ssh_fields = [(''source'', dec_str (\<lambda>v. ssh_Source_update (\<lambda>_. v)))]"

definition fw_fields :: "(bytes \<times> fw_cfg decoder) list" where
  "fw_fields =
    [(''source'', dec_str (\<lambda>v. fw_Source_update (\<lambda>_. v))),
     (''prefix'', dec_str (\<lambda>v. fw_Prefix_update (\<lambda>_. v))),
     (''exclude_internal'', dec_bool (\<lambda>v. ExcludeInternal_update (\<lambda>_. v))),
     (''internal_cidrs'', dec_strs InternalCIDRs (\<lambda>v. InternalCIDRs_update (\<lambda>_. v))),
     (''filter_dst_internal'', dec_bool (\<lambda>v. FilterDstInternal_update (\<lambda>_. v))),
     (''exclude_ips'', dec_strs ExcludeIPs (\<lambda>v. ExcludeIPs_update (\<lambda>_. v))),
     (''ssh_learn_enabled'', dec_bool (\<lambda>v. SSHLearnEnabled_update (\<lambda>_. v))),
     (''ssh_learn_window_days'', dec_int (\<lambda>v. SSHLearnWindowDays_update (\<lambda>_. v))),
     (''ssh_learn_interval_min'', dec_int (\<lambda>v. SSHLearnIntervalMin_update (\<lambda>_. v)))]"

definition f2b_fields :: "(bytes \<times> f2b_cfg decoder) list" where
  "f2b_fields =
    [(''enabled'', dec_bool (\<lambda>v. f2b_Enabled_update (\<lambda>_. v))),
     (''log_path'', dec_str (\<lambda>v. f2b_LogPath_update (\<lambda>_. v))),
     (''db_path'', dec_str (\<lambda>v. f2b_DBPath_update (\<lambda>_. v)))]"

definition db_fields :: "(bytes \<times> db_cfg decoder) list" where
  "db_fields =
    [(''path'', dec_str (\<lambda>v. db_Path_update (\<lambda>_. v))),
     (''batch_interval_ms'', dec_int (\<lambda>v. BatchIntervalMS_update (\<lambda>_. v))),
     (''batch_size'', dec_int (\<lambda>v. BatchSize_update (\<lambda>_. v))),
     (''archive_dir'', dec_str (\<lambda>v. ArchiveDir_update (\<lambda>_. v))),
     (''retention_days'', dec_int (\<lambda>v. RetentionDays_update (\<lambda>_. v))),
     (''cred_retention_days'', dec_int (\<lambda>v. CredRetentionDays_update (\<lambda>_. v)))]"

definition archive_fields :: "(bytes \<times> archive_cfg decoder) list" where
  "archive_fields =
    [(''monthly_hour'', dec_str (\<lambda>v. MonthlyHour_update (\<lambda>_. v))),
     (''gzip_level'', dec_int (\<lambda>v. GzipLevel_update (\<lambda>_. v))),
     (''copy_after_days'', dec_int (\<lambda>v. CopyAfterDays_update (\<lambda>_. v)))]"

definition web_fields :: "(bytes \<times> web_cfg decoder) list" where
  "web_fields =
    [(''listen'', dec_str (\<lambda>v. web_Listen_update (\<lambda>_. v))),
     (''ws_origin_allow'', dec_str (\<lambda>v. WSOriginAllow_update (\<lambda>_. v))),
     (''ws_max_conns'', dec_int (\<lambda>v. WSMaxConns_update (\<lambda>_. v))),
     (''rate_limit_rps'', dec_int (\<lambda>v. RateLimitRPS_update (\<lambda>_. v))),
     (''rate_limit_burst'', dec_int (\<lambda>v. RateLimitBurst_update (\<lambda>_. v))),
     (''heavy_limit_rps'', dec_int (\<lambda>v. HeavyLimitRPS_update (\<lambda>_. v)))]"

definition disk_fields :: "(bytes \<times> disk_cfg decoder) list" where
  "disk_fields =
    [(''warn_percent'', dec_int (\<lambda>v. WarnPercent_update (\<lambda>_. v))),
     (''critical_percent'', dec_int (\<lambda>v. CriticalPercent_update (\<lambda>_. v))),
     (''emergency_percent'', dec_int (\<lambda>v. EmergencyPercent_update (\<lambda>_. v)))]"

definition geoip_fields :: "(bytes \<times> geoip_cfg decoder) list" where
  "geoip_fields =
    [(''db_path'', dec_str (\<lambda>v. geo_DBPath_update (\<lambda>_. v))),
     (''account_id'', dec_str (\<lambda>v. AccountID_update (\<lambda>_. v))),
     (''license_key'', dec_str (\<lambda>v. LicenseKey_update (\<lambda>_. v))),
     (''update_enabled'', dec_bool (\<lambda>v. UpdateEnabled_update (\<lambda>_. v))),
     (''update_hour'', dec_int (\<lambda>v. UpdateHour_update (\<lambda>_. v))),
     (''update_minute'', dec_int (\<lambda>v. UpdateMinute_update (\<lambda>_. v)))]"

definition honeypot_fields :: "(bytes \<times> honeypot_cfg decoder) list" where
  "honeypot_fields =
    [(''enabled'', dec_bool (\<lambda>v. hp_Enabled_update (\<lambda>_. v))),
     (''listen'', dec_map hp_Listen (\<lambda>v. hp_Listen_update (\<lambda>_. v)))]"

definition config_fields :: "(bytes \<times> config decoder) list" where
  "config_fields =
    [(''collect'', dec_section cfg_Collect (\<lambda>v. cfg_Collect_update (\<lambda>_. v)) collect_fields),
     (''ss'', dec_section cfg_SS (\<lambda>v. cfg_SS_update (\<lambda>_. v)) ss_fields),
     (''conntrack'', dec_section cfg_Conntrack (\<lambda>v. cfg_Conntrack_update (\<lambda>_. v)) conntrack_fields),
     (''ssh'', dec_section cfg_SSH (\<lambda>v. cfg_SSH_update (\<lambda>_. v)) ssh_fields),
     (''fw'', dec_section cfg_FW (\<lambda>v. cfg_FW_update (\<lambda>_. v)) fw_fields),
     (''f2b'', dec_section cfg_F2B (\<lambda>v. cfg_F2B_update (\<lambda>_. v)) f2b_fields),
     (''db'', dec_section cfg_DB (\<lambda>v. cfg_DB_update (\<lambda>_. v)) db_fields),
     (''archive'', dec_section cfg_Archive (\<lambda>v. cfg_Archive_update (\<lambda>_. v)) archive_fields),
     (''web'', dec_section cfg_Web (\<lambda>v. cfg_Web_update (\<lambda>_. v)) web_fields),
     (''disk'', dec_section cfg_Disk (\<lambda>v. cfg_Disk_update (\<lambda>_. v)) disk_fields),
     (''geoip'', dec_section cfg_GeoIP (\<lambda>v. cfg_GeoIP_update (\<lambda>_. v)) geoip_fields),
     (''honeypot'', dec_section cfg_Honeypot (\<lambda>v. cfg_Honeypot_update (\<lambda>_. v)) honeypot_fields)]"

definition Unmarshal :: "bytes \<Rightarrow> config \<Rightarrow> config option" where
  "Unmarshal data c = (case json_parse data of None \<Rightarrow> None | Some j \<Rightarrow> dec_struct config_fields j c)"

text \<open>The file is its content, or the error of reading it.\<close>

definition Load :: "bytes + bytes \<Rightarrow> bytes list + config" where
  "Load file =
    (case file of Inl e \<Rightarrow> Inl [''config not read'', e]
     | Inr data \<Rightarrow>
       (case Unmarshal data Defaults of None \<Rightarrow> Inl [''config not parsed'']
        | Some cfg \<Rightarrow> (case Validate cfg of Some e \<Rightarrow> Inl e | None \<Rightarrow> Inr cfg)))"

subsection \<open>Times of day\<close>

lemma rune_two: "128 \<le> (x - 0xC0) * 64 + (k :: nat)" if "0xC2 \<le> x"
proof -
  have "2 * 64 \<le> (x - 0xC0) * 64" using that by (intro mult_right_mono) auto
  then show ?thesis by linarith
qed

lemma rune_three: "128 \<le> (x - 0xE0) * 4096 + (y - 128) * 64 + (k :: nat)"
  if "0xE0 \<le> x" "x = 0xE0 \<longrightarrow> 0xA0 \<le> y"
proof (cases "x = 0xE0")
  case True
  then have "32 * 64 \<le> (y - 128) * 64" using that by (intro mult_right_mono) auto
  then show ?thesis by linarith
next
  case False
  then have "1 * 4096 \<le> (x - 0xE0) * 4096" using that by (intro mult_right_mono) auto
  then show ?thesis by linarith
qed

lemma rune_four: "128 \<le> (x - 0xF0) * 262144 + (y - 128) * 4096 + z + (k :: nat)"
  if "0xF0 \<le> x" "x = 0xF0 \<longrightarrow> 0x90 \<le> y"
proof (cases "x = 0xF0")
  case True
  then have "16 * 4096 \<le> (y - 128) * 4096" using that by (intro mult_right_mono) auto
  then show ?thesis by linarith
next
  case False
  then have "1 * 262144 \<le> (x - 0xF0) * 262144" using that by (intro mult_right_mono) auto
  then show ?thesis by linarith
qed

lemma decode_rune_big: "128 \<le> bval c \<Longrightarrow> 128 \<le> fst (decode_rune (c # s))"
  using rune_two [of "bval c"] rune_three [of "bval c"] rune_four [of "bval c"]
  by (simp add: Let_def rune_error_def not_less [symmetric] split: list.split if_split
      del: Nat.add_diff_assoc Nat.add_diff_assoc2)

lemma runes_small: "\<forall>r\<in>set (runes s). r < 128 \<Longrightarrow> is_ascii s"
proof (induction s rule: segs.induct)
  case (1 s)
  show ?case
  proof (cases s)
    case (Cons c t)
    have "fst (decode_rune (take (rune_width s) s)) < 128"
      using "1.prems" Cons by (simp add: runes_def segs_step)
    moreover obtain u where "take (rune_width s) s = c # u"
      using Cons rune_width_pos [of s] by (cases "rune_width s") auto
    ultimately have c: "bval c < 128" using decode_rune_big [of c u] by (metis not_less)
    then have w: "rune_width s = 1" using Cons by (simp add: rune_width_def)
    have "\<forall>r\<in>set (runes (drop (rune_width s) s)). r < 128"
      using "1.prems" segs_step [of s] Cons by (simp add: runes_def)
    then have "is_ascii (drop (rune_width s) s)" using "1.IH" Cons by simp
    then show ?thesis using c Cons w by simp
  qed simp
qed

lemma hm_fold_None: "fold (\<lambda>r v. if r < 48 \<or> 57 < r then None else map_option (\<lambda>n. n * 10 + (r - 48)) v) rs None = None"
  by (induction rs) simp_all

lemma hm_fold:
  "fold (\<lambda>r v. if r < 48 \<or> 57 < r then None else map_option (\<lambda>n. n * 10 + (r - 48)) v) rs (Some a) = Some (n :: nat) \<longleftrightarrow>
    (\<forall>r\<in>set rs. 48 \<le> r \<and> r \<le> 57) \<and> n = foldl (\<lambda>n r. n * 10 + (r - 48)) a rs"
  by (induction rs arbitrary: a) (auto simp: hm_fold_None not_less)

lemma runes_ascii: "is_ascii s \<Longrightarrow> runes s = map bval s"
  by (induction s) (simp_all add: runes_def)

lemma hm_number_Some: "hm_number t = Some n \<longleftrightarrow> (\<forall>c\<in>set t. is_digit c) \<and> n = digits_val t"
proof -
  have f: "foldl (\<lambda>n r. n * 10 + (r - 48)) k (map bval u) = foldl (\<lambda>n c. n * 10 + (bval c - 48)) k u" for k u
    by (induction u arbitrary: k) simp_all
  show ?thesis
  proof (cases "is_ascii t")
    case True
    then show ?thesis unfolding hm_number_def hm_fold by (simp add: runes_ascii is_digit_def digits_val_def f)
  next
    case False
    then obtain r where r: "r \<in> set (runes t)" "128 \<le> r" using runes_small [of t] by (metis not_less)
    then have "\<not> (\<forall>r\<in>set (runes t). 48 \<le> r \<and> r \<le> 57)" by force
    moreover have "\<not> (\<forall>c\<in>set t. is_digit c)" using False by (force simp: is_ascii_def is_digit_def)
    ultimately show ?thesis unfolding hm_number_def hm_fold by blast
  qed
qed

lemma two_digits:
  assumes "is_digit a" "is_digit b"
  shows "[a, b] = dd (digits_val [a, b])" "digits_val [a, b] < 100"
proof -
  obtain x y where x: "bval a = 48 + x" "bval b = 48 + y" "x < 10" "y < 10"
    using assms by (force simp: is_digit_def dest!: le_Suc_ex)
  have "a = mkbyte (48 + x)" "b = mkbyte (48 + y)" using mkbyte_bval [of a] mkbyte_bval [of b] x(1,2) by simp_all
  then show "[a, b] = dd (digits_val [a, b])" "digits_val [a, b] < 100"
    using x by (simp_all add: dd_def digits_val_def)
qed

lemma digits_val_dd: "n < 100 \<Longrightarrow> digits_val (dd n) = n"
  by (simp add: dd_def digits_val_def less_mult_imp_div_less) 

lemma length_five: "length s = 5 \<longleftrightarrow> (\<exists>a b c d e. s = [a, b, c, d, e])"
  by (auto simp: eval_nat_numeral length_Suc_conv)

lemma ParseHourMinute_iff:
  "ParseHourMinute s = Some (h, m) \<longleftrightarrow> h \<le> 23 \<and> m \<le> 59 \<and> s = dd h @ CHR '':'' # dd m"
proof
  assume "ParseHourMinute s = Some (h, m)"
  then have p: "length s = 5" "s ! 2 = CHR '':''" "hm_number (take 2 s) = Some h" "hm_number (drop 3 s) = Some m"
    "h \<le> 23" "m \<le> 59"
    by (auto simp: ParseHourMinute_def split: if_splits option.splits)
  then obtain a b d e where s: "s = [a, b, CHR '':'', d, e]" by (auto simp: length_five)
  show "h \<le> 23 \<and> m \<le> 59 \<and> s = dd h @ CHR '':'' # dd m"
    using p(3-6) two_digits [of a b] two_digits [of d e] unfolding s by (simp add: hm_number_Some)
next
  assume r: "h \<le> 23 \<and> m \<le> 59 \<and> s = dd h @ CHR '':'' # dd m"
  have "hm_number (dd n) = Some n" if "n < 100" for n
    using that is_digit_dd by (auto simp: hm_number_Some digits_val_dd)
  moreover have "length (dd n) = 2" for n by (simp add: dd_def)
  ultimately show "ParseHourMinute s = Some (h, m)"
    using r by (simp add: ParseHourMinute_def nth_append)
qed

subsection \<open>What a valid configuration promises\<close>

lemma first_failure_None: "first_failure f xs = None \<longleftrightarrow> (\<forall>x\<in>set xs. f x = None)"
  by (induction xs) (auto split: option.split)

definition listen_ok :: "bytes \<times> bytes \<Rightarrow> bool" where
  "listen_ok e \<longleftrightarrow> protoHandlers (fst e) \<noteq> None \<and>
     (snd e = [] \<or> (\<exists>h port p. SplitHostPort (snd e) = Some (h, port) \<and> atoi port = Some p \<and> 1 \<le> p \<and> p \<le> 65535))"

definition conntrack_ok :: "conntrack_cfg \<Rightarrow> bool" where
  "conntrack_ok t \<longleftrightarrow> 1024 \<le> BufferSizeKB t * 1024 \<and> BufferSizeKB t * 1024 \<le> 8 * 1024 * 1024 \<and>
     5 \<le> OverrunWarnIntervalS t \<and> 5 \<le> FallbackIntervalS t \<and> ct_Mode t \<in> {''auto'', ''fallback''}"

definition fw_ok :: "fw_cfg \<Rightarrow> bool" where
  "fw_ok w \<longleftrightarrow> fw_Source w \<in> {''journald-kernel'', ''kmsg''} \<and> fw_Prefix w \<noteq> [] \<and>
     (\<exists>ns. ParseCIDRs (InternalCIDRs w) = Inr ns \<and> (\<forall>n\<in>set ns. net_bits n = 32)) \<and>
     (\<exists>ips. ParseExcludeIPs (ExcludeIPs w) = Inr ips \<and> (\<forall>q\<in>set ips. length q = 4)) \<and>
     1 \<le> SSHLearnWindowDays w \<and> 1 \<le> SSHLearnIntervalMin w"

definition db_ok :: "db_cfg \<Rightarrow> bool" where
  "db_ok d \<longleftrightarrow> db_Path d \<noteq> [] \<and> ArchiveDir d \<noteq> [] \<and> 100 \<le> BatchIntervalMS d \<and> BatchIntervalMS d \<le> 60000 \<and>
     1 \<le> BatchSize d \<and> BatchSize d \<le> 100000"

definition archive_ok :: "archive_cfg \<Rightarrow> bool" where
  "archive_ok a \<longleftrightarrow> 1 \<le> GzipLevel a \<and> GzipLevel a \<le> 9 \<and> 1 \<le> CopyAfterDays a \<and>
     (\<exists>h m. h \<le> 23 \<and> m \<le> 59 \<and> MonthlyHour a = dd h @ CHR '':'' # dd m)"

definition web_ok :: "web_cfg \<Rightarrow> bool" where
  "web_ok w \<longleftrightarrow> web_Listen w \<noteq> [] \<and>
     (\<exists>rest. WSOriginAllow w = ''http://'' @ rest \<or> WSOriginAllow w = ''https://'' @ rest) \<and>
     1 \<le> WSMaxConns w \<and> WSMaxConns w \<le> 10000 \<and> 1 \<le> RateLimitRPS w \<and> RateLimitRPS w \<le> 1000 \<and>
     1 \<le> RateLimitBurst w \<and> RateLimitBurst w \<le> 10000 \<and> 1 \<le> HeavyLimitRPS w \<and> HeavyLimitRPS w \<le> 100"

definition disk_ok :: "disk_cfg \<Rightarrow> bool" where
  "disk_ok d \<longleftrightarrow> 1 \<le> WarnPercent d \<and> WarnPercent d < CriticalPercent d \<and>
     CriticalPercent d < EmergencyPercent d \<and> EmergencyPercent d \<le> 100"

definition geoip_ok :: "geoip_cfg \<Rightarrow> bool" where
  "geoip_ok g \<longleftrightarrow> geo_DBPath g \<noteq> [] \<and> 0 \<le> UpdateHour g \<and> UpdateHour g \<le> 23 \<and> 0 \<le> UpdateMinute g \<and> UpdateMinute g \<le> 59"

definition config_ok :: "config \<Rightarrow> bool" where
  "config_ok c \<longleftrightarrow> 5 \<le> ResourceIntervalSeconds (cfg_Collect c) \<and> 5 \<le> SnapshotIntervalS (cfg_SS c) \<and>
     conntrack_ok (cfg_Conntrack c) \<and> ssh_Source (cfg_SSH c) \<in> {''journald'', ''rsyslog''} \<and> fw_ok (cfg_FW c) \<and>
     (f2b_LogPath (cfg_F2B c) \<noteq> [] \<and> f2b_DBPath (cfg_F2B c) \<noteq> []) \<and> db_ok (cfg_DB c) \<and> archive_ok (cfg_Archive c) \<and>
     web_ok (cfg_Web c) \<and> disk_ok (cfg_Disk c) \<and> geoip_ok (cfg_GeoIP c) \<and>
     (\<forall>e\<in>set (hp_Listen (cfg_Honeypot c)). listen_ok e)"

lemma cidrs_ok:
  "first_failure check_cidr ss = None \<longleftrightarrow> (\<exists>ns. ParseCIDRs ss = Inr ns \<and> (\<forall>n\<in>set ns. net_bits n = 32))"
proof (cases "ss = []")
  case True
  then show ?thesis by (auto simp: default_nets)
next
  case False
  have "first_failure check_cidr ss = None \<longleftrightarrow> (\<forall>s\<in>set ss. \<exists>n. ParseCIDR s = Some n \<and> net_bits n = 32)"
    unfolding first_failure_None check_cidr_def by (intro ball_cong refl) (auto split: option.split if_splits)
  also have "\<dots> \<longleftrightarrow> (\<exists>ns. map ParseCIDR ss = map Some ns \<and> (\<forall>n\<in>set ns. net_bits n = 32))"
  proof (induction ss)
    case (Cons s ss)
    show ?case by (auto simp: Cons Cons_eq_map_conv ball_Un)
  qed simp
  finally show ?thesis using False by (simp add: ParseCIDRs_def parse_all_Inr)
qed

lemma excludes_ok:
  "first_failure check_exclude ss = None \<longleftrightarrow> (\<exists>ips. ParseExcludeIPs ss = Inr ips \<and> (\<forall>q\<in>set ips. length q = 4))"
proof -
  have "first_failure check_exclude ss = None \<longleftrightarrow> (\<forall>s\<in>set ss. \<exists>q. parse_exclude_ip s = Some q)"
    unfolding first_failure_None check_exclude_def parse_exclude_ip_def by (intro ball_cong refl) (auto simp: Let_def)
  also have "\<dots> \<longleftrightarrow> (\<exists>ips. map parse_exclude_ip ss = map Some ips)"
    by (induction ss) (auto simp: Cons_eq_map_conv)
  also have "\<dots> \<longleftrightarrow> (\<exists>ips. map parse_exclude_ip ss = map Some ips \<and> (\<forall>q\<in>set ips. length q = 4))"
    using parse_exclude_To4 by (metis (no_types, lifting) image_iff image_set)
  finally show ?thesis by (simp add: ParseExcludeIPs_def parse_all_Inr)
qed

lemma check_listen_ok: "check_listen e = None \<longleftrightarrow> listen_ok e"
proof -
  have "protoHandlers p \<noteq> None \<longleftrightarrow> IsValidProto p" for p
    using dom_protoHandlers by (auto simp: IsValidProto_def)
  then show ?thesis
    by (cases e) (auto simp: check_listen_def listen_ok_def split: option.splits if_splits)
qed

lemma prefix_ex: "has_prefix s p \<longleftrightarrow> (\<exists>rest. s = p @ rest)"
  by (auto simp: has_prefix_def) (metis append_take_drop_id)

lemma validateFW_ok: "validateFW c = None \<longleftrightarrow> fw_ok (cfg_FW c)"
  unfolding fw_ok_def cidrs_ok [symmetric] excludes_ok [symmetric]
  by (auto simp: validateFW_def Let_def not_less split: option.splits)

lemma validateArchive_ok: "validateArchive c = None \<longleftrightarrow> archive_ok (cfg_Archive c)"
  unfolding archive_ok_def ParseHourMinute_iff [symmetric]
  by (auto simp: validateArchive_def Let_def not_less split: option.splits)

lemma validateHoneypot_ok: "validateHoneypot c = None \<longleftrightarrow> (\<forall>e\<in>set (hp_Listen (cfg_Honeypot c)). listen_ok e)"
  by (auto simp: validateHoneypot_def first_failure_None check_listen_ok)

lemma validateWeb_ok: "validateWeb c = None \<longleftrightarrow> web_ok (cfg_Web c)"
  unfolding web_ok_def ex_disj_distrib prefix_ex [symmetric]
  by (auto simp: validateWeb_def Let_def not_less has_prefix_def)

lemma simple_validate_ok:
  "validateCollect c = None \<longleftrightarrow> 5 \<le> ResourceIntervalSeconds (cfg_Collect c)"
  "validateSS c = None \<longleftrightarrow> 5 \<le> SnapshotIntervalS (cfg_SS c)"
  "validateConntrack c = None \<longleftrightarrow> conntrack_ok (cfg_Conntrack c)"
  "validateSSH c = None \<longleftrightarrow> ssh_Source (cfg_SSH c) \<in> {''journald'', ''rsyslog''}"
  "validateF2B c = None \<longleftrightarrow> f2b_LogPath (cfg_F2B c) \<noteq> [] \<and> f2b_DBPath (cfg_F2B c) \<noteq> []"
  "validateDB c = None \<longleftrightarrow> db_ok (cfg_DB c)"
  "validateDisk c = None \<longleftrightarrow> disk_ok (cfg_Disk c)"
  "validateGeoIP c = None \<longleftrightarrow> geoip_ok (cfg_GeoIP c)"
  by (auto simp: validateCollect_def validateSS_def validateConntrack_def validateSSH_def validateF2B_def
      validateDB_def validateDisk_def validateGeoIP_def conntrack_ok_def db_ok_def disk_ok_def geoip_ok_def
      Let_def not_less not_le)

lemma Validate_config_ok: "Validate c = None \<longleftrightarrow> config_ok c"
  by (simp only: Validate_def first_failure_None validations_def list.set ball_simps simp_thms config_ok_def
      simple_validate_ok validateFW_ok validateArchive_ok validateWeb_ok validateHoneypot_ok)

text \<open>The defaults are valid.\<close>

lemma default_listen_ok: "\<forall>e\<in>set DefaultListen. listen_ok e"
  by (simp add: DefaultListen_def listen_ok_def protoHandlers_def SplitHostPort_def has_prefix_def atoi_def
      all_digits_def digits_val_def is_digit_def bval_def Let_def)

lemma Defaults_config_ok: "config_ok Defaults"
proof -
  have d: "''02:00'' = dd 2 @ CHR '':'' # dd 0" by code_simp
  have "archive_ok (cfg_Archive Defaults)"
    unfolding archive_ok_def Defaults_def config.simps archive_cfg.simps
    by (intro conjI, (simp; fail)+) (rule exI [of _ 2], rule exI [of _ 0], simp only: d, simp)
  moreover have "fw_ok (cfg_FW Defaults)" 
    by (simp add: Defaults_def fw_ok_def default_nets ParseExcludeIPs_def)
  ultimately show ?thesis
    using default_listen_ok
    by (simp add: config_ok_def conntrack_ok_def db_ok_def web_ok_def disk_ok_def geoip_ok_def Defaults_def)
qed

end
