(* ===== verification/ConnSnap.thy ===== *)
theory ConnSnap
  imports LogStream GoRegex
begin

text \<open>
  \<^verbatim>\<open>internal/conn/snapshot.go\<close> and \<^verbatim>\<open>internal/conn/fallback.go\<close>: parsing the output of \<^verbatim>\<open>ss -tanup\<close>,
  the snapshot shown on the panel, and the fallback listener that turns the difference of successive
  snapshots into connection events.

  What the command prints, or its failure, is an argument. A Go map is iterated in an arbitrary order:
  the order of each iteration is an argument as well, any enumeration of the keys.
\<close>

subsection \<open>Parsing ss\<close>

definition parseAddrPort :: "bytes \<Rightarrow> (u32 \<times> u16) option" where
  "parseAddrPort s =
    (case last_index (CHR '':'') s of None \<Rightarrow> None
     | Some i \<Rightarrow>
       (let ipStr = (if take i s = ''*'' then ''0.0.0.0'' else take i s);
            portStr = (if drop (i + 1) s = ''*'' then ''0'' else drop (i + 1) s);
            ip = ParseIP ipStr
        in if ip = [] \<or> To4 ip = [] then None
           else case parse_uint 16 portStr of None \<Rightarrow> None
                | Some p \<Rightarrow> Some (IPv4ToUint32 ip, of_nat p)))"

definition rePid :: regex where
  "rePid = Seq (Lit ''pid='') (Cap 1 (Run is_digit 1 None))"

definition ss_pid :: "bytes \<Rightarrow> int" where
  "ss_pid line =
    (case search no_assertion rePid None line of None \<Rightarrow> -1
     | Some (m, _) \<Rightarrow> (case atoi (group 1 m) of Some p \<Rightarrow> p | None \<Rightarrow> -1))"

definition parseSSLine :: "bytes \<Rightarrow> snap_conn option" where
  "parseSSLine line =
    (let fields = Fields line in
     if length fields < 6 then None
     else case (if fields ! 0 = ''tcp'' then Some ProtoTCP else if fields ! 0 = ''udp'' then Some ProtoUDP else None) of
       None \<Rightarrow> None
     | Some proto \<Rightarrow>
       (case (parseAddrPort (fields ! 4), parseAddrPort (fields ! 5)) of
          (Some (localIP, localPort), Some (peerIP, peerPort)) \<Rightarrow>
            Some \<lparr>sc_proto = of_nat proto, sc_src = peerIP, sc_sport = peerPort, sc_dst = localIP,
              sc_dport = localPort, sc_state = fields ! 1, sc_pid = ss_pid line\<rparr>
        | _ \<Rightarrow> None))"

text \<open>The scanner of a string has the default limit of 64 KiB for a line.\<close>

definition scan_limit :: nat where
  "scan_limit = 64 * 1024"

definition ss_lines :: "bytes list \<Rightarrow> snap_conn list" where
  "ss_lines ls = List.map_filter (\<lambda>l. let line = trim_space l in
     if line = [] \<or> has_prefix line ''Netid'' \<or> has_prefix line ''State'' then None else parseSSLine line) ls"

text \<open>The connections and whether the scanner failed.\<close>

definition ParseSSOutput :: "bytes \<Rightarrow> snap_conn list \<times> bool" where
  "ParseSSOutput content = (let (ls, toolong) = scan_lines scan_limit content in (ss_lines ls, toolong))"

text \<open>One execution of ss: its error, or what it printed.\<close>

definition runSS :: "bytes + bytes \<Rightarrow> bytes list + snap_conn list" where
  "runSS cmd =
    (case cmd of Inl e \<Rightarrow> Inl [''ss -tanup failed'', e]
     | Inr content \<Rightarrow>
       (let (conns, toolong) = ParseSSOutput content in
        if toolong then Inl [''ss output not parsed'', ''token too long''] else Inr conns))"

definition conntrackCount :: "bytes option \<Rightarrow> int" where
  "conntrackCount data =
    (case data of None \<Rightarrow> -1 | Some d \<Rightarrow> (case atoi (trim_space d) of None \<Rightarrow> -1 | Some n \<Rightarrow> n))"

definition snapshotOnce :: "int \<Rightarrow> bytes + bytes \<Rightarrow> bytes option \<Rightarrow> conn_snapshot option \<Rightarrow> sysch
    \<Rightarrow> conn_snapshot option \<times> sysch" where
  "snapshotOnce now cmd countFile latest sys =
    (case runSS cmd of Inl e \<Rightarrow> (latest, ReportSys now ''conntrack'' ''warn'' e sys)
     | Inr conns \<Rightarrow> (Some \<lparr>sn_ts = unix now, sn_conn = conns, sn_cnt = conntrackCount countFile\<rparr>, sys))"

text \<open>The snapshotter runs at once and at every tick: each run has its clock and what it reads.\<close>

definition RunConnSnapshotter :: "(int \<times> (bytes + bytes) \<times> bytes option) list \<Rightarrow> conn_snapshot option \<Rightarrow> sysch
    \<Rightarrow> conn_snapshot option \<times> sysch" where
  "RunConnSnapshotter runs latest sys =
    fold (\<lambda>(now, cmd, cnt) (l, s). snapshotOnce now cmd cnt l s) runs (latest, sys)"

subsection \<open>The difference of two snapshots\<close>

definition snapKey :: "snap_conn \<Rightarrow> bytes" where
  "snapKey c = show_nat (unat (sc_proto c)) @ '':'' @ show_nat (unat (sc_src c)) @ '':'' @
     show_nat (unat (sc_sport c)) @ '':'' @ show_nat (unat (sc_dst c)) @ '':'' @ show_nat (unat (sc_dport c))"

definition approxEvent :: "int \<Rightarrow> nat \<Rightarrow> snap_conn \<Rightarrow> conn_event" where
  "approxEvent ts evType sc =
    \<lparr>co_ts = ts, co_evtype = evType, co_proto = sc_proto sc, co_src = sc_src sc, co_sport = sc_sport sc,
     co_dst = sc_dst sc, co_dport = sc_dport sc, co_src6 = [], co_dst6 = [], co_packets = 0, co_bytes = 0,
     co_mark = 0\<rparr>"

type_synonym snap_map = "bytes \<rightharpoonup> snap_conn"

definition snap_map_of :: "snap_conn list \<Rightarrow> snap_map" where
  "snap_map_of conns = fold (\<lambda>c m. m(snapKey c \<mapsto> c)) conns Map.empty"

text \<open>The bodies of the two iterations: what a key of the new and of the old snapshot yields.\<close>

definition of_cur_key :: "snap_map \<Rightarrow> snap_map \<Rightarrow> int \<Rightarrow> bytes \<Rightarrow> conn_event option" where
  "of_cur_key prev cur ts k =
    (case (prev k, cur k) of (None, Some sc) \<Rightarrow> Some (approxEvent ts EvNew sc) | _ \<Rightarrow> None)"

definition of_prev_key :: "snap_map \<Rightarrow> snap_map \<Rightarrow> int \<Rightarrow> bytes \<Rightarrow> conn_event option" where
  "of_prev_key prev cur ts k =
    (case prev k of None \<Rightarrow> None
     | Some old \<Rightarrow> (case cur k of None \<Rightarrow> Some (approxEvent ts EvDestroy old)
         | Some sc \<Rightarrow> if sc_state sc \<noteq> sc_state old then Some (approxEvent ts EvUpdate sc) else None))"

definition diffSnapshots :: "bytes list \<Rightarrow> bytes list \<Rightarrow> snap_map \<Rightarrow> snap_map \<Rightarrow> int \<Rightarrow> conn_event list" where
  "diffSnapshots curKeys prevKeys prev cur ts =
    List.map_filter (of_cur_key prev cur ts) curKeys @ List.map_filter (of_prev_key prev cur ts) prevKeys"

text \<open>An enumeration of the keys of a map: what one \<^verbatim>\<open>range\<close> over it visits.\<close>

definition enumerates :: "bytes list \<Rightarrow> snap_map \<Rightarrow> bool" where
  "enumerates ks m \<longleftrightarrow> distinct ks \<and> set ks = dom m"

subsection \<open>The fallback listener\<close>

text \<open>
  A tick: the clock, what ss printed, the orders of the two iterations and the number of events the
  sink takes before the context is cancelled, None when it takes them all.
\<close>

record fb_tick =
  ft_now :: int
  ft_cmd :: "bytes + bytes"
  ft_cur :: "bytes list"
  ft_prev :: "bytes list"
  ft_cancel :: "nat option"

record fb_state =
  fb_prev :: snap_map
  fb_sink :: "conn_event list"
  fb_sys :: sysch

text \<open>The state after a tick, and whether the listener goes on.\<close>

definition fallback_tick :: "fb_tick \<Rightarrow> fb_state \<Rightarrow> fb_state \<times> bool" where
  "fallback_tick t s =
    (case runSS (ft_cmd t) of
       Inl e \<Rightarrow> (s\<lparr>fb_sys := ReportSys (ft_now t) ''conntrack'' ''warn'' (''fallback mode'' # e) (fb_sys s)\<rparr>, True)
     | Inr conns \<Rightarrow>
       (let cur = snap_map_of conns;
            evs = diffSnapshots (ft_cur t) (ft_prev t) (fb_prev s) cur (unix (ft_now t))
        in case ft_cancel t of
             Some n \<Rightarrow> if n < length evs then (s\<lparr>fb_sink := fb_sink s @ take n evs\<rparr>, False)
                       else (s\<lparr>fb_sink := fb_sink s @ evs, fb_prev := cur\<rparr>, True)
           | None \<Rightarrow> (s\<lparr>fb_sink := fb_sink s @ evs, fb_prev := cur\<rparr>, True)))"

fun fallback_loop :: "fb_tick list \<Rightarrow> fb_state \<Rightarrow> fb_state" where
  "fallback_loop [] s = s"
| "fallback_loop (t # ts) s = (let (s', go) = fallback_tick t s in if go then fallback_loop ts s' else s')"

definition runFallbackConnListener :: "int \<Rightarrow> fb_tick list \<Rightarrow> bool \<Rightarrow> sysch \<Rightarrow> fb_state" where
  "runFallbackConnListener now ticks announce sys =
    fallback_loop ticks \<lparr>fb_prev = Map.empty, fb_sink = [],
      fb_sys = (if announce then ReportSys now ''conntrack'' ''warn'' [''channel unavailable, ss snapshots''] sys
                else ReportSys now ''conntrack'' ''info'' [''ss snapshots by configuration''] sys)\<rparr>"

definition RunFallbackConnListener :: "int \<Rightarrow> fb_tick list \<Rightarrow> sysch \<Rightarrow> fb_state" where
  "RunFallbackConnListener now ticks sys = runFallbackConnListener now ticks True sys"

definition RunFallbackConnListenerQuiet :: "int \<Rightarrow> fb_tick list \<Rightarrow> sysch \<Rightarrow> fb_state" where
  "RunFallbackConnListenerQuiet now ticks sys = runFallbackConnListener now ticks False sys"

subsection \<open>Keys and tuples\<close>

type_synonym tuple5 = "u8 \<times> u32 \<times> u16 \<times> u32 \<times> u16"

definition conn_tuple :: "snap_conn \<Rightarrow> tuple5" where
  "conn_tuple c = (sc_proto c, sc_src c, sc_sport c, sc_dst c, sc_dport c)"

definition event_tuple :: "conn_event \<Rightarrow> tuple5" where
  "event_tuple e = (co_proto e, co_src e, co_sport e, co_dst e, co_dport e)"

lemma show_nat_inj: "show_nat m = show_nat n \<longleftrightarrow> m = n"
  by (metis digits_val_show)

lemma show_nat_no_colon: "\<forall>c\<in>set (show_nat n). c \<noteq> CHR '':''"
  using show_nat_digits digit_neq(2) by blast

lemma split_snapKey: "split_on (CHR '':'') (snapKey c) =
    map show_nat [unat (sc_proto c), unat (sc_src c), unat (sc_sport c), unat (sc_dst c), unat (sc_dport c)]"
  by (simp add: snapKey_def split_on_stop split_on_none show_nat_no_colon)

lemma snapKey_eq_iff: "snapKey c = snapKey d \<longleftrightarrow> conn_tuple c = conn_tuple d"
proof
  assume "snapKey c = snapKey d"
  then have "split_on (CHR '':'') (snapKey c) = split_on (CHR '':'') (snapKey d)" by simp
  then show "conn_tuple c = conn_tuple d"
    by (simp add: split_snapKey show_nat_inj conn_tuple_def word_unat_eq_iff)
qed (simp add: snapKey_def conn_tuple_def)

lemma event_tuple_approx [simp]: "event_tuple (approxEvent ts ev sc) = conn_tuple sc"
  by (simp add: event_tuple_def approxEvent_def conn_tuple_def)

definition keyed :: "snap_map \<Rightarrow> bool" where
  "keyed m \<longleftrightarrow> (\<forall>k c. m k = Some c \<longrightarrow> snapKey c = k)"

lemma keyed_upd: "keyed m \<Longrightarrow> keyed (m(snapKey c \<mapsto> c))"
  by (simp add: keyed_def)

lemma fold_keyed: "keyed m \<Longrightarrow> keyed (fold (\<lambda>c m. m(snapKey c \<mapsto> c)) cs m)"
  by (induction cs arbitrary: m) (simp_all add: keyed_upd)

lemma fold_dom: "dom (fold (\<lambda>c m. m(snapKey c \<mapsto> c)) cs m) = snapKey ` set cs \<union> dom m"
  by (induction cs arbitrary: m) auto

lemma snap_map_keyed [simp]: "keyed (snap_map_of cs)"
  unfolding snap_map_of_def by (rule fold_keyed) (simp add: keyed_def)

lemma snap_map_dom: "dom (snap_map_of cs) = snapKey ` set cs"
  by (simp add: snap_map_of_def fold_dom)

text \<open>The connections of a table, as tuples.\<close>

definition table :: "snap_map \<Rightarrow> tuple5 set" where
  "table m = conn_tuple ` ran m"

lemma keyed_table_iff:
  assumes "keyed m"
  shows "conn_tuple c \<in> table m \<longleftrightarrow> snapKey c \<in> dom m"
proof
  assume "conn_tuple c \<in> table m"
  then obtain k d where "m k = Some d" "conn_tuple d = conn_tuple c"
    by (auto simp: table_def ran_def)
  then show "snapKey c \<in> dom m" using assms snapKey_eq_iff [of c d] by (auto simp: keyed_def)
next
  assume "snapKey c \<in> dom m"
  then obtain d where d: "m (snapKey c) = Some d" by blast
  then have "conn_tuple c = conn_tuple d" using assms snapKey_eq_iff [of c d] by (auto simp: keyed_def)
  then show "conn_tuple c \<in> table m" using d by (auto simp: table_def ran_def)
qed

lemma tuple_conn: "\<exists>c. conn_tuple c = t"
  by (cases t) (metis conn_tuple_def snap_conn.select_convs(1-5))

lemma table_of_conns: "table (snap_map_of cs) = conn_tuple ` set cs"
proof (rule set_eqI)
  fix t
  obtain c where c: "conn_tuple c = t" using tuple_conn by blast
  have "t \<in> table (snap_map_of cs) \<longleftrightarrow> snapKey c \<in> snapKey ` set cs"
    using keyed_table_iff [OF snap_map_keyed, of c cs] c by (simp add: snap_map_dom)
  also have "\<dots> \<longleftrightarrow> t \<in> conn_tuple ` set cs"
    using snapKey_eq_iff [of c] c by (auto simp: image_iff)
  finally show "t \<in> table (snap_map_of cs) \<longleftrightarrow> t \<in> conn_tuple ` set cs" .
qed

subsection \<open>What the difference says\<close>

lemma map_filter_set: "set (List.map_filter f xs) = {y. \<exists>x\<in>set xs. f x = Some y}"
  by (force simp: List.map_filter_def)

text \<open>The events of each type, by the connections of the two tables.\<close>

definition tuples_of :: "nat \<Rightarrow> conn_event list \<Rightarrow> tuple5 set" where
  "tuples_of ev es = event_tuple ` {e \<in> set es. co_evtype e = ev}"

definition changed :: "snap_map \<Rightarrow> snap_map \<Rightarrow> tuple5 set" where
  "changed prev cur = {t. \<exists>a\<in>ran prev. \<exists>b\<in>ran cur. conn_tuple a = t \<and> conn_tuple b = t \<and> sc_state a \<noteq> sc_state b}"

lemma diff_member:
  assumes "enumerates ck cur" "enumerates pk prev"
  shows "e \<in> set (diffSnapshots ck pk prev cur ts) \<longleftrightarrow>
    (\<exists>k sc. prev k = None \<and> cur k = Some sc \<and> e = approxEvent ts EvNew sc) \<or>
    (\<exists>k old. prev k = Some old \<and> cur k = None \<and> e = approxEvent ts EvDestroy old) \<or>
    (\<exists>k old sc. prev k = Some old \<and> cur k = Some sc \<and> sc_state sc \<noteq> sc_state old \<and> e = approxEvent ts EvUpdate sc)"
  (is "?l \<longleftrightarrow> ?n \<or> ?d \<or> ?u")
proof -
  have k: "k \<in> set ck \<longleftrightarrow> cur k \<noteq> None" "k \<in> set pk \<longleftrightarrow> prev k \<noteq> None" for k
    using assms by (auto simp: enumerates_def)
  have n: "(\<exists>k\<in>set ck. of_cur_key prev cur ts k = Some e) = ?n"
    unfolding Bex_def k of_cur_key_def by (rule ex_cong1) (auto split: option.split)
  have d: "(\<exists>k\<in>set pk. of_prev_key prev cur ts k = Some e) = (?d \<or> ?u)"
    unfolding Bex_def k of_prev_key_def ex_disj_distrib [symmetric] by (rule ex_cong1) (auto split: option.splits)
  show ?thesis by (simp only: diffSnapshots_def set_append Un_iff map_filter_set mem_Collect_eq n d)
qed

text \<open>The tuples each type of event is about are exactly those that appeared, disappeared or changed.\<close>

lemma keyed_at: "keyed m \<Longrightarrow> m k = Some c \<Longrightarrow> k = snapKey c"
  by (simp add: keyed_def)

lemma evtypes [simp]: "EvNew \<noteq> EvUpdate" "EvNew \<noteq> EvDestroy" "EvUpdate \<noteq> EvDestroy"
  "EvUpdate \<noteq> EvNew" "EvDestroy \<noteq> EvNew" "EvDestroy \<noteq> EvUpdate"
  by (simp_all add: EvNew_def EvUpdate_def EvDestroy_def)

lemma evtype_approx [simp]: "co_evtype (approxEvent ts ev sc) = ev"
  by (simp add: approxEvent_def)

lemma in_table: "t \<in> table m \<longleftrightarrow> (\<exists>k c. m k = Some c \<and> conn_tuple c = t)"
  by (auto simp: table_def ran_def)

lemma diff_new:
  assumes "enumerates ck cur" "enumerates pk prev" "keyed prev" "keyed cur"
  shows "tuples_of EvNew (diffSnapshots ck pk prev cur ts) = table cur - table prev"
proof (rule set_eqI)
  fix t
  have "t \<in> tuples_of EvNew (diffSnapshots ck pk prev cur ts) \<longleftrightarrow>
      (\<exists>k sc. prev k = None \<and> cur k = Some sc \<and> conn_tuple sc = t)"
    unfolding tuples_of_def image_iff mem_Collect_eq Bex_def diff_member [OF assms(1,2)] by fastforce
  also have "\<dots> \<longleftrightarrow> t \<in> table cur \<and> t \<notin> table prev"
    using assms(3,4) keyed_table_iff [OF assms(3)] keyed_at [OF assms(4)]
    unfolding in_table [of t cur] by (metis domIff)
  finally show "t \<in> tuples_of EvNew (diffSnapshots ck pk prev cur ts) \<longleftrightarrow> t \<in> table cur - table prev" by simp
qed

lemma diff_destroy:
  assumes "enumerates ck cur" "enumerates pk prev" "keyed prev" "keyed cur"
  shows "tuples_of EvDestroy (diffSnapshots ck pk prev cur ts) = table prev - table cur"
proof (rule set_eqI)
  fix t
  have "t \<in> tuples_of EvDestroy (diffSnapshots ck pk prev cur ts) \<longleftrightarrow>
      (\<exists>k old. prev k = Some old \<and> cur k = None \<and> conn_tuple old = t)"
    unfolding tuples_of_def image_iff mem_Collect_eq Bex_def diff_member [OF assms(1,2)] by fastforce
  also have "\<dots> \<longleftrightarrow> t \<in> table prev \<and> t \<notin> table cur"
    using assms(3,4) keyed_table_iff [OF assms(4)] keyed_at [OF assms(3)]
    unfolding in_table [of t prev] by (metis domIff)
  finally show "t \<in> tuples_of EvDestroy (diffSnapshots ck pk prev cur ts) \<longleftrightarrow> t \<in> table prev - table cur" by simp
qed

lemma diff_update:
  assumes "enumerates ck cur" "enumerates pk prev" "keyed prev" "keyed cur"
  shows "tuples_of EvUpdate (diffSnapshots ck pk prev cur ts) = changed prev cur"
proof (rule set_eqI)
  fix t
  have "t \<in> tuples_of EvUpdate (diffSnapshots ck pk prev cur ts) \<longleftrightarrow>
      (\<exists>k old sc. prev k = Some old \<and> cur k = Some sc \<and> sc_state sc \<noteq> sc_state old \<and> conn_tuple sc = t)"
    unfolding tuples_of_def image_iff mem_Collect_eq Bex_def diff_member [OF assms(1,2)] by fastforce
  also have "\<dots> \<longleftrightarrow> t \<in> changed prev cur"
  proof
    assume "\<exists>k old sc. prev k = Some old \<and> cur k = Some sc \<and> sc_state sc \<noteq> sc_state old \<and> conn_tuple sc = t"
    then obtain k a b where k: "prev k = Some a" "cur k = Some b" "sc_state b \<noteq> sc_state a" "conn_tuple b = t"
      by blast
    have "snapKey a = snapKey b" using keyed_at [OF assms(3) k(1)] keyed_at [OF assms(4) k(2)] by simp
    then have "conn_tuple a = t" using k(4) snapKey_eq_iff by blast
    then show "t \<in> changed prev cur" using k by (fastforce simp: changed_def intro: ranI)
  next
    assume "t \<in> changed prev cur"
    then obtain j k a b where k: "prev j = Some a" "cur k = Some b" "sc_state a \<noteq> sc_state b"
      "conn_tuple a = t" "conn_tuple b = t"
      by (auto simp: changed_def ran_def)
    have "snapKey a = snapKey b" using k(4,5) snapKey_eq_iff by simp
    then have "j = k" using keyed_at [OF assms(3) k(1)] keyed_at [OF assms(4) k(2)] by simp
    then show "\<exists>k old sc. prev k = Some old \<and> cur k = Some sc \<and> sc_state sc \<noteq> sc_state old \<and> conn_tuple sc = t"
      using k by force
  qed
  finally show "t \<in> tuples_of EvUpdate (diffSnapshots ck pk prev cur ts) \<longleftrightarrow> t \<in> changed prev cur" .
qed

subsection \<open>Replaying the events\<close>

text \<open>The abstract reading of the event log: a table of open connections.\<close>

definition apply_event :: "conn_event \<Rightarrow> tuple5 set \<Rightarrow> tuple5 set" where
  "apply_event e T =
    (if co_evtype e = EvNew then insert (event_tuple e) T
     else if co_evtype e = EvDestroy then T - {event_tuple e} else T)"

definition replay :: "conn_event list \<Rightarrow> tuple5 set \<Rightarrow> tuple5 set" where
  "replay es T = fold apply_event es T"

lemma replay_append: "replay (xs @ ys) T = replay ys (replay xs T)"
  by (simp add: replay_def)

lemma replay_disjoint:
  "tuples_of EvNew es \<inter> tuples_of EvDestroy es = {} \<Longrightarrow>
    replay es T = (T - tuples_of EvDestroy es) \<union> tuples_of EvNew es"
proof (induction es arbitrary: T)
  case (Cons e es)
  have t: "tuples_of ev (e # es) = (if co_evtype e = ev then {event_tuple e} else {}) \<union> tuples_of ev es" for ev
    by (auto simp: tuples_of_def)
  have "tuples_of EvNew es \<inter> tuples_of EvDestroy es = {}" using Cons.prems by (auto simp: t)
  then have "replay (e # es) T = (apply_event e T - tuples_of EvDestroy es) \<union> tuples_of EvNew es"
    using Cons.IH [of "apply_event e T"] by (simp add: replay_def)
  then show ?case using Cons.prems by (auto simp: t apply_event_def split: if_splits)
qed (simp add: replay_def tuples_of_def)

lemma replay_diff:
  assumes "enumerates ck cur" "enumerates pk prev" "keyed prev" "keyed cur"
  shows "replay (diffSnapshots ck pk prev cur ts) (table prev) = table cur"
  using replay_disjoint [of "diffSnapshots ck pk prev cur ts" "table prev"]
  unfolding diff_new [OF assms] diff_destroy [OF assms] by blast

text \<open>The orders of the iterations are those of the maps, and no tick is cancelled half way.\<close>

fun fair_ticks :: "fb_tick list \<Rightarrow> snap_map \<Rightarrow> bool" where
  "fair_ticks [] prev = True"
| "fair_ticks (t # ts) prev =
    (case runSS (ft_cmd t) of Inl e \<Rightarrow> fair_ticks ts prev
     | Inr conns \<Rightarrow> ft_cancel t = None \<and> enumerates (ft_cur t) (snap_map_of conns) \<and> enumerates (ft_prev t) prev \<and>
         fair_ticks ts (snap_map_of conns))"

text \<open>The connections of the last snapshot that could be taken.\<close>

fun last_conns :: "fb_tick list \<Rightarrow> tuple5 set \<Rightarrow> tuple5 set" where
  "last_conns [] T = T"
| "last_conns (t # ts) T = last_conns ts (case runSS (ft_cmd t) of Inl e \<Rightarrow> T | Inr conns \<Rightarrow> conn_tuple ` set conns)"

lemma fallback_loop_tracks:
  assumes "fair_ticks ts (fb_prev s)" "keyed (fb_prev s)" "replay (fb_sink s) {} = table (fb_prev s)"
  shows "replay (fb_sink (fallback_loop ts s)) {} = last_conns ts (table (fb_prev s))"
  using assms
proof (induction ts arbitrary: s)
  case (Cons t ts)
  show ?case
  proof (cases "runSS (ft_cmd t)")
    case (Inl e)
    then show ?thesis using Cons by (simp add: fallback_tick_def)
  next
    case (Inr conns)
    let ?c = "snap_map_of conns" let ?es = "diffSnapshots (ft_cur t) (ft_prev t) (fb_prev s) ?c (unix (ft_now t))"
    let ?s = "s\<lparr>fb_sink := fb_sink s @ ?es, fb_prev := ?c\<rparr>"
    have e: "enumerates (ft_cur t) ?c" "enumerates (ft_prev t) (fb_prev s)" "ft_cancel t = None" "fair_ticks ts ?c"
      using Cons.prems(1) Inr by simp_all
    have "fallback_tick t s = (?s, True)" using Inr e(3) by (simp add: fallback_tick_def Let_def)
    moreover have "replay (fb_sink ?s) {} = table ?c"
      using Cons.prems(3) replay_diff [OF e(1,2) Cons.prems(2) snap_map_keyed] by (simp add: replay_append)
    ultimately show ?thesis
      using Cons.IH [of ?s] e(4) Inr by (simp add: table_of_conns)
  qed
qed simp

text \<open>No connection has two events.\<close>

lemma distinct_map_filter:
  "distinct ks \<Longrightarrow> (\<And>j k d e. f j = Some d \<Longrightarrow> f k = Some e \<Longrightarrow> g d = g e \<Longrightarrow> j = k) \<Longrightarrow>
    distinct (map g (List.map_filter f ks))"
proof (induction ks)
  case (Cons k ks)
  have "g e \<notin> g ` set (List.map_filter f ks)" if "f k = Some e" for e
  proof
    assume "g e \<in> g ` set (List.map_filter f ks)"
    then obtain j d where "j \<in> set ks" "f j = Some d" "g d = g e" by (auto simp: map_filter_set)
    then show False using Cons.prems(1) Cons.prems(2) [of j d k e] that by auto
  qed
  moreover have "distinct (map g (List.map_filter f ks))" using Cons by auto
  ultimately show ?case by (auto simp: List.map_filter_simps split: option.split)
qed (simp add: List.map_filter_simps)

lemma of_cur_key_Some:
  assumes "keyed cur" "of_cur_key prev cur ts k = Some e"
  shows "\<exists>c. snapKey c = k \<and> conn_tuple c = event_tuple e \<and> prev k = None"
proof -
  from assms(2) obtain sc where "cur k = Some sc" "prev k = None" "e = approxEvent ts EvNew sc"
    by (auto simp: of_cur_key_def split: option.splits)
  then show ?thesis using keyed_at [OF assms(1)] by (intro exI [of _ sc]) simp
qed

lemma of_prev_key_Some:
  assumes "keyed prev" "keyed cur" "of_prev_key prev cur ts k = Some e"
  shows "\<exists>c. snapKey c = k \<and> conn_tuple c = event_tuple e \<and> prev k \<noteq> None"
proof -
  from assms(3) obtain a where a: "prev k = Some a" by (cases "prev k") (auto simp: of_prev_key_def)
  show ?thesis
  proof (cases "cur k")
    case None
    then show ?thesis
      using assms(3) a keyed_at [OF assms(1) a] by (intro exI [of _ a]) (auto simp: of_prev_key_def)
  next
    case (Some b)
    then show ?thesis
      using assms(3) a keyed_at [OF assms(2) Some]
      by (intro exI [of _ b]) (auto simp: of_prev_key_def split: if_splits)
  qed
qed

lemma diff_distinct:
  assumes "enumerates ck cur" "enumerates pk prev" "keyed prev" "keyed cur"
  shows "distinct (map event_tuple (diffSnapshots ck pk prev cur ts))"
proof -
  let ?n = "of_cur_key prev cur ts" let ?o = "of_prev_key prev cur ts"
  note n = of_cur_key_Some [OF assms(4), of prev ts] and o = of_prev_key_Some [OF assms(3,4), of ts]
  have "distinct (map event_tuple (List.map_filter ?n ck))"
    by (rule distinct_map_filter) (use assms(1) n snapKey_eq_iff in \<open>auto simp: enumerates_def\<close>, metis n snapKey_eq_iff)
  moreover have "distinct (map event_tuple (List.map_filter ?o pk))"
    by (rule distinct_map_filter) (use assms(2) o snapKey_eq_iff in \<open>auto simp: enumerates_def\<close>, metis o snapKey_eq_iff)
  moreover have "event_tuple a \<noteq> event_tuple b"
    if ab: "a \<in> set (List.map_filter ?n ck)" "b \<in> set (List.map_filter ?o pk)" for a b
  proof
    assume eq: "event_tuple a = event_tuple b"
    obtain j k where "?n j = Some a" "?o k = Some b" using ab by (auto simp: map_filter_set)
    from n [OF this(1)] o [OF this(2)] obtain c d where
      "snapKey c = j" "conn_tuple c = event_tuple a" "prev j = None"
      "snapKey d = k" "conn_tuple d = event_tuple b" "prev k \<noteq> None"
      by blast
    then show False using eq snapKey_eq_iff [of c d] by simp
  qed
  ultimately show ?thesis
    unfolding diffSnapshots_def map_append distinct_append set_map by blast
qed

end
