(* ===== verification/Conn.thy ===== *)
theory Conn
  imports Config ConnSnap
begin

text \<open>
  \<^verbatim>\<open>internal/conn/conn.go\<close> and \<^verbatim>\<open>runConnChannel\<close> of \<^verbatim>\<open>cmd/sentry-agent/main.go\<close>: the conntrack listener,
  its self checks, the loop that restarts it and gives up after three failed starts, and the choice
  between it and the fallback.

  The netlink library is outside the program: the outcome of its calls and what it delivers are
  arguments, its event is the record of the fields the source reads (a nil pointer is None). What runs
  concurrently in one round of the listener (the hook, the error goroutine, the tickers) is a sequence
  of inputs, each with the clock it is handled at.
\<close>

subsection \<open>Printing an address\<close>

text \<open>\<^verbatim>\<open>net.IP.String\<close>: dotted, or groups with the longest run of two or more zero groups as two colons.\<close>

fun show_hex :: "nat \<Rightarrow> bytes" where
  "show_hex n = (if n < 16 then [hex_digit n] else show_hex (n div 16) @ [hex_digit (n mod 16)])"

declare show_hex.simps [simp del]

fun be_groups :: "bytes \<Rightarrow> nat list" where
  "be_groups (a # b # s) = (bval a * 256 + bval b) # be_groups s"
| "be_groups s = []"

definition zero_run :: "nat list \<Rightarrow> nat \<Rightarrow> nat" where
  "zero_run gs i = length (takeWhile (\<lambda>g. g = 0) (drop i gs))"

definition longest_zeros :: "nat list \<Rightarrow> (nat \<times> nat) option" where
  "longest_zeros gs = fold (\<lambda>i best. let l = zero_run gs i in
     if 2 \<le> l \<and> (case best of None \<Rightarrow> True | Some (s, m) \<Rightarrow> m < l) then Some (i, l) else best) [0..<length gs] None"

definition join_with :: "bytes \<Rightarrow> bytes list \<Rightarrow> bytes" where
  "join_with sep xs = (case xs of [] \<Rightarrow> [] | y # ys \<Rightarrow> y @ concat (map (\<lambda>z. sep @ z) ys))"

definition show_v6 :: "bytes \<Rightarrow> bytes" where
  "show_v6 ip =
    (let gs = be_groups ip; pr = (\<lambda>xs. join_with '':'' (map show_hex xs)) in
     case longest_zeros gs of None \<Rightarrow> pr gs
     | Some (i, l) \<Rightarrow> pr (take i gs) @ ''::'' @ pr (drop (i + l) gs))"

definition IP_String :: "bytes \<Rightarrow> bytes" where
  "IP_String ip =
    (if ip = [] then ''<nil>''
     else if To4 ip \<noteq> [] then dotted (map bval (To4 ip))
     else if length ip = 16 then show_v6 ip else ''?'' @ hex_encode ip)"

subsection \<open>Events\<close>

datatype ct_group = CtNew | CtUpdate | CtDestroy | CtOther

record ct_proto =
  cp_number :: "u8 option"
  cp_sport :: "u16 option"
  cp_dport :: "u16 option"

record ct_origin =
  cq_src :: "bytes option"
  cq_dst :: "bytes option"
  cq_proto :: "ct_proto option"

record ct_counter =
  cc_packets :: "u64 option"
  cc_bytes :: "u64 option"

record ct_con =
  con_origin :: "ct_origin option"
  con_info :: "ct_group option"
  con_counter :: "ct_counter option"
  con_mark :: "u32 option"

definition get_or :: "'a \<Rightarrow> 'a option \<Rightarrow> 'a" where
  "get_or d x = (case x of None \<Rightarrow> d | Some v \<Rightarrow> v)"

definition ev_type :: "ct_group option \<Rightarrow> nat" where
  "ev_type g = (case get_or CtUpdate g of CtNew \<Rightarrow> EvNew | CtDestroy \<Rightarrow> EvDestroy | _ \<Rightarrow> EvUpdate)"

definition connEventFromCon :: "int \<Rightarrow> ct_con \<Rightarrow> conn_event option" where
  "connEventFromCon now c =
    (case con_origin c of None \<Rightarrow> None
     | Some q \<Rightarrow>
       (case (cq_proto q, cq_src q, cq_dst q) of
          (Some p, Some src, Some dst) \<Rightarrow>
            (let proto = get_or 0 (cp_number p); icmp = (proto = of_nat ProtoICMP) in
             Some \<lparr>co_ts = unix now, co_evtype = ev_type (con_info c), co_proto = proto,
               co_src = (if To4 src \<noteq> [] then IPv4ToUint32 src else 0),
               co_sport = (if icmp then 0 else get_or 0 (cp_sport p)),
               co_dst = (if To4 dst \<noteq> [] then IPv4ToUint32 dst else 0),
               co_dport = (if icmp then 0 else get_or 0 (cp_dport p)),
               co_src6 = (if To4 src \<noteq> [] then [] else IP_String src),
               co_dst6 = (if To4 dst \<noteq> [] then [] else IP_String dst),
               co_packets = (case con_counter c of None \<Rightarrow> 0 | Some k \<Rightarrow> get_or 0 (cc_packets k)),
               co_bytes = (case con_counter c of None \<Rightarrow> 0 | Some k \<Rightarrow> get_or 0 (cc_bytes k)),
               co_mark = get_or 0 (con_mark c)\<rparr>)
        | _ \<Rightarrow> None))"

subsection \<open>The netlink sockets of the process\<close>

record netlink_own =
  ni_groups :: u32
  ni_drops :: u64
  ni_inode :: nat

definition netlinkNetfilterProto :: int where "netlinkNetfilterProto = 12"
definition ctGroupsMask :: u32 where "ctGroupsMask = 7"
definition netlinkBufferMax :: int where "netlinkBufferMax = 8 * 1024 * 1024"

text \<open>\<^verbatim>\<open>strconv.ParseUint(s, 16, w)\<close>.\<close>

definition parse_hex :: "nat \<Rightarrow> bytes \<Rightarrow> nat option" where
  "parse_hex w s =
    (if s = [] then None
     else case those (map hex_val s) of None \<Rightarrow> None
     | Some ds \<Rightarrow> (let n = foldl (\<lambda>v d. v * 16 + d) 0 ds in if n < 2 ^ w then Some n else None))"

definition parse_own :: "nat list \<Rightarrow> int \<Rightarrow> bytes \<Rightarrow> netlink_own option" where
  "parse_own inodes proto line =
    (let fields = Fields line in
     if length fields < 10 \<or> fields ! 0 = ''sk'' then None
     else if atoi (fields ! 1) \<noteq> Some proto then None
     else case parse_uint 64 (fields ! 9) of None \<Rightarrow> None
     | Some inode \<Rightarrow>
       if inode \<notin> set inodes then None
       else Some \<lparr>ni_groups = (case parse_hex 32 (fields ! 3) of Some g \<Rightarrow> of_nat g | None \<Rightarrow> 0),
                  ni_drops = (case parse_uint 64 (fields ! 8) of Some d \<Rightarrow> of_nat d | None \<Rightarrow> 0),
                  ni_inode = inode\<rparr>)"

definition parseNetlinkOwn :: "bytes \<Rightarrow> nat list \<Rightarrow> int \<Rightarrow> netlink_own list" where
  "parseNetlinkOwn data inodes proto = List.map_filter (parse_own inodes proto) (split_on LF data)"

text \<open>The link of a descriptor, None where reading it fails.\<close>

definition socket_inode :: "bytes option \<Rightarrow> nat option" where
  "socket_inode target =
    (case target of None \<Rightarrow> None
     | Some t \<Rightarrow>
       if \<not> has_prefix t ''socket:['' \<or> \<not> has_suffix t '']'' then None
       else (let b = drop 8 t in parse_uint 64 (if has_suffix b '']'' then butlast b else b)))"

definition ownSocketInodes :: "bytes + bytes option list \<Rightarrow> bytes + nat list" where
  "ownSocketInodes fds = (case fds of Inl e \<Rightarrow> Inl e | Inr ts \<Rightarrow> Inr (List.map_filter socket_inode ts))"

text \<open>What the process file system shows: the descriptors and the netlink table, or the errors.\<close>

record proc_view =
  pv_fds :: "bytes + bytes option list"
  pv_netlink :: "bytes + bytes"

definition netlinkOwnInfos :: "proc_view \<Rightarrow> int \<Rightarrow> bytes + netlink_own list" where
  "netlinkOwnInfos v proto =
    (case ownSocketInodes (pv_fds v) of Inl e \<Rightarrow> Inl e
     | Inr inodes \<Rightarrow>
       (case pv_netlink v of Inl e \<Rightarrow> Inl e | Inr data \<Rightarrow> Inr (parseNetlinkOwn data inodes proto)))"

definition netlinkDrops :: "proc_view \<Rightarrow> bytes + u64" where
  "netlinkDrops v =
    (case netlinkOwnInfos v netlinkNetfilterProto of Inl e \<Rightarrow> Inl e
     | Inr infos \<Rightarrow> Inr (fold (\<lambda>i d. d + ni_drops i) infos 0))"

datatype verdict = Verified | CannotVerify bytes | SubscriptionInvalid u32

definition verifyGroups :: "netlink_own list \<Rightarrow> verdict" where
  "verifyGroups infos =
    (let groups = fold (\<lambda>i g. g OR ni_groups i) infos 0 in
     if groups AND ctGroupsMask \<noteq> ctGroupsMask then SubscriptionInvalid groups else Verified)"

definition verifySubscription :: "proc_view \<Rightarrow> verdict" where
  "verifySubscription v =
    (case netlinkOwnInfos v netlinkNetfilterProto of Inl e \<Rightarrow> CannotVerify e | Inr infos \<Rightarrow> verifyGroups infos)"

subsection \<open>One round of the listener\<close>

definition staleVerdict :: "u64 \<Rightarrow> u64 \<Rightarrow> int \<Rightarrow> int \<Rightarrow> bool \<times> bool" where
  "staleVerdict prevEvts curEvts prevCnt curCnt =
    (if curEvts \<noteq> prevEvts then (False, False)
     else if 0 \<le> prevCnt \<and> 0 \<le> curCnt \<and> prevCnt \<noteq> curCnt then (True, True) else (True, False))"

record once_state =
  on_sink :: "conn_event list"
  on_sys :: sysch
  on_counter :: "u64 option"
  on_evts :: u64
  on_lastEvts :: u64
  on_lastCnt :: int
  on_stale :: rate_limiter
  on_warn :: rate_limiter
  on_lastDrops :: u64
  on_first :: bool
  on_buf :: int
  on_watching :: bool
  on_dead :: bool

text \<open>The count file is read up to twice by a check of freshness.\<close>

definition checkFreshness :: "int \<Rightarrow> bytes option \<Rightarrow> bytes option \<Rightarrow> once_state \<Rightarrow> once_state" where
  "checkFreshness now f1 f2 s =
    (let s1 =
      (if on_evts s = on_lastEvts s then
         (let curCnt = conntrackCount f1;
              (stalled, tableActive) = staleVerdict (on_evts s) (on_lastEvts s) (on_lastCnt s) curCnt
          in if tableActive then
               (let (r, sys) = Report now ''conntrack'' ''warn''
                  [''stream stalled, table changes'', show_int (on_lastCnt s), show_int curCnt] (on_warn s) (on_sys s)
                in s\<lparr>on_warn := r, on_sys := sys\<rparr>)
             else if stalled then
               (let (r, sys) = Report now ''conntrack'' ''info'' [''no events'', show_int curCnt] (on_stale s) (on_sys s)
                in s\<lparr>on_stale := r, on_sys := sys\<rparr>)
             else s)
       else s)
     in s1\<lparr>on_lastEvts := on_evts s, on_lastCnt := conntrackCount f2\<rparr>)"

definition grow :: "int \<Rightarrow> int" where
  "grow b = (if netlinkBufferMax < b * 2 then netlinkBufferMax else b * 2)"

definition checkOverrun :: "int \<Rightarrow> proc_view \<Rightarrow> bytes option \<Rightarrow> once_state \<Rightarrow> once_state" where
  "checkOverrun now v setErr s =
    (case netlinkDrops v of
       Inl e \<Rightarrow> s\<lparr>on_sys := ReportSys now ''conntrack'' ''warn'' [''drops not read'', e] (on_sys s)\<rparr>
     | Inr drops \<Rightarrow>
       if on_first s then s\<lparr>on_first := False, on_lastDrops := drops\<rparr>
       else (let diff = drops - on_lastDrops s; s1 = s\<lparr>on_lastDrops := drops\<rparr> in
         if diff = 0 then s1
         else (let s2 = s1\<lparr>on_sys := ReportSys now ''conntrack'' ''warn'' [''netlink overrun'', show_nat (unat diff)] (on_sys s1),
                           on_counter := map_option (\<lambda>c. c + diff) (on_counter s1)\<rparr>
           in if on_buf s2 < netlinkBufferMax then
                (let b = grow (on_buf s2);
                     sys = (case setErr of Some e \<Rightarrow> ReportSys now ''conntrack'' ''warn'' [''buffer not grown'', show_int b, e] (on_sys s2)
                            | None \<Rightarrow> ReportSys now ''conntrack'' ''info'' [''buffer grown'', show_int b] (on_sys s2))
                 in s2\<lparr>on_buf := b, on_sys := sys\<rparr>)
              else s2)))"

text \<open>
  What can happen while the loop waits: the context ends, the library reports an error or closes its
  error channel, the loop takes the signal that the listener died, a ticker fires, an event arrives
  (whether the sink takes it before the context ends).
\<close>

datatype ct_input =
    CtxDone
  | ErrRecv "bytes option"
  | TakeDead
  | FreshTick "bytes option" "bytes option"
  | OverrunTick proc_view "bytes option"
  | Hook ct_con bool

datatype once_err = StartErr "bytes list" | RunErr "bytes list"

definition on_hook :: "int \<Rightarrow> ct_con \<Rightarrow> bool \<Rightarrow> once_state \<Rightarrow> once_state" where
  "on_hook now c sent s =
    (let s1 = s\<lparr>on_evts := on_evts s + 1\<rparr> in
     case connEventFromCon now c of None \<Rightarrow> s1
     | Some ev \<Rightarrow> if sent then s1\<lparr>on_sink := on_sink s1 @ [ev]\<rparr> else s1)"

definition on_err :: "int \<Rightarrow> bytes option \<Rightarrow> once_state \<Rightarrow> once_state" where
  "on_err now e s =
    (if \<not> on_watching s then s
     else case e of None \<Rightarrow> s\<lparr>on_watching := False\<rparr>
     | Some t \<Rightarrow> s\<lparr>on_watching := False, on_dead := True,
                     on_sys := ReportSys now ''conntrack'' ''error'' [''netlink receive error'', t] (on_sys s)\<rparr>)"

text \<open>The loop: its state, and its return value once it returns (None for nil).\<close>

fun once_loop :: "(int \<times> ct_input) list \<Rightarrow> once_state \<Rightarrow> once_state \<times> once_err option option" where
  "once_loop [] s = (s, None)"
| "once_loop ((now, x) # xs) s =
    (case x of
       CtxDone \<Rightarrow> (s, Some None)
     | ErrRecv e \<Rightarrow> once_loop xs (on_err now e s)
     | TakeDead \<Rightarrow> if on_dead s then (s, Some (Some (RunErr [''netlink listener ended'']))) else once_loop xs s
     | FreshTick f1 f2 \<Rightarrow> once_loop xs (checkFreshness now f1 f2 s)
     | OverrunTick v e \<Rightarrow> once_loop xs (checkOverrun now v e s)
     | Hook c sent \<Rightarrow> once_loop xs (on_hook now c sent s))"

text \<open>What a round meets: the outcome of the calls before the loop, and the inputs of the loop.\<close>

record once_env =
  oe_now :: int
  oe_open :: "bytes option"
  oe_setbuf :: "bytes option"
  oe_before :: "(int \<times> bytes option) list"
  oe_register :: "bytes option"
  oe_proc :: proc_view
  oe_inputs :: "(int \<times> ct_input) list"

text \<open>What is shared with the rest of the program.\<close>

record ct_shared =
  sh_sink :: "conn_event list"
  sh_sys :: sysch
  sh_counter :: "u64 option"

definition once_start :: "int \<Rightarrow> ct_shared \<Rightarrow> once_state" where
  "once_start bufSize sh =
    \<lparr>on_sink = sh_sink sh, on_sys = sh_sys sh, on_counter = sh_counter sh, on_evts = 0, on_lastEvts = 0,
     on_lastCnt = -1, on_stale = NewRateLimiter (60 * minute), on_warn = NewRateLimiter (30 * minute),
     on_lastDrops = 0, on_first = True, on_buf = bufSize, on_watching = True, on_dead = False\<rparr>"

definition shared_of :: "once_state \<Rightarrow> ct_shared" where
  "shared_of s = \<lparr>sh_sink = on_sink s, sh_sys = on_sys s, sh_counter = on_counter s\<rparr>"

definition on_report :: "int \<Rightarrow> bytes \<Rightarrow> bytes list \<Rightarrow> once_state \<Rightarrow> once_state" where
  "on_report now level message s = s\<lparr>on_sys := ReportSys now ''conntrack'' level message (on_sys s)\<rparr>"

definition runConntrackOnce :: "once_env \<Rightarrow> int \<Rightarrow> ct_shared \<Rightarrow> ct_shared \<times> once_err option option" where
  "runConntrackOnce env bufSize sh =
    (case oe_open env of Some e \<Rightarrow> (sh, Some (Some (StartErr [''netlink open failed'', e])))
     | None \<Rightarrow>
       (let s0 = once_start bufSize sh;
            s1 = (case oe_setbuf env of None \<Rightarrow> s0
                  | Some e \<Rightarrow> on_report (oe_now env) ''warn'' [''buffer not set'', show_int bufSize, e] s0);
            s2 = fold (\<lambda>(t, e) s. on_err t e s) (oe_before env) s1
        in case oe_register env of
             Some e \<Rightarrow> (shared_of s2, Some (Some (StartErr [''subscription failed'', e])))
           | None \<Rightarrow>
             (let go = (\<lambda>s. let (s', r) = once_loop (oe_inputs env)
                    (on_report (oe_now env) ''info'' [''conntrack channel started''] s) in (shared_of s', r))
              in case verifySubscription (oe_proc env) of
                SubscriptionInvalid g \<Rightarrow> (shared_of s2, Some (Some (StartErr [''subscription invalid'', show_hex (unat g)])))
              | CannotVerify e \<Rightarrow> go (on_report (oe_now env) ''warn'' [''subscription not verified'', e] s2)
              | Verified \<Rightarrow> go s2)))"

subsection \<open>The loop that restarts it\<close>

definition maxConntrackStartFails :: nat where "maxConntrackStartFails = 3"

text \<open>\<^verbatim>\<open>connStartTracker.record\<close>: whether to give up, the count it reports, and the new count.\<close>

definition tracker_record :: "bool \<Rightarrow> nat \<Rightarrow> (bool \<times> nat) \<times> nat" where
  "tracker_record isStartErr fails =
    (if isStartErr then ((maxConntrackStartFails \<le> fails + 1, fails + 1), fails + 1) else ((False, 0), 0))"

text \<open>
  A round: the run of the listener (None when it has not returned yet), whether the context is
  cancelled when it returns, the clock then, and whether the context ends during the pause.
\<close>

record ct_round =
  cr_once :: "int \<Rightarrow> ct_shared \<Rightarrow> ct_shared \<times> once_err option option"
  cr_ctx :: bool
  cr_now :: int
  cr_stop :: bool

record ct_loop =
  cl_backoff :: int
  cl_buf :: int
  cl_rep :: rate_limiter
  cl_fails :: nat
  cl_shared :: ct_shared

datatype ct_trace = Attempt int "once_err option" | Slept int
datatype ct_end = Waiting | Returned "bytes list option"

fun is_start :: "once_err option \<Rightarrow> bool" where
  "is_start (Some (StartErr _)) = True"
| "is_start _ = False"

fun err_text :: "once_err option \<Rightarrow> bytes list" where
  "err_text None = [''<nil>'']"
| "err_text (Some (StartErr t)) = t"
| "err_text (Some (RunErr t)) = t"

definition loop_report :: "int \<Rightarrow> once_err option \<Rightarrow> nat \<Rightarrow> ct_loop \<Rightarrow> ct_loop" where
  "loop_report now err fails s =
    (let msg = (if is_start err then [''start failed'', show_nat fails, show_int (cl_backoff s div second)]
                else [''listener ended'', show_int (cl_backoff s div second)]) @ err_text err;
         (rep, sys) = Report now ''conntrack'' ''warn'' msg (cl_rep s) (sh_sys (cl_shared s))
     in s\<lparr>cl_rep := rep, cl_shared := (cl_shared s)\<lparr>sh_sys := sys\<rparr>\<rparr>)"

definition ct_backoff :: "int \<Rightarrow> int" where
  "ct_backoff b = (if b < 30 * second then b * 2 else b)"

fun conntrack_loop :: "ct_round list \<Rightarrow> ct_loop \<Rightarrow> ct_trace list \<times> ct_end \<times> ct_loop" where
  "conntrack_loop [] s = ([], Waiting, s)"
| "conntrack_loop (r # rs) s =
    (case cr_once r (cl_buf s) (cl_shared s) of
       (sh, None) \<Rightarrow> ([], Waiting, s\<lparr>cl_shared := sh\<rparr>)
     | (sh, Some err) \<Rightarrow>
       (let s1 = s\<lparr>cl_shared := sh\<rparr> in
        if cr_ctx r then ([Attempt (cl_buf s) err], Returned None, s1)
        else (let ((giveUp, fails), f') = tracker_record (is_start err) (cl_fails s); s2 = s1\<lparr>cl_fails := f'\<rparr> in
          if giveUp then ([Attempt (cl_buf s) err], Returned (Some (''given up'' # show_nat fails # err_text err)), s2)
          else (let s3 = loop_report (cr_now r) err f' s2;
                    s4 = (if is_start err then s3 else s3\<lparr>cl_buf := grow (cl_buf s3)\<rparr>)
            in if cr_stop r then ([Attempt (cl_buf s) err], Returned None, s4)
               else (let (tr, e, s') = conntrack_loop rs (s4\<lparr>cl_backoff := ct_backoff (cl_backoff s4)\<rparr>)
                     in (Attempt (cl_buf s) err # Slept (cl_backoff s4) # tr, e, s'))))))"

definition runConntrackLoop :: "int \<Rightarrow> ct_round list \<Rightarrow> ct_shared \<Rightarrow> ct_trace list \<times> ct_end \<times> ct_loop" where
  "runConntrackLoop bufSize rounds sh =
    conntrack_loop rounds \<lparr>cl_backoff = 2 * second, cl_buf = bufSize, cl_rep = NewRateLimiter (5 * minute),
      cl_fails = 0, cl_shared = sh\<rparr>"

text \<open>The two system files are written first; a failure is only reported.\<close>

definition RunConntrackListener :: "int \<Rightarrow> conntrack_cfg \<Rightarrow> bytes option \<Rightarrow> bytes option \<Rightarrow> ct_round list \<Rightarrow> ct_shared
    \<Rightarrow> ct_trace list \<times> ct_end \<times> ct_loop" where
  "RunConntrackListener now cfg acctErr rmemErr rounds sh =
    (let warn = (\<lambda>e t sys. case e of None \<Rightarrow> sys | Some x \<Rightarrow> ReportSys now ''conntrack'' ''warn'' [t, x] sys);
         sys1 = (if EnableAcct cfg then warn acctErr ''nf_conntrack_acct not enabled'' (sh_sys sh) else sh_sys sh);
         sys2 = warn rmemErr ''rmem_max not raised'' sys1
     in runConntrackLoop (BufferSizeKB cfg * 1024) rounds (sh\<lparr>sh_sys := sys2\<rparr>))"

text \<open>The channel as a whole: what it has delivered, and whether the fallback listener ran.\<close>

definition runConnChannel :: "int \<Rightarrow> config \<Rightarrow> bytes option \<Rightarrow> bytes option \<Rightarrow> ct_round list \<Rightarrow> fb_tick list \<Rightarrow> ct_shared
    \<Rightarrow> ct_shared \<times> bool" where
  "runConnChannel now cfg acctErr rmemErr rounds ticks sh =
    (let add = (\<lambda>sh f. sh\<lparr>sh_sink := sh_sink sh @ fb_sink f, sh_sys := fb_sys f\<rparr>) in
     if ct_Mode (cfg_Conntrack cfg) = ''fallback'' then
       (add sh (RunFallbackConnListenerQuiet now ticks
          (ReportSys now ''conntrack'' ''info'' [''mode=fallback''] (sh_sys sh))), True)
     else (case RunConntrackListener now (cfg_Conntrack cfg) acctErr rmemErr rounds sh of
         (tr, Returned (Some e), s) \<Rightarrow>
           (add (cl_shared s) (RunFallbackConnListener now ticks
              (ReportSys now ''conntrack'' ''warn'' (''switching to fallback'' # e) (sh_sys (cl_shared s)))), True)
       | (tr, _, s) \<Rightarrow> (cl_shared s, False)))"

subsection \<open>Lemmas on the loop\<close>

lemma loop_report_fields [simp]:
  "cl_backoff (loop_report now err f s) = cl_backoff s" "cl_buf (loop_report now err f s) = cl_buf s"
  "cl_fails (loop_report now err f s) = cl_fails s"
  by (simp_all add: loop_report_def Let_def case_prod_beta)

fun attempts :: "ct_trace list \<Rightarrow> (int \<times> once_err option) list" where
  "attempts [] = []"
| "attempts (Attempt b e # tr) = (b, e) # attempts tr"
| "attempts (Slept d # tr) = attempts tr"

fun slept :: "ct_trace list \<Rightarrow> int list" where
  "slept [] = []"
| "slept (Attempt b e # tr) = slept tr"
| "slept (Slept d # tr) = d # slept tr"

text \<open>The failed starts since the last attempt that started.\<close>

fun start_streak :: "nat \<Rightarrow> once_err option list \<Rightarrow> nat" where
  "start_streak n [] = n"
| "start_streak n (e # es) = start_streak (if is_start e then n + 1 else 0) es"

lemma grow_bound: "grow b \<le> netlinkBufferMax"
  by (simp add: grow_def)

lemma grow_mono: "0 < b \<Longrightarrow> b \<le> netlinkBufferMax \<Longrightarrow> b \<le> grow b"
  by (auto simp: grow_def)

text \<open>
  One step of the loop, when its run returns and nothing is cancelled: the attempt, and the state the
  loop goes on with, or None when it gives up.
\<close>

definition after_attempt :: "ct_round \<Rightarrow> ct_shared \<Rightarrow> once_err option \<Rightarrow> ct_loop \<Rightarrow> ct_loop" where
  "after_attempt r sh err s =
    (let s2 = s\<lparr>cl_shared := sh, cl_fails := snd (tracker_record (is_start err) (cl_fails s))\<rparr>;
         s3 = loop_report (cr_now r) err (cl_fails s2) s2;
         s4 = (if is_start err then s3 else s3\<lparr>cl_buf := grow (cl_buf s3)\<rparr>)
     in s4\<lparr>cl_backoff := ct_backoff (cl_backoff s4)\<rparr>)"

lemma after_attempt_fields [simp]:
  "cl_fails (after_attempt r sh err s) = (if is_start err then cl_fails s + 1 else 0)"
  "cl_buf (after_attempt r sh err s) = (if is_start err then cl_buf s else grow (cl_buf s))"
  "cl_backoff (after_attempt r sh err s) = ct_backoff (cl_backoff s)"
  by (simp_all add: after_attempt_def tracker_record_def Let_def)

lemma loop_step_waits:
  "cr_once r (cl_buf s) (cl_shared s) = (sh, None) \<Longrightarrow> conntrack_loop (r # rs) s = ([], Waiting, s\<lparr>cl_shared := sh\<rparr>)"
  by simp

lemma loop_step_stops:
  assumes "cr_once r (cl_buf s) (cl_shared s) = (sh, Some err)" "cr_ctx r \<or> cr_stop r"
  shows "\<exists>e s'. conntrack_loop (r # rs) s = ([Attempt (cl_buf s) err], Returned e, s') \<and>
    (e \<noteq> None \<longrightarrow> is_start err \<and> 2 \<le> cl_fails s)"
  using assms by (auto simp: tracker_record_def Let_def maxConntrackStartFails_def)

lemma loop_step_gives_up:
  assumes "cr_once r (cl_buf s) (cl_shared s) = (sh, Some err)" "\<not> cr_ctx r" "is_start err" "2 \<le> cl_fails s"
  shows "\<exists>t s'. conntrack_loop (r # rs) s = ([Attempt (cl_buf s) err], Returned (Some t), s')"
  using assms by (simp add: tracker_record_def Let_def maxConntrackStartFails_def)

lemma loop_step_goes_on:
  assumes "cr_once r (cl_buf s) (cl_shared s) = (sh, Some err)" "\<not> cr_ctx r" "\<not> cr_stop r"
    "\<not> (is_start err \<and> 2 \<le> cl_fails s)"
  shows "conntrack_loop (r # rs) s =
    (case conntrack_loop rs (after_attempt r sh err s) of (tr, e, s') \<Rightarrow>
       (Attempt (cl_buf s) err # Slept (cl_backoff s) # tr, e, s'))"
  using assms
  by (auto simp: tracker_record_def Let_def maxConntrackStartFails_def after_attempt_def case_prod_beta
      simp del: conntrack_loop.simps) (auto simp: tracker_record_def Let_def maxConntrackStartFails_def after_attempt_def case_prod_beta)

declare conntrack_loop.simps(2) [simp del]

text \<open>A case split on what a round does, for the inductions below.\<close>

lemma loop_cases:
  obtains (waits) sh where "cr_once r (cl_buf s) (cl_shared s) = (sh, None)"
      "conntrack_loop (r # rs) s = ([], Waiting, s\<lparr>cl_shared := sh\<rparr>)"
  | (ends) sh err e s' where "cr_once r (cl_buf s) (cl_shared s) = (sh, Some err)"
      "conntrack_loop (r # rs) s = ([Attempt (cl_buf s) err], Returned e, s')"
      "e \<noteq> None \<longrightarrow> is_start err \<and> 2 \<le> cl_fails s" "e = None \<longrightarrow> cr_ctx r \<or> cr_stop r"
  | (goes_on) sh err tr e s' where "cr_once r (cl_buf s) (cl_shared s) = (sh, Some err)"
      "\<not> (is_start err \<and> 2 \<le> cl_fails s)"
      "conntrack_loop rs (after_attempt r sh err s) = (tr, e, s')"
      "conntrack_loop (r # rs) s = (Attempt (cl_buf s) err # Slept (cl_backoff s) # tr, e, s')"
proof -
  obtain sh res where o: "cr_once r (cl_buf s) (cl_shared s) = (sh, res)" by force
  show thesis
  proof (cases res)
    case None
    then show thesis using waits o loop_step_waits by blast
  next
    case (Some err)
    obtain tr e s' where l: "conntrack_loop rs (after_attempt r sh err s) = (tr, e, s')" by (metis prod_cases3)
    show thesis
    proof (cases "cr_ctx r \<or> cr_stop r")
      case True
      then show thesis using loop_step_stops [of r s sh err rs] o Some ends by blast
    next
      case False
      then show thesis
        using loop_step_gives_up [of r s sh err rs] loop_step_goes_on [of r s sh err rs] o Some l ends goes_on
        by (cases "is_start err \<and> 2 \<le> cl_fails s") fastforce+
    qed
  qed
qed

lemma loop_attempts_streak:
  assumes "conntrack_loop rs s = (tr, e, s')" "cl_fails s < 3"
  shows "(\<forall>n<length (attempts tr). start_streak (cl_fails s) (take n (map snd (attempts tr))) < 3) \<and>
    (e \<noteq> Waiting \<and> e \<noteq> Returned None \<longrightarrow> start_streak (cl_fails s) (map snd (attempts tr)) = 3)"
  using assms
proof (induction rs arbitrary: s tr e s')
  case (Cons r rs)
  show ?case
  proof (cases rule: loop_cases [where r = r and s = s and rs = rs])
    case (waits sh)
    then show ?thesis using Cons.prems by auto
  next
    case (ends sh err e1 s1)
    then show ?thesis using Cons.prems by (auto simp: less_Suc_eq_0_disj)
  next
    case (goes_on sh err tr1 e1 s1)
    have f: "cl_fails (after_attempt r sh err s) < 3" using goes_on(2) by (auto split: if_splits)
    note ih = Cons.IH [OF goes_on(3) f]
    have "tr = Attempt (cl_buf s) err # Slept (cl_backoff s) # tr1" "e = e1" using Cons.prems goes_on(4) by auto
    then show ?thesis using ih Cons.prems(2) by (auto simp: less_Suc_eq_0_disj)
  qed
qed auto

text \<open>The rounds of a run that is not cancelled and whose runs all return.\<close>

definition running :: "ct_round \<Rightarrow> bool" where
  "running r \<longleftrightarrow> \<not> cr_ctx r \<and> \<not> cr_stop r \<and> (\<forall>b sh. snd (cr_once r b sh) \<noteq> None)"

definition start_fails :: "ct_round \<Rightarrow> bool" where
  "start_fails r \<longleftrightarrow> (\<forall>b sh. \<exists>sh' t. cr_once r b sh = (sh', Some (Some (StartErr t))))"

lemma running_cases:
  assumes "running r"
  obtains (gives_up) err t s' where "conntrack_loop (r # rs) s = ([Attempt (cl_buf s) err], Returned (Some t), s')"
      "is_start err" "2 \<le> cl_fails s"
  | (goes_on) sh err tr e s' where "cr_once r (cl_buf s) (cl_shared s) = (sh, Some err)"
      "\<not> (is_start err \<and> 2 \<le> cl_fails s)"
      "conntrack_loop rs (after_attempt r sh err s) = (tr, e, s')"
      "conntrack_loop (r # rs) s = (Attempt (cl_buf s) err # Slept (cl_backoff s) # tr, e, s')"
proof (cases rule: loop_cases [where r = r and s = s and rs = rs])
  case (waits sh)
  then show thesis using assms by (metis running_def snd_conv)
next
  case (ends sh err e s')
  then show thesis using assms gives_up by (cases e) (auto simp: running_def)
next
  case (goes_on sh err tr e s')
  then show thesis using that(2) by blast
qed

text \<open>As many failed starts in a row as are missing to three end the loop.\<close>

lemma loop_gives_up_now:
  assumes "\<forall>r\<in>set (take k rs). running r \<and> start_fails r" "cl_fails s + k = 3" "0 < k" "k \<le> length rs"
  shows "\<exists>tr t s'. conntrack_loop rs s = (tr, Returned (Some t), s') \<and> length (attempts tr) = k"
  using assms
proof (induction k arbitrary: rs s)
  case (Suc k)
  then obtain r rs' where rs: "rs = r # rs'" by (cases rs) auto
  have r: "running r" "start_fails r" using Suc.prems(1) rs by auto
  obtain sh t where once: "cr_once r (cl_buf s) (cl_shared s) = (sh, Some (Some (StartErr t)))"
    using r(2) unfolding start_fails_def by blast
  from r(1) show ?case
  proof (cases rule: running_cases [where r = r and rs = rs' and s = s])
    case (gives_up err t' s')
    then show ?thesis using Suc.prems(2) rs by auto
  next
    case (goes_on sh' err tr e s')
    have err: "err = Some (StartErr t)" "sh' = sh" using once goes_on(1) by simp_all
    have "cl_fails s < 2" using goes_on(2) err by simp
    then have "0 < k" using Suc.prems(2) by simp
    moreover have "cl_fails (after_attempt r sh' err s) + k = 3" using Suc.prems(2) err by simp
    moreover have "\<forall>r\<in>set (take k rs'). running r \<and> start_fails r" using Suc.prems(1) rs by simp
    ultimately show ?thesis
      using Suc.IH [of rs' "after_attempt r sh' err s"] goes_on(3,4) Suc.prems(4) rs by auto
  qed
qed simp

lemma loop_gives_up:
  assumes "\<forall>r\<in>set (take (i + 3) rs). running r" "\<forall>r\<in>set (take 3 (drop i rs)). start_fails r" "i + 3 \<le> length rs"
    "cl_fails s < 3"
  shows "\<exists>tr t s'. conntrack_loop rs s = (tr, Returned (Some t), s') \<and> length (attempts tr) \<le> i + 3"
  using assms
proof (induction i arbitrary: rs s)
  case 0
  define k where "k = 3 - cl_fails s"
  have "set (take k rs) \<subseteq> set (take 3 rs)" by (simp add: k_def set_take_subset_set_take)
  then have "\<exists>tr t s'. conntrack_loop rs s = (tr, Returned (Some t), s') \<and> length (attempts tr) = k"
    using 0 by (intro loop_gives_up_now) (auto simp: k_def)
  then show ?case by (auto simp: k_def)
next
  case (Suc i)
  then obtain r rs' where rs: "rs = r # rs'" by (cases rs) auto
  have "running r" using Suc.prems(1) rs by (simp add: take_Cons')
  then show ?case
  proof (cases rule: running_cases [where r = r and rs = rs' and s = s])
    case (gives_up err t s')
    then show ?thesis using rs by auto
  next
    case (goes_on sh err tr e s')
    have "cl_fails (after_attempt r sh err s) < 3" using goes_on(2) by auto
    then show ?thesis
      using Suc.IH [of rs' "after_attempt r sh err s"] Suc.prems rs goes_on(3,4) by (auto simp: take_Cons' add.commute)
  qed
qed

subsection \<open>Pauses and buffers\<close>

lemma ct_backoff_min: "ct_backoff (2 ^ min (k + 1) 5 * second) = 2 ^ min (k + 2) 5 * second"
proof -
  consider "k = 0" | "k = 1" | "k = 2" | "k = 3" | "4 \<le> k" by linarith
  then show ?thesis by cases (simp_all add: ct_backoff_def min_def)
qed

lemma loop_slept:
  assumes "conntrack_loop rs s = (tr, e, s')" "cl_backoff s = 2 ^ min (k + 1) 5 * second"
  shows "\<forall>i<length (slept tr). slept tr ! i = 2 ^ min (k + i + 1) 5 * second"
  using assms
proof (induction rs arbitrary: s tr k)
  case (Cons r rs)
  show ?case
  proof (cases rule: loop_cases [where r = r and s = s and rs = rs])
    case (waits sh)
    then show ?thesis using Cons.prems by auto
  next
    case (ends sh err e1 s1)
    then show ?thesis using Cons.prems by auto
  next
    case (goes_on sh err tr1 e1 s1)
    have tr: "tr = Attempt (cl_buf s) err # Slept (cl_backoff s) # tr1" "e = e1" "s' = s1"
      using Cons.prems(1) goes_on(4) by auto
    have "cl_backoff (after_attempt r sh err s) = 2 ^ min (Suc k + 1) 5 * second"
      using Cons.prems(2) ct_backoff_min [of k] by simp
    then have "\<forall>i<length (slept tr1). slept tr1 ! i = 2 ^ min (Suc k + i + 1) 5 * second"
      using Cons.IH goes_on(3) tr by blast
    then show ?thesis using tr Cons.prems(2) by (auto simp: nth_Cons' gr0_conv_Suc)
  qed
qed auto

text \<open>The attempts that had started, among the first ones.\<close>

definition started :: "once_err option list \<Rightarrow> nat" where
  "started es = length (filter (\<lambda>e. \<not> is_start e) es)"

lemma grow_min: "0 \<le> b \<Longrightarrow> grow (min b netlinkBufferMax) = min (b * 2) netlinkBufferMax"
  by (auto simp: grow_def min_def netlinkBufferMax_def)

lemma loop_buffers:
  assumes "conntrack_loop rs s = (tr, e, s')" "cl_buf s = min (b * 2 ^ k) netlinkBufferMax" "0 \<le> b"
  shows "\<forall>i<length (attempts tr). fst (attempts tr ! i) =
    min (b * 2 ^ (k + started (take i (map snd (attempts tr))))) netlinkBufferMax"
  using assms
proof (induction rs arbitrary: s tr k)
  case (Cons r rs)
  show ?case
  proof (cases rule: loop_cases [where r = r and s = s and rs = rs])
    case (waits sh)
    then show ?thesis using Cons.prems by auto
  next
    case (ends sh err e1 s1)
    then show ?thesis using Cons.prems by (auto simp: started_def)
  next
    case (goes_on sh err tr1 e1 s1)
    have tr: "tr = Attempt (cl_buf s) err # Slept (cl_backoff s) # tr1" "e = e1" "s' = s1"
      using Cons.prems(1) goes_on(4) by auto
    define j where "j = (if is_start err then k else Suc k)"
    have "cl_buf (after_attempt r sh err s) = min (b * 2 ^ j) netlinkBufferMax"
      using Cons.prems(2,3) grow_min [of "b * 2 ^ k"] by (simp add: j_def ac_simps)
    then have ih: "\<forall>i<length (attempts tr1). fst (attempts tr1 ! i) =
        min (b * 2 ^ (j + started (take i (map snd (attempts tr1))))) netlinkBufferMax"
      using Cons.IH goes_on(3) tr Cons.prems(3) by blast
    have "k + started (err # es) = j + started es" for es by (simp add: started_def j_def)
    then show ?thesis using ih tr Cons.prems(2) by (auto simp: nth_Cons' gr0_conv_Suc started_def)
  qed
qed auto

subsection \<open>Counting what the kernel dropped\<close>

lemma on_hook_fields [simp]:
  "on_counter (on_hook now c b s) = on_counter s" "on_lastDrops (on_hook now c b s) = on_lastDrops s"
  "on_first (on_hook now c b s) = on_first s" "on_buf (on_hook now c b s) = on_buf s"
  by (auto simp: on_hook_def Let_def split: option.split)

lemma on_err_fields [simp]:
  "on_counter (on_err now e s) = on_counter s" "on_lastDrops (on_err now e s) = on_lastDrops s"
  "on_first (on_err now e s) = on_first s" "on_buf (on_err now e s) = on_buf s"
  by (auto simp: on_err_def split: option.split)

lemma checkFreshness_fields [simp]:
  "on_counter (checkFreshness now a b s) = on_counter s" "on_lastDrops (checkFreshness now a b s) = on_lastDrops s"
  "on_first (checkFreshness now a b s) = on_first s" "on_buf (checkFreshness now a b s) = on_buf s"
  by (auto simp: checkFreshness_def Let_def case_prod_beta)

text \<open>The counter and the last reading differ by the same amount before and after.\<close>

lemma checkOverrun_counts:
  assumes "\<not> on_first s" "on_counter s = Some c"
  shows "\<not> on_first (checkOverrun now v e s) \<and>
    on_counter (checkOverrun now v e s) = Some (c + (on_lastDrops (checkOverrun now v e s) - on_lastDrops s))"
  using assms by (auto simp: checkOverrun_def Let_def split: sum.split option.split)

lemma checkOverrun_first:
  "on_first s \<Longrightarrow> on_counter (checkOverrun now v e s) = on_counter s \<and>
    (on_first (checkOverrun now v e s) \<longrightarrow> on_lastDrops (checkOverrun now v e s) = on_lastDrops s)"
  by (auto simp: checkOverrun_def split: sum.split)

lemma checkOverrun_buf: "on_buf s \<le> netlinkBufferMax \<Longrightarrow> on_buf (checkOverrun now v e s) \<le> netlinkBufferMax"
  using grow_bound by (auto simp: checkOverrun_def Let_def split: sum.split option.split)

text \<open>The readings of the drop counter that a sequence of inputs makes.\<close>

fun readings :: "(int \<times> ct_input) list \<Rightarrow> u64 list" where
  "readings [] = []"
| "readings ((now, OverrunTick v e) # xs) = (case netlinkDrops v of Inl _ \<Rightarrow> readings xs | Inr d \<Rightarrow> d # readings xs)"
| "readings (_ # xs) = readings xs"

text \<open>No input ends the loop.\<close>

definition keeps_on :: "(int \<times> ct_input) list \<Rightarrow> bool" where
  "keeps_on xs \<longleftrightarrow> (\<forall>x\<in>set xs. snd x \<noteq> CtxDone \<and> snd x \<noteq> TakeDead)"

lemma checkOverrun_last:
  "on_lastDrops (checkOverrun now v e s) = (case netlinkDrops v of Inl _ \<Rightarrow> on_lastDrops s | Inr d \<Rightarrow> d)"
  "on_first (checkOverrun now v e s) = (on_first s \<and> (\<exists>t. netlinkDrops v = Inl t))"
  by (auto simp: checkOverrun_def Let_def split: sum.split option.split)

lemma once_loop_counts:
  assumes "keeps_on xs" "\<not> on_first s" "on_counter s = Some c"
  shows "on_counter (fst (once_loop xs s)) = Some (c + (last (on_lastDrops s # readings xs) - on_lastDrops s))"
  using assms
proof (induction xs arbitrary: s c)
  case (Cons x xs)
  obtain now i where x: "x = (now, i)" by force
  have k: "keeps_on xs" "i \<noteq> CtxDone" "i \<noteq> TakeDead" using Cons.prems(1) x by (auto simp: keeps_on_def)
  show ?case
  proof (cases i)
    case (OverrunTick v e)
    let ?s = "checkOverrun now v e s"
    have c: "\<not> on_first ?s" "on_counter ?s = Some (c + (on_lastDrops ?s - on_lastDrops s))"
      using checkOverrun_counts [OF Cons.prems(2,3)] by auto
    have "last (on_lastDrops ?s # readings xs) = last (on_lastDrops s # readings (x # xs))"
      using OverrunTick x by (simp add: checkOverrun_last split: sum.split)
    then show ?thesis using Cons.IH [OF k(1) c] OverrunTick x by simp
  qed (use Cons k x in auto)
qed simp

lemma once_loop_first:
  assumes "keeps_on xs" "on_first s" "on_counter s = Some c"
  shows "on_counter (fst (once_loop xs s)) = Some (c + (case readings xs of [] \<Rightarrow> 0 | d # ds \<Rightarrow> last (d # ds) - d))"
  using assms
proof (induction xs arbitrary: s)
  case (Cons x xs)
  obtain now i where x: "x = (now, i)" by force
  have k: "keeps_on xs" "i \<noteq> CtxDone" "i \<noteq> TakeDead" using Cons.prems(1) x by (auto simp: keeps_on_def)
  show ?case
  proof (cases i)
    case (OverrunTick v e)
    let ?s = "checkOverrun now v e s"
    have c: "on_counter ?s = Some c" using checkOverrun_first [OF Cons.prems(2)] Cons.prems(3) by auto
    show ?thesis
    proof (cases "netlinkDrops v")
      case (Inl t)
      then show ?thesis
        using Cons.IH [OF k(1) _ c] Cons.prems(2) OverrunTick x by (simp add: checkOverrun_last)
    next
      case (Inr d)
      then show ?thesis
        using once_loop_counts [OF k(1) _ c] OverrunTick x by (simp add: checkOverrun_last)
    qed
  qed (use Cons k x in auto)
qed simp

end
