(* ===== verification/PropConn.thy ===== *)
theory PropConn
  imports Conn
begin

text \<open>
  What the connection channel and the configuration promise: giving up and falling back, the schedule
  of restarts, the counter of dropped events, the exact difference of two snapshots, and that a loaded
  configuration is well formed.
\<close>

subsection \<open>The connection channel\<close>

text \<open>C17: The channel does not stay dead. When three successive starts of the listener fail, at whatever
  point of a run that is not cancelled, the loop ends within these attempts and the fallback listener
  runs; replaying the events it delivers gives the connections of the last snapshot it could take.\<close>

theorem channel_falls_back:
  assumes "ct_Mode (cfg_Conntrack cfg) = ''auto''"
    "\<forall>r\<in>set (take (i + 3) rounds). running r" "\<forall>r\<in>set (take 3 (drop i rounds)). start_fails r"
    "i + 3 \<le> length rounds" "fair_ticks ticks Map.empty"
  shows "\<exists>tr t s events. RunConntrackListener now (cfg_Conntrack cfg) acctErr rmemErr rounds sh = (tr, Returned (Some t), s) \<and>
    length (attempts tr) \<le> i + 3 \<and> snd (runConnChannel now cfg acctErr rmemErr rounds ticks sh) \<and>
    sh_sink (fst (runConnChannel now cfg acctErr rmemErr rounds ticks sh)) = sh_sink (cl_shared s) @ events \<and>
    replay events {} = last_conns ticks {}"
proof -
  obtain tr t s where l: "RunConntrackListener now (cfg_Conntrack cfg) acctErr rmemErr rounds sh = (tr, Returned (Some t), s)"
    "length (attempts tr) \<le> i + 3"
    using loop_gives_up [OF assms(2-4)]
    unfolding RunConntrackListener_def runConntrackLoop_def Let_def by (metis ct_loop.select_convs(4) zero_less_numeral)
  let ?f = "RunFallbackConnListener now ticks
    (ReportSys now ''conntrack'' ''warn'' (''switching to fallback'' # t) (sh_sys (cl_shared s)))"
  have "replay (fb_sink ?f) {} = last_conns ticks {}"
    unfolding RunFallbackConnListener_def runFallbackConnListener_def
    by (subst fallback_loop_tracks) (use assms(5) in \<open>simp_all add: keyed_def replay_def table_def\<close>)
  moreover have "runConnChannel now cfg acctErr rmemErr rounds ticks sh =
      ((cl_shared s)\<lparr>sh_sink := sh_sink (cl_shared s) @ fb_sink ?f, sh_sys := fb_sys ?f\<rparr>, True)"
    using assms(1) l(1) by (simp add: runConnChannel_def Let_def)
  ultimately show ?thesis using l by simp
qed

definition failing_round :: ct_round where
  "failing_round = \<lparr>cr_once = (\<lambda>b sh. (sh, Some (Some (StartErr [''no NET_ADMIN''])))), cr_ctx = False, cr_now = 0, cr_stop = False\<rparr>"

theorem channel_falls_back_witness:
  "snd (runConnChannel 0 Defaults None None (replicate 3 failing_round)
     [\<lparr>ft_now = 0, ft_cmd = Inl ''no ss'', ft_cur = [], ft_prev = [], ft_cancel = None\<rparr>]
     \<lparr>sh_sink = [], sh_sys = None, sh_counter = None\<rparr>)"
proof -
  let ?t = "[\<lparr>ft_now = 0, ft_cmd = Inl ''no ss'', ft_cur = [], ft_prev = [], ft_cancel = None\<rparr>]"
  have "ct_Mode (cfg_Conntrack Defaults) = ''auto''" by (simp add: Defaults_def)
  moreover have "running failing_round" "start_fails failing_round"
    by (simp_all add: failing_round_def running_def start_fails_def)
  moreover have "fair_ticks ?t Map.empty" by (simp add: runSS_def)
  ultimately show ?thesis
    using channel_falls_back [of Defaults 0 "replicate 3 failing_round" ?t] by fastforce
qed

text \<open>Restarts are paced and the netlink buffer stays bounded: the pauses are 2, 4, 8, 16 and from
  then on 32 seconds; an attempt uses the configured buffer doubled once for every earlier attempt that
  had started, never above 8 MiB; the loop gives up only after exactly three failed starts in a row.\<close>

theorem listener_schedule:
  assumes "conntrack_ok cfg" "RunConntrackListener now cfg acctErr rmemErr rounds sh = (tr, e, s)"
  shows "(\<forall>i<length (slept tr). slept tr ! i = 2 ^ min (i + 1) 5 * second) \<and>
    (\<forall>i<length (attempts tr). fst (attempts tr ! i) =
       min (BufferSizeKB cfg * 1024 * 2 ^ started (take i (map snd (attempts tr)))) (8 * 1024 * 1024)) \<and>
    (\<forall>n<length (attempts tr). start_streak 0 (take n (map snd (attempts tr))) < 3) \<and>
    (\<forall>t. e = Returned (Some t) \<longrightarrow> start_streak 0 (map snd (attempts tr)) = 3)"
proof -
  obtain sh' where l: "conntrack_loop rounds \<lparr>cl_backoff = 2 * second, cl_buf = BufferSizeKB cfg * 1024,
      cl_rep = NewRateLimiter (5 * minute), cl_fails = 0, cl_shared = sh'\<rparr> = (tr, e, s)"
    using assms(2) by (auto simp: RunConntrackListener_def runConntrackLoop_def Let_def)
  have b: "BufferSizeKB cfg * 1024 = min (BufferSizeKB cfg * 1024 * 2 ^ 0) netlinkBufferMax" "0 \<le> BufferSizeKB cfg * 1024"
    using assms(1) by (simp_all add: conntrack_ok_def netlinkBufferMax_def)
  show ?thesis
    using loop_slept [OF l, of 0] loop_buffers [OF l, of "BufferSizeKB cfg * 1024" 0] b loop_attempts_streak [OF l]
    by (simp add: netlinkBufferMax_def)
qed

theorem listener_schedule_witness:
  "slept (fst (RunConntrackListener 0 (cfg_Conntrack Defaults) None None (replicate 3 failing_round)
     \<lparr>sh_sink = [], sh_sys = None, sh_counter = None\<rparr>)) = [2 * second, 4 * second]"
proof -
  let ?r = "RunConntrackListener 0 (cfg_Conntrack Defaults) None None (replicate 3 failing_round)
    \<lparr>sh_sink = [], sh_sys = None, sh_counter = None\<rparr>"
  have c: "conntrack_ok (cfg_Conntrack Defaults)" using Defaults_config_ok by (simp add: config_ok_def)
  have "length (slept (fst ?r)) = 2"
    by (simp add: RunConntrackListener_def runConntrackLoop_def Let_def numeral_3_eq_3 conntrack_loop.simps
        failing_round_def tracker_record_def maxConntrackStartFails_def case_prod_beta)
  then show ?thesis
    using listener_schedule [OF c, of 0 None None "replicate 3 failing_round" _ "fst ?r" "fst (snd ?r)" "snd (snd ?r)"]
    by (auto simp: list_eq_iff_nth_eq less_Suc_eq nth_Cons' numeral_2_eq_2)
qed

text \<open>Every event the kernel drops after the first reading of the drop counter is counted exactly
  once: over any run of one round that is not ended, with events, errors and freshness checks in
  between and readings that fail, the shared counter grows by the last reading minus the first.\<close>

theorem overruns_counted:
  assumes "keeps_on xs" "sh_counter sh = Some c"
  shows "on_counter (fst (once_loop xs (once_start b sh))) =
    Some (c + (case readings xs of [] \<Rightarrow> 0 | d # ds \<Rightarrow> last (d # ds) - d))"
  using once_loop_first [OF assms(1), of "once_start b sh" c] assms(2) by (simp add: once_start_def)

lemma fields_eval:
  "Fields ''p 12 1 00000007 0 0 0 2 5 77'' = [''p'', ''12'', ''1'', ''00000007'', ''0'', ''0'', ''0'', ''2'', ''5'', ''77'']"
  "Fields ''p 12 1 00000007 0 0 0 2 9 77'' = [''p'', ''12'', ''1'', ''00000007'', ''0'', ''0'', ''0'', ''2'', ''9'', ''77'']"
  by (simp_all add: Fields_def space_seg_def space_rune_def bval_def)

lemmas numeral_eval = atoi_def parse_uint_def all_digits_def digits_val_def is_digit_def bval_def Let_def has_prefix_def
  netlinkNetfilterProto_def

definition netlink_view :: "bytes \<Rightarrow> proc_view" where
  "netlink_view d = \<lparr>pv_fds = Inr [Some ''socket:[77]''],
     pv_netlink = Inr (''p 12 1 00000007 0 0 0 2 '' @ d @ '' 77'')\<rparr>"

theorem overruns_counted_witness:
  "on_counter (fst (once_loop [(0, OverrunTick (netlink_view ''5'') None), (1, OverrunTick (netlink_view ''9'') None)]
     (once_start 1024 \<lparr>sh_sink = [], sh_sys = None, sh_counter = Some 1\<rparr>))) = Some 5"
proof -
  have r: "netlinkDrops (netlink_view ''5'') = Inr 5" "netlinkDrops (netlink_view ''9'') = Inr 9"
    unfolding netlinkDrops_def netlinkOwnInfos_def netlink_view_def ownSocketInodes_def parseNetlinkOwn_def
    by (simp_all add: List.map_filter_simps socket_inode_def has_prefix_def has_suffix_def parse_own_def
        fields_eval numeral_eval)
  show ?thesis
    using overruns_counted [of "[(0, OverrunTick (netlink_view ''5'') None), (1, OverrunTick (netlink_view ''9'') None)]"
        "\<lparr>sh_sink = [], sh_sys = None, sh_counter = Some 1\<rparr>" 1 1024] r
    by (simp add: keeps_on_def)
qed

text \<open>C11: The difference of two snapshots is exact, whatever the order the maps are iterated in: the
  connections of NEW events are those only the second has, of DESTROY events those only the first has,
  of UPDATE events those whose state changed, and no connection has two events.\<close>

theorem snapshot_diff_exact:
  assumes "enumerates ck (snap_map_of new)" "enumerates pk (snap_map_of old)"
  shows "tuples_of EvNew (diffSnapshots ck pk (snap_map_of old) (snap_map_of new) ts) = conn_tuple ` set new - conn_tuple ` set old \<and>
    tuples_of EvDestroy (diffSnapshots ck pk (snap_map_of old) (snap_map_of new) ts) = conn_tuple ` set old - conn_tuple ` set new \<and>
    tuples_of EvUpdate (diffSnapshots ck pk (snap_map_of old) (snap_map_of new) ts) = changed (snap_map_of old) (snap_map_of new) \<and>
    distinct (map event_tuple (diffSnapshots ck pk (snap_map_of old) (snap_map_of new) ts))"
  unfolding table_of_conns [symmetric]
  by (intro conjI diff_new diff_destroy diff_update diff_distinct assms snap_map_keyed)

definition sample_conn :: "u16 \<Rightarrow> snap_conn" where
  "sample_conn p = \<lparr>sc_proto = 6, sc_src = 1, sc_sport = p, sc_dst = 2, sc_dport = 22, sc_state = ''ESTAB'', sc_pid = -1\<rparr>"

theorem snapshot_diff_exact_witness:
  "tuples_of EvNew (diffSnapshots [snapKey (sample_conn 5)] [] (snap_map_of []) (snap_map_of [sample_conn 5]) 0) = {(6, 1, 5, 2, 22)}"
  using snapshot_diff_exact [of "[snapKey (sample_conn 5)]" "[sample_conn 5]" "[]" "[]" 0]
  by (simp add: enumerates_def snap_map_of_def conn_tuple_def sample_conn_def)

subsection \<open>The configuration\<close>

text \<open>C16: Loading accepts a file exactly when it decodes over the defaults to a well-formed
  configuration: intervals and limits in range, a buffer of at most 8 MiB, ordered disk thresholds,
  known modes and sources, networks and addresses that the firewall filter will parse as IPv4, a
  time of day, and listen addresses of registered protocols with a port. The defaults are such.\<close>

theorem load_well_formed:
  "(Load (Inr data) = Inr c \<longleftrightarrow> Unmarshal data Defaults = Some c \<and> config_ok c) \<and> config_ok Defaults"
  using Defaults_config_ok by (auto simp: Load_def Validate_config_ok [symmetric] split: option.splits)

text \<open>A time of day is accepted exactly in the form of two digits, a colon and two digits, with an
  hour below 24 and a minute below 60, and it is then the two numbers.\<close>

theorem hour_minute_exact:
  "ParseHourMinute s = Some (h, m) \<longleftrightarrow> h \<le> 23 \<and> m \<le> 59 \<and> s = dd h @ CHR '':'' # dd m"
  by (rule ParseHourMinute_iff)

end
