(* ===== verification/World.thy ===== *)
theory World
  imports "HOL-Library.AList" Events
begin

text \<open>
  What the store and the archiver act on: the SQLite database, through the statements of the source,
  and the files of the archive directory.

  The database is the list of its committed statements; the content of its tables is what applying them
  gives, with SQLite's documented meaning of each statement. Every call to the database or to the
  operating system takes the next outcome of a script: it succeeds, fails without effect, or the process
  dies there; a dead process changes nothing any more. The theorems hold for every script.
\<close>

subsection \<open>Tables\<close>

datatype sqlval = VInt int | VReal rat | VText bytes

type_synonym row = "int \<times> sqlval list"

record tables =
  tb_rows :: "bytes \<Rightarrow> row list"
  tb_meta :: "bytes \<rightharpoonup> bytes"

text \<open>
  The statements that change the main database: INSERT into an event table (the columns after the
  primary key), the batched DELETE of old rows, and the two forms of writing a key of meta.
\<close>

datatype stmt =
    Insert bytes "sqlval list"
  | DeleteOld bytes int nat
  | UpsertMeta bytes bytes
  | InitMeta bytes bytes

text \<open>The first column after the key is the time stamp, in every event table.\<close>

definition row_ts :: "row \<Rightarrow> int" where
  "row_ts r = (case snd r of VInt t # _ \<Rightarrow> t | _ \<Rightarrow> 0)"

definition next_id :: "row list \<Rightarrow> int" where
  "next_id rs = (if rs = [] then 1 else Max (set (map fst rs)) + 1)"

text \<open>\<^verbatim>\<open>WHERE ts > 0 AND ts < cutoff\<close>.\<close>

definition old_row :: "int \<Rightarrow> row \<Rightarrow> bool" where
  "old_row cutoff r \<longleftrightarrow> 0 < row_ts r \<and> row_ts r < cutoff"

text \<open>\<^verbatim>\<open>SELECT id ... ORDER BY id LIMIT n\<close>.\<close>

definition oldest_ids :: "int \<Rightarrow> nat \<Rightarrow> row list \<Rightarrow> int list" where
  "oldest_ids cutoff n rs = take n (sort (map fst (filter (old_row cutoff) rs)))"

definition in_batch :: "int \<Rightarrow> nat \<Rightarrow> row list \<Rightarrow> row \<Rightarrow> bool" where
  "in_batch cutoff n rs r \<longleftrightarrow> old_row cutoff r \<and> fst r \<in> set (oldest_ids cutoff n rs)"

fun apply_stmt :: "stmt \<Rightarrow> tables \<Rightarrow> tables" where
  "apply_stmt (Insert t vs) d = d\<lparr>tb_rows := (tb_rows d)(t := tb_rows d t @ [(next_id (tb_rows d t), vs)])\<rparr>"
| "apply_stmt (DeleteOld t c n) d = d\<lparr>tb_rows := (tb_rows d)(t := filter (\<lambda>r. \<not> in_batch c n (tb_rows d t) r) (tb_rows d t))\<rparr>"
| "apply_stmt (UpsertMeta k v) d = d\<lparr>tb_meta := (tb_meta d)(k \<mapsto> v)\<rparr>"
| "apply_stmt (InitMeta k v) d = (if tb_meta d k = None then d\<lparr>tb_meta := (tb_meta d)(k \<mapsto> v)\<rparr> else d)"

definition empty_tables :: tables where
  "empty_tables = \<lparr>tb_rows = (\<lambda>_. []), tb_meta = Map.empty\<rparr>"

definition tables_of :: "stmt list \<Rightarrow> tables" where
  "tables_of ss = fold apply_stmt ss empty_tables"

subsection \<open>The world\<close>

datatype outcome = Success | Failure bytes | Crash

text \<open>A file of the archive directory: a database file, its compressed form, or something unfinished.\<close>

datatype fcontent = DbFile "(bytes \<times> row list) list" | Gz "(bytes \<times> row list) list" | Partial

record world =
  w_hist :: "stmt list"
  w_txn :: "stmt list option"
  w_files :: "(bytes \<times> fcontent) list"
  w_arc :: "bytes option"
  w_out :: "outcome list"
  w_dead :: bool

text \<open>The next call: its error, if any. An exhausted script means success.\<close>

definition call :: "world \<Rightarrow> bytes option \<times> world" where
  "call w =
    (if w_dead w then (Some ''dead'', w)
     else case w_out w of [] \<Rightarrow> (None, w)
     | Success # xs \<Rightarrow> (None, w\<lparr>w_out := xs\<rparr>)
     | Failure e # xs \<Rightarrow> (Some e, w\<lparr>w_out := xs\<rparr>)
     | Crash # xs \<Rightarrow> (Some ''crash'', w\<lparr>w_out := xs, w_dead := True\<rparr>))"

text \<open>What the connection sees: the committed statements and those of its open transaction.\<close>

definition seen :: "world \<Rightarrow> tables" where
  "seen w = tables_of (w_hist w @ (case w_txn w of None \<Rightarrow> [] | Some ss \<Rightarrow> ss))"

definition committed :: "world \<Rightarrow> tables" where
  "committed w = tables_of (w_hist w)"

definition sql_begin :: "world \<Rightarrow> bytes option \<times> world" where
  "sql_begin w = (case call w of (Some e, w') \<Rightarrow> (Some e, w')
    | (None, w') \<Rightarrow> (case w_txn w' of Some _ \<Rightarrow> (Some ''transaction within a transaction'', w')
        | None \<Rightarrow> (None, w'\<lparr>w_txn := Some []\<rparr>)))"

definition sql_commit :: "world \<Rightarrow> bytes option \<times> world" where
  "sql_commit w = (case call w of (Some e, w') \<Rightarrow> (Some e, w')
    | (None, w') \<Rightarrow> (case w_txn w' of None \<Rightarrow> (Some ''no transaction'', w')
        | Some ss \<Rightarrow> (None, w'\<lparr>w_hist := w_hist w' @ ss, w_txn := None\<rparr>)))"

definition sql_rollback :: "world \<Rightarrow> bytes option \<times> world" where
  "sql_rollback w = (case call w of (Some e, w') \<Rightarrow> (Some e, w')
    | (None, w') \<Rightarrow> (case w_txn w' of None \<Rightarrow> (Some ''no transaction'', w')
        | Some ss \<Rightarrow> (None, w'\<lparr>w_txn := None\<rparr>)))"

text \<open>A statement outside a transaction commits by itself.\<close>

definition sql_exec :: "stmt \<Rightarrow> world \<Rightarrow> bytes option \<times> world" where
  "sql_exec st w = (case call w of (Some e, w') \<Rightarrow> (Some e, w')
    | (None, w') \<Rightarrow> (None, case w_txn w' of None \<Rightarrow> w'\<lparr>w_hist := w_hist w' @ [st]\<rparr>
        | Some ss \<Rightarrow> w'\<lparr>w_txn := Some (ss @ [st])\<rparr>))"

text \<open>A query, as its error or the value of a function of what the connection sees.\<close>

definition sql_query :: "(tables \<Rightarrow> 'a) \<Rightarrow> world \<Rightarrow> (bytes + 'a) \<times> world" where
  "sql_query q w = (case call w of (Some e, w') \<Rightarrow> (Inl e, w') | (None, w') \<Rightarrow> (Inr (q (seen w')), w'))"

text \<open>A process that starts again: no transaction, nothing attached, a new script.\<close>

definition restarted :: "outcome list \<Rightarrow> world \<Rightarrow> world" where
  "restarted script w = w\<lparr>w_txn := None, w_arc := None, w_out := script, w_dead := False\<rparr>"

subsection \<open>Lemmas\<close>

lemma call_fields [simp]:
  "w_hist (snd (call w)) = w_hist w" "w_txn (snd (call w)) = w_txn w" "w_files (snd (call w)) = w_files w"
  "w_arc (snd (call w)) = w_arc w"
  by (auto simp: call_def split: list.split outcome.split)

lemma call_cases:
  obtains (fails) e w' where "call w = (Some e, w')" "w_hist w' = w_hist w" "w_txn w' = w_txn w"
      "w_files w' = w_files w" "w_arc w' = w_arc w"
  | (works) w' where "call w = (None, w')" "w_hist w' = w_hist w" "w_txn w' = w_txn w"
      "w_files w' = w_files w" "w_arc w' = w_arc w"
  by (metis call_fields option.exhaust prod.collapse)

lemma tables_of_append: "tables_of (ss @ ts) = fold apply_stmt ts (tables_of ss)"
  by (simp add: tables_of_def)

lemma sql_begin_cases:
  assumes "w_txn w = None"
  obtains (fails) e w' where "sql_begin w = (Some e, w')" "w_hist w' = w_hist w" "w_txn w' = None" "w_files w' = w_files w"
  | (works) w' where "sql_begin w = (None, w')" "w_hist w' = w_hist w" "w_txn w' = Some []" "w_files w' = w_files w"
proof (cases w rule: call_cases)
  case (fails e w')
  then show thesis using assms that(1) by (simp add: sql_begin_def)
next
  case (works w')
  then show thesis using assms that(2) [of "w'\<lparr>w_txn := Some []\<rparr>"] by (simp add: sql_begin_def)
qed

lemma sql_exec_in_txn:
  assumes "w_txn w = Some ss"
  obtains (fails) e w' where "sql_exec st w = (Some e, w')" "w_hist w' = w_hist w" "w_txn w' = Some ss"
  | (works) w' where "sql_exec st w = (None, w')" "w_hist w' = w_hist w" "w_txn w' = Some (ss @ [st])"
proof (cases w rule: call_cases)
  case (fails e w')
  then show thesis using assms that(1) by (simp add: sql_exec_def)
next
  case (works w')
  then show thesis using assms that(2) [of "w'\<lparr>w_txn := Some (ss @ [st])\<rparr>"] by (simp add: sql_exec_def)
qed

lemma sql_exec_auto:
  assumes "w_txn w = None"
  obtains (fails) e w' where "sql_exec st w = (Some e, w')" "w_hist w' = w_hist w" "w_txn w' = None" "w_files w' = w_files w"
  | (works) w' where "sql_exec st w = (None, w')" "w_hist w' = w_hist w @ [st]" "w_txn w' = None" "w_files w' = w_files w"
proof (cases w rule: call_cases)
  case (fails e w')
  then show thesis using assms that(1) by (simp add: sql_exec_def)
next
  case (works w')
  then show thesis using assms that(2) [of "w'\<lparr>w_hist := w_hist w' @ [st]\<rparr>"] by (simp add: sql_exec_def)
qed

lemma sql_commit_cases:
  assumes "w_txn w = Some ss"
  obtains (fails) e w' where "sql_commit w = (Some e, w')" "w_hist w' = w_hist w" "w_txn w' = Some ss"
  | (works) w' where "sql_commit w = (None, w')" "w_hist w' = w_hist w @ ss" "w_txn w' = None"
proof (cases w rule: call_cases)
  case (fails e w')
  then show thesis using assms that(1) by (simp add: sql_commit_def)
next
  case (works w')
  then show thesis using assms that(2) [of "w'\<lparr>w_hist := w_hist w' @ ss, w_txn := None\<rparr>"] by (simp add: sql_commit_def)
qed

lemma sql_rollback_hist [simp]: "w_hist (snd (sql_rollback w)) = w_hist w"
  by (cases w rule: call_cases) (auto simp: sql_rollback_def split: option.split)

text \<open>Every table has its ids in ascending order.\<close>

definition ids_ok :: "row list \<Rightarrow> bool" where
  "ids_ok rs \<longleftrightarrow> sorted_wrt (<) (map fst rs)"

lemma ids_next: "ids_ok rs \<Longrightarrow> ids_ok (rs @ [(next_id rs, vs)])"
proof -
  assume "ids_ok rs"
  moreover have "\<forall>i\<in>set (map fst rs). i < next_id rs"
    by (auto simp: next_id_def intro!: le_imp_less_Suc order.strict_trans1 [OF Max_ge])
  ultimately show ?thesis by (simp add: ids_ok_def sorted_wrt_append)
qed

lemma ids_filter: "ids_ok rs \<Longrightarrow> ids_ok (filter P rs)"
  by (induction rs) (auto simp: ids_ok_def)

lemma ids_apply: "\<forall>t. ids_ok (tb_rows d t) \<Longrightarrow> ids_ok (tb_rows (apply_stmt s d) t)"
  by (cases s) (auto intro: ids_next ids_filter)

lemma ids_tables: "ids_ok (tb_rows (tables_of ss) t)"
proof -
  have "\<forall>t. ids_ok (tb_rows (fold apply_stmt ss d) t)" if "\<forall>t. ids_ok (tb_rows d t)" for d
    using that by (induction ss arbitrary: d) (simp_all add: ids_apply)
  then show ?thesis by (simp add: tables_of_def empty_tables_def ids_ok_def)
qed

end
