(* ===== verification/Archive.thy ===== *)
theory Archive
  imports World Config
begin

text \<open>
  \<^verbatim>\<open>internal/archive/archive.go\<close> (with \<^verbatim>\<open>internal/diskutil/disk_linux.go\<close>): the monthly copies. A
  month is exported from the main database to a temporary database file, compressed to a second
  temporary file, renamed to its final name and recorded in the key copied_months of meta; the checks
  at the start heal what an interrupted run left.

  Files are named relative to the archive directory. The local time zone is an argument; instants are
  whole seconds (only dates and comparisons with whole seconds depend on them).
\<close>

subsection \<open>Disk usage\<close>

text \<open>\<^verbatim>\<open>statfs\<close>: blocks, block size and free blocks. Percentages are exact rationals.\<close>

definition Usage :: "(bytes + u64 \<times> u64 \<times> u64) \<Rightarrow> bytes + u64 \<times> u64" where
  "Usage st =
    (case st of Inl e \<Rightarrow> Inl e
     | Inr (blocks, bsize, bfree) \<Rightarrow>
       (let tot = blocks * bsize in if tot = 0 then Inl ''zero total'' else Inr (tot, bfree * bsize)))"

definition UsagePercent :: "(bytes + u64 \<times> u64 \<times> u64) \<Rightarrow> bytes + rat" where
  "UsagePercent st =
    (case Usage st of Inl e \<Rightarrow> Inl e
     | Inr (tot, free) \<Rightarrow> Inr (of_nat (unat (tot - free)) / of_nat (unat tot) * 100))"

definition ShouldSkipArchive :: "rat \<Rightarrow> bool \<Rightarrow> rat \<Rightarrow> bool" where
  "ShouldSkipArchive usagePercent statfsOK criticalPercent =
    (if \<not> statfsOK then True else criticalPercent \<le> usagePercent)"

subsection \<open>Months\<close>

definition ArchivedTables :: "bytes list" where
  "ArchivedTables = [''resources'', ''connections'', ''ssh_attempts'', ''firewall_events'', ''ban_events'', ''system_events'']"

definition metaCopiedMonths :: bytes where "metaCopiedMonths = ''copied_months''"

text \<open>\<^verbatim>\<open>%0nd\<close> of a number.\<close>

definition pad :: "nat \<Rightarrow> nat \<Rightarrow> bytes" where
  "pad w n = replicate (w - length (show_nat n)) (CHR ''0'') @ show_nat n"

text \<open>Year, month, first second and first second of the next month.\<close>

definition ParseMonth :: "zone \<Rightarrow> bytes \<Rightarrow> (nat \<times> nat \<times> int \<times> int) option" where
  "ParseMonth z month =
    (case find_first (\<lambda>c. c = CHR ''-'') month of None \<Rightarrow> None
     | Some i \<Rightarrow>
       (let ys = take i month; ms = drop (i + 1) month in
        if length ys \<noteq> 4 \<or> length ms \<noteq> 2 then None
        else case (hm_number ys, hm_number ms) of
          (Some y, Some m) \<Rightarrow>
            if m < 1 \<or> 12 < m then None
            else Some (y, m, Date (int y) (int m) 1 0 0 0 z, Date (int y) (int m + 1) 1 0 0 0 z)
        | _ \<Rightarrow> None))"

definition final_name :: "nat \<Rightarrow> nat \<Rightarrow> bytes" where "final_name y m = pad 4 y @ ''-'' @ pad 2 m @ ''.db.gz''"
definition tmp_db_name :: "nat \<Rightarrow> nat \<Rightarrow> bytes" where "tmp_db_name y m = pad 4 y @ ''-'' @ pad 2 m @ ''.db.tmp''"
definition tmp_gz_name :: "nat \<Rightarrow> nat \<Rightarrow> bytes" where "tmp_gz_name y m = pad 4 y @ ''-'' @ pad 2 m @ ''.db.gz.tmp''"

subsection \<open>Operations\<close>

type_synonym failing = "world \<Rightarrow> bytes list option \<times> world"

text \<open>Operations in a row, up to the first that fails.\<close>

fun steps :: "failing list \<Rightarrow> failing" where
  "steps [] w = (None, w)"
| "steps (f # fs) w = (case f w of (Some e, w') \<Rightarrow> (Some e, w') | (None, w') \<Rightarrow> steps fs w')"

definition labelled :: "bytes \<Rightarrow> (world \<Rightarrow> bytes option \<times> world) \<Rightarrow> failing" where
  "labelled t f w = (case f w of (Some e, w') \<Rightarrow> (Some [t, e], w') | (None, w') \<Rightarrow> (None, w'))"

text \<open>A call with an effect on the files.\<close>

definition on_files :: "((bytes \<times> fcontent) list \<Rightarrow> (bytes \<times> fcontent) list) \<Rightarrow> world \<Rightarrow> bytes option \<times> world" where
  "on_files f w = (case call w of (Some e, w') \<Rightarrow> (Some e, w') | (None, w') \<Rightarrow> (None, w'\<lparr>w_files := f (w_files w')\<rparr>))"

definition os_remove :: "bytes \<Rightarrow> world \<Rightarrow> bytes option \<times> world" where
  "os_remove f = on_files (AList.delete f)"

definition os_rename :: "bytes \<Rightarrow> bytes \<Rightarrow> world \<Rightarrow> bytes option \<times> world" where
  "os_rename a b = on_files (\<lambda>fs. case map_of fs a of None \<Rightarrow> fs | Some c \<Rightarrow> AList.update b c (AList.delete a fs))"

definition os_exists :: "bytes \<Rightarrow> world \<Rightarrow> bool \<times> world" where
  "os_exists f w = (case call w of (Some e, w') \<Rightarrow> (False, w') | (None, w') \<Rightarrow> (map_of (w_files w') f \<noteq> None, w'))"

text \<open>\<^verbatim>\<open>gzipFile\<close>: open, create and truncate, copy and close; the file is unfinished in between.\<close>

definition gzipFile :: "bytes \<Rightarrow> bytes \<Rightarrow> failing" where
  "gzipFile src dst =
    steps [labelled ''open'' call,
      labelled ''create'' (on_files (AList.update dst Partial)),
      labelled ''compress'' (on_files (\<lambda>fs. case map_of fs src of Some (DbFile ts) \<Rightarrow> AList.update dst (Gz ts) fs | _ \<Rightarrow> fs))]"

text \<open>The attached copy.\<close>

definition attach :: "bytes \<Rightarrow> world \<Rightarrow> bytes option \<times> world" where
  "attach f w = (case call w of (Some e, w') \<Rightarrow> (Some e, w')
    | (None, w') \<Rightarrow>
      (if w_arc w' \<noteq> None then (Some ''database arc is already in use'', w')
       else (None, w'\<lparr>w_arc := Some f,
         w_files := (if map_of (w_files w') f = None then AList.update f (DbFile []) (w_files w') else w_files w')\<rparr>)))"

definition detach :: "world \<Rightarrow> world" where
  "detach w = (case call w of (Some e, w') \<Rightarrow> w' | (None, w') \<Rightarrow> w'\<lparr>w_arc := None\<rparr>)"

definition arc_tables :: "bytes \<Rightarrow> world \<Rightarrow> (bytes \<times> row list) list" where
  "arc_tables f w = (case map_of (w_files w) f of Some (DbFile ts) \<Rightarrow> ts | _ \<Rightarrow> [])"

definition arc_rows :: "bytes \<Rightarrow> bytes \<Rightarrow> world \<Rightarrow> row list" where
  "arc_rows f t w = (case map_of (arc_tables f w) t of Some rs \<Rightarrow> rs | None \<Rightarrow> [])"

definition on_arc :: "bytes \<Rightarrow> (world \<Rightarrow> (bytes \<times> row list) list \<Rightarrow> (bytes \<times> row list) list) \<Rightarrow> world \<Rightarrow> bytes option \<times> world" where
  "on_arc f g w = (case call w of (Some e, w') \<Rightarrow> (Some e, w')
    | (None, w') \<Rightarrow> (None, w'\<lparr>w_files := AList.update f (DbFile (g w' (arc_tables f w'))) (w_files w')\<rparr>))"

definition in_range :: "int \<Rightarrow> int \<Rightarrow> row \<Rightarrow> bool" where
  "in_range start end r \<longleftrightarrow> start \<le> row_ts r \<and> row_ts r < end"

definition range_rows :: "int \<Rightarrow> int \<Rightarrow> bytes \<Rightarrow> tables \<Rightarrow> row list" where
  "range_rows start end t d = filter (in_range start end) (tb_rows d t)"

definition copy_table :: "bytes \<Rightarrow> int \<Rightarrow> int \<Rightarrow> bytes \<Rightarrow> failing" where
  "copy_table f start end t =
    steps [labelled ''create'' (on_arc f (\<lambda>w ts. if map_of ts t = None then ts @ [(t, [])] else ts)),
      labelled ''export'' (on_arc f (\<lambda>w ts. AList.update t ((case map_of ts t of Some rs \<Rightarrow> rs | None \<Rightarrow> []) @ range_rows start end t (seen w)) ts))]"

definition max_ts :: "row list \<Rightarrow> int option" where
  "max_ts rs = (if rs = [] then None else Some (Max (set (map row_ts rs))))"

text \<open>The comparison of counts and of greatest time stamps.\<close>

definition check_table :: "bytes \<Rightarrow> int \<Rightarrow> int \<Rightarrow> bytes \<Rightarrow> failing" where
  "check_table f start end t w =
    (case sql_query (\<lambda>d. length (range_rows start end t d)) w of (Inl e, w1) \<Rightarrow> (Some [''count main'', t, e], w1)
     | (Inr mainCount, w1) \<Rightarrow>
     (case call w1 of (Some e, w2) \<Rightarrow> (Some [''count copy'', t, e], w2)
      | (None, w2) \<Rightarrow>
        (if mainCount \<noteq> length (arc_rows f t w2) then (Some [''counts differ'', t], w2)
         else if mainCount = 0 then (None, w2)
         else (case sql_query (\<lambda>d. max_ts (range_rows start end t d)) w2 of (Inl e, w3) \<Rightarrow> (Some [''max main'', t, e], w3)
           | (Inr mainMax, w3) \<Rightarrow>
           (case call w3 of (Some e, w4) \<Rightarrow> (Some [''max copy'', t, e], w4)
            | (None, w4) \<Rightarrow>
              (if mainMax = None \<or> max_ts (arc_rows f t w4) = None \<or> mainMax \<noteq> max_ts (arc_rows f t w4)
               then (Some [''max differs'', t], w4) else (None, w4)))))))"

definition exportMonth :: "bytes \<Rightarrow> int \<Rightarrow> int \<Rightarrow> failing" where
  "exportMonth f start end w =
    (case attach f w of (Some e, w1) \<Rightarrow> (Some [''attach'', e], w1)
     | (None, w1) \<Rightarrow>
       (case steps (map (copy_table f start end) ArchivedTables @ map (check_table f start end) ArchivedTables) w1 of
          (r, w2) \<Rightarrow> (r, detach w2)))"

fun monthHasData :: "int \<Rightarrow> int \<Rightarrow> bytes list \<Rightarrow> world \<Rightarrow> (bytes + bool) \<times> world" where
  "monthHasData start end [] w = (Inr False, w)"
| "monthHasData start end (t # ts) w =
    (case sql_query (\<lambda>d. length (range_rows start end t d)) w of (Inl e, w') \<Rightarrow> (Inl e, w')
     | (Inr n, w') \<Rightarrow> if 0 < n then (Inr True, w') else monthHasData start end ts w')"

subsection \<open>The record of copied months\<close>

definition join_comma :: "bytes list \<Rightarrow> bytes" where
  "join_comma xs = (case xs of [] \<Rightarrow> [] | y # ys \<Rightarrow> y @ concat (map (\<lambda>z. CHR '','' # z) ys))"

definition months_of :: "bytes option \<Rightarrow> bytes list" where
  "months_of v = (case v of None \<Rightarrow> [] | Some s \<Rightarrow> if s = [] then [] else split_on (CHR '','') s)"

definition readCopiedMonths :: "world \<Rightarrow> (bytes + bytes list) \<times> world" where
  "readCopiedMonths w = sql_query (\<lambda>d. months_of (tb_meta d metaCopiedMonths)) w"

definition containsMonth :: "bytes list \<Rightarrow> bytes \<Rightarrow> bool" where
  "containsMonth copied month \<longleftrightarrow> month \<in> set copied"

definition recordCopiedMonth :: "bytes \<Rightarrow> failing" where
  "recordCopiedMonth month w =
    (case readCopiedMonths w of (Inl e, w1) \<Rightarrow> (Some [''record month'', e], w1)
     | (Inr copied, w1) \<Rightarrow>
       (if containsMonth copied month then (None, w1)
        else labelled ''record month'' (sql_exec (UpsertMeta metaCopiedMonths (join_comma (copied @ [month])))) w1))"

subsection \<open>Archiving a month\<close>

text \<open>After the checks: what is exported, compressed, renamed and recorded.\<close>

definition produce_copy :: "bytes \<Rightarrow> nat \<Rightarrow> nat \<Rightarrow> int \<Rightarrow> int \<Rightarrow> failing" where
  "produce_copy month y m start end =
    steps [exportMonth (tmp_db_name y m) start end,
      labelled ''chmod'' call,
      gzipFile (tmp_db_name y m) (tmp_gz_name y m),
      labelled ''rename'' (os_rename (tmp_gz_name y m) (final_name y m)),
      labelled ''remove'' (os_remove (tmp_db_name y m)),
      recordCopiedMonth month]"

definition export_if_data :: "bytes \<Rightarrow> nat \<Rightarrow> nat \<Rightarrow> int \<Rightarrow> int \<Rightarrow> failing" where
  "export_if_data month y m start end w =
    (case monthHasData start end ArchivedTables w of (Inl e, w') \<Rightarrow> (Some [e], w')
     | (Inr hasData, w') \<Rightarrow> if \<not> hasData then (None, w') else produce_copy month y m start end w')"

text \<open>A record without its file and a file without its record are removed before the month is exported.\<close>

definition export_anew :: "bytes \<Rightarrow> nat \<Rightarrow> nat \<Rightarrow> int \<Rightarrow> int \<Rightarrow> bytes list \<Rightarrow> bool \<Rightarrow> failing" where
  "export_anew month y m start end copied finalExists =
    steps
      ((if containsMonth copied month
        then [labelled ''unrecord'' (sql_exec (UpsertMeta metaCopiedMonths (join_comma (filter (\<lambda>x. x \<noteq> month) copied))))]
        else []) @
       (if finalExists then [labelled ''half copy'' (os_remove (final_name y m))] else []) @
       [export_if_data month y m start end])"

definition ArchiveMonthDB :: "zone \<Rightarrow> bytes \<Rightarrow> failing" where
  "ArchiveMonthDB z month w =
    (case ParseMonth z month of None \<Rightarrow> (Some [''bad month'', month], w)
     | Some (y, m, start, end) \<Rightarrow>
       (case steps [labelled ''mkdir'' call, labelled ''stale'' (os_remove (tmp_db_name y m)),
               labelled ''stale'' (os_remove (tmp_gz_name y m))] w of
          (Some e, w1) \<Rightarrow> (Some e, w1)
        | (None, w1) \<Rightarrow>
          (case readCopiedMonths w1 of (Inl e, w2) \<Rightarrow> (Some [e], w2)
           | (Inr copied, w2) \<Rightarrow>
             (case os_exists (final_name y m) w2 of (finalExists, w3) \<Rightarrow>
               (if containsMonth copied month \<and> finalExists then (None, w3)
                else export_anew month y m start end copied finalExists w3)))))"

fun remove_stale :: "bytes list \<Rightarrow> failing" where
  "remove_stale [] w = (None, w)"
| "remove_stale (f # fs) w =
    (if has_suffix f ''.db.tmp'' \<or> has_suffix f ''.db.gz.tmp''
     then (case labelled ''stale'' (os_remove f) w of (Some e, w') \<Rightarrow> (Some e, w') | (None, w') \<Rightarrow> remove_stale fs w')
     else remove_stale fs w)"

definition CleanStaleTmp :: failing where
  "CleanStaleTmp w = (case call w of (Some e, w') \<Rightarrow> (Some [''read directory'', e], w')
    | (None, w') \<Rightarrow> remove_stale (map fst (w_files w')) w')"

subsection \<open>The archiver\<close>

text \<open>The months asked for at a tick: none before the hour of the first day of a month.\<close>

definition archive_months :: "zone \<Rightarrow> int \<Rightarrow> bytes \<Rightarrow> int \<Rightarrow> bytes list" where
  "archive_months z now monthlyHour copyAfterDays =
    (if Day z now \<noteq> 1 then []
     else case ParseHourMinute monthlyHour of None \<Rightarrow> []
     | Some (hh, mm) \<Rightarrow>
       if now < Date (Year z now) (Month z now) 1 (int hh) (int mm) 0 z then []
       else (let cutoff = AddDate z now 0 0 (- copyAfterDays);
                 cutoffStart = Date (Year z cutoff) (Month z cutoff) 1 0 0 0 z
             in map (\<lambda>i. let cand = AddDate z cutoffStart 0 (- int i) 0
                       in pad 4 (nat (Year z cand)) @ ''-'' @ pad 2 (nat (Month z cand))) [0..<24]))"

definition RunArchiver :: "zone \<Rightarrow> int list \<Rightarrow> bytes \<Rightarrow> int \<Rightarrow> bytes list" where
  "RunArchiver z ticks monthlyHour copyAfterDays = concat (map (\<lambda>now. archive_months z now monthlyHour copyAfterDays) ticks)"

definition sqliteQuote :: "bytes \<Rightarrow> bytes" where
  "sqliteQuote s = [CHR 0x27] @ concat (map (\<lambda>c. if c = CHR 0x27 then [c, c] else [c]) s) @ [CHR 0x27]"

subsection \<open>Archiving inserts nothing into the main database\<close>

definition is_insert :: "stmt \<Rightarrow> bool" where
  "is_insert st = (case st of Insert t vs \<Rightarrow> True | _ \<Rightarrow> False)"

definition inserts :: "world \<Rightarrow> stmt list" where
  "inserts w = filter is_insert (w_hist w)"

definition quiet :: "(world \<Rightarrow> 'a \<times> world) \<Rightarrow> bool" where
  "quiet f \<longleftrightarrow> (\<forall>w. inserts (snd (f w)) = inserts w)"

lemma quietD: "quiet f \<Longrightarrow> f w = (x, w') \<Longrightarrow> inserts w' = inserts w"
  by (metis quiet_def snd_conv)

lemma quiet_call: "quiet call"
  by (simp add: quiet_def inserts_def)

lemma call_inserts: "call w = (x, w') \<Longrightarrow> inserts w' = inserts w"
  using quietD [OF quiet_call] by blast

lemma quiet_steps: "\<forall>f\<in>set fs. quiet f \<Longrightarrow> quiet (steps fs)"
proof (induction fs)
  case (Cons f fs)
  show ?case
    unfolding quiet_def
  proof
    fix w
    obtain e w' where f: "f w = (e, w')" by force
    have "inserts w' = inserts w" using Cons.prems quietD [where f = f and w = w] f by simp
    moreover have "inserts (snd (steps fs w')) = inserts w'" using Cons by (simp add: quiet_def)
    ultimately show "inserts (snd (steps (f # fs) w)) = inserts w" using f by (cases e) simp_all
  qed
qed (simp add: quiet_def)

lemma quiet_labelled: "quiet f \<Longrightarrow> quiet (labelled t f)"
  by (simp add: quiet_def labelled_def case_prod_beta split: option.split)

lemma inserts_files [simp]: "inserts (w\<lparr>w_files := x\<rparr>) = inserts w" "inserts (w\<lparr>w_arc := y\<rparr>) = inserts w"
  "inserts (w\<lparr>w_arc := y, w_files := x\<rparr>) = inserts w"
  by (simp_all add: inserts_def)

lemma quiet_after_call:
  assumes "\<And>w'. inserts (snd (f w')) = inserts w'"
  shows "quiet (\<lambda>w. case call w of (Some e, w') \<Rightarrow> (g e, w') | (None, w') \<Rightarrow> f w')"
  unfolding quiet_def
proof
  fix w
  obtain e w' where c: "call w = (e, w')" by force
  then show "inserts (snd (case call w of (Some e, w') \<Rightarrow> (g e, w') | (None, w') \<Rightarrow> f w')) = inserts w"
    using assms call_inserts [OF c] by (cases e) simp_all
qed

lemma quiet_on_files: "quiet (on_files f)"
  using quiet_after_call [of "\<lambda>w'. (None, w'\<lparr>w_files := f (w_files w')\<rparr>)"] by (simp add: on_files_def [abs_def])

lemma quiet_exec: "\<not> is_insert st \<Longrightarrow> quiet (sql_exec st)"
  unfolding sql_exec_def [abs_def]
  by (rule quiet_after_call) (simp add: inserts_def split: option.split)

lemma quiet_query: "quiet (sql_query q)"
  using quiet_after_call [of "\<lambda>w'. (Inr (q (seen w')), w')"] by (simp add: sql_query_def [abs_def])

lemma quiet_attach: "quiet (attach f)"
  using quiet_after_call [of "\<lambda>w'. (if w_arc w' \<noteq> None then (Some ''database arc is already in use'', w')
       else (None, w'\<lparr>w_arc := Some f,
         w_files := (if map_of (w_files w') f = None then AList.update f (DbFile []) (w_files w') else w_files w')\<rparr>))"]
  by (simp add: attach_def [abs_def])

lemma quiet_on_arc: "quiet (on_arc f g)"
  using quiet_after_call [of "\<lambda>w'. (None, w'\<lparr>w_files := AList.update f (DbFile (g w' (arc_tables f w'))) (w_files w')\<rparr>)"]
  by (simp add: on_arc_def [abs_def])

lemma detach_inserts: "inserts (detach w) = inserts w"
  by (auto simp: detach_def call_inserts split: prod.split option.split)

lemma quiet_copy_table: "quiet (copy_table f a b t)"
  unfolding copy_table_def by (intro quiet_steps) (simp add: quiet_labelled quiet_on_arc)

lemma quiet_check_table: "quiet (check_table f a b t)"
  unfolding quiet_def check_table_def
  by (auto simp: call_inserts quietD [OF quiet_query] split: prod.split sum.split option.split)

lemma quiet_exportMonth: "quiet (exportMonth f a b)"
proof -
  have s: "quiet (steps (map (copy_table f a b) ArchivedTables @ map (check_table f a b) ArchivedTables))"
    by (intro quiet_steps) (auto simp: quiet_copy_table quiet_check_table)
  show ?thesis
    unfolding quiet_def exportMonth_def
    by (auto simp: quietD [OF quiet_attach] quietD [OF s] detach_inserts split: prod.split option.split)
qed

lemma quiet_monthHasData: "quiet (monthHasData a b ts)"
proof (induction ts)
  case (Cons t ts)
  then show ?case
    unfolding quiet_def by (auto simp: quietD [OF quiet_query] split: prod.split sum.split)
qed (simp add: quiet_def)

lemma quiet_record: "quiet (recordCopiedMonth m)"
proof -
  have l: "quiet (labelled ''record month'' (sql_exec (UpsertMeta k v)))" for k v
    by (intro quiet_labelled quiet_exec) (simp add: is_insert_def)
  show ?thesis
    unfolding quiet_def recordCopiedMonth_def readCopiedMonths_def
    by (auto simp: quietD [OF quiet_query] l [unfolded quiet_def] split: prod.split sum.split)
qed

lemma quiet_gzip: "quiet (gzipFile a b)"
  unfolding gzipFile_def by (intro quiet_steps) (simp add: quiet_labelled quiet_on_files quiet_call)

lemma quiet_produce: "quiet (produce_copy month y m a b)"
  unfolding produce_copy_def os_rename_def os_remove_def
  by (intro quiet_steps) (simp add: quiet_labelled quiet_on_files quiet_call quiet_gzip quiet_exportMonth quiet_record)

lemma quiet_export_if_data: "quiet (export_if_data month y m a b)"
  unfolding quiet_def export_if_data_def
  by (auto simp: quietD [OF quiet_monthHasData] quiet_produce [unfolded quiet_def] split: prod.split sum.split)

lemma os_exists_inserts: "os_exists f w = (x, w') \<Longrightarrow> inserts w' = inserts w"
  by (auto simp: os_exists_def call_inserts split: prod.splits option.splits)

lemma quiet_ArchiveMonthDB: "quiet (ArchiveMonthDB z month)"
proof -
  have a: "quiet (steps [labelled ''mkdir'' call, labelled ''stale'' (os_remove f), labelled ''stale'' (os_remove g)])" for f g
    unfolding os_remove_def by (intro quiet_steps) (simp add: quiet_labelled quiet_call quiet_on_files)
  have b: "quiet (export_anew month y m c d copied x)" for y m c d copied x
    unfolding export_anew_def os_remove_def
    by (intro quiet_steps) (auto simp: quiet_labelled quiet_exec quiet_on_files quiet_export_if_data is_insert_def)
  show ?thesis
    unfolding quiet_def ArchiveMonthDB_def readCopiedMonths_def
    by (auto simp: quietD [OF a] quietD [OF quiet_query] os_exists_inserts b [unfolded quiet_def]
        split: option.split prod.split sum.split simp del: steps.simps)
qed

end
