(* ===== verification/Store.thy ===== *)
theory Store
  imports "HOL-Library.Sublist" Archive
begin

text \<open>
  \<^verbatim>\<open>internal/store\<close>: the single writer that drains the event channels into SQLite in batches, its
  retention cleanup and the archive requests it serves.

  The pending batch is a list (its length is nInBatch); the writer's select is a sequence of inputs,
  each with the clock it is handled at. What producers send while the writer is busy is part of the
  input that makes it busy, so every interleaving of producers and writer is covered.
\<close>

subsection \<open>Items and statements\<close>

record event_item =
  it_kind :: bytes
  it_v :: any_event

definition enqueue :: "bytes \<Rightarrow> any_event \<Rightarrow> event_item list \<Rightarrow> event_item list" where
  "enqueue kind v pending = pending @ [\<lparr>it_kind = kind, it_v = v\<rparr>]"

text \<open>An argument of a statement; the driver refuses an unsigned value with its top bit set.\<close>

datatype sql_arg = AInt int | AUint u64 | AReal rat | AText bytes

text \<open>The table of each kind.\<close>

definition insertStmts :: "bytes \<rightharpoonup> bytes" where
  "insertStmts = map_of
    [(''resource'', ''resources''), (''conn'', ''connections''), (''ssh'', ''ssh_attempts''),
     (''fw'', ''firewall_events''), (''f2b'', ''ban_events''), (''system'', ''system_events''), (''cred'', ''cred_events'')]"

text \<open>The arguments by kind; a value of another type is an error.\<close>

definition itemArgs :: "event_item \<Rightarrow> bytes list + sql_arg list" where
  "itemArgs it =
    (let kind = it_kind it; mismatch = Inl [''type does not match kind'', kind] in
     if kind = ''resource'' then
       (case it_v it of AResource v \<Rightarrow> Inr [AInt (rs_ts v), AReal (rs_cpu v), AReal (rs_memused v), AReal (rs_mempct v),
          AReal (rs_diskused v), AReal (rs_diskpct v), AUint (rs_rx v), AUint (rs_tx v)] | _ \<Rightarrow> mismatch)
     else if kind = ''conn'' then
       (case it_v it of AConn v \<Rightarrow> Inr [AInt (co_ts v), AInt (int (co_evtype v)), AInt (uint (co_proto v)), AInt (uint (co_src v)),
          AInt (uint (co_sport v)), AInt (uint (co_dst v)), AInt (uint (co_dport v)), AUint (co_packets v), AUint (co_bytes v),
          AInt (uint (co_mark v)), AText (co_src6 v), AText (co_dst6 v)] | _ \<Rightarrow> mismatch)
     else if kind = ''ssh'' then
       (case it_v it of ASSH v \<Rightarrow> Inr [AInt (sa_ts v), AInt (uint (sa_src v)), AText (sa_user v), AText (sa_method v),
          AInt (int (sa_result v)), AText (sa_fingerprint v), AText (sa_detail v)] | _ \<Rightarrow> mismatch)
     else if kind = ''fw'' then
       (case it_v it of AFW v \<Rightarrow> Inr [AInt (fe_ts v), AText (fe_chain v), AText (fe_action v), AInt (uint (fe_proto v)),
          AInt (uint (fe_src v)), AInt (uint (fe_sport v)), AInt (uint (fe_dst v)), AInt (uint (fe_dport v)), AText (fe_raw v)]
        | _ \<Rightarrow> mismatch)
     else if kind = ''f2b'' then
       (case it_v it of AF2B v \<Rightarrow> Inr [AInt (be_ts v), AInt (uint (be_ip v)), AText (be_type v), AText (be_jail v)] | _ \<Rightarrow> mismatch)
     else if kind = ''system'' then
       (case it_v it of ASystem v \<Rightarrow> Inr [AInt (se_ts v), AText (se_source v), AText (se_level v), AText (concat (se_msg v))]
        | _ \<Rightarrow> mismatch)
     else if kind = ''cred'' then
       (case it_v it of ACred v \<Rightarrow> Inr [AInt (ce_ts v), AText (ce_proto v), AInt (uint (ce_src v)), AText (ce_user v),
          AText (ce_pass v), AText (ce_extra v)] | _ \<Rightarrow> mismatch)
     else Inl [''unknown kind'', kind])"

fun to_sql :: "sql_arg \<Rightarrow> sqlval option" where
  "to_sql (AInt i) = Some (VInt i)"
| "to_sql (AUint u) = (if uint u < 2 ^ 63 then Some (VInt (uint u)) else None)"
| "to_sql (AReal r) = Some (VReal r)"
| "to_sql (AText t) = Some (VText t)"

subsection \<open>A batch\<close>

text \<open>The statement of an item, or the error before anything is executed.\<close>

definition item_stmt :: "event_item \<Rightarrow> bytes list + stmt" where
  "item_stmt it =
    (case insertStmts (it_kind it) of None \<Rightarrow> Inl [''unknown event type'', it_kind it]
     | Some table \<Rightarrow>
       (case itemArgs it of Inl e \<Rightarrow> Inl e
        | Inr args \<Rightarrow>
          (case those (map to_sql args) of None \<Rightarrow> Inl [''insert failed'', it_kind it, ''uint64 with high bit set'']
           | Some vs \<Rightarrow> Inr (Insert table vs))))"

fun insert_items :: "event_item list \<Rightarrow> failing" where
  "insert_items [] w = (None, w)"
| "insert_items (it # its) w =
    (case item_stmt it of Inl e \<Rightarrow> (Some e, w)
     | Inr st \<Rightarrow>
       (case sql_exec st w of (Some e, w') \<Rightarrow> (Some [''insert failed'', it_kind it, e], w')
        | (None, w') \<Rightarrow> insert_items its w'))"

definition writeBatch :: "event_item list \<Rightarrow> failing" where
  "writeBatch items w =
    (if items = [] then (None, w)
     else case sql_begin w of (Some e, w1) \<Rightarrow> (Some [''begin failed'', e], w1)
     | (None, w1) \<Rightarrow>
       (case insert_items items w1 of (Some e, w2) \<Rightarrow> (Some e, snd (sql_rollback w2))
        | (None, w2) \<Rightarrow>
          (case sql_commit w2 of (Some e, w3) \<Rightarrow> (Some [''commit failed'', e], snd (sql_rollback w3))
           | (None, w3) \<Rightarrow> (None, w3))))"

subsection \<open>The store\<close>

record options =
  op_BatchSize :: nat
  op_RetentionDays :: int
  op_CredRetentionDays :: int
  op_CopyAfterDays :: int
  op_ArchiveCriticalPct :: rat

record store =
  st_w :: world
  st_ch :: channels
  st_opts :: options
  st_pending :: "event_item list"
  st_walChmod :: bool
  st_chmodErr :: "bytes option"
  st_yieldErr :: "bytes list option"
  st_retentionNow :: bool
  st_archiveReq :: "bytes chan"

definition store_report :: "int \<Rightarrow> bytes \<Rightarrow> bytes \<Rightarrow> bytes list \<Rightarrow> store \<Rightarrow> store" where
  "store_report now source level message s =
    s\<lparr>st_ch := (st_ch s)\<lparr>c_system := the (ReportSys now source level message (Some (c_system (st_ch s))))\<rparr>\<rparr>"

definition warnRetentionArchiveGap :: "int \<Rightarrow> store \<Rightarrow> store" where
  "warnRetentionArchiveGap now s =
    (let d = op_RetentionDays (st_opts s); need = op_CopyAfterDays (st_opts s) + 31 in
     if d \<le> 0 \<or> need \<le> d then s
     else store_report now ''store'' ''warn'' [''retention below archive span'', show_int d, show_int need] s)"

definition drainInto :: "store \<Rightarrow> store" where
  "drainInto s =
    (let (got, ch) = Drain (st_ch s) in
     s\<lparr>st_ch := ch, st_pending := fold (\<lambda>v p. enqueue (kind_of v) v p) got (st_pending s)\<rparr>)"

definition flush :: "int \<Rightarrow> store \<Rightarrow> bytes list option \<times> store" where
  "flush now s =
    (if st_pending s = [] then (None, s)
     else case writeBatch (st_pending s) (st_w s) of (Some e, w) \<Rightarrow> (Some e, s\<lparr>st_w := w\<rparr>)
     | (None, w) \<Rightarrow>
       (let s1 = s\<lparr>st_w := w\<rparr>;
            s2 = (if st_walChmod s1 then s1
                  else (let s1' = s1\<lparr>st_walChmod := True\<rparr> in
                    case st_chmodErr s1 of None \<Rightarrow> s1'
                    | Some e \<Rightarrow> store_report now ''store'' ''warn'' [''WAL/SHM permissions'', e] s1'))
        in (None, s2\<lparr>st_pending := []\<rparr>)))"

text \<open>Events sent by producers: a full channel makes the sender wait, so nothing is sent.\<close>

fun arrive :: "any_event \<Rightarrow> channels \<Rightarrow> channels" where
  "arrive (AResource v) c = c\<lparr>c_resource := snd (try_send v (c_resource c))\<rparr>"
| "arrive (AConn v) c = c\<lparr>c_conn := snd (try_send v (c_conn c))\<rparr>"
| "arrive (ASSH v) c = c\<lparr>c_ssh := snd (try_send v (c_ssh c))\<rparr>"
| "arrive (AFW v) c = c\<lparr>c_fw := snd (try_send v (c_fw c))\<rparr>"
| "arrive (AF2B v) c = c\<lparr>c_f2b := snd (try_send v (c_f2b c))\<rparr>"
| "arrive (ACred v) c = c\<lparr>c_cred := snd (try_send v (c_cred c))\<rparr>"
| "arrive (ASystem v) c = c\<lparr>c_system := snd (try_send v (c_system c))\<rparr>"

definition arrivals :: "any_event list \<Rightarrow> store \<Rightarrow> store" where
  "arrivals vs s = s\<lparr>st_ch := fold arrive vs (st_ch s)\<rparr>"

subsection \<open>Retention\<close>

definition retentionBatchSize :: nat where "retentionBatchSize = 10000"
definition retentionHour :: int where "retentionHour = 2"
definition retentionMin :: int where "retentionMin = 30"

text \<open>In seconds; the clock is in nanoseconds.\<close>

definition nextRetentionTime :: "zone \<Rightarrow> int \<Rightarrow> int" where
  "nextRetentionTime z now =
    (let t = unix now; nxt = Date (Year z t) (Month z t) (Day z t) retentionHour retentionMin 0 z in
     if \<not> now < nxt * second then AddDate z nxt 0 0 1 else nxt)"

text \<open>Between two batches: consume the channels, write when the batch is full.\<close>

definition yield_step :: "int \<Rightarrow> store \<Rightarrow> store" where
  "yield_step now s =
    (let s1 = drainInto s in
     if op_BatchSize (st_opts s1) \<le> length (st_pending s1) then
       (case flush now s1 of (Some e, s2) \<Rightarrow> if st_yieldErr s2 = None then s2\<lparr>st_yieldErr := Some e\<rparr> else s2
        | (None, s2) \<Rightarrow> s2)
     else s1)"

text \<open>
  A round of the cleanup of a table: whether the context is cancelled when it starts, the clock, and
  what producers send before the channels are consumed. The cleanup is over (with the rows deleted),
  fails, or needs more rounds than are given.
\<close>

record ret_round =
  rr_cancel :: bool
  rr_now :: int
  rr_sent :: "any_event list"

datatype cleanup_end = Cleaned nat | CleanupFailed "bytes list" nat | MoreRounds

definition affected :: "bytes \<Rightarrow> int \<Rightarrow> nat \<Rightarrow> world \<Rightarrow> nat" where
  "affected table cutoff n w =
    length (filter (in_batch cutoff n (tb_rows (seen w) table)) (tb_rows (seen w) table))"

fun cleanupTable :: "bytes \<Rightarrow> int \<Rightarrow> nat \<Rightarrow> nat \<Rightarrow> ret_round list \<Rightarrow> store \<Rightarrow> cleanup_end \<times> ret_round list \<times> store" where
  "cleanupTable table cutoff batchSize gone [] s = (MoreRounds, [], s)"
| "cleanupTable table cutoff batchSize gone (r # rs) s =
    (if rr_cancel r then (CleanupFailed [''context canceled''] gone, rs, s)
     else case sql_exec (DeleteOld table cutoff batchSize) (st_w s) of
       (Some e, w) \<Rightarrow> (CleanupFailed [e] gone, rs, s\<lparr>st_w := w\<rparr>)
     | (None, w) \<Rightarrow>
       (let n = affected table cutoff batchSize (st_w s); s1 = s\<lparr>st_w := w\<rparr> in
        if n = 0 then (Cleaned gone, rs, s1)
        else cleanupTable table cutoff batchSize (gone + n) rs (yield_step (rr_now r) (arrivals (rr_sent r) s1))))"

fun cleanup_all :: "bytes list \<Rightarrow> int \<Rightarrow> nat \<Rightarrow> ret_round list \<Rightarrow> store \<Rightarrow> cleanup_end \<times> ret_round list \<times> store" where
  "cleanup_all [] cutoff deleted rs s = (Cleaned deleted, rs, s)"
| "cleanup_all (t # ts) cutoff deleted rs s =
    (case cleanupTable t cutoff retentionBatchSize 0 rs s of
       (Cleaned n, rs', s') \<Rightarrow> cleanup_all ts cutoff (deleted + n) rs' s'
     | (CleanupFailed e n, rs', s') \<Rightarrow> (CleanupFailed ([''table'', t] @ e) n, rs', s')
     | (MoreRounds, rs', s') \<Rightarrow> (MoreRounds, rs', s'))"

text \<open>
  One cleanup: the error it returns, or None once it is through; the second result is False when
  rounds are missing. The last statement is the key of meta; before it the credentials are cleaned.
\<close>

definition retention_meta :: "int \<Rightarrow> store \<Rightarrow> (bytes list option \<times> bool) \<times> store" where
  "retention_meta now s =
    (case sql_exec (UpsertMeta ''last_retention_ts'' (show_int (unix now))) (st_w s) of
       (Some e, w) \<Rightarrow> ((Some [''last_retention_ts'', e], True), s\<lparr>st_w := w\<rparr>)
     | (None, w) \<Rightarrow> ((None, True), s\<lparr>st_w := w\<rparr>))"

definition retention_cutoff :: "zone \<Rightarrow> int \<Rightarrow> int \<Rightarrow> int" where
  "retention_cutoff z now days = AddDate z (unix now) 0 0 (- days)"

definition retention_creds :: "zone \<Rightarrow> int \<Rightarrow> ret_round list \<Rightarrow> store \<Rightarrow> (bytes list option \<times> bool) \<times> store" where
  "retention_creds z now rs s =
    (let d = op_CredRetentionDays (st_opts s) in
     if d \<le> 0 then retention_meta now s
     else case cleanupTable ''cred_events'' (retention_cutoff z now d) retentionBatchSize 0 rs s of
       (Cleaned n, rs', s') \<Rightarrow> retention_meta now (store_report now ''store'' ''info'' [''cred_events cleaned'', show_nat n] s')
     | (CleanupFailed e n, rs', s') \<Rightarrow> ((Some ([''cred_events''] @ e), True), s')
     | (MoreRounds, rs', s') \<Rightarrow> ((None, False), s'))"

definition runRetentionOnce :: "zone \<Rightarrow> int \<Rightarrow> ret_round list \<Rightarrow> store \<Rightarrow> (bytes list option \<times> bool) \<times> store" where
  "runRetentionOnce z now rs s =
    (let d = op_RetentionDays (st_opts s) in
     if d \<le> 0 \<and> op_CredRetentionDays (st_opts s) \<le> 0 then ((None, True), s)
     else if d \<le> 0 then retention_creds z now rs s
     else case cleanup_all ArchivedTables (retention_cutoff z now d) 0 rs s of
       (Cleaned n, rs', s') \<Rightarrow> retention_creds z now rs' (store_report now ''store'' ''info'' [''events cleaned'', show_nat n] s')
     | (CleanupFailed e n, rs', s') \<Rightarrow> ((Some e, True), s')
     | (MoreRounds, rs', s') \<Rightarrow> ((None, False), s'))"

text \<open>The step of the loop: a fatal error, or None to go on; False when rounds are missing.\<close>

definition retentionStep :: "zone \<Rightarrow> int \<Rightarrow> bytes \<Rightarrow> ret_round list \<Rightarrow> store \<Rightarrow> (bytes list option \<times> bool) \<times> store" where
  "retentionStep z now label rs s =
    (case runRetentionOnce z now rs s of
       ((_, False), s') \<Rightarrow> ((None, False), s')
     | ((err, True), s') \<Rightarrow>
       (let s2 = (case err of None \<Rightarrow> s' | Some e \<Rightarrow> store_report now ''store'' ''error'' ([''retention failed'', label] @ e) s')
        in ((map_option (\<lambda>e. ''batch commit failed'' # e) (st_yieldErr s2), True), s2)))"

subsection \<open>Archive requests\<close>

definition RequestArchive :: "bytes \<Rightarrow> store \<Rightarrow> bytes option \<times> store" where
  "RequestArchive month s =
    (case try_send month (st_archiveReq s) of
       (True, q) \<Rightarrow> (None, s\<lparr>st_archiveReq := q\<rparr>)
     | (False, q) \<Rightarrow> (Some ''archive queue full'', s))"

text \<open>The archiver's request of \<^verbatim>\<open>cmd/sentry-agent/main.go\<close>: a refused one is reported.\<close>

definition request_month :: "int \<Rightarrow> bytes \<Rightarrow> store \<Rightarrow> store" where
  "request_month now month s =
    (case RequestArchive month s of (None, s') \<Rightarrow> s'
     | (Some e, s') \<Rightarrow> store_report now ''archiver'' ''warn'' [''request refused'', month, e] s')"

definition execArchive :: "zone \<Rightarrow> int \<Rightarrow> bytes \<Rightarrow> bytes + u64 \<times> u64 \<times> u64 \<Rightarrow> store \<Rightarrow> bytes list option \<times> store" where
  "execArchive z now month statfs s =
    (let (usage, err) = (case UsagePercent statfs of Inl e \<Rightarrow> (0, Some e) | Inr u \<Rightarrow> (u, None)) in
     if ShouldSkipArchive usage (err = None) (op_ArchiveCriticalPct (st_opts s)) then
       (None, store_report now ''archiver'' ''warn'' ([''archive skipped'', month] @ (case err of None \<Rightarrow> [] | Some e \<Rightarrow> [e])) s)
     else
       (let s1 = store_report now ''archiver'' ''info'' [''archive started'', month] s in
        case ArchiveMonthDB z month (st_w s1) of
          (Some e, w) \<Rightarrow> (Some ([''archive failed'', month] @ e),
             store_report now ''archiver'' ''error'' ([''archive failed'', month] @ e) (s1\<lparr>st_w := w\<rparr>))
        | (None, w) \<Rightarrow> (None, store_report now ''archiver'' ''info'' [''archive done'', month] (s1\<lparr>st_w := w\<rparr>))))"

definition QuerySuccessfulSSHIPs :: "int \<Rightarrow> int \<Rightarrow> world \<Rightarrow> (bytes + u32 list) \<times> world" where
  "QuerySuccessfulSSHIPs now windowDays w =
    (let cutoff = unix now - windowDays * 86400 in
     sql_query (\<lambda>d. remdups (List.map_filter (\<lambda>r. case snd r of
         [VInt ts, VInt src, _, VText method, VInt result, _, _] \<Rightarrow>
           if result = int ResultOK \<and> method = ''publickey'' \<and> cutoff \<le> ts then Some (word_of_int src) else None
       | _ \<Rightarrow> None) (tb_rows d ''ssh_attempts''))) w)"

subsection \<open>The writer\<close>

text \<open>
  What the writer does next, and what other goroutines do in between: events and archive requests
  arrive; the ticker, the first cleanup, the daily timer, a queued request, one of the channels, or
  the end of the context is chosen. At the end, \<^verbatim>\<open>Done\<close> carries what producers still send before they
  have all exited.
\<close>

datatype st_input =
    Arrive "any_event list"
  | Request bytes
  | Tick
  | RetentionNow "ret_round list"
  | RetentionTimer "ret_round list"
  | ArchiveNext "bytes + u64 \<times> u64 \<times> u64"
  | TakeResource | TakeConn | TakeSSH | TakeFW | TakeF2B | TakeCred | TakeSystem
  | CtxEnds "any_event list"

datatype st_end = GoesOn | Stuck | Ended "bytes list option"

definition take_from :: "(channels \<Rightarrow> 'a chan) \<Rightarrow> ('a chan \<Rightarrow> channels \<Rightarrow> channels) \<Rightarrow> ('a \<Rightarrow> any_event) \<Rightarrow> store \<Rightarrow> store" where
  "take_from get put wrap s =
    (case try_recv (get (st_ch s)) of None \<Rightarrow> s
     | Some (v, c) \<Rightarrow> s\<lparr>st_ch := put c (st_ch s), st_pending := enqueue (kind_of (wrap v)) (wrap v) (st_pending s)\<rparr>)"

definition take_system :: "store \<Rightarrow> st_end \<times> store" where
  "take_system s =
    (case try_recv (c_system (st_ch s)) of None \<Rightarrow> (GoesOn, s)
     | Some (v, c) \<Rightarrow>
       (let s1 = s\<lparr>st_ch := (st_ch s)\<lparr>c_system := c\<rparr>\<rparr> in
        case writeBatch [\<lparr>it_kind = ''system'', it_v = ASystem v\<rparr>] (st_w s1) of
          (Some e, w) \<Rightarrow> (Ended (Some (''system event not written'' # e)), s1\<lparr>st_w := w\<rparr>)
        | (None, w) \<Rightarrow> (GoesOn, s1\<lparr>st_w := w\<rparr>)))"

definition of_step :: "(bytes list option \<times> bool) \<times> store \<Rightarrow> st_end \<times> store" where
  "of_step r = (case r of ((_, False), s) \<Rightarrow> (Stuck, s) | ((Some e, True), s) \<Rightarrow> (Ended (Some e), s) | ((None, True), s) \<Rightarrow> (GoesOn, s))"

text \<open>The branch that is taken.\<close>

definition st_branch :: "zone \<Rightarrow> int \<Rightarrow> st_input \<Rightarrow> store \<Rightarrow> st_end \<times> store" where
  "st_branch z now x s =
    (case x of
       Arrive vs \<Rightarrow> (GoesOn, arrivals vs s)
     | Request m \<Rightarrow> (GoesOn, request_month now m s)
     | Tick \<Rightarrow> (case flush now s of (Some e, s') \<Rightarrow> (Ended (Some (''batch commit failed'' # e)), s') | (None, s') \<Rightarrow> (GoesOn, s'))
     | RetentionNow rs \<Rightarrow>
         if st_retentionNow s then of_step (retentionStep z now ''first'' rs (s\<lparr>st_retentionNow := False\<rparr>)) else (GoesOn, s)
     | RetentionTimer rs \<Rightarrow>
         if 0 < op_RetentionDays (st_opts s) \<or> 0 < op_CredRetentionDays (st_opts s)
         then of_step (retentionStep z now ''timer'' rs s) else (GoesOn, s)
     | ArchiveNext statfs \<Rightarrow>
         (case try_recv (st_archiveReq s) of None \<Rightarrow> (GoesOn, s)
          | Some (month, q) \<Rightarrow> (GoesOn, snd (execArchive z now month statfs (s\<lparr>st_archiveReq := q\<rparr>))))
     | TakeResource \<Rightarrow> (GoesOn, take_from c_resource (\<lambda>c. c_resource_update (\<lambda>_. c)) AResource s)
     | TakeConn \<Rightarrow> (GoesOn, take_from c_conn (\<lambda>c. c_conn_update (\<lambda>_. c)) AConn s)
     | TakeSSH \<Rightarrow> (GoesOn, take_from c_ssh (\<lambda>c. c_ssh_update (\<lambda>_. c)) ASSH s)
     | TakeFW \<Rightarrow> (GoesOn, take_from c_fw (\<lambda>c. c_fw_update (\<lambda>_. c)) AFW s)
     | TakeF2B \<Rightarrow> (GoesOn, take_from c_f2b (\<lambda>c. c_f2b_update (\<lambda>_. c)) AF2B s)
     | TakeCred \<Rightarrow> (GoesOn, take_from c_cred (\<lambda>c. c_cred_update (\<lambda>_. c)) ACred s)
     | TakeSystem \<Rightarrow> take_system s
     | CtxEnds vs \<Rightarrow>
         (case flush now (drainInto (arrivals vs s)) of (e, s') \<Rightarrow> (Ended e, s')))"

text \<open>After a branch that does not return, a full batch is written.\<close>

definition st_step :: "zone \<Rightarrow> int \<Rightarrow> st_input \<Rightarrow> store \<Rightarrow> st_end \<times> store" where
  "st_step z now x s =
    (case st_branch z now x s of
       (GoesOn, s1) \<Rightarrow>
         (if op_BatchSize (st_opts s1) \<le> length (st_pending s1) then
            (case flush now s1 of (Some e, s2) \<Rightarrow> (Ended (Some (''batch commit failed'' # e)), s2) | (None, s2) \<Rightarrow> (GoesOn, s2))
          else (GoesOn, s1))
     | (r, s1) \<Rightarrow> (r, s1))"

fun st_run :: "zone \<Rightarrow> (int \<times> st_input) list \<Rightarrow> store \<Rightarrow> st_end \<times> store" where
  "st_run z [] s = (GoesOn, s)"
| "st_run z ((now, x) # xs) s =
    (case st_step z now x s of (GoesOn, s') \<Rightarrow> st_run z xs s' | (r, s') \<Rightarrow> (r, s'))"

text \<open>\<^verbatim>\<open>NewStore\<close>: the steps that can fail, then the store with an empty queue of eight requests.\<close>

definition initMeta :: "int \<Rightarrow> bytes \<Rightarrow> failing" where
  "initMeta now hostname =
    steps (map (\<lambda>(k, v). labelled ''meta'' (sql_exec (InitMeta k v)))
      [(''schema_version'', ''1''), (''created_at'', show_int (unix now)), (''hostname'', hostname)])"

definition NewStore :: "int \<Rightarrow> bytes \<Rightarrow> options \<Rightarrow> bytes option \<Rightarrow> bytes option \<Rightarrow> channels \<Rightarrow> world \<Rightarrow> (bytes list + store) \<times> world" where
  "NewStore now hostname opts chmodErr1 chmodErr ch w =
    (case steps [labelled ''database directory'' call, labelled ''archive directory'' call, CleanStaleTmp,
            labelled ''open'' call, labelled ''schema'' call, initMeta now hostname] w of
       (Some e, w') \<Rightarrow> (Inl e, w')
     | (None, w') \<Rightarrow>
       (let s = \<lparr>st_w = w', st_ch = ch, st_opts = opts, st_pending = [], st_walChmod = False, st_chmodErr = chmodErr,
              st_yieldErr = None, st_retentionNow = False, st_archiveReq = make_chan 8\<rparr>
        in (Inr (case chmodErr1 of None \<Rightarrow> s | Some e \<Rightarrow> store_report now ''store'' ''warn'' [''data file permissions'', e] s), w')))"

text \<open>\<^verbatim>\<open>Run\<close>: the warning, the first cleanup pending when any retention is on, then the loop.\<close>

definition StoreRun :: "zone \<Rightarrow> int \<Rightarrow> (int \<times> st_input) list \<Rightarrow> store \<Rightarrow> st_end \<times> store" where
  "StoreRun z now xs s =
    st_run z xs ((warnRetentionArchiveGap now s)\<lparr>st_retentionNow :=
       (0 < op_RetentionDays (st_opts s) \<or> 0 < op_CredRetentionDays (st_opts s))\<rparr>)"

subsection \<open>Batches are atomic\<close>

text \<open>
  What the writer relies on: writing a list either adds exactly its statements, in order, to the log of
  what is committed, or leaves the log as it was.
\<close>

locale atomic_log =
  fixes commit :: "'i list \<Rightarrow> 'w \<Rightarrow> 'e option \<times> 'w"
    and log :: "'w \<Rightarrow> 's list"
    and stmt_of :: "'i \<Rightarrow> 'x + 's"
  assumes commit_ok: "commit is w = (None, w') \<Longrightarrow> map Inr (log w') = map Inr (log w) @ map stmt_of is"
    and commit_err: "commit is w = (Some e, w') \<Longrightarrow> log w' = log w"
begin

text \<open>What is committed and what is still pending together do not change.\<close>

definition total :: "'i list \<Rightarrow> 'w \<Rightarrow> ('x + 's) list" where
  "total pending w = map Inr (log w) @ map stmt_of pending"

lemma total_write: "commit is w = (e, w') \<Longrightarrow> total (if e = None then [] else is) w' = total is w"
  by (cases e) (auto simp: total_def dest: commit_ok commit_err)

text \<open>A run of batches, up to the first that fails: what is left is the tail that was not committed.\<close>

fun write_batches :: "'i list list \<Rightarrow> 'w \<Rightarrow> 'i list list \<times> 'w" where
  "write_batches [] w = ([], w)"
| "write_batches (b # bs) w = (case commit b w of (None, w') \<Rightarrow> write_batches bs w' | (Some e, w') \<Rightarrow> (b # bs, w'))"

lemma write_batches_total: "write_batches bs w = (rest, w') \<Longrightarrow> total (concat rest) w' = total (concat bs) w"
proof (induction bs arbitrary: w)
  case (Cons b bs)
  obtain e w1 where b: "commit b w = (e, w1)" by force
  show ?case
  proof (cases e)
    case None
    then have "total (concat rest) w' = total (concat bs) w1" using Cons b by simp
    then show ?thesis using total_write [OF b] None by (simp add: total_def)
  next
    case (Some x)
    then show ?thesis using Cons.prems b commit_err [of b w x w1] by (simp add: total_def)
  qed
qed simp

lemma write_nothing_left: "write_batches bs w = ([], w') \<Longrightarrow> map Inr (log w') = map Inr (log w) @ map stmt_of (concat bs)"
  using write_batches_total [of bs w "[]" w'] by (simp add: total_def)

end

lemma insert_items_log:
  assumes "w_txn w = Some ss" "insert_items its w = (e, w')"
  shows "w_hist w' = w_hist w \<and> (e = None \<longrightarrow> (\<exists>ts. w_txn w' = Some (ss @ ts) \<and> map Inr ts = map item_stmt its))"
  using assms
proof (induction its arbitrary: w ss)
  case (Cons it its)
  show ?case
  proof (cases "item_stmt it")
    case (Inl x)
    then show ?thesis using Cons.prems by auto
  next
    case (Inr st)
    from Cons.prems(1) show ?thesis
    proof (cases rule: sql_exec_in_txn [where st = st])
      case (fails x w1)
      then show ?thesis using Cons.prems(2) Inr by auto
    next
      case (works w1)
      then show ?thesis using Cons.prems(2) Inr Cons.IH [OF works(3)] by auto
    qed
  qed
qed simp

lemma writeBatch_cases:
  assumes "writeBatch its w = (e, w')"
  shows "if e = None then map Inr (w_hist w') = map Inr (w_hist w) @ map item_stmt its else w_hist w' = w_hist w"
proof (cases "its = []")
  case False
  show ?thesis
  proof (cases "w_txn w")
    case (Some ss)
    then show ?thesis using assms False
      by (cases w rule: call_cases) (auto simp: writeBatch_def sql_begin_def)
  next
    case None
    then show ?thesis
    proof (cases rule: sql_begin_cases)
      case (fails x w1)
      then show ?thesis using assms False by (auto simp: writeBatch_def)
    next
      case (works w1)
      obtain x w2 where i: "insert_items its w1 = (x, w2)" by force
      note l = insert_items_log [OF works(3) i]
      show ?thesis
      proof (cases x)
        case (Some y)
        then show ?thesis using assms False works i l by (auto simp: writeBatch_def)
      next
        case None
        then obtain ts where t: "w_txn w2 = Some ts" "map Inr ts = map item_stmt its" using l by auto
        from t(1) show ?thesis
        proof (cases rule: sql_commit_cases)
          case (fails y w3)
          then show ?thesis using assms False works i l None by (auto simp: writeBatch_def)
        next
          case (works w3)
          then show ?thesis
            using assms False \<open>sql_begin w = (None, w1)\<close> i l None t \<open>w_hist w1 = w_hist w\<close> by (auto simp: writeBatch_def)
        qed
      qed
    qed
  qed
qed (use assms in \<open>simp add: writeBatch_def\<close>)

interpretation batch: atomic_log writeBatch w_hist item_stmt
  by unfold_locales (use writeBatch_cases in \<open>force+\<close>)

end
