(* ===== verification/StoreFlow.thy ===== *)
theory StoreFlow
  imports Store
begin

text \<open>
  No event is lost, duplicated or reordered: the flow of a kind of event is what is committed of it,
  what is pending and what waits in its channel, in this order. Every operation of the writer keeps it
  or appends what is sent.
\<close>

text \<open>The events of a kind in the channels, oldest first.\<close>

definition in_channels :: "channels \<Rightarrow> any_event list" where
  "in_channels c = map AResource (ch_buf (c_resource c)) @ map AConn (ch_buf (c_conn c)) @ map ASSH (ch_buf (c_ssh c)) @
     map AFW (ch_buf (c_fw c)) @ map AF2B (ch_buf (c_f2b c)) @ map ACred (ch_buf (c_cred c)) @ map ASystem (ch_buf (c_system c))"

definition of_kind :: "bytes \<Rightarrow> any_event list \<Rightarrow> any_event list" where
  "of_kind k vs = filter (\<lambda>v. kind_of v = k) vs"

definition queued :: "bytes \<Rightarrow> channels \<Rightarrow> any_event list" where
  "queued k c = of_kind k (in_channels c)"

definition event_stmt :: "any_event \<Rightarrow> bytes list + stmt" where
  "event_stmt v = item_stmt \<lparr>it_kind = kind_of v, it_v = v\<rparr>"

definition into :: "bytes \<Rightarrow> stmt \<Rightarrow> bool" where
  "into k st = (case st of Insert t vs \<Rightarrow> insertStmts k = Some t | _ \<Rightarrow> False)"

definition written :: "bytes \<Rightarrow> world \<Rightarrow> stmt list" where
  "written k w = filter (into k) (w_hist w)"

text \<open>Everything of a kind, from what is committed to what was sent last.\<close>

definition flow :: "bytes \<Rightarrow> store \<Rightarrow> (bytes list + stmt) list" where
  "flow k s = map Inr (written k (st_w s)) @ map item_stmt (filter (\<lambda>it. it_kind it = k) (st_pending s)) @
     map event_stmt (queued k (st_ch s))"

lemma of_kind_append [simp]: "of_kind k (xs @ ys) = of_kind k xs @ of_kind k ys"
  by (simp add: of_kind_def)

lemma of_kind_maps [simp]:
  "of_kind k (map AResource a) = (if k = ''resource'' then map AResource a else [])"
  "of_kind k (map AConn b) = (if k = ''conn'' then map AConn b else [])"
  "of_kind k (map ASSH c) = (if k = ''ssh'' then map ASSH c else [])"
  "of_kind k (map AFW d) = (if k = ''fw'' then map AFW d else [])"
  "of_kind k (map AF2B e) = (if k = ''f2b'' then map AF2B e else [])"
  "of_kind k (map ACred f) = (if k = ''cred'' then map ACred f else [])"
  "of_kind k (map ASystem g) = (if k = ''system'' then map ASystem g else [])"
  by (auto simp: of_kind_def filter_map comp_def)

lemma of_kind_parts:
  "map AResource (resources_of vs) = of_kind ''resource'' vs" "map AConn (conns_of vs) = of_kind ''conn'' vs"
  "map ASSH (sshs_of vs) = of_kind ''ssh'' vs" "map AFW (fws_of vs) = of_kind ''fw'' vs"
  "map AF2B (bans_of vs) = of_kind ''f2b'' vs" "map ACred (creds_of vs) = of_kind ''cred'' vs"
  "map ASystem (systems_of vs) = of_kind ''system'' vs"
  by (induction vs) (auto simp: of_kind_def of_defs split: any_event.splits)

lemma kinds: "kind_of v \<in> {''resource'', ''conn'', ''ssh'', ''fw'', ''f2b'', ''cred'', ''system''}"
  by (cases v) simp_all

lemma kind_not_eq:
  "k \<notin> {''resource'', ''conn'', ''ssh'', ''fw'', ''f2b'', ''cred'', ''system''} \<Longrightarrow> of_kind k vs = []"
  using kinds by (fastforce simp: of_kind_def filter_empty_conv simp del: insert_iff)

lemma queued_kinds:
  "queued ''resource'' c = map AResource (ch_buf (c_resource c))" "queued ''conn'' c = map AConn (ch_buf (c_conn c))"
  "queued ''ssh'' c = map ASSH (ch_buf (c_ssh c))" "queued ''fw'' c = map AFW (ch_buf (c_fw c))"
  "queued ''f2b'' c = map AF2B (ch_buf (c_f2b c))" "queued ''cred'' c = map ACred (ch_buf (c_cred c))"
  "queued ''system'' c = map ASystem (ch_buf (c_system c))"
  by (simp_all add: queued_def in_channels_def)

lemma queued_accounts: "accounts c got c' \<Longrightarrow> queued k c = of_kind k got @ queued k c'"
proof -
  assume a: "accounts c got c'"
  have e: "queued ''resource'' c = of_kind ''resource'' got @ queued ''resource'' c'"
    "queued ''conn'' c = of_kind ''conn'' got @ queued ''conn'' c'" "queued ''ssh'' c = of_kind ''ssh'' got @ queued ''ssh'' c'"
    "queued ''fw'' c = of_kind ''fw'' got @ queued ''fw'' c'" "queued ''f2b'' c = of_kind ''f2b'' got @ queued ''f2b'' c'"
    "queued ''cred'' c = of_kind ''cred'' got @ queued ''cred'' c'"
    "queued ''system'' c = of_kind ''system'' got @ queued ''system'' c'"
    using a unfolding accounts_def by (simp_all add: queued_kinds of_kind_parts [symmetric])
  show ?thesis
  proof (cases "k \<in> {''resource'', ''conn'', ''ssh'', ''fw'', ''f2b'', ''cred'', ''system''}")
    case True
    then show ?thesis by (elim insertE emptyE) (simp_all only: e)
  next
    case False
    then show ?thesis using kind_not_eq [OF False] by (simp add: queued_def)
  qed
qed

lemma drain_queued: "Drain c = (got, c') \<Longrightarrow> queued k c = of_kind k got \<and> in_channels c' = []"
proof -
  assume "Drain c = (got, c')"
  then have "accounts c got c'" "in_transit c' = 0" using Drain_accounts by blast+
  moreover from this(2) have "in_channels c' = []" by (simp add: in_transit_def in_channels_def)
  ultimately show ?thesis using queued_accounts [of c got c' k] by (simp add: queued_def of_kind_def)
qed

lemma enqueue_all: "fold (\<lambda>v p. enqueue (kind_of v) v p) vs p = p @ map (\<lambda>v. \<lparr>it_kind = kind_of v, it_v = v\<rparr>) vs"
  by (induction vs arbitrary: p) (simp_all add: enqueue_def)

lemma item_kind_filter: "filter (\<lambda>it. it_kind it = k) (map (\<lambda>v. \<lparr>it_kind = kind_of v, it_v = v\<rparr>) vs)
    = map (\<lambda>v. \<lparr>it_kind = kind_of v, it_v = v\<rparr>) (of_kind k vs)"
  by (simp add: filter_map comp_def of_kind_def)

lemma flow_drain: "flow k (drainInto s) = flow k s \<and> in_channels (st_ch (drainInto s)) = []"
proof -
  obtain got c where d: "Drain (st_ch s) = (got, c)" by force
  have "queued k c = []" using drain_queued [OF d] by (simp add: queued_def of_kind_def)
  then show ?thesis
    using drain_queued [OF d, of k]
    by (simp add: flow_def drainInto_def d enqueue_all item_kind_filter event_stmt_def comp_def)
qed

lemma kind_tables: "insertStmts a = Some t \<Longrightarrow> insertStmts b = Some t \<Longrightarrow> a = b"
  by (auto simp: insertStmts_def split: if_splits)

lemma item_into: "item_stmt it = Inr st \<Longrightarrow> into k st \<longleftrightarrow> it_kind it = k \<and> insertStmts k \<noteq> None"
  using kind_tables [of "it_kind it" _ k]
  by (auto simp: item_stmt_def into_def split: option.splits sum.splits)

lemma stmts_filter:
  "map Inr ss = map item_stmt its \<Longrightarrow> insertStmts k \<noteq> None \<Longrightarrow>
    map Inr (filter (into k) ss) = map item_stmt (filter (\<lambda>it. it_kind it = k) its)"
proof (induction its arbitrary: ss)
  case (Cons it its)
  then obtain st ss' where ss: "ss = st # ss'" "item_stmt it = Inr st" "map Inr ss' = map item_stmt its"
    by (cases ss) auto
  then show ?case using Cons item_into [OF ss(2), of k] by auto
qed simp

lemma writeBatch_written:
  assumes "writeBatch its w = (e, w')" "insertStmts k \<noteq> None"
  shows "map Inr (written k w') @ (if e = None then [] else map item_stmt (filter (\<lambda>it. it_kind it = k) its)) =
    map Inr (written k w) @ map item_stmt (filter (\<lambda>it. it_kind it = k) its)"
proof (cases e)
  case None
  then have h: "map Inr (w_hist w') = map Inr (w_hist w) @ map item_stmt its"
    using writeBatch_cases [OF assms(1)] by simp
  define n where "n = length (w_hist w)"
  have t: "take n (w_hist w') = w_hist w" "map Inr (drop n (w_hist w')) = map item_stmt its"
    using arg_cong [OF h, of "take n"] arg_cong [OF h, of "drop n"]
    by (simp_all add: n_def take_map drop_map)
  then have "w_hist w' = w_hist w @ drop n (w_hist w')" by (metis append_take_drop_id)
  then have "written k w' = written k w @ filter (into k) (drop n (w_hist w'))"
    by (metis filter_append written_def)
  then show ?thesis using None stmts_filter [OF t(2) assms(2)] by simp
next
  case (Some x)
  then show ?thesis using writeBatch_cases [OF assms(1)] by (simp add: written_def)
qed

lemma store_report_fields [simp]:
  "st_w (store_report t a b m s) = st_w s" "st_pending (store_report t a b m s) = st_pending s"
  "st_opts (store_report t a b m s) = st_opts s" "st_yieldErr (store_report t a b m s) = st_yieldErr s"
  by (simp_all add: store_report_def)

lemma queued_report: "k \<noteq> ''system'' \<Longrightarrow> queued k (st_ch (store_report t a b m s)) = queued k (st_ch s)"
  by (simp add: queued_def in_channels_def store_report_def)

lemma flow_report: "k \<noteq> ''system'' \<Longrightarrow> flow k (store_report t a b m s) = flow k s"
  by (simp add: flow_def queued_report)

lemma flow_flush:
  assumes "flush now s = (e, s')" "insertStmts k \<noteq> None" "k \<noteq> ''system''"
  shows "flow k s' = flow k s \<and> (e = None \<longrightarrow> st_pending s' = []) \<and> queued k (st_ch s') = queued k (st_ch s)"
proof (cases "st_pending s = []")
  case False
  obtain x w where b: "writeBatch (st_pending s) (st_w s) = (x, w)" by force
  note wr = writeBatch_written [OF b assms(2)]
  show ?thesis
  proof (cases x)
    case (Some y)
    then show ?thesis using assms False b wr by (auto simp: flush_def flow_def)
  next
    case None
    define s1 where "s1 = (if st_walChmod s then s\<lparr>st_w := w\<rparr> else (case st_chmodErr s of None \<Rightarrow> s\<lparr>st_w := w, st_walChmod := True\<rparr>
      | Some e \<Rightarrow> store_report now ''store'' ''warn'' [''WAL/SHM permissions'', e] (s\<lparr>st_w := w, st_walChmod := True\<rparr>)))"
    have "e = None" "s' = s1\<lparr>st_pending := []\<rparr>" using assms(1) False b None by (auto simp: flush_def s1_def Let_def split: option.splits)
    moreover have "st_w s1 = w" "queued k (st_ch s1) = queued k (st_ch s)"
      using assms(3) by (auto simp: s1_def queued_report split: option.split)
    ultimately show ?thesis using wr None by (simp add: flow_def)
  qed
qed (use assms in \<open>simp add: flush_def\<close>)

text \<open>What another goroutine sends ends up behind everything of its kind, if the channel has room.\<close>

lemma arrive_queued: "\<exists>new. queued k (arrive v c) = queued k c @ new \<and> subseq new (of_kind k [v])"
proof -
  have t: "ch_buf (snd (try_send x q)) = ch_buf q @ (if length (ch_buf q) < ch_cap q then [x] else [])" for x and q :: "'a chan"
    by (simp add: try_send_def)
  have "queued k (arrive v c) = queued k c \<or> (kind_of v = k \<and> queued k (arrive v c) = queued k c @ [v])"
    by (cases v) (auto simp: queued_def in_channels_def t)
  then show ?thesis
    by (auto simp: of_kind_def intro: exI [of _ "[]"] exI [of _ "[v]"])
qed

lemma arrivals_queued: "\<exists>new. queued k (fold arrive vs c) = queued k c @ new \<and> subseq new (of_kind k vs)"
proof (induction vs arbitrary: c)
  case (Cons v vs)
  obtain a where a: "queued k (arrive v c) = queued k c @ a" "subseq a (of_kind k [v])"
    using arrive_queued by blast
  obtain b where b: "queued k (fold arrive vs (arrive v c)) = queued k (arrive v c) @ b" "subseq b (of_kind k vs)"
    using Cons.IH by blast
  have "subseq (a @ b) (of_kind k [v] @ of_kind k vs)" using a(2) b(2) by (rule list_emb_append_mono)
  moreover have "of_kind k (v # vs) = of_kind k [v] @ of_kind k vs" by (simp add: of_kind_def)
  ultimately show ?case using a(1) b(1) by (intro exI [of _ "a @ b"]) simp
qed (simp add: of_kind_def)

text \<open>The flow of a kind grows by some of what is sent, and never shrinks.\<close>

definition grows :: "bytes \<Rightarrow> any_event list \<Rightarrow> store \<Rightarrow> store \<Rightarrow> bool" where
  "grows k vs s s' \<longleftrightarrow> (\<exists>new. flow k s' = flow k s @ map event_stmt new \<and> subseq new (of_kind k vs))"

lemma grows_refl: "flow k s' = flow k s \<Longrightarrow> grows k vs s s'"
  by (auto simp: grows_def intro: exI [of _ "[]"])

lemma grows_trans: "grows k vs a b \<Longrightarrow> grows k us b c \<Longrightarrow> grows k (vs @ us) a c"
  unfolding grows_def of_kind_append by (metis append.assoc list_emb_append_mono map_append)

lemma grows_arrivals: "grows k vs s (arrivals vs s)"
proof -
  obtain new where "queued k (fold arrive vs (st_ch s)) = queued k (st_ch s) @ new" "subseq new (of_kind k vs)"
    using arrivals_queued by blast
  then show ?thesis unfolding grows_def by (intro exI [of _ new]) (simp add: flow_def arrivals_def)
qed

text \<open>A kind of event the writer batches: every kind but system.\<close>

definition batched :: "bytes \<Rightarrow> bool" where
  "batched k \<longleftrightarrow> insertStmts k \<noteq> None \<and> k \<noteq> ''system''"

lemma flow_yield: "batched k \<Longrightarrow> flow k (yield_step now s) = flow k s"
proof -
  assume k: "batched k"
  obtain e s2 where f: "flush now (drainInto s) = (e, s2)" by force
  have "flow k (s2\<lparr>st_yieldErr := x\<rparr>) = flow k s2" for x by (simp add: flow_def)
  then show ?thesis
    using flow_flush [OF f, of k] flow_drain [of k s] k f
    by (auto simp: yield_step_def batched_def Let_def split: option.split)
qed

definition sent_in :: "ret_round list \<Rightarrow> any_event list" where
  "sent_in rs = concat (map rr_sent rs)"

lemma flow_world: "written k w = written k (st_w s) \<Longrightarrow> flow k (s\<lparr>st_w := w\<rparr>) = flow k s"
  by (simp add: flow_def)

lemma exec_written: "sql_exec st w = (e, w') \<Longrightarrow> \<not> is_insert st \<Longrightarrow> written k w' = written k w"
proof -
  assume x: "sql_exec st w = (e, w')" and "\<not> is_insert st"
  then have "\<not> into k st" by (auto simp: into_def is_insert_def split: stmt.splits)
  then show ?thesis
    using x by (cases w rule: call_cases) (auto simp: sql_exec_def written_def split: option.splits)
qed

lemma grows_cleanup:
  assumes "batched k" "cleanupTable t c n g rs s = (r, rs', s')"
  shows "\<exists>us. rs = us @ rs' \<and> grows k (sent_in us) s s'"
  using assms
proof (induction t c n g rs s rule: cleanupTable.induct)
  case (1 t c n g s)
  then show ?case by (auto intro: grows_refl)
next
  case (2 t c n g r0 rs s)
  obtain e w where x: "sql_exec (DeleteOld t c n) (st_w s) = (e, w)" by force
  have w: "flow k (s\<lparr>st_w := w\<rparr>) = flow k s"
    by (rule flow_world) (rule exec_written [OF x], simp add: is_insert_def)
  show ?case
  proof (cases "rr_cancel r0 \<or> e \<noteq> None \<or> affected t c n (st_w s) = 0")
    case True
    then have "rs' = rs \<and> flow k s' = flow k s"
      using "2.prems"(2) x w by (cases e) (auto simp: Let_def split: if_splits)
    then show ?thesis by (auto intro!: exI [of _ "[r0]"] grows_refl)
  next
    case False
    define s1 where "s1 = yield_step (rr_now r0) (arrivals (rr_sent r0) (s\<lparr>st_w := w\<rparr>))"
    have rec: "cleanupTable t c n (g + affected t c n (st_w s)) rs s1 = (r, rs', s')"
      using "2.prems"(2) False x by (simp add: Let_def s1_def)
    have "\<exists>us. rs = us @ rs' \<and> grows k (sent_in us) s1 s'"
      using "2.IH" [OF _ x [symmetric]] False "2.prems"(1) rec by (simp add: s1_def)
    then obtain us where u: "rs = us @ rs'" "grows k (sent_in us) s1 s'" by blast
    have "grows k (rr_sent r0) s s1"
      using grows_arrivals [of k "rr_sent r0" "s\<lparr>st_w := w\<rparr>"] flow_yield [OF "2.prems"(1)] w
      by (simp add: grows_def s1_def)
    then have "grows k (rr_sent r0 @ sent_in us) s s'" using u(2) by (rule grows_trans)
    then show ?thesis using u(1) by (intro exI [of _ "r0 # us"]) (simp add: sent_in_def)
  qed
qed

lemma grows_cleanup_all:
  assumes "batched k" "cleanup_all ts c g rs s = (r, rs', s')"
  shows "\<exists>us. rs = us @ rs' \<and> grows k (sent_in us) s s'"
  using assms(2)
proof (induction ts arbitrary: g rs s)
  case Nil
  then show ?case by (auto intro!: exI [of _ "[]"] grows_refl)
next
  case (Cons t ts)
  obtain r1 rs1 s1 where c: "cleanupTable t c retentionBatchSize 0 rs s = (r1, rs1, s1)" by (metis prod_cases3)
  obtain us where u: "rs = us @ rs1" "grows k (sent_in us) s s1" using grows_cleanup [OF assms(1) c] by blast
  show ?case
  proof (cases r1)
    case (Cleaned n)
    then obtain vs where v: "rs1 = vs @ rs'" "grows k (sent_in vs) s1 s'"
      using Cons.IH [of "g + n" rs1 s1] Cons.prems c by auto
    then show ?thesis using u grows_trans [OF u(2) v(2)] by (intro exI [of _ "us @ vs"]) (simp add: sent_in_def)
  qed (use Cons.prems c u in auto)
qed

lemma grows_sub: "grows k (sent_in us) s s' \<Longrightarrow> rs = us @ rs' \<Longrightarrow> grows k (sent_in rs) s s'"
proof -
  assume "grows k (sent_in us) s s'" and rs: "rs = us @ rs'"
  then obtain new where n: "flow k s' = flow k s @ map event_stmt new" "subseq new (of_kind k (sent_in us))"
    by (auto simp: grows_def)
  have "of_kind k (sent_in rs) = of_kind k (sent_in us) @ of_kind k (sent_in rs')" using rs by (simp add: sent_in_def)
  then show ?thesis using n unfolding grows_def by (metis subseq_order.order_trans list_emb_prefix prefix_order.refl subseq_rev_drop_many)
qed

lemma flow_more: "flow k (s\<lparr>st_retentionNow := b\<rparr>) = flow k s" "flow k (s\<lparr>st_archiveReq := q\<rparr>) = flow k s"
  by (simp_all add: flow_def)

lemma grows_flow: "grows k vs s s' \<Longrightarrow> flow k s'' = flow k s' \<Longrightarrow> grows k vs s s''"
  by (simp add: grows_def)

lemma grows_meta: "retention_meta now s = (r, s') \<Longrightarrow> flow k s' = flow k s"
proof -
  assume m: "retention_meta now s = (r, s')"
  obtain e w where x: "sql_exec (UpsertMeta ''last_retention_ts'' (show_int (unix now))) (st_w s) = (e, w)" by force
  have "written k w = written k (st_w s)" by (rule exec_written [OF x]) (simp add: is_insert_def)
  then show ?thesis using m x by (cases e) (auto simp: retention_meta_def flow_world)
qed

lemma grows_creds:
  assumes k: "batched k" and r: "retention_creds z now rs s = (r, s')"
  shows "grows k (sent_in rs) s s'"
proof -
  note sys = k [unfolded batched_def, THEN conjunct2]
  obtain x rs1 s1 where c: "cleanupTable ''cred_events'' (retention_cutoff z now (op_CredRetentionDays (st_opts s)))
      retentionBatchSize 0 rs s = (x, rs1, s1)" by (metis prod_cases3)
  then have g: "grows k (sent_in rs) s s1" using grows_cleanup [OF k c] grows_sub by blast
  show ?thesis
  proof (cases "op_CredRetentionDays (st_opts s) \<le> 0")
    case True
    then show ?thesis using r grows_meta [of now s r s' k] by (simp add: retention_creds_def grows_refl)
  next
    case False
    then have "flow k s' = flow k s1"
      using r c by (cases x) (auto simp: retention_creds_def Let_def flow_report [OF sys] dest!: grows_meta [where k = k])
    then show ?thesis using g by (rule grows_flow [rotated])
  qed
qed

lemma grows_retention:
  assumes k: "batched k" and r: "runRetentionOnce z now rs s = (r, s')"
  shows "grows k (sent_in rs) s s'"
proof -
  note sys = k [unfolded batched_def, THEN conjunct2]
  let ?d = "op_RetentionDays (st_opts s)"
  obtain x rs1 s1 where c: "cleanup_all ArchivedTables (retention_cutoff z now ?d) 0 rs s = (x, rs1, s1)" by (metis prod_cases3)
  obtain us where u: "rs = us @ rs1" "grows k (sent_in us) s s1" using grows_cleanup_all [OF k c] by blast
  consider "?d \<le> 0" "op_CredRetentionDays (st_opts s) \<le> 0" | "?d \<le> 0" "\<not> op_CredRetentionDays (st_opts s) \<le> 0"
    | "\<not> ?d \<le> 0" by blast
  then show ?thesis
  proof cases
    case 1
    then show ?thesis using r by (auto simp: runRetentionOnce_def intro: grows_refl)
  next
    case 2
    then show ?thesis using r grows_creds [OF k] by (simp add: runRetentionOnce_def)
  next
    case 3
    show ?thesis
    proof (cases x)
      case (Cleaned n)
      define s2 where "s2 = store_report now ''store'' ''info'' [''events cleaned'', show_nat n] s1"
      have "retention_creds z now rs1 s2 = (r, s')"
        using r c 3 Cleaned by (simp add: runRetentionOnce_def Let_def s2_def)
      then have "grows k (sent_in rs1) s2 s'" by (rule grows_creds [OF k])
      moreover have "grows k (sent_in us) s s2" using u(2) by (simp add: s2_def grows_def flow_report [OF sys])
      ultimately show ?thesis using grows_trans u(1) by (fastforce simp: sent_in_def)
    qed (use r c 3 u grows_sub [OF u(2) u(1)] in \<open>auto simp: runRetentionOnce_def Let_def\<close>)
  qed
qed

lemma grows_step:
  assumes k: "batched k" and r: "retentionStep z now label rs s = (r, s')"
  shows "grows k (sent_in rs) s s'"
proof -
  note sys = k [unfolded batched_def, THEN conjunct2]
  obtain e b s1 where o: "runRetentionOnce z now rs s = ((e, b), s1)" by (metis prod.exhaust)
  have "flow k s' = flow k s1"
    using r o by (cases b; cases e) (auto simp: retentionStep_def Let_def flow_report [OF sys])
  then show ?thesis using grows_retention [OF k o] by (rule grows_flow [rotated])
qed

lemma flow_archive:
  assumes k: "batched k"
  shows "flow k (snd (execArchive z now month st s)) = flow k s"
proof -
  note sys = k [unfolded batched_def, THEN conjunct2]
  obtain e w where a: "ArchiveMonthDB z month (st_w s) = (e, w)" by force
  have "filter (into k) (w_hist v) = filter (into k) (inserts v)" for v
    unfolding inserts_def filter_filter
    by (rule filter_cong) (auto simp: into_def is_insert_def split: stmt.split)
  then have "written k w = written k (st_w s)"
    using quietD [OF quiet_ArchiveMonthDB a] by (simp add: written_def)
  then have "flow k ((store_report t x y z' s)\<lparr>st_w := w\<rparr>) = flow k s" for t x y z'
    using flow_report [OF sys, of t x y z' s] by (simp add: flow_def)
  then show ?thesis
    using a by (cases e) (auto simp: execArchive_def Let_def flow_report [OF sys] split: sum.split prod.split)
qed

lemma flow_request: "batched k \<Longrightarrow> flow k (request_month now m s) = flow k s"
  by (auto simp: request_month_def RequestArchive_def flow_report flow_more batched_def split: prod.split bool.split)

subsection \<open>A step of the writer\<close>

lemma flow_take:
  assumes "\<And>v q. try_recv (get (st_ch s)) = Some (v, q) \<Longrightarrow> queued k (st_ch s) = of_kind k [wrap v] @ queued k (put q (st_ch s))"
  shows "flow k (take_from get put wrap s) = flow k s"
proof (cases "try_recv (get (st_ch s))")
  case (Some p)
  obtain v q where p: "p = (v, q)" by force
  then show ?thesis
    using assms [of v q] Some by (auto simp: take_from_def flow_def enqueue_def of_kind_def event_stmt_def)
qed (simp add: take_from_def)

lemma recv_buf: "try_recv c = Some (v, q) \<Longrightarrow> ch_buf c = v # ch_buf q"
  by (auto simp: try_recv_def split: list.splits)

lemma queued_takes:
  "try_recv (c_resource c) = Some (r, qr) \<Longrightarrow> queued k c = of_kind k [AResource r] @ queued k (c\<lparr>c_resource := qr\<rparr>)"
  "try_recv (c_conn c) = Some (n, qn) \<Longrightarrow> queued k c = of_kind k [AConn n] @ queued k (c\<lparr>c_conn := qn\<rparr>)"
  "try_recv (c_ssh c) = Some (h, qh) \<Longrightarrow> queued k c = of_kind k [ASSH h] @ queued k (c\<lparr>c_ssh := qh\<rparr>)"
  "try_recv (c_fw c) = Some (f, qf) \<Longrightarrow> queued k c = of_kind k [AFW f] @ queued k (c\<lparr>c_fw := qf\<rparr>)"
  "try_recv (c_f2b c) = Some (b, qb) \<Longrightarrow> queued k c = of_kind k [AF2B b] @ queued k (c\<lparr>c_f2b := qb\<rparr>)"
  "try_recv (c_cred c) = Some (d, qd) \<Longrightarrow> queued k c = of_kind k [ACred d] @ queued k (c\<lparr>c_cred := qd\<rparr>)"
  by (rule queued_accounts, simp add: accounts_def of_defs recv_buf)+

lemma flow_takes:
  "flow k (take_from c_resource (\<lambda>c. c_resource_update (\<lambda>_. c)) AResource s) = flow k s"
  "flow k (take_from c_conn (\<lambda>c. c_conn_update (\<lambda>_. c)) AConn s) = flow k s"
  "flow k (take_from c_ssh (\<lambda>c. c_ssh_update (\<lambda>_. c)) ASSH s) = flow k s"
  "flow k (take_from c_fw (\<lambda>c. c_fw_update (\<lambda>_. c)) AFW s) = flow k s"
  "flow k (take_from c_f2b (\<lambda>c. c_f2b_update (\<lambda>_. c)) AF2B s) = flow k s"
  "flow k (take_from c_cred (\<lambda>c. c_cred_update (\<lambda>_. c)) ACred s) = flow k s"
  by (rule flow_take, erule queued_takes)+

lemma inr_map_inject: "map Inr xs = map Inr ys \<Longrightarrow> xs = ys"
  using inj_map_eq_map [of Inr] by (simp add: inj_on_def)

lemma filter_other: "k \<noteq> c \<Longrightarrow> filter (\<lambda>it. it_kind it = k) [\<lparr>it_kind = c, it_v = v\<rparr>] = []"
  by simp

lemma flow_system:
  assumes k: "batched k"
  shows "flow k (snd (take_system s)) = flow k s"
proof (cases "try_recv (c_system (st_ch s))")
  case (Some p)
  obtain v q where p: "p = (v, q)" by force
  obtain e w where b: "writeBatch [\<lparr>it_kind = ''system'', it_v = ASystem v\<rparr>] (st_w s) = (e, w)" by force
  have sys: "k \<noteq> ''system''" "insertStmts k \<noteq> None" using k by (simp_all add: batched_def)
  have "map Inr (written k w) = map Inr (written k (st_w s))"
    using writeBatch_written [OF b sys(2)] unfolding filter_other [OF sys(1)] by (cases e) simp_all
  then have "written k w = written k (st_w s)" by (rule inr_map_inject)
  moreover have "queued k (st_ch s) = queued k ((st_ch s)\<lparr>c_system := q\<rparr>)"
    using sys(1) by (simp add: queued_def in_channels_def)
  ultimately show ?thesis using Some p b by (cases e) (simp_all add: take_system_def Let_def flow_def)
qed (simp add: take_system_def)

text \<open>What producers send with an input.\<close>

definition sent_by :: "st_input \<Rightarrow> any_event list" where
  "sent_by x = (case x of Arrive vs \<Rightarrow> vs | RetentionNow rs \<Rightarrow> sent_in rs | RetentionTimer rs \<Rightarrow> sent_in rs | CtxEnds vs \<Rightarrow> vs | _ \<Rightarrow> [])"

lemma flow_of_step: "of_step (r, s) = (x, s') \<Longrightarrow> s' = s"
  by (auto simp: of_step_def split: prod.splits option.splits bool.splits)

lemma grows_branch:
  assumes k: "batched k" and r: "st_branch z now x s = (e, s')"
  shows "grows k (sent_by x) s s'"
proof -
  have f: "flow k s' = flow k s \<Longrightarrow> ?thesis" by (rule grows_refl)
  have step: "grows k (sent_in rs) s1 s'" if "of_step (retentionStep z now label rs s1) = (e, s')" for label rs s1
    using that grows_step [OF k] flow_of_step by (metis surj_pair)
  show ?thesis
  proof (cases x)
    case (Arrive vs)
    then show ?thesis using r grows_arrivals [of k vs s] by (simp add: st_branch_def sent_by_def)
  next
    case Tick
    obtain y s1 where fl: "flush now s = (y, s1)" by force
    then show ?thesis using f r Tick flow_flush [OF fl, of k] k by (cases y) (auto simp: st_branch_def batched_def)
  next
    case (RetentionNow rs)
    show ?thesis
    proof (cases "st_retentionNow s")
      case True
      then have "grows k (sent_in rs) (s\<lparr>st_retentionNow := False\<rparr>) s'" using r RetentionNow step by (simp add: st_branch_def)
      then show ?thesis using RetentionNow by (simp add: grows_def sent_by_def flow_more)
    qed (use f r RetentionNow in \<open>simp add: st_branch_def\<close>)
  next
    case (RetentionTimer rs)
    then show ?thesis using f r step by (auto simp: st_branch_def sent_by_def split: if_splits)
  next
    case (ArchiveNext st)
    then show ?thesis
      using f r flow_archive [OF k, of z now _ st] by (auto simp: st_branch_def flow_more split: option.splits prod.splits)
  next
    case TakeSystem
    then show ?thesis using f r flow_system [OF k, of s] by (simp add: st_branch_def)
  next
    case (CtxEnds vs)
    obtain y s1 where fl: "flush now (drainInto (arrivals vs s)) = (y, s1)" by force
    have "flow k s' = flow k (arrivals vs s)"
      using flow_flush [OF fl, of k] flow_drain [of k "arrivals vs s"] fl r CtxEnds k by (simp add: st_branch_def batched_def)
    then show ?thesis using grows_arrivals [of k vs s] CtxEnds by (simp add: grows_def sent_by_def)
  qed (use f r flow_takes flow_request [OF k] in \<open>auto simp: st_branch_def\<close>)
qed

lemma grows_st_step:
  assumes k: "batched k" and r: "st_step z now x s = (e, s')"
  shows "grows k (sent_by x) s s'"
proof -
  obtain y s1 where b: "st_branch z now x s = (y, s1)" by force
  obtain u s2 where fl: "flush now s1 = (u, s2)" by force
  have "flow k s2 = flow k s1" using flow_flush [OF fl, of k] k by (simp add: batched_def)
  then have "flow k s' = flow k s1"
    using r b fl by (cases y; cases u) (auto simp: st_step_def split: if_splits)
  then show ?thesis using grows_branch [OF k b] by (rule grows_flow [rotated])
qed

definition sent_run :: "(int \<times> st_input) list \<Rightarrow> any_event list" where
  "sent_run xs = concat (map (sent_by \<circ> snd) xs)"

lemma grows_sub_run: "grows k vs s s' \<Longrightarrow> grows k (vs @ us) s s'"
  unfolding grows_def of_kind_append by (metis list_emb_prefix)

lemma grows_run:
  assumes k: "batched k" and r: "st_run z xs s = (e, s')"
  shows "grows k (sent_run xs) s s'"
  using r
proof (induction xs arbitrary: s)
  case Nil
  then show ?case by (auto intro: grows_refl)
next
  case (Cons p xs)
  obtain now x where p: "p = (now, x)" by force
  obtain y s1 where st: "st_step z now x s = (y, s1)" by force
  note g = grows_st_step [OF k st]
  have d: "sent_run (p # xs) = sent_by x @ sent_run xs" by (simp add: sent_run_def p)
  show ?case
  proof (cases y)
    case GoesOn
    then have "grows k (sent_run xs) s1 s'" using Cons p st by simp
    then show ?thesis unfolding d using g grows_trans by blast
  next
    case (Ended z)
    then have "s' = s1" using Cons.prems p st by simp
    then show ?thesis unfolding d using g grows_sub_run by simp
  next
    case Stuck
    then have "s' = s1" using Cons.prems p st by simp
    then show ?thesis unfolding d using g grows_sub_run by simp
  qed
qed

text \<open>A regular end leaves nothing pending and nothing in the channels of the kinds that are batched.\<close>

lemma branch_ends:
  assumes k: "batched k" and "st_branch z now x s = (Ended None, s')"
  shows "st_pending s' = [] \<and> queued k (st_ch s') = []"
proof (cases x)
  case (CtxEnds vs)
  obtain y s1 where fl: "flush now (drainInto (arrivals vs s)) = (y, s1)" by force
  then have "y = None" "s' = s1" using assms(2) CtxEnds by (simp_all add: st_branch_def)
  then show ?thesis
    using flow_flush [OF fl, of k] flow_drain [of k "arrivals vs s"] k by (simp add: batched_def queued_def of_kind_def)
qed (use assms(2) in \<open>auto simp: st_branch_def of_step_def take_system_def Let_def split: prod.splits option.splits bool.splits if_splits\<close>)

lemma step_ends:
  assumes k: "batched k" and r: "st_step z now x s = (Ended None, s')"
  shows "st_pending s' = [] \<and> queued k (st_ch s') = []"
proof -
  obtain y s1 where b: "st_branch z now x s = (y, s1)" by force
  then have "y = Ended None" "s1 = s'"
    using r by (cases y; auto simp: st_step_def split: prod.splits option.splits if_splits)+
  then show ?thesis using branch_ends [OF k] b by blast
qed

lemma run_ends:
  assumes k: "batched k" and r: "st_run z xs s = (Ended None, s')"
  shows "st_pending s' = [] \<and> queued k (st_ch s') = []"
  using r
proof (induction xs arbitrary: s)
  case (Cons p xs)
  obtain now x where p: "p = (now, x)" by force
  obtain y s1 where st: "st_step z now x s = (y, s1)" by force
  show ?case
  proof (cases y)
    case GoesOn
    then show ?thesis using Cons p st by simp
  qed (use Cons.prems p st step_ends [OF k] in auto)
qed simp

end
