(* ===== verification/StoreClean.thy ===== *)
theory StoreClean
  imports StoreFlow
begin

text \<open>
  The cleanup of a table ends: every round removes rows or is the last, and what producers send in
  between is bounded by what they send. What is left is every row that is not old, in its order,
  followed by what was committed meanwhile.
\<close>

subsection \<open>A database that answers\<close>

definition answering :: "world \<Rightarrow> bool" where
  "answering w \<longleftrightarrow> w_out w = [] \<and> \<not> w_dead w \<and> w_txn w = None"

lemma answering_seen: "answering w \<Longrightarrow> seen w = committed w"
  by (simp add: answering_def seen_def committed_def)

lemma answering_call: "w_out w = [] \<Longrightarrow> \<not> w_dead w \<Longrightarrow> call w = (None, w)"
  by (simp add: call_def)

lemma answering_exec: "answering w \<Longrightarrow> sql_exec st w = (None, w\<lparr>w_hist := w_hist w @ [st]\<rparr>)"
  by (simp add: answering_def sql_exec_def answering_call)

lemma insert_items_answering:
  assumes "w_out w = []" "\<not> w_dead w" "w_txn w = Some ss" "insert_items its w = (e, w')"
  shows "w_out w' = [] \<and> \<not> w_dead w' \<and> w_txn w' \<noteq> None"
  using assms
proof (induction its arbitrary: w ss)
  case (Cons it its)
  show ?case
  proof (cases "item_stmt it")
    case (Inr st)
    have "sql_exec st w = (None, w\<lparr>w_txn := Some (ss @ [st])\<rparr>)"
      using Cons.prems by (simp add: sql_exec_def answering_call)
    then show ?thesis using Cons.prems Inr by (intro Cons.IH [of "w\<lparr>w_txn := Some (ss @ [st])\<rparr>" "ss @ [st]"]) simp_all
  qed (use Cons.prems in auto)
qed simp

lemma writeBatch_answering:
  assumes "answering w" "writeBatch its w = (e, w')"
  shows "answering w'"
proof (cases "its = []")
  case False
  have w: "w_out w = []" "\<not> w_dead w" "w_txn w = None" using assms(1) by (simp_all add: answering_def)
  define w1 where "w1 = w\<lparr>w_txn := Some []\<rparr>"
  have b: "sql_begin w = (None, w1)" using w by (simp add: sql_begin_def answering_call w1_def)
  obtain x w2 where i: "insert_items its w1 = (x, w2)" by force
  have a: "w_out w2 = []" "\<not> w_dead w2" "w_txn w2 \<noteq> None"
    using insert_items_answering [OF _ _ _ i] w by (simp_all add: w1_def)
  then obtain ss where ss: "w_txn w2 = Some ss" by blast
  have "sql_rollback w2 = (None, w2\<lparr>w_txn := None\<rparr>)" "sql_commit w2 = (None, w2\<lparr>w_hist := w_hist w2 @ ss, w_txn := None\<rparr>)"
    using a ss by (simp_all add: sql_rollback_def sql_commit_def answering_call)
  then show ?thesis
    using assms(2) False b i a by (cases x) (auto simp: writeBatch_def answering_def)
qed (use assms in \<open>simp add: writeBatch_def\<close>)

lemma insert_items_succeeds:
  assumes "w_out w = []" "\<not> w_dead w" "w_txn w = Some ss" "\<forall>it\<in>set its. \<exists>st. item_stmt it = Inr st"
  shows "fst (insert_items its w) = None"
  using assms
proof (induction its arbitrary: w ss)
  case (Cons it its)
  then obtain st where st: "item_stmt it = Inr st" by auto
  have "sql_exec st w = (None, w\<lparr>w_txn := Some (ss @ [st])\<rparr>)"
    using Cons.prems by (simp add: sql_exec_def answering_call)
  then show ?case using st Cons.IH [of "w\<lparr>w_txn := Some (ss @ [st])\<rparr>" "ss @ [st]"] Cons.prems by simp
qed simp

text \<open>A batch of items that all have a statement is written.\<close>

lemma writeBatch_succeeds:
  assumes "answering w" "\<forall>it\<in>set its. \<exists>st. item_stmt it = Inr st"
  shows "fst (writeBatch its w) = None"
proof (cases "its = []")
  case False
  have w: "w_out w = []" "\<not> w_dead w" "w_txn w = None" using assms(1) by (simp_all add: answering_def)
  define w1 where "w1 = w\<lparr>w_txn := Some []\<rparr>"
  have b: "sql_begin w = (None, w1)" using w by (simp add: sql_begin_def answering_call w1_def)
  obtain x w2 where i: "insert_items its w1 = (x, w2)" by force
  have x: "x = None" using insert_items_succeeds [of w1 "[]" its] w assms(2) i by (simp add: w1_def)
  have "w_out w2 = [] \<and> \<not> w_dead w2 \<and> w_txn w2 \<noteq> None"
    using insert_items_answering [OF _ _ _ i] w by (simp add: w1_def)
  then obtain w3 where "sql_commit w2 = (None, w3)" by (auto simp: sql_commit_def answering_call)
  then show ?thesis using False b i x by (simp add: writeBatch_def)
qed (simp add: writeBatch_def)

subsection \<open>Rows\<close>

definition rows :: "bytes \<Rightarrow> store \<Rightarrow> row list" where
  "rows t s = tb_rows (committed (st_w s)) t"

definition old_rows :: "bytes \<Rightarrow> int \<Rightarrow> store \<Rightarrow> row list" where
  "old_rows t c s = filter (old_row c) (rows t s)"

lemma tables_inserts:
  assumes "\<forall>st\<in>set ss. is_insert st"
  shows "\<exists>ex. tb_rows (fold apply_stmt ss d) t = tb_rows d t @ ex \<and> length ex \<le> length ss"
  using assms
proof (induction ss arbitrary: d)
  case (Cons st ss)
  then obtain ex where ex: "tb_rows (fold apply_stmt ss (apply_stmt st d)) t = tb_rows (apply_stmt st d) t @ ex" "length ex \<le> length ss"
    by fastforce
  obtain t' vs where "st = Insert t' vs" using Cons.prems by (cases st) (auto simp: is_insert_def)
  then have "tb_rows (apply_stmt st d) t = tb_rows d t @ (if t' = t then [(next_id (tb_rows d t), vs)] else [])" by simp
  then show ?case using ex by (auto simp del: apply_stmt.simps)
qed simp

lemma item_is_insert: "item_stmt it = Inr st \<Longrightarrow> is_insert st"
  by (auto simp: item_stmt_def is_insert_def split: option.splits sum.splits)

lemma batch_rows:
  assumes "writeBatch its w = (None, w')"
  shows "\<exists>ex. tb_rows (committed w') t = tb_rows (committed w) t @ ex \<and> length ex \<le> length its"
proof -
  have h: "map Inr (w_hist w') = map Inr (w_hist w) @ map item_stmt its" using writeBatch_cases [OF assms] by simp
  define ss where "ss = drop (length (w_hist w)) (w_hist w')"
  have "take (length (w_hist w)) (w_hist w') = w_hist w"
    using arg_cong [OF h, of "take (length (w_hist w))"] by (simp add: take_map inr_map_inject)
  then have w': "w_hist w' = w_hist w @ ss" by (metis append_take_drop_id ss_def)
  then have s: "map Inr ss = map item_stmt its" using h by simp
  have "\<forall>st\<in>set ss. is_insert st"
  proof
    fix st assume "st \<in> set ss"
    then have "Inr st \<in> set (map item_stmt its)" by (metis s image_eqI list.set_map)
    then show "is_insert st" using item_is_insert by force
  qed
  moreover have "length ss = length its" using arg_cong [OF s, of length] by simp
  ultimately show ?thesis using tables_inserts [of ss "tables_of (w_hist w)" t] by (simp add: committed_def w' tables_of_append)
qed

text \<open>An item of the batch that the DELETE takes is old; the rows that are not old stay.\<close>

lemma delete_rows:
  assumes "answering (st_w s)" "sql_exec (DeleteOld t c n) (st_w s) = (e, w)"
  shows "e = None \<and> answering w \<and> filter (\<lambda>r. \<not> old_row c r) (rows t (s\<lparr>st_w := w\<rparr>)) = filter (\<lambda>r. \<not> old_row c r) (rows t s) \<and>
    length (old_rows t c (s\<lparr>st_w := w\<rparr>)) + affected t c n (st_w s) = length (old_rows t c s)"
proof -
  have w: "e = None" "w = (st_w s)\<lparr>w_hist := w_hist (st_w s) @ [DeleteOld t c n]\<rparr>"
    using assms(2) answering_exec [OF assms(1), of "DeleteOld t c n"] by simp_all
  define rs where "rs = rows t s"
  have r: "rows t (s\<lparr>st_w := w\<rparr>) = filter (\<lambda>r. \<not> in_batch c n rs r) rs"
    by (simp add: rows_def committed_def w tables_of_append rs_def)
  have i: "in_batch c n rs r \<Longrightarrow> old_row c r" for r by (simp add: in_batch_def)
  have "filter (\<lambda>r. \<not> old_row c r) (filter (\<lambda>r. \<not> in_batch c n rs r) rs) = filter (\<lambda>r. \<not> old_row c r) rs"
    by (auto simp: filter_filter intro!: filter_cong dest: i)
  moreover have "length (filter (old_row c) (filter (\<lambda>r. \<not> in_batch c n rs r) rs)) + length (filter (in_batch c n rs) rs) =
      length (filter (old_row c) rs)"
  proof -
    have "filter (in_batch c n rs) rs = filter (in_batch c n rs) (filter (old_row c) rs)"
      by (auto simp: filter_filter intro!: filter_cong dest: i)
    moreover have "filter (old_row c) (filter (\<lambda>r. \<not> in_batch c n rs r) rs) = filter (\<lambda>r. \<not> in_batch c n rs r) (filter (old_row c) rs)"
      by (auto simp: filter_filter intro!: filter_cong)
    ultimately show ?thesis using sum_length_filter_compl [of "in_batch c n rs" "filter (old_row c) rs"] by simp
  qed
  moreover have "affected t c n (st_w s) = length (filter (in_batch c n rs) rs)"
    using answering_seen [OF assms(1)] by (simp add: affected_def rs_def rows_def)
  moreover have "answering w" using assms(1) by (simp add: w answering_def)
  ultimately show ?thesis using w(1) by (simp add: old_rows_def r rs_def [symmetric])
qed

lemma hd_take: "xs \<noteq> [] \<Longrightarrow> 0 < n \<Longrightarrow> hd xs \<in> set (take n xs)"
  by (cases xs; cases n) simp_all

text \<open>Something is affected as long as there is an old row.\<close>

lemma in_batch_exists:
  assumes "0 < n" "filter (old_row c) rs \<noteq> []"
  shows "\<exists>r\<in>set rs. in_batch c n rs r"
proof -
  let ?ids = "sort (map fst (filter (old_row c) rs))"
  have ne: "?ids \<noteq> []" using assms(2) by (metis length_0_conv length_map length_sort)
  have "hd ?ids \<in> set ?ids" using ne by (rule hd_in_set)
  then obtain r where r: "r \<in> set rs" "old_row c r" "fst r = hd ?ids" unfolding set_sort set_map set_filter by force
  have "hd ?ids \<in> set (oldest_ids c n rs)" unfolding oldest_ids_def by (rule hd_take [OF ne assms(1)])
  then have "in_batch c n rs r" using r(2,3) by (simp add: in_batch_def)
  then show ?thesis using r(1) by blast
qed

lemma affected_zero:
  assumes "answering (st_w s)" "0 < n" "affected t c n (st_w s) = 0"
  shows "old_rows t c s = []"
proof (rule ccontr)
  assume "old_rows t c s \<noteq> []"
  then obtain r where r: "r \<in> set (rows t s)" "in_batch c n (rows t s) r"
    using in_batch_exists [OF assms(2)] unfolding old_rows_def by blast
  have "filter (in_batch c n (rows t s)) (rows t s) = []"
    using assms(3) answering_seen [OF assms(1)] unfolding affected_def rows_def by simp
  then show False using r unfolding filter_empty_conv by blast
qed

subsection \<open>A yield between two batches\<close>

text \<open>What can still become a row: what is pending or in the channels, and one warning.\<close>

definition incoming :: "store \<Rightarrow> nat" where
  "incoming s = length (st_pending s) + in_transit (st_ch s) + (if st_walChmod s then 0 else 1)"

text \<open>The rows of a table only grew, by no more than what was incoming.\<close>

definition appends :: "bytes \<Rightarrow> nat \<Rightarrow> store \<Rightarrow> store \<Rightarrow> bool" where
  "appends t n s s' \<longleftrightarrow> answering (st_w s') \<and>
     (\<exists>ex. rows t s' = rows t s @ ex \<and> length ex + incoming s' \<le> n + incoming s)"

lemma appends_trans: "appends t m a b \<Longrightarrow> appends t n b c \<Longrightarrow> appends t (m + n) a c"
  unfolding appends_def by force

lemma in_transit_try: "length (ch_buf (snd (try_send v c))) \<le> length (ch_buf c) + 1"
  by (simp add: try_send_def)

lemma in_transit_arrive: "in_transit (arrive v c) \<le> in_transit c + 1"
  by (cases v) (simp_all add: in_transit_def try_send_def)

lemma in_transit_arrivals: "in_transit (fold arrive vs c) \<le> in_transit c + length vs"
proof (induction vs arbitrary: c)
  case (Cons v vs)
  then show ?case using order_trans [OF Cons [of "arrive v c"] add_right_mono [OF in_transit_arrive [of v c]]] by simp
qed simp

lemma appends_arrivals: "answering (st_w s) \<Longrightarrow> appends t (length vs) s (arrivals vs s)"
  using in_transit_arrivals [of vs "st_ch s"] by (simp add: appends_def arrivals_def rows_def incoming_def)

lemma in_transit_report: "in_transit (st_ch (store_report now a b m s)) \<le> in_transit (st_ch s) + 1"
  using in_transit_try [of "\<lparr>se_ts = unix now, se_source = a, se_level = b, se_msg = m\<rparr>" "c_system (st_ch s)"]
  by (simp add: store_report_def ReportSys_def in_transit_def)

lemma Drain_length: "Drain c = (got, c') \<Longrightarrow> length got = in_transit c \<and> in_transit c' = 0"
proof (induction c arbitrary: got c' rule: Drain.induct)
  case (1 c)
  obtain g d where p: "drain_pass c = (g, d)" by force
  have len: "length g + in_transit d = in_transit c" using drain_pass_got [of c] p by simp
  show ?case
  proof (cases "g = []")
    case True
    then show ?thesis using 1(2) p len drain_pass_empty [of c d] by (simp add: Drain.simps [of c])
  next
    case False
    obtain r d' where r: "Drain d = (r, d')" by force
    then have "length r = in_transit d \<and> in_transit d' = 0" using 1(1) [OF p [symmetric] refl False] by blast
    moreover have "g @ r = got" "d' = c'" using 1(2) p r False by (simp_all add: Drain.simps [of c])
    ultimately show ?thesis using len by auto
  qed
qed

lemma appends_drain: "answering (st_w s) \<Longrightarrow> appends t 0 s (drainInto s)"
proof -
  assume "answering (st_w s)"
  obtain got c where d: "Drain (st_ch s) = (got, c)" by force
  then show ?thesis
    using Drain_length [OF d] \<open>answering (st_w s)\<close>
    by (simp add: appends_def drainInto_def enqueue_all rows_def incoming_def)
qed

lemma appends_flush:
  assumes "answering (st_w s)" "flush now s = (e, s')"
  shows "appends t 0 s s'"
proof (cases "st_pending s = []")
  case True
  then show ?thesis using assms by (simp add: flush_def appends_def)
next
  case False
  obtain x w where b: "writeBatch (st_pending s) (st_w s) = (x, w)" by force
  have a: "answering w" using writeBatch_answering [OF assms(1) b] .
  show ?thesis
  proof (cases x)
    case (Some y)
    then have "committed w = committed (st_w s)" using writeBatch_cases [OF b] by (simp add: committed_def)
    then show ?thesis using assms(2) False b Some a by (auto simp: flush_def appends_def rows_def incoming_def)
  next
    case None
    obtain ex where ex: "tb_rows (committed w) t = tb_rows (committed (st_w s)) t @ ex" "length ex \<le> length (st_pending s)"
      using batch_rows b None by blast
    define s1 where "s1 = (if st_walChmod s then s\<lparr>st_w := w\<rparr> else (case st_chmodErr s of None \<Rightarrow> s\<lparr>st_w := w, st_walChmod := True\<rparr>
      | Some e \<Rightarrow> store_report now ''store'' ''warn'' [''WAL/SHM permissions'', e] (s\<lparr>st_w := w, st_walChmod := True\<rparr>)))"
    have s': "s' = s1\<lparr>st_pending := []\<rparr>" using assms(2) False b None by (auto simp: flush_def s1_def Let_def split: option.splits)
    have "st_w s1 = w" "st_walChmod s1"
      by (auto simp: s1_def store_report_def split: option.split)
    moreover have "in_transit (st_ch s1) \<le> in_transit (st_ch s) + (if st_walChmod s then 0 else 1)"
      using in_transit_report [of now _ _ _ "s\<lparr>st_w := w, st_walChmod := True\<rparr>"] by (auto simp: s1_def split: option.split)
    ultimately show ?thesis using ex a by (simp add: s' appends_def rows_def incoming_def)
  qed
qed

lemma appends_yield:
  assumes "answering (st_w s)"
  shows "appends t 0 s (yield_step now s)"
proof -
  have d: "appends t 0 s (drainInto s)" using appends_drain assms .
  obtain e s2 where f: "flush now (drainInto s) = (e, s2)" by force
  have "answering (st_w (drainInto s))" using d by (simp add: appends_def)
  then have f': "appends t 0 (drainInto s) s2" using f by (rule appends_flush)
  have "appends t 0 s s2" using appends_trans [OF d f'] by simp
  moreover have "appends t 0 s (s2\<lparr>st_yieldErr := y\<rparr>) = appends t 0 s s2" for y
    by (simp add: appends_def rows_def incoming_def)
  ultimately show ?thesis using d f by (auto simp: yield_step_def Let_def split: option.split)
qed

subsection \<open>The loop\<close>

text \<open>The rounds the cleanup needs at most.\<close>

definition rounds_needed :: "bytes \<Rightarrow> int \<Rightarrow> store \<Rightarrow> ret_round list \<Rightarrow> nat" where
  "rounds_needed t c s rs = length (old_rows t c s) + incoming s + length (sent_in rs) + 1"

lemma length_filter_append: "length (filter P (xs @ ys)) \<le> length (filter P xs) + length ys"
  by (simp add: length_filter_le)

lemma cleanup_loop:
  assumes "answering (st_w s)" "0 < n" "\<forall>r\<in>set rs. \<not> rr_cancel r" "rounds_needed t c s rs \<le> length rs"
  shows "\<exists>m rs' s' ex. cleanupTable t c n g rs s = (Cleaned m, rs', s') \<and> answering (st_w s') \<and>
    g + length (old_rows t c s) \<le> m \<and>
    rows t s' = filter (\<lambda>r. \<not> old_row c r) (rows t s) @ ex \<and> (\<forall>r\<in>set ex. \<not> old_row c r)"
  using assms(1,3,4)
proof (induction rs arbitrary: s g)
  case Nil
  then show ?case by (simp add: rounds_needed_def)
next
  case (Cons r rs)
  obtain e w where x: "sql_exec (DeleteOld t c n) (st_w s) = (e, w)" by force
  define s1 where "s1 = s\<lparr>st_w := w\<rparr>"
  define k where "k = affected t c n (st_w s)"
  have d: "e = None" "answering (st_w s1)"
    "filter (\<lambda>r. \<not> old_row c r) (rows t s1) = filter (\<lambda>r. \<not> old_row c r) (rows t s)"
    "length (old_rows t c s1) + k = length (old_rows t c s)"
    using delete_rows [OF Cons.prems(1) x] by (simp_all add: s1_def k_def)
  have nc: "\<not> rr_cancel r" using Cons.prems(2) by simp
  show ?case
  proof (cases "k = 0")
    case True
    then have "old_rows t c s = []" using affected_zero Cons.prems(1) assms(2) by (simp add: k_def)
    then have "old_rows t c s1 = []" using d(4) by simp
    then have "rows t s1 = filter (\<lambda>r. \<not> old_row c r) (rows t s1)" by (simp add: old_rows_def filter_empty_conv filter_id_conv)
    moreover have "cleanupTable t c n g (r # rs) s = (Cleaned g, rs, s1)"
      using x d(1) nc True by (simp add: s1_def k_def)
    ultimately show ?thesis using d(2,3) \<open>old_rows t c s = []\<close> by (intro exI [of _ g] exI [of _ rs] exI [of _ s1] exI [of _ "[]"]) simp
  next
    case False
    define s2 where "s2 = yield_step (rr_now r) (arrivals (rr_sent r) s1)"
    have step: "cleanupTable t c n g (r # rs) s = cleanupTable t c n (g + k) rs s2"
      using x d(1) nc False by (simp add: s1_def k_def s2_def Let_def)
    have a: "appends t (length (rr_sent r)) s1 (arrivals (rr_sent r) s1)" using appends_arrivals d(2) .
    then have "answering (st_w (arrivals (rr_sent r) s1))" by (simp add: appends_def)
    then have "appends t (length (rr_sent r)) s1 s2" using appends_trans [OF a appends_yield] by (simp add: s2_def)
    then obtain ex where ex: "answering (st_w s2)" "rows t s2 = rows t s1 @ ex"
      "length ex + incoming s2 \<le> length (rr_sent r) + incoming s1" unfolding appends_def by blast
    have o: "length (old_rows t c s1) \<le> length (old_rows t c s2)" "length (old_rows t c s2) \<le> length (old_rows t c s1) + length ex"
      by (simp_all add: old_rows_def ex(2) length_filter_le)
    have "incoming s1 = incoming s" by (simp add: s1_def incoming_def)
    moreover have "length (sent_in (r # rs)) = length (rr_sent r) + length (sent_in rs)" by (simp add: sent_in_def)
    ultimately have "rounds_needed t c s2 rs \<le> length rs"
      using Cons.prems(3) ex(3) o d(4) False by (simp add: rounds_needed_def)
    then obtain m rs' s' ex2 where ih: "cleanupTable t c n (g + k) rs s2 = (Cleaned m, rs', s')" "answering (st_w s')"
      "g + k + length (old_rows t c s2) \<le> m"
      "rows t s' = filter (\<lambda>r. \<not> old_row c r) (rows t s2) @ ex2" "\<forall>r\<in>set ex2. \<not> old_row c r"
      using Cons.IH [OF ex(1), of "g + k"] Cons.prems(2) by auto
    have "rows t s' = filter (\<lambda>r. \<not> old_row c r) (rows t s) @ filter (\<lambda>r. \<not> old_row c r) ex @ ex2"
      using ih(4) d(3) by (simp add: ex(2))
    moreover have "g + length (old_rows t c s) \<le> m" using ih(3) d(4) o(1) by simp
    moreover have "\<forall>r\<in>set (filter (\<lambda>r. \<not> old_row c r) ex @ ex2). \<not> old_row c r" using ih(5) by auto
    moreover note step [unfolded ih(1)] ih(2)
    ultimately show ?thesis by blast
  qed
qed

end
