(* ===== verification/ArchiveSafe.thy ===== *)
theory ArchiveSafe
  imports Archive
begin

text \<open>
  The monthly copy under failures. A Hoare triple over failing operations says what holds when an
  operation succeeds and what holds when it fails or the process dies in it; the triples of the
  operations give those of \<^verbatim>\<open>ArchiveMonthDB\<close>. A flag says that the world answers every call, which
  excludes failures.
\<close>

subsection \<open>Triples\<close>

definition triple :: "(world \<Rightarrow> bool) \<Rightarrow> (world \<Rightarrow> 'e option \<times> world) \<Rightarrow> (world \<Rightarrow> bool) \<Rightarrow> (world \<Rightarrow> bool) \<Rightarrow> bool" where
  "triple P f Q R \<longleftrightarrow> (\<forall>w. P w \<longrightarrow> (case f w of (None, w') \<Rightarrow> Q w' | (Some e, w') \<Rightarrow> R w'))"

lemma tripleD: "triple P f Q R \<Longrightarrow> P w \<Longrightarrow> f w = (e, w') \<Longrightarrow> (e = None \<longrightarrow> Q w') \<and> (e \<noteq> None \<longrightarrow> R w')"
  by (cases e) (force simp: triple_def)+

lemma tripleI: "(\<And>w e w'. P w \<Longrightarrow> f w = (e, w') \<Longrightarrow> if e = None then Q w' else R w') \<Longrightarrow> triple P f Q R"
  by (force simp: triple_def split: prod.split option.split)

lemma triple_steps_Nil: "(\<And>w. P w \<Longrightarrow> Q w) \<Longrightarrow> triple P (steps []) Q R"
  by (simp add: triple_def)

lemma triple_steps_Cons:
  assumes "triple P f Q R" "triple Q (steps fs) S R"
  shows "triple P (steps (f # fs)) S R"
proof (rule tripleI)
  fix w e w'
  assume w: "P w" "steps (f # fs) w = (e, w')"
  obtain x u where f: "f w = (x, u)" by force
  then show "if e = None then S w' else R w'"
    using tripleD [OF assms(1) w(1) f] tripleD [OF assms(2), of u e w'] w(2) by (cases x) auto
qed

lemma triple_steps_append: "triple P (steps fs) Q R \<Longrightarrow> triple Q (steps gs) S R \<Longrightarrow> triple P (steps (fs @ gs)) S R"
proof (induction fs arbitrary: P)
  case Nil
  then show ?case by (simp add: triple_def)
next
  case (Cons f fs)
  define M where "M w \<longleftrightarrow> (\<exists>v. P v \<and> f v = (None, w))" for w
  have "triple P f M R"
    by (rule tripleI) (use tripleD [OF Cons.prems(1)] in \<open>force simp: M_def\<close>)
  moreover have "triple M (steps fs) Q R"
    by (rule tripleI) (use tripleD [OF Cons.prems(1)] in \<open>force simp: M_def\<close>)
  ultimately have "triple P f M R" "triple M (steps (fs @ gs)) S R" using Cons.IH Cons.prems(2) by blast+
  then show ?case unfolding append_Cons by (rule triple_steps_Cons)
qed

lemma triple_labelled:
  assumes "triple P f Q R"
  shows "triple P (labelled t f) Q R"
proof (rule tripleI)
  fix w e w'
  assume w: "P w" "labelled t f w = (e, w')"
  obtain x u where f: "f w = (x, u)" by force
  then show "if e = None then Q w' else R w'"
    using tripleD [OF assms w(1) f] w(2) by (cases x) (auto simp: labelled_def)
qed

lemma triple_weaken:
  "triple P f Q R \<Longrightarrow> (\<And>w. P' w \<Longrightarrow> P w) \<Longrightarrow> (\<And>w. Q w \<Longrightarrow> Q' w) \<Longrightarrow> (\<And>w. R w \<Longrightarrow> R' w) \<Longrightarrow> triple P' f Q' R'"
  by (rule tripleI) (drule tripleD [of P f Q R], auto)

lemma triple_single: "triple P f Q R \<Longrightarrow> triple P (steps [f]) Q R"
  by (rule triple_steps_Cons [OF _ triple_steps_Nil])

text \<open>One operation for each of several tables, each taking the state of one to that of the next.\<close>

lemma triple_map:
  assumes "\<And>i. i < length ts \<Longrightarrow> triple (J i) (f (ts ! i)) (J (Suc i)) R"
  shows "triple (J 0) (steps (map f ts)) (J (length ts)) R"
  using assms
proof (induction ts arbitrary: J)
  case Nil
  then show ?case by (simp add: triple_def)
next
  case (Cons t ts)
  have "triple (J 0) (f t) (J 1) R" using Cons.prems [of 0] by simp
  moreover have "triple (J 1) (steps (map f ts)) (J (length (t # ts))) R"
    using Cons.IH [of "\<lambda>i. J (Suc i)"] Cons.prems [of "Suc _"] by simp
  ultimately show ?case unfolding list.map by (rule triple_steps_Cons)
qed

subsection \<open>The state of a copy\<close>

definition answers :: "world \<Rightarrow> bool" where
  "answers w \<longleftrightarrow> w_out w = [] \<and> \<not> w_dead w"

definition file_at :: "bytes \<Rightarrow> world \<Rightarrow> fcontent option" where
  "file_at f w = map_of (w_files w) f"

text \<open>The rows of the month, by table.\<close>

definition month_rows :: "(bytes \<Rightarrow> row list) \<Rightarrow> int \<Rightarrow> int \<Rightarrow> bytes list \<Rightarrow> (bytes \<times> row list) list" where
  "month_rows d start end ts = map (\<lambda>t. (t, filter (in_range start end) (d t))) ts"

definition complete_copy :: "(bytes \<Rightarrow> row list) \<Rightarrow> int \<Rightarrow> int \<Rightarrow> fcontent" where
  "complete_copy d start end = Gz (month_rows d start end ArchivedTables)"

text \<open>
  What holds all along: no transaction is open, the event rows are those of the start, and the final
  file is the one of the start, absent or complete. The flag \<^verbatim>\<open>a\<close> adds that the world answers.
\<close>

record setting =
  sg_a :: bool
  sg_d :: "bytes \<Rightarrow> row list"
  sg_fin :: "fcontent option"
  sg_y :: nat
  sg_m :: nat
  sg_start :: int
  sg_end :: int

definition copy_of :: "setting \<Rightarrow> fcontent" where
  "copy_of g = complete_copy (sg_d g) (sg_start g) (sg_end g)"

definition steady :: "setting \<Rightarrow> world \<Rightarrow> bool" where
  "steady g w \<longleftrightarrow> w_txn w = None \<and> tb_rows (seen w) = sg_d g \<and>
     file_at (final_name (sg_y g) (sg_m g)) w \<in> {sg_fin g, None, Some (copy_of g)} \<and> (sg_a g \<longrightarrow> answers w)"

definition failed :: "setting \<Rightarrow> world \<Rightarrow> bool" where
  "failed g w \<longleftrightarrow> steady (g\<lparr>sg_a := False\<rparr>) w \<and> \<not> sg_a g"

lemma failed_no_flag: "\<not> sg_a g \<Longrightarrow> failed g w \<longleftrightarrow> steady g w"
  by (cases g) (simp add: failed_def)

text \<open>What the meta table and the attached database are.\<close>

definition recorded :: "bytes \<Rightarrow> world \<Rightarrow> bool" where
  "recorded month w \<longleftrightarrow> containsMonth (months_of (tb_meta (seen w) metaCopiedMonths)) month"

definition tmp_db :: "setting \<Rightarrow> world \<Rightarrow> fcontent option" where
  "tmp_db g = file_at (tmp_db_name (sg_y g) (sg_m g))"

definition tmp_gz :: "setting \<Rightarrow> world \<Rightarrow> fcontent option" where
  "tmp_gz g = file_at (tmp_gz_name (sg_y g) (sg_m g))"

lemma names_differ [simp]:
  "final_name y m \<noteq> tmp_db_name y m" "final_name y m \<noteq> tmp_gz_name y m" "tmp_db_name y m \<noteq> tmp_gz_name y m"
  "tmp_db_name y m \<noteq> final_name y m" "tmp_gz_name y m \<noteq> final_name y m" "tmp_gz_name y m \<noteq> tmp_db_name y m"
  by (simp_all add: final_name_def tmp_db_name_def tmp_gz_name_def)

subsection \<open>A call\<close>

lemma call_answers: "answers w \<Longrightarrow> call w = (None, w)"
  by (simp add: answers_def call_def)

text \<open>Every operation is a call, and then a change that keeps the state steady.\<close>

lemma call_steady:
  assumes "steady g w" "call w = (e, w')"
  shows "(e = None \<longrightarrow> steady g w') \<and> (e \<noteq> None \<longrightarrow> failed g w') \<and> w_files w' = w_files w \<and> seen w' = seen w \<and> w_arc w' = w_arc w"
proof (cases "sg_a g")
  case True
  then have "answers w" using assms(1) by (simp add: steady_def)
  then show ?thesis using assms call_answers by simp
next
  case False
  have "w_hist w' = w_hist w" "w_txn w' = w_txn w" "w_files w' = w_files w" "w_arc w' = w_arc w"
    using call_fields [of w] assms(2) by simp_all
  then show ?thesis using assms(1) False by (auto simp: steady_def failed_def seen_def file_at_def copy_of_def)
qed

subsection \<open>Triples of the operations\<close>

text \<open>A steady state described by its files, its meta table and the attached file.\<close>

type_synonym view = "(bytes \<times> fcontent) list \<Rightarrow> (bytes \<rightharpoonup> bytes) \<Rightarrow> bytes option \<Rightarrow> bool"

definition inside :: "setting \<Rightarrow> view \<Rightarrow> world \<Rightarrow> bool" where
  "inside g X w \<longleftrightarrow> steady g w \<and> X (w_files w) (tb_meta (seen w)) (w_arc w)"

definition fin_ok :: "setting \<Rightarrow> (bytes \<times> fcontent) list \<Rightarrow> bool" where
  "fin_ok g fs \<longleftrightarrow> map_of fs (final_name (sg_y g) (sg_m g)) \<in> {sg_fin g, None, Some (copy_of g)}"

lemma call_in: "inside g X w \<Longrightarrow> call w = (e, w') \<Longrightarrow>
    (e = None \<longrightarrow> inside g X w') \<and> (e \<noteq> None \<longrightarrow> failed g w') \<and> w_files w' = w_files w \<and> seen w' = seen w \<and> w_arc w' = w_arc w"
  unfolding inside_def using call_steady [of g w e w'] by simp

lemma triple_call: "triple (inside g X) call (inside g X) (failed g)"
  by (rule tripleI) (auto dest: call_in)

lemma steady_files: "steady g w \<Longrightarrow> fin_ok g fs \<Longrightarrow> steady g (w\<lparr>w_files := fs, w_arc := a\<rparr>)"
  by (auto simp: steady_def fin_ok_def file_at_def seen_def answers_def)

lemma steady_files': "steady g w \<Longrightarrow> fin_ok g fs \<Longrightarrow> steady g (w\<lparr>w_files := fs\<rparr>)"
  using steady_files [of g w fs "w_arc w"] by simp

lemma steady_fin: "steady g w \<Longrightarrow> fin_ok g (w_files w)"
  by (simp add: steady_def fin_ok_def file_at_def)

lemma seen_files [simp]: "seen (w\<lparr>w_files := fs\<rparr>) = seen w" "seen (w\<lparr>w_arc := a\<rparr>) = seen w"
  by (simp_all add: seen_def)

lemma triple_files:
  assumes "\<And>fs mt arc. X fs mt arc \<Longrightarrow> fin_ok g fs \<Longrightarrow> fin_ok g (F fs) \<and> Y (F fs) mt arc"
  shows "triple (inside g X) (on_files F) (inside g Y) (failed g)"
proof (rule tripleI)
  fix w e w'
  assume w: "inside g X w" and f: "on_files F w = (e, w')"
  obtain x v where c: "call w = (x, v)" by force
  note cw = call_in [OF w c]
  show "if e = None then inside g Y w' else failed g w'"
  proof (cases x)
    case None
    then have "inside g X v" using cw by blast
    then have v: "steady g v" "X (w_files v) (tb_meta (seen v)) (w_arc v)" by (simp_all add: inside_def)
    have "w' = v\<lparr>w_files := F (w_files v)\<rparr>" "e = None" using f c None by (simp_all add: on_files_def)
    then show ?thesis using assms [OF v(2) steady_fin [OF v(1)]] v by (simp add: inside_def steady_files')
  next
    case (Some y)
    then show ?thesis using f c cw by (auto simp: on_files_def)
  qed
qed

lemma triple_meta:
  assumes "\<And>fs mt arc. X fs mt arc \<Longrightarrow> Y fs (mt(k \<mapsto> v)) arc"
  shows "triple (inside g X) (sql_exec (UpsertMeta k v)) (inside g Y) (failed g)"
proof (rule tripleI)
  fix w e w'
  assume w: "inside g X w" and f: "sql_exec (UpsertMeta k v) w = (e, w')"
  obtain x u where c: "call w = (x, u)" by force
  note cw = call_in [OF w c]
  show "if e = None then inside g Y w' else failed g w'"
  proof (cases x)
    case None
    then have "inside g X u" using cw by blast
    then have u: "steady g u" "X (w_files u) (tb_meta (seen u)) (w_arc u)" by (simp_all add: inside_def)
    have t: "w_txn u = None" using u(1) by (simp add: steady_def)
    have w': "w' = u\<lparr>w_hist := w_hist u @ [UpsertMeta k v]\<rparr>" "e = None" using f c None t by (simp_all add: sql_exec_def)
    have "seen w' = (seen u)\<lparr>tb_meta := (tb_meta (seen u))(k \<mapsto> v)\<rparr>" by (simp add: seen_def w' t tables_of_append)
    then show ?thesis using assms [OF u(2)] u(1) t w'
      by (auto simp: inside_def steady_def file_at_def answers_def)
  next
    case (Some y)
    then show ?thesis using f c cw by (auto simp: sql_exec_def)
  qed
qed

lemma query_in:
  assumes "inside g X w" "sql_query q w = (r, w')"
  shows "case r of Inl e \<Rightarrow> failed g w' | Inr v \<Rightarrow> inside g X w' \<and> v = q (seen w')"
proof -
  obtain x u where c: "call w = (x, u)" by force
  then show ?thesis using call_in [OF assms(1) c] assms(2) by (cases x) (auto simp: sql_query_def)
qed

lemma triple_on_arc:
  assumes "\<And>fs mt arc. X fs mt arc \<Longrightarrow> map_of fs f = Some (DbFile ts)"
    and "f \<noteq> final_name (sg_y g) (sg_m g)"
    and "\<And>w fs mt arc. tb_rows (seen w) = sg_d g \<Longrightarrow> X fs mt arc \<Longrightarrow> Y (AList.update f (DbFile (G w ts)) fs) mt arc"
  shows "triple (inside g X) (on_arc f G) (inside g Y) (failed g)"
proof (rule tripleI)
  fix w e w'
  assume w: "inside g X w" and f: "on_arc f G w = (e, w')"
  obtain x u where c: "call w = (x, u)" by force
  note cw = call_in [OF w c]
  show "if e = None then inside g Y w' else failed g w'"
  proof (cases x)
    case None
    then have "inside g X u" using cw by blast
    then have u: "steady g u" "X (w_files u) (tb_meta (seen u)) (w_arc u)" by (simp_all add: inside_def)
    have t: "arc_tables f u = ts" using assms(1) [OF u(2)] by (simp add: arc_tables_def)
    have w': "w' = u\<lparr>w_files := AList.update f (DbFile (G u ts)) (w_files u)\<rparr>" "e = None"
      using f c None t by (simp_all add: on_arc_def)
    moreover have "fin_ok g (AList.update f (DbFile (G u ts)) (w_files u))"
      using steady_fin [OF u(1)] assms(2) by (simp add: fin_ok_def update_conv')
    moreover have "tb_rows (seen u) = sg_d g" using u(1) by (simp add: steady_def)
    ultimately show ?thesis using assms(3) [OF _ u(2)] u(1) by (simp add: inside_def steady_files')
  next
    case (Some y)
    then show ?thesis using f c cw by (auto simp: on_arc_def)
  qed
qed

subsection \<open>Exporting\<close>

text \<open>Before: nothing attached (in an answering world), no temporary files. During: the first tables are there.\<close>

definition clean :: "setting \<Rightarrow> view" where
  "clean g = (\<lambda>fs mt arc. (sg_a g \<longrightarrow> arc = None) \<and> map_of fs (tmp_db_name (sg_y g) (sg_m g)) = None \<and>
     map_of fs (tmp_gz_name (sg_y g) (sg_m g)) = None)"

definition exporting :: "setting \<Rightarrow> (bytes \<times> row list) list \<Rightarrow> view" where
  "exporting g ts = (\<lambda>fs mt arc. map_of fs (tmp_db_name (sg_y g) (sg_m g)) = Some (DbFile ts) \<and>
     map_of fs (tmp_gz_name (sg_y g) (sg_m g)) = None)"

definition exported :: "setting \<Rightarrow> nat \<Rightarrow> (bytes \<times> row list) list" where
  "exported g i = month_rows (sg_d g) (sg_start g) (sg_end g) (take i ArchivedTables)"

lemma range_rows_month: "tb_rows (seen w) = sg_d g \<Longrightarrow> range_rows a b t (seen w) = filter (in_range a b) (sg_d g t)"
  by (simp add: range_rows_def)

lemma update_fresh: "map_of ts t = None \<Longrightarrow> AList.update t v (ts @ [(t, u)]) = ts @ [(t, v)]"
  by (induction ts) (auto split: if_splits)

lemma update_fresh': "t \<notin> fst ` set ts \<Longrightarrow> AList.update t v (ts @ [(t, u)]) = ts @ [(t, v)]"
  by (rule update_fresh) (simp add: map_of_eq_None_iff)

lemma month_rows_keys: "fst ` set (month_rows d a b ts) = set ts"
  by (force simp: month_rows_def)

lemma tables_fresh: "i < length ArchivedTables \<Longrightarrow> ArchivedTables ! i \<notin> set (take i ArchivedTables)"
proof -
  have "distinct ArchivedTables" by (simp add: ArchivedTables_def)
  moreover assume "i < length ArchivedTables"
  ultimately show ?thesis by (metis distinct_take not_distinct_conv_prefix take_Suc_conv_app_nth)
qed

lemma triple_copy_table:
  assumes "i < length ArchivedTables"
  shows "triple (inside g (exporting g (exported g i))) (copy_table (tmp_db_name (sg_y g) (sg_m g)) (sg_start g) (sg_end g) (ArchivedTables ! i))
    (inside g (exporting g (exported g (Suc i)))) (failed g)"
proof -
  let ?t = "ArchivedTables ! i" and ?f = "tmp_db_name (sg_y g) (sg_m g)"
  have fresh: "?t \<notin> fst ` set (exported g i)" using tables_fresh [OF assms] by (simp add: exported_def month_rows_keys)
  then have none: "map_of (exported g i) ?t = None" by (simp add: map_of_eq_None_iff)
  have suc: "exported g (Suc i) = exported g i @ [(?t, filter (in_range (sg_start g) (sg_end g)) (sg_d g ?t))]"
    using assms by (simp add: exported_def month_rows_def take_Suc_conv_app_nth)
  show ?thesis
    unfolding copy_table_def
  proof (rule triple_steps_Cons [OF triple_labelled triple_steps_Cons [OF triple_labelled triple_steps_Nil]])
    show "triple (inside g (exporting g (exported g i)))
        (on_arc ?f (\<lambda>w ts. if map_of ts ?t = None then ts @ [(?t, [])] else ts))
        (inside g (exporting g (exported g i @ [(?t, [])]))) (failed g)"
      by (rule triple_on_arc [where ts = "exported g i"]) (simp_all add: exporting_def none update_conv')
    show "triple (inside g (exporting g (exported g i @ [(?t, [])])))
        (on_arc ?f (\<lambda>w ts. AList.update ?t ((case map_of ts ?t of Some rs \<Rightarrow> rs | None \<Rightarrow> []) @
           range_rows (sg_start g) (sg_end g) ?t (seen w)) ts))
        (inside g (exporting g (exported g (Suc i)))) (failed g)"
      by (rule triple_on_arc [where ts = "exported g i @ [(?t, [])]"])
        (simp_all add: exporting_def none map_add_def update_conv' suc range_rows_month update_fresh' [OF fresh])
  qed
qed

text \<open>All the tables: the checks that compare counts and greatest time stamps pass.\<close>

definition full :: "setting \<Rightarrow> view" where
  "full g = exporting g (month_rows (sg_d g) (sg_start g) (sg_end g) ArchivedTables)"

lemma exported_all: "exporting g (exported g (length ArchivedTables)) = full g"
  by (simp add: exported_def full_def)

lemma full_rows:
  assumes "inside g (full g) w" "t \<in> set ArchivedTables"
  shows "arc_rows (tmp_db_name (sg_y g) (sg_m g)) t w = filter (in_range (sg_start g) (sg_end g)) (sg_d g t)"
proof -
  have "map_of (month_rows d a b ts) t = Some (filter (in_range a b) (d t))" if "t \<in> set ts" for d a b ts
    using that by (induction ts) (auto simp: month_rows_def)
  then show ?thesis using assms by (simp add: inside_def full_def exporting_def arc_rows_def arc_tables_def)
qed

lemma full_seen: "inside g (full g) w \<Longrightarrow> range_rows a b t (seen w) = filter (in_range a b) (sg_d g t)"
  by (simp add: inside_def steady_def range_rows_month)

lemma triple_check_table:
  assumes t: "t \<in> set ArchivedTables"
  shows "triple (inside g (full g)) (check_table (tmp_db_name (sg_y g) (sg_m g)) (sg_start g) (sg_end g) t) (inside g (full g)) (failed g)"
proof (rule tripleI)
  let ?f = "tmp_db_name (sg_y g) (sg_m g)" and ?r = "range_rows (sg_start g) (sg_end g) t"
  let ?rs = "filter (in_range (sg_start g) (sg_end g)) (sg_d g t)"
  fix w e w'
  assume w: "inside g (full g) w" and c: "check_table ?f (sg_start g) (sg_end g) t w = (e, w')"
  obtain q1 w1 where s1: "sql_query (\<lambda>d. length (?r d)) w = (q1, w1)" by force
  note i1 = query_in [OF w s1]
  show "if e = None then inside g (full g) w' else failed g w'"
  proof (cases q1)
    case (Inl x)
    then show ?thesis using c s1 i1 by (auto simp: check_table_def)
  next
    case (Inr n)
    then have w1: "inside g (full g) w1" using i1 by simp
    have n: "n = length ?rs" using i1 Inr full_seen [OF w1] by simp
    obtain q2 w2 where s2: "call w1 = (q2, w2)" by force
    note i2 = call_in [OF w1 s2]
    show ?thesis
    proof (cases q2)
      case (Some x)
      then show ?thesis using c s1 s2 i2 Inr by (auto simp: check_table_def)
    next
      case None
      then have w2: "inside g (full g) w2" using i2 by blast
      obtain q3 w3 where s3: "sql_query (\<lambda>d. max_ts (?r d)) w2 = (q3, w3)" by force
      note i3 = query_in [OF w2 s3]
      note r2 = full_rows [OF w2 t]
      have c': "check_table ?f (sg_start g) (sg_end g) t w = (if n = 0 then (None, w2)
          else (case q3 of Inl e \<Rightarrow> (Some [''max main'', t, e], w3) | Inr mainMax \<Rightarrow>
           (case call w3 of (Some e, w4) \<Rightarrow> (Some [''max copy'', t, e], w4)
            | (None, w4) \<Rightarrow>
              (if mainMax = None \<or> max_ts (arc_rows ?f t w4) = None \<or> mainMax \<noteq> max_ts (arc_rows ?f t w4)
               then (Some [''max differs'', t], w4) else (None, w4)))))"
        using s1 s2 s3 Inr None r2 by (simp add: check_table_def n)
      show ?thesis
      proof (cases q3)
        case (Inl x)
        then show ?thesis using c c' w2 i3 by (auto split: if_splits)
      next
        case (Inr mx)
        then have w3: "inside g (full g) w3" using i3 by simp
        have mx: "mx = max_ts ?rs" using i3 Inr full_seen [OF w3] by simp
        obtain q4 w4 where s4: "call w3 = (q4, w4)" by force
        note i4 = call_in [OF w3 s4]
        show ?thesis
        proof (cases q4)
          case (Some x)
          then show ?thesis using c c' Inr s4 w2 i4 by (auto split: if_splits)
        next
          case None
          then have w4: "inside g (full g) w4" using i4 by blast
          have "n \<noteq> 0 \<Longrightarrow> max_ts ?rs \<noteq> None" by (auto simp: max_ts_def n)
          then show ?thesis using c c' Inr s4 None w2 w4 mx full_rows [OF w4 t] by (auto split: if_splits)
        qed
      qed
    qed
  qed
qed

lemma triple_attach:
  "triple (inside g (clean g)) (attach (tmp_db_name (sg_y g) (sg_m g))) (inside g (exporting g [])) (failed g)"
proof (rule tripleI)
  let ?f = "tmp_db_name (sg_y g) (sg_m g)"
  fix w e w'
  assume w: "inside g (clean g) w" and f: "attach ?f w = (e, w')"
  obtain x u where c: "call w = (x, u)" by force
  note cw = call_in [OF w c]
  show "if e = None then inside g (exporting g []) w' else failed g w'"
  proof (cases x)
    case None
    then have "inside g (clean g) u" using cw by blast
    then have u: "steady g u" "clean g (w_files u) (tb_meta (seen u)) (w_arc u)" by (simp_all add: inside_def)
    show ?thesis
    proof (cases "w_arc u = None")
      case True
      have fr: "map_of (w_files u) ?f = None" using u(2) by (simp add: clean_def)
      have w': "e = None" "w' = u\<lparr>w_files := AList.update ?f (DbFile []) (w_files u), w_arc := Some ?f\<rparr>"
        using f c None True fr by (auto simp: attach_def)
      moreover have "fin_ok g (AList.update ?f (DbFile []) (w_files u))"
        using steady_fin [OF u(1)] by (simp add: fin_ok_def update_conv')
      ultimately show ?thesis using u steady_files by (simp add: inside_def exporting_def clean_def update_conv' seen_def)
    next
      case False
      then have "\<not> sg_a g" using u(2) by (auto simp: clean_def)
      moreover have "w' = u" "e \<noteq> None" using f c None False by (auto simp: attach_def)
      ultimately show ?thesis using u(1) by (auto simp: failed_no_flag)
    qed
  next
    case (Some y)
    then show ?thesis using f c cw by (auto simp: attach_def)
  qed
qed

text \<open>Detaching is tried in every case; its error is dropped.\<close>

lemma detach_failed: "failed g w \<Longrightarrow> failed g (detach w)"
proof -
  assume f: "failed g w"
  let ?g = "g\<lparr>sg_a := False\<rparr>"
  obtain e u where c: "call w = (e, u)" by force
  have "steady ?g w" using f by (simp add: failed_def)
  from call_steady [OF this c] have u: "steady ?g u" by (cases e) (auto simp: failed_def)
  then have "steady ?g (u\<lparr>w_arc := None\<rparr>)" using steady_files [of ?g u "w_files u" None] steady_fin by simp
  then show ?thesis using f u c by (auto simp: failed_def detach_def split: option.split)
qed

definition detached :: "setting \<Rightarrow> view" where
  "detached g = (\<lambda>fs mt arc. full g fs mt arc \<and> (sg_a g \<longrightarrow> arc = None))"

lemma detach_full: "inside g (full g) w \<Longrightarrow> inside g (detached g) (detach w)"
proof -
  assume w: "inside g (full g) w"
  obtain e u where c: "call w = (e, u)" by force
  note cw = call_in [OF w c]
  show ?thesis
  proof (cases e)
    case None
    then have "inside g (full g) u" using cw by blast
    then have u: "steady g u" "full g (w_files u) (tb_meta (seen u)) (w_arc u)" by (simp_all add: inside_def)
    have "steady g (u\<lparr>w_arc := None\<rparr>)" using steady_files [of g u "w_files u" None] steady_fin u(1) by simp
    then show ?thesis using c None u by (simp add: detach_def inside_def detached_def full_def exporting_def)
  next
    case (Some x)
    then have f: "failed g u" using cw by blast
    then have "\<not> sg_a g" by (simp add: failed_def)
    then have "steady g u" using f by (simp add: failed_no_flag)
    then show ?thesis using c Some cw w \<open>\<not> sg_a g\<close> by (simp add: detach_def inside_def detached_def full_def exporting_def)
  qed
qed

lemma triple_exportMonth:
  "triple (inside g (clean g)) (exportMonth (tmp_db_name (sg_y g) (sg_m g)) (sg_start g) (sg_end g)) (inside g (detached g)) (failed g)"
proof (rule tripleI)
  let ?f = "tmp_db_name (sg_y g) (sg_m g)"
  let ?ops = "map (copy_table ?f (sg_start g) (sg_end g)) ArchivedTables @ map (check_table ?f (sg_start g) (sg_end g)) ArchivedTables"
  fix w e w'
  assume w: "inside g (clean g) w" and x: "exportMonth ?f (sg_start g) (sg_end g) w = (e, w')"
  have "triple (inside g (exporting g (exported g 0))) (steps (map (copy_table ?f (sg_start g) (sg_end g)) ArchivedTables))
      (inside g (full g)) (failed g)"
    using triple_map [where J = "\<lambda>i. inside g (exporting g (exported g i))", OF triple_copy_table] by (simp add: exported_all)
  moreover have "triple (inside g (full g)) (steps (map (check_table ?f (sg_start g) (sg_end g)) ArchivedTables)) (inside g (full g)) (failed g)"
    by (rule triple_map [where J = "\<lambda>i. inside g (full g)"]) (simp add: triple_check_table)
  ultimately have ops: "triple (inside g (exporting g [])) (steps ?ops) (inside g (full g)) (failed g)"
    using triple_steps_append by (simp add: exported_def month_rows_def)
  obtain y u where a: "attach ?f w = (y, u)" by force
  note at = tripleD [OF triple_attach w a]
  show "if e = None then inside g (detached g) w' else failed g w'"
  proof (cases y)
    case None
    then have u: "inside g (exporting g []) u" using at by blast
    obtain r v where o: "steps ?ops u = (r, v)" by force
    have "e = r" "w' = detach v" using x a None o by (auto simp: exportMonth_def)
    then show ?thesis using tripleD [OF ops u o] detach_full detach_failed by auto
  next
    case (Some z)
    then show ?thesis using x a at by (auto simp: exportMonth_def)
  qed
qed

subsection \<open>Compressing, renaming, recording\<close>

definition zipped :: "setting \<Rightarrow> view" where
  "zipped g = (\<lambda>fs mt arc. (sg_a g \<longrightarrow> arc = None) \<and> map_of fs (tmp_gz_name (sg_y g) (sg_m g)) = Some (copy_of g))"

definition renamed :: "setting \<Rightarrow> view" where
  "renamed g = (\<lambda>fs mt arc. (sg_a g \<longrightarrow> arc = None) \<and> map_of fs (final_name (sg_y g) (sg_m g)) = Some (copy_of g) \<and>
     map_of fs (tmp_gz_name (sg_y g) (sg_m g)) = None)"

definition placed :: "setting \<Rightarrow> view" where
  "placed g = (\<lambda>fs mt arc. renamed g fs mt arc \<and> map_of fs (tmp_db_name (sg_y g) (sg_m g)) = None)"

definition kept_month :: "bytes \<Rightarrow> (bytes \<rightharpoonup> bytes) \<Rightarrow> bool" where
  "kept_month month mt \<longleftrightarrow> month \<in> set (months_of (mt metaCopiedMonths))"

definition archived :: "setting \<Rightarrow> bytes \<Rightarrow> view" where
  "archived g month = (\<lambda>fs mt arc. placed g fs mt arc \<and> kept_month month mt)"

lemma triple_gzip:
  "triple (inside g (detached g)) (gzipFile (tmp_db_name (sg_y g) (sg_m g)) (tmp_gz_name (sg_y g) (sg_m g))) (inside g (zipped g)) (failed g)"
proof -
  let ?c = "\<lambda>fs mt arc. (sg_a g \<longrightarrow> arc = None) \<and> map_of fs (tmp_db_name (sg_y g) (sg_m g)) =
    Some (DbFile (month_rows (sg_d g) (sg_start g) (sg_end g) ArchivedTables))"
  show ?thesis
    unfolding gzipFile_def
    by (rule triple_steps_Cons [OF triple_labelled [OF triple_call] triple_steps_Cons
          [where Q = "inside g ?c", OF triple_labelled triple_steps_Cons [OF triple_labelled triple_steps_Nil]]];
        (rule triple_files)?)
      (auto simp: detached_def full_def exporting_def zipped_def update_conv' fin_ok_def copy_of_def complete_copy_def)
qed

lemma triple_rename:
  "triple (inside g (zipped g)) (os_rename (tmp_gz_name (sg_y g) (sg_m g)) (final_name (sg_y g) (sg_m g))) (inside g (renamed g)) (failed g)"
  unfolding os_rename_def
  by (rule triple_files) (simp add: zipped_def renamed_def fin_ok_def update_conv' delete_conv')

lemma triple_remove_db:
  "triple (inside g (renamed g)) (os_remove (tmp_db_name (sg_y g) (sg_m g))) (inside g (placed g)) (failed g)"
  unfolding os_remove_def
  by (rule triple_files) (simp add: placed_def renamed_def fin_ok_def delete_conv')

lemma split_on_nonempty: "split_on sep a \<noteq> []"
  by (induction a) (auto split: list.split)

lemma split_on_append: "split_on sep (a @ sep # b) = split_on sep a @ split_on sep b"
proof (induction a)
  case (Cons c a)
  then show ?case using split_on_nonempty [of sep a] by (cases "split_on sep a") auto
qed simp

lemma split_on_self: "sep \<notin> set b \<Longrightarrow> split_on sep b = [b]"
  by (induction b) auto

lemma join_snoc: "join_comma (xs @ [m]) = (if xs = [] then m else join_comma xs @ CHR '','' # m)"
  by (cases xs) (simp_all add: join_comma_def)

lemma month_of_join: "m \<noteq> [] \<Longrightarrow> CHR '','' \<notin> set m \<Longrightarrow> m \<in> set (months_of (Some (join_comma (xs @ [m]))))"
  by (simp add: months_of_def join_snoc split_on_append split_on_self)

lemma triple_record:
  assumes "month \<noteq> []" "CHR '','' \<notin> set month"
  shows "triple (inside g (placed g)) (recordCopiedMonth month) (inside g (archived g month)) (failed g)"
proof (rule tripleI)
  fix w e w'
  assume w: "inside g (placed g) w" and r: "recordCopiedMonth month w = (e, w')"
  obtain q u where s: "readCopiedMonths w = (q, u)" by force
  note i = query_in [OF w s [unfolded readCopiedMonths_def]]
  show "if e = None then inside g (archived g month) w' else failed g w'"
  proof (cases q)
    case (Inl x)
    then show ?thesis using r s i by (auto simp: recordCopiedMonth_def)
  next
    case (Inr copied)
    then have u: "inside g (placed g) u" "copied = months_of (tb_meta (seen u) metaCopiedMonths)" using i by simp_all
    show ?thesis
    proof (cases "containsMonth copied month")
      case True
      then show ?thesis using r s Inr u by (auto simp: recordCopiedMonth_def inside_def archived_def kept_month_def containsMonth_def)
    next
      case False
      have t: "triple (inside g (placed g)) (labelled ''record month'' (sql_exec (UpsertMeta metaCopiedMonths (join_comma (copied @ [month])))))
          (inside g (archived g month)) (failed g)"
        by (rule triple_labelled, rule triple_meta)
          (simp add: archived_def placed_def renamed_def kept_month_def month_of_join [OF assms])
      have "labelled ''record month'' (sql_exec (UpsertMeta metaCopiedMonths (join_comma (copied @ [month])))) u = (e, w')"
        using r s Inr False by (simp add: recordCopiedMonth_def)
      then show ?thesis using tripleD [OF t u(1)] by auto
    qed
  qed
qed

lemma triple_produce:
  assumes "month \<noteq> []" "CHR '','' \<notin> set month"
  shows "triple (inside g (clean g)) (produce_copy month (sg_y g) (sg_m g) (sg_start g) (sg_end g)) (inside g (archived g month)) (failed g)"
  unfolding produce_copy_def
  by (intro triple_steps_Cons [OF triple_exportMonth] triple_steps_Cons [OF triple_labelled [OF triple_call]]
      triple_steps_Cons [OF triple_gzip] triple_steps_Cons [OF triple_labelled [OF triple_rename]]
      triple_steps_Cons [OF triple_labelled [OF triple_remove_db]] triple_steps_Cons [OF triple_record [OF assms]]
      triple_steps_Nil)

subsection \<open>Archiving a month\<close>

definition no_data :: "setting \<Rightarrow> bool" where
  "no_data g \<longleftrightarrow> (\<forall>t\<in>set ArchivedTables. filter (in_range (sg_start g) (sg_end g)) (sg_d g t) = [])"

text \<open>Success leaves nothing temporary, and the month is without data, or it is recorded with its complete
  copy, or recorded with the file it had.\<close>

definition finished :: "setting \<Rightarrow> bytes \<Rightarrow> view" where
  "finished g month = (\<lambda>fs mt arc. clean g fs mt arc \<and>
     (no_data g \<or> kept_month month mt \<and>
       (map_of fs (final_name (sg_y g) (sg_m g)) = Some (copy_of g) \<or>
        map_of fs (final_name (sg_y g) (sg_m g)) = sg_fin g \<and> sg_fin g \<noteq> None)))"

definition start_view :: "setting \<Rightarrow> view" where
  "start_view g = (\<lambda>fs mt arc. (sg_a g \<longrightarrow> arc = None) \<and> map_of fs (final_name (sg_y g) (sg_m g)) = sg_fin g)"

definition checked :: "setting \<Rightarrow> view" where
  "checked g = (\<lambda>fs mt arc. clean g fs mt arc \<and> map_of fs (final_name (sg_y g) (sg_m g)) = sg_fin g)"

lemma month_chars:
  assumes "ParseMonth z month = Some p"
  shows "month \<noteq> [] \<and> CHR '','' \<notin> set month"
proof -
  obtain i where i: "find_first (\<lambda>c. c = CHR ''-'') month = Some i"
    using assms by (auto simp: ParseMonth_def split: option.splits)
  obtain a b where ab: "hm_number (take i month) = Some a" "hm_number (drop (i + 1) month) = Some b"
    using assms i by (auto simp: ParseMonth_def Let_def split: option.splits if_splits)
  have "i < length month" "month ! i = CHR ''-''" using find_first_Some [OF i] by blast+
  then have m: "month = take i month @ CHR ''-'' # drop (i + 1) month" by (metis id_take_nth_drop Suc_eq_plus1)
  have "\<not> is_digit (CHR '','')" by (simp add: is_digit_def bval_def)
  then have "CHR '','' \<notin> set (take i month)" "CHR '','' \<notin> set (drop (i + 1) month)"
    using ab hm_number_Some by blast+
  moreover have "set month = insert (CHR ''-'') (set (take i month) \<union> set (drop (i + 1) month))"
    using arg_cong [OF m, of set] by simp
  ultimately show ?thesis using m by auto
qed

lemma has_data_in:
  assumes "inside g X w" "monthHasData (sg_start g) (sg_end g) ts w = (r, w')"
  shows "case r of Inl e \<Rightarrow> failed g w' | Inr b \<Rightarrow> inside g X w' \<and>
    (b \<longleftrightarrow> (\<exists>t\<in>set ts. filter (in_range (sg_start g) (sg_end g)) (sg_d g t) \<noteq> []))"
  using assms
proof (induction ts arbitrary: w)
  case (Cons t ts)
  obtain q u where s: "sql_query (\<lambda>d. length (range_rows (sg_start g) (sg_end g) t d)) w = (q, u)" by force
  note i = query_in [OF Cons.prems(1) s]
  show ?case
  proof (cases q)
    case (Inl x)
    then show ?thesis using Cons.prems(2) s i by auto
  next
    case (Inr n)
    then have u: "inside g X u" "n = length (range_rows (sg_start g) (sg_end g) t (seen u))" using i by simp_all
    have n: "n = length (filter (in_range (sg_start g) (sg_end g)) (sg_d g t))"
      using u range_rows_month [of u g "sg_start g" "sg_end g" t] by (simp add: inside_def steady_def)
    show ?thesis
    proof (cases "0 < n")
      case True
      then show ?thesis using Cons.prems(2) s Inr u n by auto
    next
      case False
      then have "monthHasData (sg_start g) (sg_end g) ts u = (r, w')" using Cons.prems(2) s Inr by simp
      then show ?thesis using Cons.IH [OF u(1)] False n by (cases r) simp_all
    qed
  qed
qed auto

lemma triple_export_if_data:
  assumes "month \<noteq> []" "CHR '','' \<notin> set month"
  shows "triple (inside g (clean g)) (export_if_data month (sg_y g) (sg_m g) (sg_start g) (sg_end g)) (inside g (finished g month)) (failed g)"
proof (rule tripleI)
  fix w e w'
  assume w: "inside g (clean g) w" and x: "export_if_data month (sg_y g) (sg_m g) (sg_start g) (sg_end g) w = (e, w')"
  obtain q u where s: "monthHasData (sg_start g) (sg_end g) ArchivedTables w = (q, u)" by force
  note i = has_data_in [OF w s]
  show "if e = None then inside g (finished g month) w' else failed g w'"
  proof (cases q)
    case (Inl y)
    then show ?thesis using x s i by (auto simp: export_if_data_def)
  next
    case (Inr b)
    then have u: "inside g (clean g) u" using i by simp
    show ?thesis
    proof (cases b)
      case True
      then have "produce_copy month (sg_y g) (sg_m g) (sg_start g) (sg_end g) u = (e, w')" using x s Inr by (simp add: export_if_data_def)
      then show ?thesis using tripleD [OF triple_produce [OF assms] u]
        by (auto simp: inside_def archived_def placed_def renamed_def finished_def clean_def)
    next
      case False
      then have "no_data g" using i Inr by (simp add: no_data_def)
      then show ?thesis using x s Inr False u by (auto simp: export_if_data_def inside_def finished_def)
    qed
  qed
qed

lemma triple_export_anew:
  assumes "month \<noteq> []" "CHR '','' \<notin> set month"
  shows "triple (inside g (clean g)) (export_anew month (sg_y g) (sg_m g) (sg_start g) (sg_end g) copied x) (inside g (finished g month)) (failed g)"
proof -
  have a: "triple (inside g (clean g)) (steps (if containsMonth copied month
        then [labelled ''unrecord'' (sql_exec (UpsertMeta metaCopiedMonths (join_comma (filter (\<lambda>x. x \<noteq> month) copied))))]
        else [])) (inside g (clean g)) (failed g)"
    using triple_single [OF triple_labelled [OF triple_meta [where g = g and X = "clean g" and Y = "clean g"]]]
    by (simp add: triple_steps_Nil clean_def)
  have b: "triple (inside g (clean g)) (steps (if x then [labelled ''half copy'' (os_remove (final_name (sg_y g) (sg_m g)))] else []))
      (inside g (clean g)) (failed g)"
    using triple_single [OF triple_labelled [OF triple_files [where g = g and X = "clean g" and Y = "clean g"]]]
    by (simp add: triple_steps_Nil os_remove_def clean_def fin_ok_def delete_conv')
  have c: "triple (inside g (clean g)) (steps [export_if_data month (sg_y g) (sg_m g) (sg_start g) (sg_end g)])
      (inside g (finished g month)) (failed g)"
    by (rule triple_steps_Cons [OF triple_export_if_data [OF assms] triple_steps_Nil])
  show ?thesis unfolding export_anew_def by (rule triple_steps_append [OF a triple_steps_append [OF b c]])
qed

lemma exists_in:
  assumes "inside g X w" "os_exists f w = (b, w')"
  shows "inside g X w' \<and> (b \<longrightarrow> map_of (w_files w') f \<noteq> None)"
proof -
  obtain e u where c: "call w = (e, u)" by force
  note cw = call_in [OF assms(1) c]
  show ?thesis
  proof (cases e)
    case None
    then show ?thesis using assms(2) c cw by (auto simp: os_exists_def)
  next
    case (Some x)
    then have f: "failed g u" using cw by blast
    then have "\<not> sg_a g" by (simp add: failed_def)
    then have "steady g u" using f by (simp add: failed_no_flag)
    then show ?thesis using assms c cw Some by (auto simp: os_exists_def inside_def)
  qed
qed

lemma triple_ArchiveMonthDB:
  assumes p: "ParseMonth z month = Some (sg_y g, sg_m g, sg_start g, sg_end g)"
  shows "triple (inside g (start_view g)) (ArchiveMonthDB z month) (inside g (finished g month)) (failed g)"
proof (rule tripleI)
  fix w e w'
  let ?prep = "[labelled ''mkdir'' call, labelled ''stale'' (os_remove (tmp_db_name (sg_y g) (sg_m g))),
      labelled ''stale'' (os_remove (tmp_gz_name (sg_y g) (sg_m g)))]"
  let ?half = "\<lambda>fs mt arc. start_view g fs mt arc \<and> map_of fs (tmp_db_name (sg_y g) (sg_m g)) = None"
  assume w: "inside g (start_view g) w" and x: "ArchiveMonthDB z month w = (e, w')"
  have prep: "triple (inside g (start_view g)) (steps ?prep) (inside g (checked g)) (failed g)"
    unfolding os_remove_def
    by (rule triple_steps_Cons [OF triple_labelled [OF triple_call] triple_steps_Cons
          [where Q = "inside g ?half", OF triple_labelled triple_steps_Cons [OF triple_labelled triple_steps_Nil]]];
        (rule triple_files)?)
      (auto simp: start_view_def checked_def clean_def fin_ok_def delete_conv')
  obtain r1 w1 where s1: "steps ?prep w = (r1, w1)" by force
  note i1 = tripleD [OF prep w s1]
  show "if e = None then inside g (finished g month) w' else failed g w'"
  proof (cases r1)
    case (Some y)
    then show ?thesis using x s1 i1 p by (auto simp: ArchiveMonthDB_def simp del: steps.simps)
  next
    case None
    then have w1: "inside g (checked g) w1" using i1 by blast
    obtain r2 w2 where s2: "readCopiedMonths w1 = (r2, w2)" by force
    note i2 = query_in [OF w1 s2 [unfolded readCopiedMonths_def]]
    show ?thesis
    proof (cases r2)
      case (Inl y)
      then show ?thesis using x s1 None s2 i2 p by (auto simp: ArchiveMonthDB_def simp del: steps.simps)
    next
      case (Inr copied)
      then have w2: "inside g (checked g) w2" "copied = months_of (tb_meta (seen w2) metaCopiedMonths)" using i2 by simp_all
      obtain b w3 where s3: "os_exists (final_name (sg_y g) (sg_m g)) w2 = (b, w3)" by force
      note w3 = exists_in [OF w2(1) s3]
      have meta: "tb_meta (seen w3) = tb_meta (seen w2)"
        using s3 call_in [OF w2(1)] by (auto simp: os_exists_def split: prod.splits option.splits)
      have x': "(if containsMonth copied month \<and> b then (None, w3)
          else export_anew month (sg_y g) (sg_m g) (sg_start g) (sg_end g) copied b w3) = (e, w')"
        using x s1 None s2 Inr s3 p by (simp add: ArchiveMonthDB_def del: steps.simps)
      show ?thesis
      proof (cases "containsMonth copied month \<and> b")
        case True
        then show ?thesis using x' w3 w2(2) meta
          by (auto simp: inside_def finished_def checked_def kept_month_def containsMonth_def)
      next
        case False
        have "inside g (clean g) w3" using w3 by (simp add: inside_def checked_def)
        then show ?thesis
          using tripleD [OF triple_export_anew, of month g w3 copied b e w'] month_chars [OF p] x' False by auto
      qed
    qed
  qed
qed

end
