(* ===== verification/PropStore.thy ===== *)
theory PropStore
  imports StoreClean ArchiveSafe
begin

text \<open>
  What the store and the archiver promise: nothing accepted by a channel is lost, a batch is all or
  nothing, the cleanup ends and removes exactly the old rows, and the monthly copy survives a crash.
\<close>

subsection \<open>The writer\<close>

definition small_world :: "outcome list \<Rightarrow> world" where
  "small_world script = \<lparr>w_hist = [Insert ''ssh_attempts'' [VInt 1778000000]], w_txn = None, w_files = [], w_arc = None,
     w_out = script, w_dead = False\<rparr>"

text \<open>C1: The writer loses, duplicates and reorders no event. For every run of the writer, whatever fails
  on the way, and every kind of event but system: what is committed, pending and queued of the kind is,
  in order, what it was at the start followed by events sent during the run, each once. When the run
  ends regularly nothing is pending or queued, so all of it is committed.\<close>

theorem writer_exactly_once:
  assumes "batched k" "st_run z xs s = (e, s')"
  shows "(\<exists>new. subseq new (of_kind k (sent_run xs)) \<and> flow k s' = flow k s @ map event_stmt new) \<and>
    (e = Ended None \<longrightarrow> st_pending s' = [] \<and> queued k (st_ch s') = [] \<and> map Inr (written k (st_w s')) = flow k s')"
proof -
  have "e = Ended None \<Longrightarrow> st_pending s' = [] \<and> queued k (st_ch s') = []"
    using run_ends assms by blast
  then show ?thesis using grows_run [OF assms] by (auto simp: grows_def flow_def)
qed

text \<open>A run in which a connection event arrives, is taken, and the context ends while a ban event is sent.\<close>

definition ban_event_1 :: any_event where
  "ban_event_1 = AF2B \<lparr>be_ts = 5, be_ip = 1, be_type = ''ban'', be_jail = ''sshd''\<rparr>"

definition idle_store :: "world \<Rightarrow> store" where
  "idle_store w = \<lparr>st_w = w, st_ch = NewChannels 8, st_opts = \<lparr>op_BatchSize = 2, op_RetentionDays = 7, op_CredRetentionDays = 0,
     op_CopyAfterDays = 30, op_ArchiveCriticalPct = 90\<rparr>, st_pending = [], st_walChmod = True, st_chmodErr = None,
     st_yieldErr = None, st_retentionNow = False, st_archiveReq = make_chan 8\<rparr>"

theorem writer_exactly_once_witness:
  "\<exists>s'. st_run (fixed_zone 0) [(0, Arrive [ban_event_1]), (0, TakeF2B), (0, CtxEnds [ban_event_1])]
      (idle_store (small_world [])) = (Ended None, s') \<and> st_pending s' = [] \<and>
    map Inr (written ''f2b'' (st_w s')) = flow ''f2b'' s' \<and> length (written ''f2b'' (st_w s')) = 2"
proof -
  obtain s' where r: "st_run (fixed_zone 0) [(0, Arrive [ban_event_1]), (0, TakeF2B), (0, CtxEnds [ban_event_1])]
      (idle_store (small_world [])) = (Ended None, s')" "length (written ''f2b'' (st_w s')) = 2"
    by (simp add: st_step_def st_branch_def arrivals_def ban_event_1_def idle_store_def NewChannels_def make_chan_def try_send_def
      take_from_def try_recv_def enqueue_def drainInto_def Drain.simps drain_pass_def recv_opt_def Let_def flush_def writeBatch_def
      sql_begin_def call_def small_world_def item_stmt_def insertStmts_def itemArgs_def sql_exec_def sql_commit_def written_def into_def)
  have "batched ''f2b''" by (simp add: batched_def insertStmts_def)
  then show ?thesis using writer_exactly_once [OF _ r(1), of "''f2b''"] r by blast
qed

text \<open>C2: A batch is all or nothing. Whatever the database does, writing a batch either appends exactly
  the statements of its items, in order, to what is committed and ends the transaction, or it reports
  an error and leaves what is committed as it was; it fails when an item has no statement, and it
  succeeds when the database answers and every item has one.\<close>

theorem batch_all_or_nothing:
  "case writeBatch items w of
     (None, w') \<Rightarrow> map Inr (w_hist w') = map Inr (w_hist w) @ map item_stmt items \<and> (\<forall>it\<in>set items. \<exists>st. item_stmt it = Inr st)
   | (Some e, w') \<Rightarrow> w_hist w' = w_hist w \<and> \<not> (answering w \<and> (\<forall>it\<in>set items. \<exists>st. item_stmt it = Inr st))"
proof -
  obtain e w' where b: "writeBatch items w = (e, w')" by force
  note c = writeBatch_cases [OF b]
  show ?thesis
  proof (cases e)
    case None
    then have h: "map Inr (w_hist w') = map Inr (w_hist w) @ map item_stmt items" using c by simp
    have "\<exists>st. item_stmt it = Inr st" if "it \<in> set items" for it
    proof -
      have "item_stmt it \<in> set (map Inr (w_hist w'))" using h that by simp
      then show ?thesis by auto
    qed
    then show ?thesis using b None h by simp
  next
    case (Some x)
    then show ?thesis using b c writeBatch_succeeds by fastforce
  qed
qed

theorem batch_all_or_nothing_witness:
  "map Inr (w_hist (snd (writeBatch [\<lparr>it_kind = ''f2b'', it_v = ban_event_1\<rparr>] (small_world [])))) =
    map Inr (w_hist (small_world [])) @ [item_stmt \<lparr>it_kind = ''f2b'', it_v = ban_event_1\<rparr>]"
proof -
  let ?it = "\<lparr>it_kind = ''f2b'', it_v = ban_event_1\<rparr>"
  have "\<exists>st. item_stmt ?it = Inr st" by (simp add: item_stmt_def insertStmts_def itemArgs_def ban_event_1_def)
  moreover have "answering (small_world [])" by (simp add: answering_def small_world_def)
  ultimately show ?thesis
    using batch_all_or_nothing [of "small_world []" "[?it]"] by (auto split: prod.splits option.splits)
qed

text \<open>C14: The cleanup of a table ends and is exact. When the database answers and the context is not
  cancelled, a number of rounds is enough that counts the old rows, what is pending, queued or still
  sent, and two; the cleanup then reports at least the rows that were old, and the table consists of
  the rows that were not old, unchanged and in order, followed by rows written meanwhile that are not
  old either.\<close>

theorem cleanup_terminates:
  assumes "answering (st_w s)" "0 < n" "\<forall>r\<in>set rs. \<not> rr_cancel r"
    "length (old_rows t c s) + incoming s + length (sent_in rs) < length rs"
  shows "\<exists>m rs' s' ex. cleanupTable t c n 0 rs s = (Cleaned m, rs', s') \<and> length (old_rows t c s) \<le> m \<and>
    rows t s' = filter (\<lambda>r. \<not> old_row c r) (rows t s) @ ex \<and> (\<forall>r\<in>set ex. \<not> old_row c r)"
proof -
  have "rounds_needed t c s rs \<le> length rs" using assms(4) by (simp add: rounds_needed_def)
  then show ?thesis using cleanup_loop [OF assms(1-3), of t c 0] by auto
qed

theorem cleanup_terminates_witness:
  "\<exists>m rs' s' ex. cleanupTable ''ssh_attempts'' 1800000000 10000 0
      (replicate 5 \<lparr>rr_cancel = False, rr_now = 0, rr_sent = []\<rparr>) (idle_store (small_world [])) = (Cleaned m, rs', s') \<and>
    1 \<le> m \<and> rows ''ssh_attempts'' s' = ex \<and> (\<forall>r\<in>set ex. \<not> old_row 1800000000 r)"
proof -
  let ?s = "idle_store (small_world [])" and ?rs = "replicate 5 \<lparr>rr_cancel = False, rr_now = 0, rr_sent = [] :: any_event list\<rparr>"
  have "answering (st_w ?s)" by (simp add: answering_def idle_store_def small_world_def)
  moreover have r: "rows ''ssh_attempts'' ?s = [(1, [VInt 1778000000])]"
    by (simp add: rows_def idle_store_def small_world_def committed_def tables_of_def empty_tables_def next_id_def)
  moreover have "incoming ?s = 0"
    by (simp add: incoming_def idle_store_def in_transit_def NewChannels_def make_chan_def)
  moreover have "length (sent_in ?rs) = 0" by (simp add: sent_in_def)
  ultimately show ?thesis
    using cleanup_terminates [of ?s 10000 ?rs "''ssh_attempts''" 1800000000]
    by (simp add: old_rows_def old_row_def row_ts_def del: cleanupTable.simps)
qed

lemma unix_bounds: "unix now * second \<le> now" "now < (unix now + 1) * second"
  using pos_mod_bound [of second now] pos_mod_sign [of second now] div_mult_mod_eq [of now second]
  by (simp_all add: unix_def algebra_simps)

text \<open>In a zone with a fixed offset the next cleanup is the first 02:30 local time after now: strictly
  later, at most a day away, with 02:30:00 as its time of day.\<close>

theorem next_cleanup_exact:
  "now < nextRetentionTime (fixed_zone off) now * second \<and>
    nextRetentionTime (fixed_zone off) now * second \<le> now + 86400 * second \<and>
    sec_of_day (fixed_zone off) (nextRetentionTime (fixed_zone off) now) = 2 * 3600 + 30 * 60"
proof -
  define t where "t = unix now"
  define d where "d = (t + off) div 86400"
  have n: "Date (Year (fixed_zone off) t) (Month (fixed_zone off) t) (Day (fixed_zone off) t) retentionHour retentionMin 0 (fixed_zone off)
      = d * 86400 + 9000 - off"
    using Date_today [of "fixed_zone off" t 0 retentionHour retentionMin 0 off]
    by (simp add: d_def fixed_zone_def retentionHour_def retentionMin_def)
  have r: "nextRetentionTime (fixed_zone off) now =
      (if now < (d * 86400 + 9000 - off) * second then d * 86400 + 9000 - off else (d + 1) * 86400 + 9000 - off)"
    by (simp add: nextRetentionTime_def Let_def t_def [symmetric] n AddDate_days)
  have t: "t * second \<le> now" "now < (t + 1) * second" using unix_bounds [of now] by (simp_all add: t_def)
  have d: "d * 86400 \<le> t + off" "t + off < (d + 1) * 86400" unfolding d_def by (simp_all add: algebra_simps)
  have "sec_of_day (fixed_zone off) (d * 86400 + 9000 - off) = 9000" "sec_of_day (fixed_zone off) ((d + 1) * 86400 + 9000 - off) = 9000"
    by (simp_all add: sec_of_day_def fixed_zone_def)
  moreover have "(d * 86400 + 9000 - off) * second \<le> now + 86400 * second" "now < ((d + 1) * 86400 + 9000 - off) * second"
    using t d by (simp_all add: algebra_simps)
  ultimately show ?thesis using r by (auto simp: algebra_simps)
qed


subsection \<open>Archiving\<close>

definition month_empty :: "int \<Rightarrow> int \<Rightarrow> world \<Rightarrow> bool" where
  "month_empty start end w \<longleftrightarrow> (\<forall>t\<in>set ArchivedTables. range_rows start end t (committed w) = [])"

lemma archive_setting:
  assumes "ParseMonth z month = Some (y, m, start, end)" "w_txn w = None" "ArchiveMonthDB z month w = (e, w')"
    "a \<Longrightarrow> answers w \<and> w_arc w = None"
  defines "g \<equiv> \<lparr>sg_a = a, sg_d = tb_rows (committed w), sg_fin = file_at (final_name y m) w, sg_y = y, sg_m = m,
    sg_start = start, sg_end = end\<rparr>"
  shows "if e = None then inside g (finished g month) w' else failed g w'"
proof -
  have "seen w = committed w" using assms(2) by (simp add: seen_def committed_def)
  then have "inside g (start_view g) w"
    using assms(2,4) by (auto simp: g_def inside_def steady_def start_view_def file_at_def)
  then show ?thesis using tripleD [OF triple_ArchiveMonthDB _ assms(3)] assms(1) by (auto simp: g_def)
qed

lemma committed_seen: "w_txn w = None \<Longrightarrow> seen w = committed w"
  by (simp add: seen_def committed_def)

text \<open>C3: Archiving is safe at every point where it can fail or the process can die: the event rows are
  untouched, no transaction stays open, and the final file of the month is the one that was there,
  absent, or a complete copy of the month's rows of all six tables; never a partial one.\<close>

theorem archive_crash_safe:
  assumes "ParseMonth z month = Some (y, m, start, end)" "w_txn w = None" "ArchiveMonthDB z month w = (e, w')"
  shows "w_txn w' = None \<and> tb_rows (committed w') = tb_rows (committed w) \<and>
    file_at (final_name y m) w' \<in> {file_at (final_name y m) w, None, Some (complete_copy (tb_rows (committed w)) start end)}"
proof -
  let ?g = "\<lparr>sg_a = False, sg_d = tb_rows (committed w), sg_fin = file_at (final_name y m) w, sg_y = y, sg_m = m,
    sg_start = start, sg_end = end\<rparr>"
  have "steady ?g w'"
    using archive_setting [OF assms, of False] by (auto simp: inside_def failed_no_flag split: if_splits)
  then show ?thesis by (auto simp: steady_def copy_of_def committed_seen)
qed

lemma parse_may: "\<exists>a b. ParseMonth z ''2026-05'' = Some (2026, 5, a, b)"
proof -
  have "hm_number ''2026'' = Some 2026" "hm_number ''05'' = Some 5"
    by (simp_all add: hm_number_Some digits_val_def is_digit_def bval_def)
  then show ?thesis by (simp add: ParseMonth_def Let_def)
qed

theorem archive_crash_safe_witness:
  "\<exists>a b. file_at (final_name 2026 5) (snd (ArchiveMonthDB (fixed_zone 0) ''2026-05'' (small_world (replicate 20 Success @ [Crash]))))
    \<in> {None, Some (complete_copy (tb_rows (committed (small_world []))) a b)}"
proof -
  let ?w = "small_world (replicate 20 Success @ [Crash])"
  obtain a b where p: "ParseMonth (fixed_zone 0) ''2026-05'' = Some (2026, 5, a, b)" using parse_may by blast
  have "file_at (final_name 2026 5) ?w = None" "committed ?w = committed (small_world [])"
    by (simp_all add: small_world_def file_at_def committed_def)
  then show ?thesis
    using archive_crash_safe [OF p, of ?w] by (metis (no_types, lifting) insertE insertI1 insertI2 prod.collapse
        small_world_def world.select_convs(2))
qed

text \<open>C28: Archiving heals and completes. When the database and the file system answer and nothing is
  attached, archiving a month succeeds, leaves no temporary file, and afterwards the month has no rows
  or it is recorded as copied and its final file is a complete copy or the file it already had.\<close>

theorem archive_completes:
  assumes "ParseMonth z month = Some (y, m, start, end)" "answering w" "w_arc w = None"
  shows "\<exists>w'. ArchiveMonthDB z month w = (None, w') \<and> file_at (tmp_db_name y m) w' = None \<and> file_at (tmp_gz_name y m) w' = None \<and>
    (month_empty start end w \<or> recorded month w' \<and>
      (file_at (final_name y m) w' = Some (complete_copy (tb_rows (committed w)) start end) \<or>
       file_at (final_name y m) w' = file_at (final_name y m) w \<and> file_at (final_name y m) w \<noteq> None))"
proof -
  obtain e w' where x: "ArchiveMonthDB z month w = (e, w')" by force
  have t: "w_txn w = None" and a: "answers w" using assms(2) by (simp_all add: answering_def answers_def)
  note f = archive_setting [OF assms(1) t x, of True]
  have e: "e = None" using f a assms(3) by (auto simp: failed_def split: if_splits)
  show ?thesis
    using f a assms(3) x
    by (auto simp: e inside_def finished_def clean_def no_data_def month_empty_def range_rows_def recorded_def kept_month_def
        containsMonth_def file_at_def copy_of_def)
qed

theorem archive_completes_witness:
  "\<exists>w'. ArchiveMonthDB (fixed_zone 0) ''2026-05'' (small_world []) = (None, w') \<and> file_at (tmp_db_name 2026 5) w' = None"
proof -
  obtain a b where p: "ParseMonth (fixed_zone 0) ''2026-05'' = Some (2026, 5, a, b)" using parse_may by blast
  have "answering (small_world [])" "w_arc (small_world []) = None" by (simp_all add: small_world_def answering_def)
  then show ?thesis using archive_completes [OF p] by blast
qed

text \<open>C35: A copy whose record was not written is destroyed. When the final file of a month is there, the
  month is not recorded (the process died between the rename and the record) and its rows have since
  been cleaned from the main database, archiving the month again succeeds and removes the only copy.\<close>

theorem unrecorded_copy_lost:
  assumes "ParseMonth z month = Some (y, m, start, end)" "answering w" "month_empty start end w" "\<not> recorded month w"
  shows "\<exists>w'. ArchiveMonthDB z month w = (None, w') \<and> file_at (final_name y m) w' = None \<and> \<not> recorded month w'"
proof -
  have c: "answers w \<Longrightarrow> call w = (None, w)" for w by (rule call_answers)
  have d: "monthHasData start end ts u = (Inr False, u)"
    if "answers u" "tb_rows (seen u) = tb_rows (committed w)" "set ts \<subseteq> set ArchivedTables" for ts u
    using that assms(3)
    by (induction ts) (auto simp: sql_query_def c month_empty_def range_rows_def)
  have a: "answers w" "seen w = committed w" using assms(2) by (simp_all add: answering_def answers_def answering_seen)
  define w1 where "w1 = w\<lparr>w_files := AList.delete (tmp_gz_name y m) (AList.delete (tmp_db_name y m) (w_files w))\<rparr>"
  have w1: "answers w1" "seen w1 = seen w" using a by (simp_all add: w1_def answers_def)
  have "answers (w\<lparr>w_files := x\<rparr>)" for x using a by (simp add: answers_def)
  then have prep: "steps [labelled ''mkdir'' call, labelled ''stale'' (os_remove (tmp_db_name y m)),
      labelled ''stale'' (os_remove (tmp_gz_name y m))] w = (None, w1)"
    using a by (simp add: labelled_def os_remove_def on_files_def c w1_def)
  have rd: "readCopiedMonths w1 = (Inr (months_of (tb_meta (seen w) metaCopiedMonths)), w1)"
    using w1 by (simp add: readCopiedMonths_def sql_query_def c)
  have nr: "\<not> containsMonth (months_of (tb_meta (seen w) metaCopiedMonths)) month" using assms(4) by (simp add: recorded_def)
  have ex: "os_exists (final_name y m) w1 = (map_of (w_files w1) (final_name y m) \<noteq> None, w1)"
    using w1 by (simp add: os_exists_def c)
  define w2 where "w2 = (if map_of (w_files w1) (final_name y m) = None then w1
    else w1\<lparr>w_files := AList.delete (final_name y m) (w_files w1)\<rparr>)"
  have w2: "answers w2" "seen w2 = seen w" "file_at (final_name y m) w2 = None"
    using w1 by (simp_all add: w2_def answers_def file_at_def delete_conv')
  have "export_if_data month y m start end w2 = (None, w2)"
    using d [OF w2(1), of ArchivedTables] w2(2) a(2) by (simp add: export_if_data_def)
  then have "export_anew month y m start end (months_of (tb_meta (seen w) metaCopiedMonths)) (map_of (w_files w1) (final_name y m) \<noteq> None) w1
      = (None, w2)"
    using nr w1(1) by (auto simp: export_anew_def labelled_def os_remove_def on_files_def c w2_def)
  then have "ArchiveMonthDB z month w = (None, w2)"
    using prep rd ex nr by (simp add: ArchiveMonthDB_def assms(1) del: steps.simps)
  then show ?thesis using w2 assms(4) by (simp add: recorded_def)
qed

theorem unrecorded_copy_lost_witness:
  "\<exists>w'. ArchiveMonthDB (fixed_zone 0) ''2026-05'' ((small_world [])\<lparr>w_hist := [], w_files := [(final_name 2026 5, Gz [])]\<rparr>) = (None, w') \<and>
    file_at (final_name 2026 5) w' = None"
proof -
  let ?w = "(small_world [])\<lparr>w_hist := [], w_files := [(final_name 2026 5, Gz [])]\<rparr>"
  obtain a b where p: "ParseMonth (fixed_zone 0) ''2026-05'' = Some (2026, 5, a, b)" using parse_may by blast
  have "answering ?w" by (simp add: small_world_def answering_def)
  moreover have "month_empty a b ?w"
    by (simp add: month_empty_def small_world_def committed_def tables_of_def empty_tables_def range_rows_def)
  moreover have "\<not> recorded ''2026-05'' ?w"
    by (simp add: recorded_def small_world_def seen_def tables_of_def empty_tables_def months_of_def containsMonth_def)
  ultimately show ?thesis using unrecorded_copy_lost [OF p] by blast
qed

end
