(* ===== verification/Collect.thy ===== *)
theory Collect
  imports Archive ConnSnap
begin

text \<open>
  \<^verbatim>\<open>internal/collect\<close>: the resource collector, which reads the counters of the process file system at
  every tick, and gives up after ten failures in a row.

  What the files hold, or the error of reading them, is part of the tick. Counters are 64-bit words;
  floating-point samples are exact rationals.
\<close>

subsection \<open>Parsing\<close>

definition maxConsecutiveFailures :: nat where "maxConsecutiveFailures = 10"

text \<open>Every value of the line, or the first that is not a number.\<close>

fun parse_vals :: "bytes list \<Rightarrow> bytes list + u64 list" where
  "parse_vals [] = Inr []"
| "parse_vals (f # fs) =
    (case parse_uint 64 f of None \<Rightarrow> Inl [''cpu value'', f]
     | Some v \<Rightarrow> (case parse_vals fs of Inl e \<Rightarrow> Inl e | Inr vs \<Rightarrow> Inr (of_nat v # vs)))"

text \<open>The total and the idle time (idle and iowait) of the first line of all processors.\<close>

fun stat_lines :: "bytes list \<Rightarrow> bytes list + u64 \<times> u64" where
  "stat_lines [] = Inl [''no cpu line'']"
| "stat_lines (l # ls) =
    (if \<not> has_prefix l ''cpu '' then stat_lines ls
     else let fields = Fields l in
       if length fields < 6 then Inl [''cpu line too short'', l]
       else case parse_vals (tl fields) of Inl e \<Rightarrow> Inl e
       | Inr vals \<Rightarrow> Inr (sum_list vals, vals ! 3 + vals ! 4))"

definition ParseProcStat :: "bytes \<Rightarrow> bytes list + u64 \<times> u64" where
  "ParseProcStat content = stat_lines (fst (scan_lines scan_limit content))"

definition parseKB :: "bytes \<Rightarrow> bytes list + u64" where
  "parseKB line =
    (let fields = Fields line in
     if length fields < 2 then Inl [''too few fields'', line]
     else case parse_uint 64 (fields ! 1) of None \<Rightarrow> Inl [''not a number'', fields ! 1] | Some n \<Rightarrow> Inr (of_nat n))"

text \<open>The keys seen so far are Some; the scan ends when both are and the total is positive.\<close>

fun mem_lines :: "bytes list \<Rightarrow> u64 option \<Rightarrow> u64 option \<Rightarrow> bytes list + u64 \<times> u64" where
  "mem_lines [] tot avail =
    (case tot of None \<Rightarrow> Inl [''MemTotal missing'']
     | Some t \<Rightarrow> (case avail of None \<Rightarrow> Inl [''MemAvailable missing''] | Some a \<Rightarrow> Inr (t, a)))"
| "mem_lines (l # ls) tot avail =
    (let go = (\<lambda>tot avail. case (tot, avail) of
           (Some t, Some a) \<Rightarrow> if 0 < t then Inr (t, a) else mem_lines ls tot avail
         | _ \<Rightarrow> mem_lines ls tot avail)
     in if has_prefix l ''MemTotal:'' then (case parseKB l of Inl e \<Rightarrow> Inl e | Inr v \<Rightarrow> go (Some v) avail)
        else if has_prefix l ''MemAvailable:'' then (case parseKB l of Inl e \<Rightarrow> Inl e | Inr v \<Rightarrow> go tot (Some v))
        else go tot avail)"

definition ParseProcMeminfo :: "bytes \<Rightarrow> bytes list + u64 \<times> u64" where
  "ParseProcMeminfo content = mem_lines (fst (scan_lines scan_limit content)) None None"

text \<open>The bytes received and sent by every interface but lo, added up.\<close>

definition dev_line :: "bytes \<Rightarrow> (bytes list + u64 \<times> u64) option" where
  "dev_line line =
    (case find_first (\<lambda>c. c = CHR '':'') line of None \<Rightarrow> None
     | Some i \<Rightarrow>
       (let iface = trim_space (take i line); fields = Fields (drop (i + 1) line) in
        if iface = ''lo'' then None
        else if length fields < 9 then Some (Inl [''interface fields'', iface, line])
        else case (parse_uint 64 (fields ! 0), parse_uint 64 (fields ! 8)) of
          (Some r, Some t) \<Rightarrow> Some (Inr (of_nat r, of_nat t))
        | _ \<Rightarrow> Some (Inl [''interface counters'', iface])))"

fun dev_lines :: "bytes list \<Rightarrow> u64 \<Rightarrow> u64 \<Rightarrow> bytes list + u64 \<times> u64" where
  "dev_lines [] rx tx = Inr (rx, tx)"
| "dev_lines (l # ls) rx tx =
    (case dev_line l of None \<Rightarrow> dev_lines ls rx tx
     | Some (Inl e) \<Rightarrow> Inl e
     | Some (Inr (r, t)) \<Rightarrow> dev_lines ls (rx + r) (tx + t))"

definition ParseProcNetDev :: "bytes \<Rightarrow> bytes list + u64 \<times> u64" where
  "ParseProcNetDev content = dev_lines (drop 1 (fst (scan_lines scan_limit content))) 0 0"

text \<open>The root mount: its path is always \<^verbatim>\<open>/\<close>.\<close>

definition findRootMount :: "bytes \<Rightarrow> bytes list + bytes" where
  "findRootMount content =
    (let (ls, toolong) = scan_lines scan_limit content in
     if \<exists>l\<in>set ls. 6 \<le> length (Fields l) \<and> Fields l ! 4 = ''/'' then Inr ''/''
     else if toolong then Inl [''token too long''] else Inl [''no root mount''])"

subsection \<open>One sample\<close>

record counters =
  ct_cpuTotal :: u64
  ct_cpuIdle :: u64
  ct_netRx :: u64
  ct_netTx :: u64

definition no_counters :: counters where
  "no_counters = \<lparr>ct_cpuTotal = 0, ct_cpuIdle = 0, ct_netRx = 0, ct_netTx = 0\<rparr>"

text \<open>The files at a tick, each its content or the error of reading it, and the result of statfs.\<close>

record proc_files =
  pf_stat :: "bytes + bytes"
  pf_meminfo :: "bytes + bytes"
  pf_mountinfo :: "bytes + bytes"
  pf_statfs :: "bytes + u64 \<times> u64 \<times> u64"
  pf_dev :: "bytes + bytes"

definition read_parse :: "bytes + bytes \<Rightarrow> (bytes \<Rightarrow> bytes list + 'a) \<Rightarrow> bytes list + 'a" where
  "read_parse f p = (case f of Inl e \<Rightarrow> Inl [e] | Inr s \<Rightarrow> p s)"

definition of_u64 :: "u64 \<Rightarrow> rat" where
  "of_u64 v = of_nat (unat v)"

definition cpuPercent :: "u64 \<Rightarrow> u64 \<Rightarrow> u64 \<Rightarrow> u64 \<Rightarrow> rat" where
  "cpuPercent pTotal pIdle cTotal cIdle =
    (let totalDelta = cTotal - pTotal; idleDelta = cIdle - pIdle in
     if totalDelta = 0 then 0 else of_u64 (totalDelta - idleDelta) / of_u64 totalDelta * 100)"

text \<open>The interval is in nanoseconds.\<close>

definition rate :: "u64 \<Rightarrow> u64 \<Rightarrow> int \<Rightarrow> u64" where
  "rate prev cur interval =
    (if cur < prev \<or> interval \<le> 0 then 0
     else word_of_int (floor (of_u64 (cur - prev) / (of_int interval / of_int second))))"

definition readPrevCounters :: "proc_files \<Rightarrow> bytes list + counters" where
  "readPrevCounters f =
    (case read_parse (pf_stat f) ParseProcStat of Inl e \<Rightarrow> Inl e
     | Inr (tot, idle) \<Rightarrow>
       (case read_parse (pf_dev f) ParseProcNetDev of Inl e \<Rightarrow> Inl e
        | Inr (rx, tx) \<Rightarrow> Inr \<lparr>ct_cpuTotal = tot, ct_cpuIdle = idle, ct_netRx = rx, ct_netTx = tx\<rparr>))"

definition diskUsage :: "proc_files \<Rightarrow> bytes list + rat \<times> rat" where
  "diskUsage f =
    (case read_parse (pf_mountinfo f) findRootMount of Inl e \<Rightarrow> Inl e
     | Inr _ \<Rightarrow>
       (case Usage (pf_statfs f) of Inl e \<Rightarrow> Inl [e]
        | Inr (tot, free) \<Rightarrow> Inr (of_u64 (tot - free) / 1024 / 1024, of_u64 (tot - free) / of_u64 tot * 100)))"

definition collectOnce :: "int \<Rightarrow> proc_files \<Rightarrow> counters \<Rightarrow> int \<Rightarrow> bytes list + resource_sample \<times> counters" where
  "collectOnce now f prev interval =
    (case read_parse (pf_stat f) ParseProcStat of Inl e \<Rightarrow> Inl e | Inr (cpuTotal, cpuIdle) \<Rightarrow>
     (case read_parse (pf_meminfo f) ParseProcMeminfo of Inl e \<Rightarrow> Inl e | Inr (memTotal, memAvail) \<Rightarrow>
     (case diskUsage f of Inl e \<Rightarrow> Inl e | Inr (diskUsed, diskPercent) \<Rightarrow>
     (case read_parse (pf_dev f) ParseProcNetDev of Inl e \<Rightarrow> Inl e | Inr (rx, tx) \<Rightarrow>
       Inr (\<lparr>rs_ts = unix now, rs_cpu = cpuPercent (ct_cpuTotal prev) (ct_cpuIdle prev) cpuTotal cpuIdle,
          rs_memused = (if 0 < memTotal then of_u64 (memTotal - memAvail) / 1024 else 0),
          rs_mempct = (if 0 < memTotal then of_u64 (memTotal - memAvail) / of_u64 memTotal * 100 else 0),
          rs_diskused = diskUsed, rs_diskpct = diskPercent,
          rs_rx = rate (ct_netRx prev) rx interval, rs_tx = rate (ct_netTx prev) tx interval\<rparr>,
        \<lparr>ct_cpuTotal = cpuTotal, ct_cpuIdle = cpuIdle, ct_netRx = rx, ct_netTx = tx\<rparr>)))))"

subsection \<open>The collector\<close>

text \<open>
  A choice of the loop: the context has ended, or a tick with the files at that time and whether the
  context ends while the sample waits for room in the channel.
\<close>

record collect_tick =
  tk_ctx :: bool
  tk_now :: int
  tk_files :: proc_files
  tk_blocked :: bool

record collector =
  co_prev :: counters
  co_failures :: nat
  co_sent :: "resource_sample list"
  co_sys :: sysch

datatype collect_end = Collecting | CollectEnds "bytes list option"

fun collector_loop :: "int \<Rightarrow> collect_tick list \<Rightarrow> collector \<Rightarrow> collect_end \<times> collector" where
  "collector_loop interval [] s = (Collecting, s)"
| "collector_loop interval (t # ts) s =
    (if tk_ctx t then (CollectEnds None, s)
     else case collectOnce (tk_now t) (tk_files t) (co_prev s) interval of
       Inl e \<Rightarrow>
         (let n = co_failures s + 1;
              s1 = s\<lparr>co_failures := n, co_sys := ReportSys (tk_now t) ''collector'' ''warn'' ([''sampling failed'', show_nat n] @ e) (co_sys s)\<rparr>
          in if maxConsecutiveFailures \<le> n then (CollectEnds (Some ([''ten failures''] @ e)), s1)
             else collector_loop interval ts s1)
     | Inr (sample, cur) \<Rightarrow>
         (let s1 = s\<lparr>co_failures := 0, co_prev := cur\<rparr> in
          if tk_blocked t then (CollectEnds None, s1)
          else collector_loop interval ts (s1\<lparr>co_sent := co_sent s1 @ [sample]\<rparr>)))"

definition RunResourceCollector :: "int \<Rightarrow> proc_files \<Rightarrow> int \<Rightarrow> collect_tick list \<Rightarrow> sysch \<Rightarrow> collect_end \<times> collector" where
  "RunResourceCollector start files interval ts sys =
    (case readPrevCounters files of
       Inl e \<Rightarrow> collector_loop interval ts \<lparr>co_prev = no_counters, co_failures = 0, co_sent = [],
         co_sys = ReportSys start ''collector'' ''warn'' ([''initialisation failed''] @ e) sys\<rparr>
     | Inr c \<Rightarrow> collector_loop interval ts \<lparr>co_prev = c, co_failures = 0, co_sent = [], co_sys = sys\<rparr>)"

end
