(* ===== verification/DiskMon.thy ===== *)
theory DiskMon
  imports Archive Conn
begin

text \<open>
  \<^verbatim>\<open>internal/diskmon/diskmon.go\<close>: the level of the disk and the monitor that reports it, and the
  judgements of \<^verbatim>\<open>cmd/sentry-agent/main.go\<close> about the listening address and the honeypot.
\<close>

subsection \<open>Levels\<close>

datatype Level = LevelOK | LevelWarn | LevelCritical | LevelEmergency

fun severity :: "Level \<Rightarrow> nat" where
  "severity LevelOK = 0"
| "severity LevelWarn = 1"
| "severity LevelCritical = 2"
| "severity LevelEmergency = 3"

lemma severity_inj: "severity a = severity b \<Longrightarrow> a = b"
  by (cases a; cases b) simp_all

instantiation Level :: linorder
begin

definition less_eq_Level :: "Level \<Rightarrow> Level \<Rightarrow> bool" where
  "less_eq_Level a b \<longleftrightarrow> severity a \<le> severity b"

definition less_Level :: "Level \<Rightarrow> Level \<Rightarrow> bool" where
  "less_Level a b \<longleftrightarrow> severity a < severity b"

instance
  by standard (auto simp: less_eq_Level_def less_Level_def severity_inj)

end

definition Classify :: "rat \<Rightarrow> int \<Rightarrow> int \<Rightarrow> int \<Rightarrow> Level" where
  "Classify usagePercent warn critical emergency =
    (if of_int emergency \<le> usagePercent then LevelEmergency
     else if of_int critical \<le> usagePercent then LevelCritical
     else if of_int warn \<le> usagePercent then LevelWarn
     else LevelOK)"

subsection \<open>The monitor\<close>

text \<open>The text of a report carries the value that is printed.\<close>

definition disk_report :: "int \<Rightarrow> Level \<Rightarrow> bytes \<Rightarrow> sysch \<Rightarrow> sysch" where
  "disk_report now level usage sys =
    (case level of LevelOK \<Rightarrow> sys
     | LevelWarn \<Rightarrow> ReportSys now ''disk'' ''warn'' [''warn'', usage] sys
     | LevelCritical \<Rightarrow> ReportSys now ''disk'' ''warn'' [''critical'', usage] sys
     | LevelEmergency \<Rightarrow> ReportSys now ''disk'' ''error'' [''emergency'', usage] sys)"

text \<open>
  The variables the closure keeps; a level that was never reported has no entry. The log is what was
  handed to \<^verbatim>\<open>report\<close>, with its instant.
\<close>

record disk_state =
  dk_first :: bool
  dk_lastLevel :: Level
  dk_lastReport :: "Level \<rightharpoonup> int"
  dk_sys :: sysch
  dk_log :: "(int \<times> Level) list"

definition say :: "int \<Rightarrow> Level \<Rightarrow> bytes \<Rightarrow> disk_state \<Rightarrow> disk_state" where
  "say now level shown s =
    s\<lparr>dk_sys := disk_report now level shown (dk_sys s), dk_log := dk_log s @ [(now, level)],
      dk_lastReport := (dk_lastReport s)(level \<mapsto> now)\<rparr>"

definition due_again :: "int \<Rightarrow> Level \<Rightarrow> disk_state \<Rightarrow> bool" where
  "due_again now level s \<longleftrightarrow>
    (case dk_lastReport s level of None \<Rightarrow> True | Some t \<Rightarrow> 10 * minute \<le> now - t)"

text \<open>One round: the clock, and the usage with its printed form or the error of reading it.\<close>

definition disk_round :: "int \<Rightarrow> int \<Rightarrow> int \<Rightarrow> int \<times> (bytes + rat \<times> bytes) \<Rightarrow> disk_state \<Rightarrow> disk_state" where
  "disk_round warn critical emergency x s =
    (case x of (now, Inl e) \<Rightarrow> s\<lparr>dk_sys := ReportSys now ''disk'' ''warn'' [''usage not read'', e] (dk_sys s), dk_first := False\<rparr>
     | (now, Inr (usage, shown)) \<Rightarrow>
       (let level = Classify usage warn critical emergency in
        if dk_first s then
          (let s1 = s\<lparr>dk_first := False, dk_lastLevel := level\<rparr> in if level \<noteq> LevelOK then say now level shown s1 else s1)
        else if level \<noteq> dk_lastLevel s then
          (let s1 = say now level shown s;
               s2 = (if level = LevelOK then s1\<lparr>dk_sys := ReportSys now ''disk'' ''info'' [''back to normal''] (dk_sys s1)\<rparr> else s1)
           in s2\<lparr>dk_lastLevel := level\<rparr>)
        else if level \<noteq> LevelOK \<and> due_again now level s then say now level shown s
        else s))"

definition disk_start :: "sysch \<Rightarrow> disk_state" where
  "disk_start sys = \<lparr>dk_first = True, dk_lastLevel = LevelOK, dk_lastReport = Map.empty, dk_sys = sys, dk_log = []\<rparr>"

definition RunDiskMonitorWithUsage :: "int \<Rightarrow> int \<Rightarrow> int \<Rightarrow> (int \<times> (bytes + rat \<times> bytes)) list \<Rightarrow> sysch \<Rightarrow> disk_state" where
  "RunDiskMonitorWithUsage warn critical emergency rounds sys =
    fold (disk_round warn critical emergency) rounds (disk_start sys)"

text \<open>The usage of the archive directory, as \<^verbatim>\<open>statfs\<close> reports it.\<close>

definition RunDiskMonitor :: "int \<Rightarrow> int \<Rightarrow> int \<Rightarrow> (rat \<Rightarrow> bytes) \<Rightarrow> (int \<times> (bytes + u64 \<times> u64 \<times> u64)) list \<Rightarrow> sysch \<Rightarrow> disk_state" where
  "RunDiskMonitor warn critical emergency fmt rounds sys =
    RunDiskMonitorWithUsage warn critical emergency
      (map (\<lambda>(now, st). (now, map_sum id (\<lambda>u. (u, fmt u)) (UsagePercent st))) rounds) sys"

subsection \<open>Judgements of main\<close>

text \<open>\<^verbatim>\<open>net.IP.IsLoopback\<close>.\<close>

definition IsLoopback :: "bytes \<Rightarrow> bool" where
  "IsLoopback ip \<longleftrightarrow>
    (if To4 ip \<noteq> [] then bval (hd (To4 ip)) = 127 else ip = replicate 15 NUL @ [mkbyte 1])"

definition isLoopbackListen :: "bytes \<Rightarrow> bool" where
  "isLoopbackListen listen =
    (case SplitHostPort listen of None \<Rightarrow> False
     | Some (host, port) \<Rightarrow>
       (if host = [] then False else if host = ''localhost'' then True
        else ParseIP host \<noteq> [] \<and> IsLoopback (ParseIP host)))"

definition shouldStartHoneypot :: "bool \<Rightarrow> bool \<Rightarrow> bool" where
  "shouldStartHoneypot stdoutMode enabled \<longleftrightarrow> \<not> stdoutMode \<and> enabled"

subsection \<open>What is reported\<close>

text \<open>The last level in the log, normal when it is empty.\<close>

definition told :: "disk_state \<Rightarrow> Level" where
  "told s = (if dk_log s = [] then LevelOK else snd (last (dk_log s)))"

text \<open>Two reports of one level with no other report between them are ten minutes apart.\<close>

definition spaced :: "(int \<times> Level) list \<Rightarrow> bool" where
  "spaced tr \<longleftrightarrow> (\<forall>i. Suc i < length tr \<longrightarrow>
     snd (tr ! i) \<noteq> snd (tr ! Suc i) \<or> 10 * minute \<le> fst (tr ! Suc i) - fst (tr ! i))"

definition disk_inv :: "disk_state \<Rightarrow> bool" where
  "disk_inv s \<longleftrightarrow> told s = dk_lastLevel s \<and> spaced (dk_log s) \<and> (dk_first s \<longrightarrow> dk_log s = []) \<and>
     (dk_log s \<noteq> [] \<longrightarrow> dk_lastReport s (dk_lastLevel s) = Some (fst (last (dk_log s))))"

lemma spaced_snoc:
  assumes "spaced tr" and "tr = [] \<or> snd (last tr) \<noteq> l \<or> 10 * minute \<le> now - fst (last tr)"
  shows "spaced (tr @ [(now, l)])"
proof (unfold spaced_def, intro allI impI)
  fix i
  assume i: "Suc i < length (tr @ [(now, l)])"
  show "snd ((tr @ [(now, l)]) ! i) \<noteq> snd ((tr @ [(now, l)]) ! Suc i) \<or>
    10 * minute \<le> fst ((tr @ [(now, l)]) ! Suc i) - fst ((tr @ [(now, l)]) ! i)"
  proof (cases "Suc i < length tr")
    case True
    then show ?thesis using assms(1) by (auto simp: spaced_def nth_append)
  next
    case False
    then have "Suc i = length tr" using i by simp
    then have "tr \<noteq> []" "length tr - 1 = i" by auto
    then have "last tr = tr ! i" by (simp add: last_conv_nth)
    then show ?thesis using assms(2) \<open>Suc i = length tr\<close> \<open>tr \<noteq> []\<close> by (auto simp: nth_append)
  qed
qed

lemma disk_round_inv:
  assumes "disk_inv s"
  shows "disk_inv (disk_round w c e x s)"
proof -
  obtain now r where x: "x = (now, r)" by force
  show ?thesis
  proof (cases r)
    case (Inl err)
    then show ?thesis using assms x by (auto simp: disk_round_def disk_inv_def told_def)
  next
    case (Inr p)
    obtain u t where p: "p = (u, t)" by force
    define l where "l = Classify u w c e"
    have sp: "spaced (dk_log s @ [(now, l)])" if "l \<noteq> dk_lastLevel s \<or> due_again now l s"
    proof (rule spaced_snoc)
      show "spaced (dk_log s)" using assms by (simp add: disk_inv_def)
      show "dk_log s = [] \<or> snd (last (dk_log s)) \<noteq> l \<or> 10 * minute \<le> now - fst (last (dk_log s))"
        using assms that by (auto simp: disk_inv_def told_def due_again_def split: if_splits)
    qed
    show ?thesis
    proof (cases "dk_first s")
      case True
      then have "dk_log s = []" using assms by (simp add: disk_inv_def)
      then show ?thesis using True x Inr p
        by (auto simp: disk_round_def Let_def l_def [symmetric] disk_inv_def told_def say_def spaced_def)
    next
      case False
      then show ?thesis using assms x Inr p sp
        by (auto simp: disk_round_def Let_def l_def [symmetric] disk_inv_def told_def say_def)
    qed
  qed
qed

lemma disk_run_inv: "disk_inv (fold (disk_round w c e) rounds s)" if "disk_inv s"
  using that by (induction rounds arbitrary: s) (simp_all add: disk_round_inv)

lemma disk_start_inv: "disk_inv (disk_start sys)"
  by (simp add: disk_inv_def disk_start_def told_def spaced_def)

text \<open>After a round with a reading, the level last told is that of the reading, and when it is not
  normal it was told less than ten minutes ago.\<close>

lemma disk_round_told:
  assumes "disk_inv s"
  shows "told (disk_round w c e (now, Inr (u, t)) s) = Classify u w c e \<and>
    (Classify u w c e \<noteq> LevelOK \<longrightarrow>
      (\<exists>t'. last (dk_log (disk_round w c e (now, Inr (u, t)) s)) = (t', Classify u w c e) \<and> now - t' < 10 * minute))"
proof -
  define l where "l = Classify u w c e"
  have i: "told s = dk_lastLevel s" "dk_first s \<longrightarrow> dk_log s = []"
    "dk_log s \<noteq> [] \<longrightarrow> dk_lastReport s (dk_lastLevel s) = Some (fst (last (dk_log s)))"
    using assms by (simp_all add: disk_inv_def)
  show ?thesis
  proof (cases "dk_first s \<or> l \<noteq> dk_lastLevel s \<or> (l \<noteq> LevelOK \<and> due_again now l s)")
    case True
    then show ?thesis using i by (auto simp: disk_round_def Let_def l_def [symmetric] told_def say_def)
  next
    case False
    then have same: "disk_round w c e (now, Inr (u, t)) s = s" "l = told s"
      using i by (auto simp: disk_round_def Let_def l_def [symmetric])
    have "\<exists>t'. last (dk_log s) = (t', l) \<and> now - t' < 10 * minute" if "l \<noteq> LevelOK"
    proof -
      have ne: "dk_log s \<noteq> []" using that same(2) by (auto simp: told_def split: if_splits)
      then have "dk_lastReport s l = Some (fst (last (dk_log s)))" "snd (last (dk_log s)) = l"
        using i same(2) by (auto simp: told_def)
      moreover have "\<not> due_again now l s" using False that by simp
      ultimately show ?thesis by (auto simp: due_again_def intro: exI [of _ "fst (last (dk_log s))"] prod_eqI)
    qed
    then show ?thesis using same by (simp add: l_def [symmetric])
  qed
qed

subsection \<open>The timer of a level\<close>

text \<open>Any two reports of one level, successive or not, are ten minutes apart.\<close>

definition level_spaced :: "(int \<times> Level) list \<Rightarrow> bool" where
  "level_spaced tr \<longleftrightarrow> (\<forall>i j. i < j \<longrightarrow> j < length tr \<longrightarrow> snd (tr ! i) = snd (tr ! j) \<longrightarrow>
     10 * minute \<le> fst (tr ! j) - fst (tr ! i))"

text \<open>Rounds that are at least five minutes apart, the interval main gives the monitor.\<close>

abbreviation five_apart :: "int \<Rightarrow> int \<Rightarrow> bool" where
  "five_apart a b \<equiv> a + 5 * minute \<le> b"

lemma disk_round_log:
  "dk_log (disk_round w c e (now, r) s) = dk_log s \<or> (\<exists>l. dk_log (disk_round w c e (now, r) s) = dk_log s @ [(now, l)])"
  by (cases r; cases "dk_first s"; cases "Classify (fst (projr r)) w c e = dk_lastLevel s"; cases "Classify (fst (projr r)) w c e = LevelOK")
     (auto simp: disk_round_def Let_def say_def)

lemma disk_log_times:
  assumes "sorted_wrt five_apart (map fst rounds)"
  shows "sorted_wrt five_apart (map fst (dk_log (fold (disk_round w c e) rounds (disk_start sys)))) \<and>
    fst ` set (dk_log (fold (disk_round w c e) rounds (disk_start sys))) \<subseteq> fst ` set rounds"
  using assms
proof (induction rounds rule: rev_induct)
  case Nil
  show ?case by (simp add: disk_start_def)
next
  case (snoc x rounds)
  let ?s = "fold (disk_round w c e) rounds (disk_start sys)"
  obtain now r where x: "x = (now, r)" by force
  have IH: "sorted_wrt five_apart (map fst (dk_log ?s))" "fst ` set (dk_log ?s) \<subseteq> fst ` set rounds"
    using snoc by (simp_all add: sorted_wrt_append)
  have "\<forall>t\<in>fst ` set rounds. five_apart t now" using snoc.prems x by (auto simp: sorted_wrt_append)
  then have "\<forall>t\<in>fst ` set (dk_log ?s). five_apart t now" using IH(2) by blast
  then have later: "\<forall>p\<in>set (dk_log ?s). five_apart (fst p) now" by blast
  have f: "fold (disk_round w c e) (rounds @ [x]) (disk_start sys) = disk_round w c e (now, r) ?s" by (simp add: x)
  show ?case
    using disk_round_log [of w c e now r ?s]
  proof
    assume "dk_log (disk_round w c e (now, r) ?s) = dk_log ?s"
    then show ?thesis unfolding f using IH by auto
  next
    assume "\<exists>l. dk_log (disk_round w c e (now, r) ?s) = dk_log ?s @ [(now, l)]"
    then obtain l where "dk_log (disk_round w c e (now, r) ?s) = dk_log ?s @ [(now, l)]" by blast
    then show ?thesis unfolding f using IH later x by (auto simp: sorted_wrt_append)
  qed
qed

lemma spaced_levels:
  assumes "spaced tr" "sorted_wrt five_apart (map fst tr)"
  shows "level_spaced tr"
proof (unfold level_spaced_def, intro allI impI)
  fix i j assume ij: "i < j" "j < length tr" and l: "snd (tr ! i) = snd (tr ! j)"
  have five: "five_apart (fst (tr ! a)) (fst (tr ! b))" if "a < b" "b < length tr" for a b
    using sorted_wrt_nth_less [OF assms(2) that(1)] that by simp
  show "10 * minute \<le> fst (tr ! j) - fst (tr ! i)"
  proof (cases "j = Suc i")
    case True
    then show ?thesis using assms(1) ij l by (auto simp: spaced_def)
  next
    case False
    then have "five_apart (fst (tr ! i)) (fst (tr ! Suc i))" "five_apart (fst (tr ! Suc i)) (fst (tr ! j))"
      using five ij by simp_all
    then show ?thesis by simp
  qed
qed

text \<open>With shorter rounds a level can be told twice in a few minutes: the timer of a level does not
  hold back a report of a change.\<close>

lemma warned_twice:
  "dk_log (RunDiskMonitorWithUsage 80 90 95 [(0, Inr (85, ''85.0'')), (minute, Inr (91, ''91.0'')), (2 * minute, Inr (85, ''85.0''))] sys) =
    [(0, LevelWarn), (minute, LevelCritical), (2 * minute, LevelWarn)]"
  by (simp add: RunDiskMonitorWithUsage_def disk_start_def disk_round_def Classify_def say_def Let_def)

end
