(* ===== verification/PropSystem.thy ===== *)
theory PropSystem
  imports "HOL-Library.Sublist" Collect DiskMon
begin

text \<open>
  What the resource collector and the disk monitor promise: when the collector gives up, what its rates
  mean, and which levels are told when.
\<close>

subsection \<open>The collector\<close>

text \<open>Whether a tick fails depends on the files only.\<close>

definition unreadable :: "collect_tick \<Rightarrow> bool" where
  "unreadable t \<longleftrightarrow> isl (collectOnce 0 (tk_files t) no_counters 1)"

lemma collect_fails: "isl (collectOnce n f p i) \<longleftrightarrow> isl (collectOnce n' f p' i')"
  unfolding collectOnce_def by (auto split: sum.splits prod.splits)

lemma collect_unreadable:
  "unreadable t \<Longrightarrow> \<exists>e. collectOnce n (tk_files t) p i = Inl e"
  "\<not> unreadable t \<Longrightarrow> \<exists>x c. collectOnce n (tk_files t) p i = Inr (x, c)"
  using collect_fails [of n "tk_files t" p i 0 no_counters 1]
  by (cases "collectOnce n (tk_files t) p i"; auto simp: unreadable_def)+

definition undisturbed :: "collect_tick \<Rightarrow> bool" where
  "undisturbed t \<longleftrightarrow> \<not> tk_ctx t \<and> \<not> tk_blocked t"

definition gave_up :: "collect_end \<Rightarrow> bool" where
  "gave_up e \<longleftrightarrow> (case e of CollectEnds (Some _) \<Rightarrow> True | _ \<Rightarrow> False)"

lemma streak_head:
  "n < 10 \<Longrightarrow> sublist (replicate 10 True) (replicate n True @ False # bs) \<longleftrightarrow> sublist (replicate 10 True) bs"
proof
  assume n: "n < 10" and s: "sublist (replicate 10 True) (replicate n True @ False # bs)"
  have "\<not> sublist (replicate 10 True) (replicate n True)"
    using n by (auto dest: sublist_length_le)
  moreover have "\<not> (\<exists>xs1 xs2. replicate 10 True = xs1 @ xs2 \<and> suffix xs1 (replicate n True) \<and> prefix xs2 (False # bs) \<and> xs2 \<noteq> [])"
  proof (intro notI, elim exE conjE)
    fix xs1 xs2
    assume a: "replicate 10 True = xs1 @ xs2" "prefix xs2 (False # bs)" "xs2 \<noteq> []"
    then have "hd xs2 = False" by (cases xs2) auto
    moreover have "hd xs2 \<in> set (replicate (10::nat) True)" using a by (metis UnCI hd_in_set set_append)
    ultimately show False by auto
  qed
  moreover have "\<not> suffix (replicate 10 True) (replicate n True)"
    using n by (auto dest: suffix_length_le)
  ultimately have "sublist (replicate 10 True) (False # bs)"
    using s unfolding sublist_append by (metis append_Nil2)
  then show "sublist (replicate 10 True) bs" by (auto simp: sublist_Cons_right numeral_eq_Suc)
next
  assume "sublist (replicate 10 True) bs"
  then obtain ps ss where "bs = ps @ replicate 10 True @ ss" by (auto simp: sublist_def)
  then show "sublist (replicate 10 True) (replicate n True @ False # bs)"
    using sublist_appendI [of "replicate 10 True" "replicate n True @ False # ps" ss] by simp
qed

lemma streak_ten: "n = 9 \<Longrightarrow> replicate n True @ True # bs = replicate 10 True @ bs"
  by (simp add: numeral_eq_Suc)

lemma collector_streak:
  assumes "\<forall>t\<in>set ts. undisturbed t" "co_failures s < 10"
  shows "gave_up (fst (collector_loop interval ts s)) \<longleftrightarrow>
    sublist (replicate 10 True) (replicate (co_failures s) True @ map unreadable ts)"
  using assms
proof (induction ts arbitrary: s)
  case Nil
  then show ?case by (auto simp: gave_up_def dest: sublist_length_le)
next
  case (Cons t ts)
  have run: "\<not> tk_ctx t" "\<not> tk_blocked t" using Cons.prems by (auto simp: undisturbed_def)
  show ?case
  proof (cases "unreadable t")
    case True
    obtain e where e: "collectOnce (tk_now t) (tk_files t) (co_prev s) interval = Inl e"
      using collect_unreadable(1) [OF True] by blast
    have shift: "replicate (co_failures s) True @ True # bs = replicate (Suc (co_failures s)) True @ bs" for bs
      by (simp add: replicate_app_Cons_same)
    show ?thesis
    proof (cases "co_failures s = 9")
      case True
      have "sublist (replicate 10 True) (replicate 10 True @ map unreadable ts)" by simp
      then have "sublist (replicate 10 True) (replicate (co_failures s) True @ map unreadable (t # ts))"
        using \<open>unreadable t\<close> by (simp only: streak_ten [OF True] list.map)
      then show ?thesis using run e True
        by (simp add: maxConsecutiveFailures_def gave_up_def Let_def)
    next
      case False
      then show ?thesis using run e \<open>unreadable t\<close> Cons
        by (simp add: maxConsecutiveFailures_def Let_def shift)
    qed
  next
    case False
    obtain x c where "collectOnce (tk_now t) (tk_files t) (co_prev s) interval = Inr (x, c)"
      using collect_unreadable(2) [OF False] by blast
    then show ?thesis using run False Cons by (simp add: Let_def streak_head)
  qed
qed

lemma collector_samples:
  assumes "\<forall>t\<in>set ts. undisturbed t" "collector_loop interval ts s = (Collecting, s')"
  shows "map rs_ts (co_sent s') = map rs_ts (co_sent s) @ map (\<lambda>t. unix (tk_now t)) (filter (\<lambda>t. \<not> unreadable t) ts)"
  using assms
proof (induction ts arbitrary: s)
  case Nil
  then show ?case by simp
next
  case (Cons t ts)
  have run: "\<not> tk_ctx t" "\<not> tk_blocked t" using Cons.prems by (auto simp: undisturbed_def)
  show ?case
  proof (cases "unreadable t")
    case True
    obtain e where "collectOnce (tk_now t) (tk_files t) (co_prev s) interval = Inl e"
      using collect_unreadable(1) [OF True] by blast
    then show ?thesis using Cons run True by (fastforce simp: Let_def split: if_splits)
  next
    case False
    obtain x c where r: "collectOnce (tk_now t) (tk_files t) (co_prev s) interval = Inr (x, c)"
      using collect_unreadable(2) [OF False] by blast
    have "rs_ts x = unix (tk_now t)"
      using r unfolding collectOnce_def by (auto split: sum.splits prod.splits)
    then show ?thesis using Cons r run False by (fastforce simp: Let_def)
  qed
qed

lemma collector_regular_end:
  assumes "\<forall>t\<in>set ts. undisturbed t"
  shows "gave_up (fst (collector_loop interval ts s)) \<or> fst (collector_loop interval ts s) = Collecting"
  using assms
  by (induction ts arbitrary: s) (auto simp: undisturbed_def gave_up_def Let_def split: sum.split prod.split)

lemma collector_starts:
  obtains s where "RunResourceCollector start files interval ts sys = collector_loop interval ts s"
    "co_failures s = 0" "co_sent s = []"
proof (cases "readPrevCounters files")
  case (Inl e)
  show thesis by (rule that) (auto simp: RunResourceCollector_def Inl)
next
  case (Inr c)
  show thesis by (rule that) (auto simp: RunResourceCollector_def Inr)
qed

text \<open>C27: The collector gives up after ten failures in a row and for no other reason. As long as its
  context runs and its samples are taken, it returns an error exactly when ten successive ticks could
  not be sampled, whatever happened before and whether or not the first reading succeeded; and as long
  as it has not, it has sent one sample for each tick that could be sampled, in order.\<close>

theorem collector_gives_up:
  assumes "\<forall>t\<in>set ts. undisturbed t" "RunResourceCollector start files interval ts sys = (e, s)"
  shows "(gave_up e \<longleftrightarrow> sublist (replicate 10 True) (map unreadable ts)) \<and>
    (gave_up e \<or> e = Collecting \<and> map rs_ts (co_sent s) = map (\<lambda>t. unix (tk_now t)) (filter (\<lambda>t. \<not> unreadable t) ts))"
proof -
  obtain s0 where r: "collector_loop interval ts s0 = (e, s)" "co_failures s0 = 0" "co_sent s0 = []"
    using assms(2) collector_starts by metis
  then show ?thesis
    using collector_streak [OF assms(1), of s0 interval] collector_regular_end [OF assms(1), of interval s0]
      collector_samples [OF assms(1), of interval s0 s] by auto
qed

definition no_files :: proc_files where
  "no_files = \<lparr>pf_stat = Inl ''EIO'', pf_meminfo = Inl ''EIO'', pf_mountinfo = Inl ''EIO'', pf_statfs = Inl ''EIO'', pf_dev = Inl ''EIO''\<rparr>"

definition no_tick :: collect_tick where
  "no_tick = \<lparr>tk_ctx = False, tk_now = 0, tk_files = no_files, tk_blocked = False\<rparr>"

theorem collector_gives_up_witness:
  "gave_up (fst (RunResourceCollector 0 no_files (5 * second) (replicate 12 no_tick) (Some (make_chan 8))))"
proof -
  have "unreadable no_tick"
    by (simp add: unreadable_def no_tick_def no_files_def collectOnce_def read_parse_def)
  then have "map unreadable (replicate 12 no_tick) = replicate 12 True" by simp
  moreover have "sublist (replicate 10 True) (replicate 12 True)"
    using sublist_append_rightI [of "replicate 10 True" "replicate 2 True"] by (simp flip: replicate_add)
  moreover have "\<forall>t\<in>set (replicate 12 no_tick). undisturbed t" by (simp add: no_tick_def undisturbed_def)
  ultimately show ?thesis using collector_gives_up [of "replicate 12 no_tick"] by (metis prod.collapse)
qed

subsection \<open>Rates\<close>

lemma collector_skips:
  assumes "\<forall>t\<in>set fs. undisturbed t \<and> unreadable t" "co_failures s + length fs < 10"
  shows "\<exists>sys. collector_loop interval (fs @ ts) s =
    collector_loop interval ts (s\<lparr>co_failures := co_failures s + length fs, co_sys := sys\<rparr>)"
  using assms
proof (induction fs arbitrary: s)
  case Nil
  show ?case by (rule exI [of _ "co_sys s"]) simp
next
  case (Cons t fs)
  obtain e where "collectOnce (tk_now t) (tk_files t) (co_prev s) interval = Inl e"
    using Cons.prems collect_unreadable(1) by (metis list.set_intros(1))
  moreover have "\<not> tk_ctx t" "\<not> maxConsecutiveFailures \<le> co_failures s + 1"
    using Cons.prems by (auto simp: undisturbed_def maxConsecutiveFailures_def)
  ultimately obtain sys where "collector_loop interval ((t # fs) @ ts) s =
      collector_loop interval (fs @ ts) (s\<lparr>co_failures := co_failures s + 1, co_sys := sys\<rparr>)"
    by (simp add: Let_def)
  then show ?case
    using Cons.IH [of "s\<lparr>co_failures := co_failures s + 1, co_sys := sys\<rparr>"] Cons.prems by auto
qed

lemma rate_exact:
  assumes "0 < n" "unat cur = unat prev + m * (n * v)"
  shows "rate prev cur (int n * second) = of_nat (m * v)"
proof -
  have le: "prev \<le> cur" using assms by (simp add: word_le_nat_alt)
  then have "unat (cur - prev) = m * (n * v)" using assms by (simp add: unat_sub)
  then have "of_u64 (cur - prev) / (of_int (int n * second) / of_int second) = of_int (int (m * v))"
    using assms by (simp add: of_u64_def)
  moreover have "\<not> cur < prev" "\<not> int n * second \<le> 0" using le assms(1) by auto
  ultimately have "rate prev cur (int n * second) = word_of_int (int (m * v))"
    by (simp only: rate_def if_False simp_thms floor_of_int)
  then show ?thesis by simp
qed

text \<open>C36: The rate after failures is too high. When the traffic is the same v bytes in every second since the
  last reading, the sample that follows k failed ticks reports k + 1 times v bytes in a second: the
  difference spans all the intervals since the last reading and is divided by a single one.\<close>

theorem sample_after_failures:
  assumes "\<forall>f\<in>set fs. undisturbed f \<and> unreadable f" "length fs < 10" "undisturbed t" "\<not> unreadable t"
    and "readPrevCounters files = Inr c" "read_parse (pf_dev (tk_files t)) ParseProcNetDev = Inr (rx, tx)"
    and "0 < n" "unat rx = unat (ct_netRx c) + (length fs + 1) * (n * v)"
  shows "\<exists>x. co_sent (snd (RunResourceCollector start files (int n * second) (fs @ [t]) sys)) = [x] \<and>
    rs_rx x = of_nat ((length fs + 1) * v)"
proof -
  let ?s = "\<lparr>co_prev = c, co_failures = 0, co_sent = [], co_sys = sys\<rparr>"
  obtain sys' where r: "RunResourceCollector start files (int n * second) (fs @ [t]) sys =
      collector_loop (int n * second) [t] (?s\<lparr>co_failures := length fs, co_sys := sys'\<rparr>)"
    using collector_skips [OF assms(1), of ?s "int n * second" "[t]"] assms(2,5) by (auto simp: RunResourceCollector_def)
  obtain x d where x: "collectOnce (tk_now t) (tk_files t) c (int n * second) = Inr (x, d)"
    using collect_unreadable(2) [OF assms(4)] by blast
  have "rs_rx x = rate (ct_netRx c) rx (int n * second)"
    using x assms(6) unfolding collectOnce_def by (auto split: sum.splits prod.splits)
  then have "rs_rx x = of_nat ((length fs + 1) * v)"
    using rate_exact [OF assms(7) assms(8)] by simp
  then show ?thesis using r x assms(3) by (auto simp: undisturbed_def Let_def)
qed

text \<open>Files of a machine, with the bytes the network device has received.\<close>

definition some_files :: "bytes \<Rightarrow> proc_files" where
  "some_files rx = \<lparr>pf_stat = Inr ''cpu 5 6 7 8 9'', pf_meminfo = Inr (''MemTotal: 9 kB'' @ [LF] @ ''MemAvailable: 4 kB''),
     pf_mountinfo = Inr ''22 1 8:1 / / rw'', pf_statfs = Inr (100, 4, 50), pf_dev = Inr ([LF] @ ''eth0:'' @ rx @ '' 0 0 0 0 0 0 0 7'')\<rparr>"

lemma files_fields:
  "Fields ''cpu 5 6 7 8 9'' = [''cpu'', ''5'', ''6'', ''7'', ''8'', ''9'']"
  "Fields ''MemTotal: 9 kB'' = [''MemTotal:'', ''9'', ''kB'']"
  "Fields ''MemAvailable: 4 kB'' = [''MemAvailable:'', ''4'', ''kB'']"
  "Fields ''22 1 8:1 / / rw'' = [''22'', ''1'', ''8:1'', ''/'', ''/'', ''rw'']"
  "Fields ''4 0 0 0 0 0 0 0 7'' = [''4'', ''0'', ''0'', ''0'', ''0'', ''0'', ''0'', ''0'', ''7'']"
  "Fields ''24 0 0 0 0 0 0 0 7'' = [''24'', ''0'', ''0'', ''0'', ''0'', ''0'', ''0'', ''0'', ''7'']"
  by (simp_all add: Fields_def space_seg_def space_rune_def bval_def)

lemma files_numbers:
  "parse_uint 64 ''4'' = Some 4" "parse_uint 64 ''5'' = Some 5" "parse_uint 64 ''6'' = Some 6" "parse_uint 64 ''7'' = Some 7"
  "parse_uint 64 ''8'' = Some 8" "parse_uint 64 ''9'' = Some 9" "parse_uint 64 ''24'' = Some 24"
  by (simp_all add: parse_uint_def all_digits_def digits_val_def is_digit_def bval_def)

lemma eth_line:
  "dev_line ''eth0:4 0 0 0 0 0 0 0 7'' = Some (Inr (4, 7))"
  "dev_line ''eth0:24 0 0 0 0 0 0 0 7'' = Some (Inr (24, 7))"
  by (simp_all add: dev_line_def  files_fields files_numbers trim_space_def trim_right_by_def
      space_seg_def space_rune_def bval_def Let_def)

lemma some_files_read:
  "read_parse (pf_stat (some_files rx)) ParseProcStat = Inr (35, 17)"
  "read_parse (pf_meminfo (some_files rx)) ParseProcMeminfo = Inr (9, 4)"
  "read_parse (pf_mountinfo (some_files rx)) findRootMount = Inr ''/''"
  "read_parse (pf_dev (some_files ''4'')) ParseProcNetDev = Inr (4, 7)"
  "read_parse (pf_dev (some_files ''24'')) ParseProcNetDev = Inr (24, 7)"
  "pf_statfs (some_files rx) = Inr (100, 4, 50)"
  by (simp_all add: read_parse_def some_files_def ParseProcStat_def ParseProcMeminfo_def findRootMount_def ParseProcNetDev_def
      scan_lines.simps scan_limit_def dropCR_def Let_def has_prefix_def files_fields files_numbers parseKB_def eth_line)

theorem sample_after_failures_witness:
  "\<exists>x. co_sent (snd (RunResourceCollector 0 (some_files ''4'') (5 * second)
      [no_tick, no_tick\<lparr>tk_files := some_files ''24''\<rparr>] (Some (make_chan 8)))) = [x] \<and> rs_rx x = 4"
proof -
  have "readPrevCounters (some_files ''4'') = Inr \<lparr>ct_cpuTotal = 35, ct_cpuIdle = 17, ct_netRx = 4, ct_netTx = 7\<rparr>"
    by (simp add: readPrevCounters_def some_files_read)
  moreover have "unreadable no_tick"
    by (simp add: unreadable_def no_tick_def no_files_def collectOnce_def read_parse_def)
  moreover have "\<not> unreadable (no_tick\<lparr>tk_files := some_files ''24''\<rparr>)"
    by (simp add: unreadable_def no_tick_def collectOnce_def diskUsage_def some_files_read Usage_def)
  ultimately show ?thesis
    using sample_after_failures [of "[no_tick]" "no_tick\<lparr>tk_files := some_files ''24''\<rparr>" "some_files ''4''" _ 24 7 5 2 0 "Some (make_chan 8)"]
    by (auto simp: no_tick_def undisturbed_def some_files_read)
qed

subsection \<open>The disk\<close>

text \<open>C26: The disk monitor tells the level and does not flood. After any rounds, with readings or errors, two
  reports of one level with no other report between them are ten minutes apart, and when the rounds
  are at least five minutes apart, as in main, so are any two reports of one level. After a round with a
  reading the level last told is the level of the reading and, unless it is normal, was told less than
  ten minutes ago. That level is critical or worse exactly when the archiver would skip its run on the
  same reading.\<close>

theorem disk_alarms:
  assumes "c \<le> e" "s = RunDiskMonitorWithUsage w c e (rounds @ [(now, Inr (u, shown))]) sys"
  shows "spaced (dk_log s) \<and>
    (sorted_wrt (\<lambda>t t'. t + 5 * minute \<le> t') (map fst rounds @ [now]) \<longrightarrow> level_spaced (dk_log s)) \<and>
    told s = Classify u w c e \<and>
    (told s = LevelOK \<or> (\<exists>t. last (dk_log s) = (t, told s) \<and> now - t < 10 * minute)) \<and>
    (LevelCritical \<le> told s \<longleftrightarrow> ShouldSkipArchive u True (of_int c))"
proof -
  let ?s = "fold (disk_round w c e) rounds (disk_start sys)"
  have s: "s = disk_round w c e (now, Inr (u, shown)) ?s"
    using assms(2) by (simp add: RunDiskMonitorWithUsage_def)
  have i: "disk_inv ?s" by (rule disk_run_inv [OF disk_start_inv])
  then have sp: "spaced (dk_log s)" using disk_round_inv s by (auto simp: disk_inv_def)
  have "level_spaced (dk_log s)" if "sorted_wrt five_apart (map fst (rounds @ [(now, Inr (u, shown))]))"
    using spaced_levels [OF sp] disk_log_times [OF that, of w c e sys] assms(2)
    by (simp add: RunDiskMonitorWithUsage_def)
  then have l: "sorted_wrt five_apart (map fst rounds @ [now]) \<longrightarrow> level_spaced (dk_log s)" by simp
  have "rat_of_int c \<le> rat_of_int e" using assms(1) by simp
  then have "LevelCritical \<le> Classify u w c e \<longleftrightarrow> ShouldSkipArchive u True (of_int c)"
    by (auto simp: Classify_def less_eq_Level_def ShouldSkipArchive_def)
  then show ?thesis using disk_round_told [OF i] s sp l by metis
qed

theorem disk_alarms_witness:
  "\<exists>s. s = RunDiskMonitorWithUsage 80 90 95 [(0, Inr (91, ''91.0'')), (5 * minute, Inl ''EIO''), (10 * minute, Inr (92, ''92.0''))] None \<and>
    dk_log s = [(0, LevelCritical), (10 * minute, LevelCritical)] \<and> level_spaced (dk_log s) \<and>
    LevelCritical \<le> told s \<and> ShouldSkipArchive 92 True 90"
proof -
  define s where "s = RunDiskMonitorWithUsage 80 90 95 ([(0, Inr (91, ''91.0'')), (5 * minute, Inl ''EIO'')] @ [(10 * minute, Inr (92, ''92.0''))]) None"
  have "dk_log s = [(0, LevelCritical), (10 * minute, LevelCritical)]"
    by (simp add: s_def RunDiskMonitorWithUsage_def disk_start_def disk_round_def Classify_def say_def due_again_def Let_def)
  moreover have "told s = LevelCritical" "ShouldSkipArchive 92 True 90" "level_spaced (dk_log s)"
    using disk_alarms [OF _ s_def] \<open>dk_log s = _\<close> by (auto simp: Classify_def less_eq_Level_def)
  ultimately show ?thesis using s_def by auto
qed

end
