(* ===== verification/ApiParams.thy ===== *)
theory ApiParams
  imports GoNet GoTime Events
begin

text \<open>
  \<^verbatim>\<open>internal/api/api.go\<close>, \<^verbatim>\<open>export.go\<close>: the parameters of a request, and the fallback address of the
  page.

  The query of a request is the function \<^verbatim>\<open>url.Values.Get\<close>: an absent parameter is the empty string.
  Times are seconds, timeouts nanoseconds.
\<close>

type_synonym params = "bytes \<Rightarrow> bytes"

definition params_of :: "(bytes \<times> bytes) list \<Rightarrow> params" where
  "params_of kvs k = (case map_of kvs k of None \<Rightarrow> [] | Some v \<Rightarrow> v)"

subsection \<open>Numbers\<close>

text \<open>The loop over the digits; None is a foreign character or a value beyond 64 bits.\<close>

fun uint_loop :: "u64 \<Rightarrow> bytes \<Rightarrow> u64 option" where
  "uint_loop n [] = Some n"
| "uint_loop n (c # cs) =
    (if \<not> is_digit c then None
     else let d = of_nat (bval c - 48) in
       if (- 1 - d) div 10 < n then None else uint_loop (n * 10 + d) cs)"

definition parseUintParam :: "params \<Rightarrow> bytes \<Rightarrow> u64 \<Rightarrow> u64" where
  "parseUintParam q key dflt =
    (if q key = [] then dflt else case uint_loop 0 (q key) of None \<Rightarrow> dflt | Some n \<Rightarrow> n)"

definition limitParam :: "params \<Rightarrow> u64 \<Rightarrow> u64 \<Rightarrow> u64" where
  "limitParam q dflt mx = (let n = parseUintParam q ''limit'' dflt in if mx < n then mx else n)"

lemma u64_max_div: "(- 1 - d :: u64) div 10 < n \<longleftrightarrow> 2 ^ 64 \<le> unat n * 10 + unat d" if "unat d < 10"
proof -
  have m: "unat (- 1 :: u64) = 2 ^ 64 - 1" by (simp add: unsigned_minus_1_eq_mask mask_eq_exp_minus_1)
  then have "unat (- 1 - d :: u64) = 2 ^ 64 - 1 - unat d" 
    using that by (subst unat_sub) (simp_all add: word_le_nat_alt)
  then have "unat ((- 1 - d :: u64) div 10) = (2 ^ 64 - 1 - unat d) div 10"
    by (simp add: unat_div)
  then have "(- 1 - d :: u64) div 10 < n \<longleftrightarrow> (2 ^ 64 - 1 - unat d) div 10 < unat n"
    by (simp only: word_less_nat_alt)
  also have "\<dots> \<longleftrightarrow> 2 ^ 64 - 1 - unat d < unat n * 10"
    by (simp add: div_less_iff_less_mult)
  also have "\<dots> \<longleftrightarrow> 2 ^ 64 \<le> unat n * 10 + unat d" using that by simp linarith
  finally show ?thesis .
qed

lemma uint_loop_exact:
  "uint_loop n s =
    (if (\<forall>c\<in>set s. is_digit c) \<and> foldl (\<lambda>n c. n * 10 + (bval c - 48)) (unat n) s < 2 ^ 64
     then Some (of_nat (foldl (\<lambda>n c. n * 10 + (bval c - 48)) (unat n) s)) else None)"
proof (induction s arbitrary: n)
  case Nil
  show ?case using unsigned_less [of n] by simp
next
  case (Cons c s)
  let ?d = "of_nat (bval c - 48) :: u64"
  have grow: "a \<le> foldl (\<lambda>n c. n * 10 + (bval c - 48)) a s" for a
  proof (induction s arbitrary: a)
    case (Cons x s)
    then show ?case using order_trans [OF _ Cons, of a] by simp
  qed simp
  show ?case
  proof (cases "is_digit c")
    case True
    then have "bval c - 48 < 10" by (auto simp: is_digit_def)
    then have d: "unat ?d = bval c - 48" by (simp add: unat_of_nat)
    show ?thesis
    proof (cases "2 ^ 64 \<le> unat n * 10 + (bval c - 48)")
      case big: True
      then have "\<not> foldl (\<lambda>n c. n * 10 + (bval c - 48)) (unat n * 10 + (bval c - 48)) s < 2 ^ 64"
        using grow [of "unat n * 10 + (bval c - 48)"] by linarith
      then show ?thesis using True big d \<open>bval c - 48 < 10\<close> by (simp add: u64_max_div Let_def)
    next
      case False
      then have "unat (n * 10 + ?d) = unat n * 10 + (bval c - 48)"
        using d by (simp add: unat_word_ariths)
      then show ?thesis using True False d \<open>bval c - 48 < 10\<close> Cons [of "n * 10 + ?d"] by (simp add: u64_max_div Let_def)
    qed
  qed simp
qed

lemma parseUintParam_exact:
  "parseUintParam q key dflt =
    (if all_digits (q key) \<and> digits_val (q key) < 2 ^ 64 then of_nat (digits_val (q key)) else dflt)"
  by (simp add: parseUintParam_def uint_loop_exact all_digits_def digits_val_def)

subsection \<open>Windows\<close>

definition rangeSeconds :: "int \<Rightarrow> params \<Rightarrow> int" where
  "rangeSeconds now q =
    (let v = (if q ''range'' = [] then ''24h'' else q ''range'') in
     if v = ''1h'' then now - 3600 else if v = ''24h'' then now - 86400
     else if v = ''7d'' then now - 7 * 86400 else if v = ''30d'' then now - 30 * 86400
     else now - 86400)"

definition rangeEcho :: "params \<Rightarrow> bytes" where
  "rangeEcho q = (let v = q ''range'' in if v \<in> {''1h'', ''24h'', ''7d'', ''30d''} then v else ''24h'')"

definition aggTimeout :: "params \<Rightarrow> int \<Rightarrow> int" where
  "aggTimeout q long =
    (if q ''range'' = ''1h'' then 5 * second else if q ''range'' = ''30d'' then 30 * second else long)"

text \<open>The seconds of a range, as its name says them.\<close>

definition range_length :: "bytes \<Rightarrow> int" where
  "range_length v = (if v = ''1h'' then 3600 else if v = ''7d'' then 7 * 86400 else if v = ''30d'' then 30 * 86400 else 86400)"

lemma rangeSeconds_echo: "rangeSeconds now q = now - range_length (rangeEcho q)"
  by (simp add: rangeSeconds_def rangeEcho_def range_length_def Let_def)

text \<open>64-bit subtraction.\<close>

definition sub64 :: "int \<Rightarrow> int \<Rightarrow> int" where
  "sub64 a b = sint (word_of_int (a - b) :: u64)"

text \<open>The first second, the last, and the timeout; an error is the text of a 400.\<close>

definition parseExportWindow :: "int \<Rightarrow> params \<Rightarrow> bytes + int \<times> int \<times> int" where
  "parseExportWindow now q =
    (let rangeV = q ''range''; fromS = q ''from''; toS = q ''to'';
         hasRange = (rangeV \<noteq> []); hasFromTo = (fromS \<noteq> [] \<or> toS \<noteq> []);
         timeout = (\<lambda>long. if long then 30 * second else 5 * second)
     in if hasRange = hasFromTo then Inl ''either range or from and to''
        else if hasRange then Inr (rangeSeconds now q, now, timeout (rangeV = ''30d''))
        else case atoi fromS of None \<Rightarrow> Inl ''from is not a time''
        | Some f \<Rightarrow>
          (case atoi toS of None \<Rightarrow> Inl ''to is not a time''
           | Some t \<Rightarrow>
             if t < f then Inl ''from is after to''
             else let span = sub64 t f in
               if span < 0 \<or> 90 * 86400 < span then Inl ''longer than 90 days''
               else Inr (f, t, timeout (7 * 86400 < sub64 t f))))"

lemma sub64_small: "- (2 ^ 63) \<le> a - b \<Longrightarrow> a - b < 2 ^ 63 \<Longrightarrow> sub64 a b = a - b"
  unfolding sub64_def by (subst signed_of_int) (simp add: signed_take_bit_int_eq_self)

lemma sub64_wraps: "2 ^ 63 \<le> a - b \<Longrightarrow> a - b < 2 ^ 64 \<Longrightarrow> sub64 a b < 0"
proof -
  assume a: "2 ^ 63 \<le> a - b" "a - b < 2 ^ 64"
  have "(word_of_int (a - b) :: u64) = word_of_int (a - b - 2 ^ 64)"
    by (simp add: word_of_int_minus)
  then have "sub64 a b = sint (word_of_int (a - b - 2 ^ 64) :: u64)" by (simp only: sub64_def)
  also have "\<dots> = a - b - 2 ^ 64"
    using a by (subst signed_of_int) (simp add: signed_take_bit_int_eq_self)
  finally show ?thesis using a by simp
qed

lemma atoi_range: "atoi s = Some v \<Longrightarrow> - (2 ^ 63) \<le> v \<and> v < 2 ^ 63"
  by (auto simp: atoi_def Let_def split: if_splits)

lemma custom_window:
  assumes "q ''range'' = []"
  shows "(\<exists>d. parseExportWindow now q = Inr (f, t, d)) \<longleftrightarrow>
    atoi (q ''from'') = Some f \<and> atoi (q ''to'') = Some t \<and> f \<le> t \<and> t - f \<le> 90 * 86400"
proof (cases "atoi (q ''from'')")
  case None
  then show ?thesis using assms by (auto simp: parseExportWindow_def Let_def)
next
  case (Some f')
  then have ne: "q ''from'' \<noteq> []" by (auto simp: atoi_def Let_def has_prefix_def all_digits_def)
  show ?thesis
  proof (cases "atoi (q ''to'')")
    case None
    then show ?thesis using assms Some ne by (auto simp: parseExportWindow_def Let_def)
  next
    case t': (Some t')
    have r: "- (2 ^ 63) \<le> f'" "f' < 2 ^ 63" "- (2 ^ 63) \<le> t'" "t' < 2 ^ 63"
      using atoi_range [OF Some] atoi_range [OF t'] by simp_all
    have "f' \<le> t' \<Longrightarrow> \<not> (sub64 t' f' < 0 \<or> 90 * 86400 < sub64 t' f') \<longleftrightarrow> t' - f' \<le> 90 * 86400"
      using sub64_small [of t' f'] sub64_wraps [of t' f'] r by (cases "t' - f' < 2 ^ 63") auto
    then show ?thesis using assms Some t' ne by (auto simp: parseExportWindow_def Let_def)
  qed
qed

subsection \<open>Conditions and addresses\<close>

text \<open>The parameters that are present, as the conditions that a column equals them.\<close>

definition eqConds :: "params \<Rightarrow> bytes list \<Rightarrow> (bytes \<times> bytes) list" where
  "eqConds q keys = map (\<lambda>k. (k, q k)) (filter (\<lambda>k. q k \<noteq> []) keys)"

text \<open>\<^verbatim>\<open>net.JoinHostPort\<close>.\<close>

definition JoinHostPort :: "bytes \<Rightarrow> bytes \<Rightarrow> bytes" where
  "JoinHostPort host port =
    (if CHR '':'' \<in> set host then ''['' @ host @ '']:'' @ port else host @ '':'' @ port)"

definition wsFallbackURL :: "bytes \<Rightarrow> bytes" where
  "wsFallbackURL listen =
    (case SplitHostPort listen of None \<Rightarrow> ''ws://127.0.0.1:8080''
     | Some (host, port) \<Rightarrow>
       (let h = (if host = [] \<or> host = ''0.0.0.0'' \<or> host = ''::'' then ''127.0.0.1'' else host) in
        ''ws://'' @ JoinHostPort h port))"

end
