(* ===== verification/ApiCsv.thy ===== *)
theory ApiCsv
  imports GoStr GoTime
begin

text \<open>
  The CSV side of \<^verbatim>\<open>internal/api/export*.go\<close>: \<^verbatim>\<open>encoding/csv\<close> as its documentation gives it, the cells that
  are made harmless for spreadsheets, the printed times; and a reader of RFC 4180 to state what a
  consumer gets.
\<close>

subsection \<open>The writer\<close>

text \<open>\<^verbatim>\<open>csv.Writer\<close> with a comma, not using CRLF: when a field is quoted, and how a record is written.\<close>

definition fieldNeedsQuotes :: "bytes \<Rightarrow> bool" where
  "fieldNeedsQuotes f \<longleftrightarrow> f \<noteq> [] \<and>
     (f = [CHR 0x5C, CHR ''.''] \<or> (\<exists>c\<in>set f. c = CHR '','' \<or> c = CHR 0x22 \<or> c = CR \<or> c = LF) \<or> space_seg (hd (segs f)))"

definition double_quotes :: "bytes \<Rightarrow> bytes" where
  "double_quotes f = concat (map (\<lambda>c. if c = CHR 0x22 then [c, c] else [c]) f)"

definition csv_field :: "bytes \<Rightarrow> bytes" where
  "csv_field f = (if fieldNeedsQuotes f then CHR 0x22 # double_quotes f @ [CHR 0x22] else f)"

fun csv_fields :: "bytes list \<Rightarrow> bytes" where
  "csv_fields [] = []"
| "csv_fields [f] = csv_field f"
| "csv_fields (f # fs) = csv_field f @ CHR '','' # csv_fields fs"

definition csv_record :: "bytes list \<Rightarrow> bytes" where
  "csv_record fs = csv_fields fs @ [LF]"

definition csv_write :: "bytes list list \<Rightarrow> bytes" where
  "csv_write rs = concat (map csv_record rs)"

subsection \<open>The reader\<close>

text \<open>A reader in the states of RFC 4180: before a field, in a plain one, in a quoted one, after a quote
  of a quoted one. None is a text that is not in the format.\<close>

datatype csv_state = AtStart | InPlain | InQuoted | AfterQuote

fun csv_run :: "csv_state \<Rightarrow> bytes \<Rightarrow> bytes list \<Rightarrow> bytes \<Rightarrow> bytes list list option" where
  "csv_run st cur row [] = (if st = AtStart \<and> row = [] then Some [] else None)"
| "csv_run st cur row (c # cs) =
    (let cell = (\<lambda>_::unit. csv_run AtStart [] (row @ [cur]) cs);
         line = (\<lambda>_::unit. map_option (\<lambda>rs. (row @ [cur]) # rs) (csv_run AtStart [] [] cs))
     in case st of
       AtStart \<Rightarrow> if c = CHR 0x22 then csv_run InQuoted [] row cs else if c = CHR '','' then cell ()
         else if c = LF then line () else csv_run InPlain [c] row cs
     | InPlain \<Rightarrow> if c = CHR 0x22 then None else if c = CHR '','' then cell () else if c = LF then line ()
         else csv_run InPlain (cur @ [c]) row cs
     | InQuoted \<Rightarrow> if c = CHR 0x22 then csv_run AfterQuote cur row cs else csv_run InQuoted (cur @ [c]) row cs
     | AfterQuote \<Rightarrow> if c = CHR 0x22 then csv_run InQuoted (cur @ [c]) row cs else if c = CHR '','' then cell ()
         else if c = LF then line () else None)"

definition csv_read :: "bytes \<Rightarrow> bytes list list option" where
  "csv_read s = csv_run AtStart [] [] s"

lemma csv_quoted: "csv_run InQuoted cur row (double_quotes f @ CHR 0x22 # s) = csv_run AfterQuote (cur @ f) row s"
  by (induction f arbitrary: cur) (auto simp: double_quotes_def)

lemma csv_plain:
  "\<forall>c\<in>set f. c \<noteq> CHR '','' \<and> c \<noteq> CHR 0x22 \<and> c \<noteq> LF \<Longrightarrow> csv_run InPlain cur row (f @ s) = csv_run InPlain (cur @ f) row s"
  by (induction f arbitrary: cur) auto

text \<open>After a field, a comma and the end of the line do the same in every state the field can end in.\<close>

lemma csv_field_then:
  assumes "e = CHR '','' \<or> e = LF"
  shows "csv_run AtStart [] row (csv_field f @ e # s) =
    (if e = LF then map_option (\<lambda>rs. (row @ [f]) # rs) (csv_run AtStart [] [] s) else csv_run AtStart [] (row @ [f]) s)"
proof (cases "fieldNeedsQuotes f")
  case True
  then show ?thesis using assms by (auto simp: csv_field_def csv_quoted)
next
  case False
  show ?thesis
  proof (cases f)
    case Nil
    then show ?thesis using assms False by (auto simp: csv_field_def)
  next
    case (Cons c g)
    have "\<forall>x\<in>set f. x \<noteq> CHR '','' \<and> x \<noteq> CHR 0x22 \<and> x \<noteq> LF"
      using False Cons unfolding fieldNeedsQuotes_def by blast
    then show ?thesis using assms False Cons by (auto simp: csv_field_def csv_plain)
  qed
qed

lemma csv_record_run:
  "fs \<noteq> [] \<Longrightarrow> csv_run AtStart [] row (csv_record fs @ s) =
    map_option (\<lambda>rs. (row @ fs) # rs) (csv_run AtStart [] [] s)"
proof (induction fs arbitrary: row rule: csv_fields.induct)
  case (2 f)
  show ?case by (simp add: csv_record_def csv_field_then)
next
  case (3 f g fs)
  then show ?case using csv_field_then [of "CHR '',''" row f "csv_record (g # fs) @ s"]
    by (simp add: csv_record_def)
qed simp

lemma csv_roundtrip: "\<forall>r\<in>set rs. r \<noteq> [] \<Longrightarrow> csv_read (csv_write rs) = Some rs"
  by (induction rs) (simp_all add: csv_read_def csv_write_def csv_record_run)

subsection \<open>Cells\<close>

definition formula_start :: "byte \<Rightarrow> bool" where
  "formula_start c \<longleftrightarrow> c \<in> set ''=+-@'' \<or> c = TAB \<or> c = CR"

definition sanitizeCSVCell :: "bytes \<Rightarrow> bytes" where
  "sanitizeCSVCell s = (case s of [] \<Rightarrow> s | c # cs \<Rightarrow> if formula_start c then CHR 0x27 # s else s)"

definition harmless :: "bytes \<Rightarrow> bool" where
  "harmless s \<longleftrightarrow> s = [] \<or> \<not> formula_start (hd s)"

lemma sanitize_harmless [simp]: "harmless (sanitizeCSVCell s)"
  by (auto simp: harmless_def sanitizeCSVCell_def formula_start_def split: list.split)

lemma sanitize_id: "harmless s \<Longrightarrow> sanitizeCSVCell s = s"
  by (auto simp: harmless_def sanitizeCSVCell_def split: list.split)

text \<open>Four digits of a year, the form \<^verbatim>\<open>2006-01-02 15:04:05\<close>, and RFC 3339 with the offset of the zone.\<close>

definition year4 :: "int \<Rightarrow> bytes" where
  "year4 y = (let d = show_nat (nat \<bar>y\<bar>) in (if y < 0 then ''-'' else []) @ replicate (4 - length d) (CHR ''0'') @ d)"

definition date_time :: "byte \<Rightarrow> zone \<Rightarrow> int \<Rightarrow> bytes" where
  "date_time sep z t =
    year4 (Year z t) @ CHR ''-'' # dd (nat (Month z t)) @ CHR ''-'' # dd (nat (Day z t)) @ sep #
    dd (nat (Hour z t)) @ CHR '':'' # dd (nat (Minute z t)) @ CHR '':'' # dd (nat (Second z t))"

definition rfc3339 :: "zone \<Rightarrow> int \<Rightarrow> bytes" where
  "rfc3339 z t = date_time (CHR ''T'') z t @
    (if z t = 0 then ''Z''
     else let m = \<bar>z t\<bar> div 60 in (if z t \<le> - 60 then CHR ''-'' else CHR ''+'') # dd (nat (m div 60)) @ CHR '':'' # dd (nat (m mod 60)))"

definition csvTS :: "zone \<Rightarrow> int \<Rightarrow> bytes" where
  "csvTS z ts = rfc3339 z ts"

end
