(* ===== verification/Api.thy ===== *)
theory Api
  imports World ApiParams ApiCsv HpServer Archive
begin

text \<open>
  \<^verbatim>\<open>internal/api/api.go\<close>, \<^verbatim>\<open>stats_limit.go\<close>, \<^verbatim>\<open>query.go\<close> (snapshot, archive), \<^verbatim>\<open>bans_active.go\<close>: the server,
  what a request meets, the limits, and the endpoints that do not read event rows.

  A handler is a function of what the request meets, its parameters and the server. The token buckets
  of \<^verbatim>\<open>golang.org/x/time/rate\<close>, the clock, the files, the answers of the database and the last snapshots
  are part of what the request meets. JSON bodies are the values handed to the encoder; texts of
  errors are abridged.
\<close>

subsection \<open>Responses\<close>

datatype gval = GNull | GBool bool | GInt int | GReal rat | GStr bytes | GArr "gval list" | GObj "(bytes \<times> gval) list"

datatype body = Json gval | Sheet bytes bytes | Lines bytes bytes | NoBody

record response =
  rp_code :: nat
  rp_retry :: bytes
  rp_body :: body

definition writeJSON :: "nat \<Rightarrow> gval \<Rightarrow> response" where
  "writeJSON code v = \<lparr>rp_code = code, rp_retry = [], rp_body = Json v\<rparr>"

definition writeErr :: "nat \<Rightarrow> bytes \<Rightarrow> response" where
  "writeErr code msg = writeJSON code (GObj [(''error'', GStr msg)])"

text \<open>The error of the database is not part of the response.\<close>

definition writeDBErr :: "bytes \<Rightarrow> response" where
  "writeDBErr e = writeErr 500 ''query failed''"

text \<open>A slice that was only declared is encoded as null when nothing was appended; nonNil avoids that.\<close>

definition declared :: "gval list \<Rightarrow> gval" where
  "declared xs = (if xs = [] then GNull else GArr xs)"

definition nonNil :: "gval list \<Rightarrow> gval" where
  "nonNil xs = GArr xs"

subsection \<open>Reading the database\<close>

text \<open>
  The answer to one query: refused, or the committed tables at that time, an order in which the
  database visits rows where SQL leaves it open, and possibly an error after some result rows.
\<close>

datatype answer = Refused bytes | Answered tables "row list \<Rightarrow> row list" "(nat \<times> bytes) option"

definition select :: "(tables \<Rightarrow> (row list \<Rightarrow> row list) \<Rightarrow> 'a list) \<Rightarrow> answer list \<Rightarrow> (bytes + 'a list \<times> bytes option) \<times> answer list" where
  "select f as =
    (case as of [] \<Rightarrow> (Inl ''no answer'', [])
     | Refused e # rest \<Rightarrow> (Inl e, rest)
     | Answered d plan stop # rest \<Rightarrow>
       (Inr (case stop of None \<Rightarrow> (f d plan, None) | Some (k, e) \<Rightarrow> (take k (f d plan), Some e)), rest))"

text \<open>\<^verbatim>\<open>QueryRow(...).Scan\<close>: the only row, or an error.\<close>

definition select_row :: "(tables \<Rightarrow> 'a) \<Rightarrow> answer list \<Rightarrow> (bytes + 'a) \<times> answer list" where
  "select_row f as =
    (case as of [] \<Rightarrow> (Inl ''no answer'', [])
     | Refused e # rest \<Rightarrow> (Inl e, rest)
     | Answered d plan stop # rest \<Rightarrow> ((case stop of None \<Rightarrow> Inr (f d) | Some (k, e) \<Rightarrow> Inl e), rest))"

subsection \<open>The server and its requests\<close>

text \<open>The country lookup: whether it is loaded, and the code and name of an address.\<close>

record geo =
  ge_OK :: bool
  ge_Lookup :: "bytes \<Rightarrow> (bytes \<times> bytes) option"

record env =
  en_path :: bytes
  en_now :: int
  en_later :: int
  en_ctx :: bool
  en_api :: bool
  en_heavy :: bool
  en_reads :: "answer list"
  en_snapshot :: "conn_snapshot option"
  en_banned :: "(u32 list \<times> int) option"
  en_disk :: "bytes + u64 \<times> u64 \<times> u64"
  en_dbsize :: "int option"
  en_dir :: "(bytes \<times> int option) list option"
  en_overrun :: u64
  en_geo :: "geo option"
  en_accepts :: "nat option"
  en_numeric :: "bytes \<Rightarrow> rat option"
  en_zone :: zone

record api =
  ap_wsOrigin :: bytes
  ap_allowNoOrigin :: bool
  ap_wsMaxConns :: int
  ap_dbPath :: bytes
  ap_retentionDays :: int
  ap_start :: int
  ap_limitWarn :: rate_limiter
  ap_connFallbackRep :: rate_limiter
  ap_sys :: sysch
  ap_slots :: nat

type_synonym handler = "env \<Rightarrow> params \<Rightarrow> api \<Rightarrow> response \<times> api"

definition NewServer :: "bytes \<Rightarrow> bool \<Rightarrow> int \<Rightarrow> api" where
  "NewServer wsOrigin allowNoOrigin now =
    \<lparr>ap_wsOrigin = wsOrigin, ap_allowNoOrigin = allowNoOrigin, ap_wsMaxConns = 100, ap_dbPath = [], ap_retentionDays = 0,
     ap_start = now, ap_limitWarn = NewRateLimiter minute, ap_connFallbackRep = NewRateLimiter (60 * minute), ap_sys = None,
     ap_slots = 0\<rparr>"

text \<open>The part of \<^verbatim>\<open>SetLimits\<close> that is state of this model.\<close>

definition SetLimits :: "int \<Rightarrow> api \<Rightarrow> api" where
  "SetLimits wsMaxConns s = (if 1 \<le> wsMaxConns then s\<lparr>ap_wsMaxConns := wsMaxConns\<rparr> else s)"

definition seconds :: "env \<Rightarrow> int" where
  "seconds e = unix (en_now e)"

text \<open>A report through the limiter of refusals, as the handlers make it.\<close>

definition warn_api :: "env \<Rightarrow> bytes list \<Rightarrow> api \<Rightarrow> api" where
  "warn_api e msg s =
    (let (r, sys) = Report (en_now e) ''api'' ''warn'' msg (ap_limitWarn s) (ap_sys s) in s\<lparr>ap_limitWarn := r, ap_sys := sys\<rparr>)"

definition refused_429 :: "bytes \<Rightarrow> bytes \<Rightarrow> response" where
  "refused_429 retry msg = (writeErr 429 msg)\<lparr>rp_retry := retry\<rparr>"

definition limitAPI :: "handler \<Rightarrow> handler" where
  "limitAPI h e q s =
    (if \<not> en_api e then (refused_429 ''1'' ''too many requests'', warn_api e [''request refused'', en_path e] s) else h e q s)"

definition limitHeavy :: "handler \<Rightarrow> handler" where
  "limitHeavy h e q s =
    (if \<not> en_api e \<or> \<not> en_heavy e then (refused_429 ''1'' ''too many requests'', warn_api e [''aggregation refused'', en_path e] s)
     else h e q s)"

text \<open>At most two statistics run; the slot is given back when the handler returns.\<close>

definition statsSlots :: nat where "statsSlots = 2"

definition limitStats :: "handler \<Rightarrow> handler" where
  "limitStats h e q s =
    (if en_ctx e then (\<lparr>rp_code = 200, rp_retry = [], rp_body = NoBody\<rparr>, s)
     else if ap_slots s < statsSlots then
       (let (r, s') = h e q (s\<lparr>ap_slots := ap_slots s + 1\<rparr>) in (r, s'\<lparr>ap_slots := ap_slots s' - 1\<rparr>))
     else (refused_429 ''2'' ''statistics busy'', s))"

subsection \<open>Endpoints without event rows\<close>

definition dbSizeBytes :: "env \<Rightarrow> api \<Rightarrow> int" where
  "dbSizeBytes e s = (if ap_dbPath s = [] then 0 else case en_dbsize e of Some n \<Rightarrow> n | None \<Rightarrow> 0)"

definition megabytes :: "int \<Rightarrow> gval" where
  "megabytes n = GReal (of_int n / 1024 / 1024)"

definition hHealth :: handler where
  "hHealth e q s =
    (case select_row (\<lambda>d. tb_meta d ''schema_version'') (en_reads e) of
       (Inr (Some ver), as) \<Rightarrow>
         (writeJSON 200 (GObj [(''ok'', GBool True), (''uptime_s'', GInt (quot_trunc (en_now e - ap_start s) second)),
            (''db_size_mb'', megabytes (dbSizeBytes e s)),
            (''system_events_total'', GInt (case fst (select_row (\<lambda>d. length (tb_rows d ''system_events'')) as) of
               Inr n \<Rightarrow> int n | Inl _ \<Rightarrow> 0)),
            (''conntrack_overrun_total'', GInt (uint (en_overrun e))), (''schema_version'', GStr ver),
            (''retention_days'', GInt (ap_retentionDays s))]), s)
     | _ \<Rightarrow> (writeErr 500 ''database not available'', s))"

text \<open>The count of conntrack, or the length of the snapshot when it cannot be read.\<close>

definition activeConns :: "env \<Rightarrow> api \<Rightarrow> int \<times> api" where
  "activeConns e s =
    (case en_snapshot e of None \<Rightarrow> (0, s)
     | Some snap \<Rightarrow>
       if 0 \<le> sn_cnt snap then (sn_cnt snap, s)
       else (let (r, sys) = Report (en_now e) ''api'' ''info'' [''active connections from the snapshot''] (ap_connFallbackRep s) (ap_sys s)
             in (int (length (sn_conn snap)), s\<lparr>ap_connFallbackRep := r, ap_sys := sys\<rparr>)))"

definition diskPercent :: "env \<Rightarrow> gval" where
  "diskPercent e = (case UsagePercent (en_disk e) of Inl _ \<Rightarrow> GReal (- 1) | Inr p \<Rightarrow> GReal p)"

definition snap_value :: "snap_conn \<Rightarrow> gval" where
  "snap_value c = GObj [(''proto'', GInt (uint (sc_proto c))), (''src_ip'', GStr (Uint32ToIPv4 (sc_src c))),
     (''src_port'', GInt (uint (sc_sport c))), (''dst_ip'', GStr (Uint32ToIPv4 (sc_dst c))),
     (''dst_port'', GInt (uint (sc_dport c))), (''state'', GStr (sc_state c)), (''pid'', GInt (sc_pid c))]"

definition hSnapshot :: handler where
  "hSnapshot e q s =
    (case en_snapshot e of None \<Rightarrow> (writeJSON 200 (GObj [(''ts'', GInt 0), (''rows'', GArr [])]), s)
     | Some snap \<Rightarrow> (writeJSON 200 (GObj [(''ts'', GInt (sn_ts snap)), (''rows'', GArr (map snap_value (sn_conn snap)))]), s))"

definition hBansActive :: handler where
  "hBansActive e q s =
    (let (ips, ts) = (case en_banned e of None \<Rightarrow> ([], 0) | Some b \<Rightarrow> b) in
     (writeJSON 200 (GObj [(''ts'', GInt ts), (''count'', GInt (int (length ips))),
        (''rows'', GArr (map (\<lambda>v. GStr (Uint32ToIPv4 v)) ips))]), s))"

text \<open>The archive files, latest month first; the order of equal months is that of the sort.\<close>

definition trim_suffix :: "bytes \<Rightarrow> bytes \<Rightarrow> bytes" where
  "trim_suffix s t = (if has_suffix s t then take (length s - length t) s else s)"

fun text_less :: "bytes \<Rightarrow> bytes \<Rightarrow> bool" where
  "text_less _ [] = False"
| "text_less [] (y # ys) = True"
| "text_less (x # xs) (y # ys) = (bval x < bval y \<or> x = y \<and> text_less xs ys)"

fun insert_month :: "bytes \<times> gval \<Rightarrow> (bytes \<times> gval) list \<Rightarrow> (bytes \<times> gval) list" where
  "insert_month x [] = [x]"
| "insert_month x (y # ys) = (if text_less (fst x) (fst y) then y # insert_month x ys else x # y # ys)"

definition archive_files :: "(bytes \<times> int option) list \<Rightarrow> (bytes \<times> gval) list" where
  "archive_files entries = List.map_filter (\<lambda>(nam, size).
     if \<not> has_suffix nam ''.db.gz'' then None
     else case size of None \<Rightarrow> None
     | Some n \<Rightarrow> (let month = trim_suffix (trim_suffix nam ''.gz'') ''.db'' in
         Some (month, GObj [(''file'', GStr nam), (''month'', GStr month), (''size_mb'', megabytes n), (''gzip'', GBool True)]))) entries"

definition hArchive :: handler where
  "hArchive e q s =
    (case en_dir e of None \<Rightarrow> (writeJSON 200 (GObj [(''rows'', GArr [])]), s)
     | Some entries \<Rightarrow>
       (writeJSON 200 (GObj [(''rows'', declared (map snd (foldr insert_month (archive_files entries) [])))]), s))"

end
