(* ===== verification/ApiQuery.thy ===== *)
theory ApiQuery
  imports Api
begin

text \<open>
  The endpoints of \<^verbatim>\<open>internal/api\<close> that read event rows: \<^verbatim>\<open>query.go\<close>, \<^verbatim>\<open>honeypot.go\<close>, \<^verbatim>\<open>geo.go\<close>,
  \<^verbatim>\<open>channels.go\<close> and the summary of \<^verbatim>\<open>api.go\<close>.

  Columns are found by the names of the schema in \<^verbatim>\<open>internal/store/store.go\<close>. Comparing an integer
  column with a text parameter uses SQLite's numeric affinity, a parameter of the request; text that
  is not a number sorts after every number. Where SQL leaves an order open, the visiting order of the
  answer decides.
\<close>

subsection \<open>Rows\<close>

datatype col_kind = CInt | CReal | CText

definition schema :: "bytes \<Rightarrow> (bytes \<times> col_kind) list" where
  "schema t = (case map_of
    [(''resources'', [(''ts'', CInt), (''cpu_percent'', CReal), (''mem_used_mb'', CReal), (''mem_percent'', CReal),
        (''disk_used_mb'', CReal), (''disk_percent'', CReal), (''net_rx_bps'', CInt), (''net_tx_bps'', CInt)]),
     (''connections'', [(''ts'', CInt), (''ev_type'', CInt), (''proto'', CInt), (''src_ip'', CInt), (''src_port'', CInt),
        (''dst_ip'', CInt), (''dst_port'', CInt), (''packets'', CInt), (''bytes'', CInt), (''mark'', CInt),
        (''src_ip6'', CText), (''dst_ip6'', CText)]),
     (''ssh_attempts'', [(''ts'', CInt), (''src_ip'', CInt), (''username'', CText), (''auth_method'', CText),
        (''result'', CInt), (''fingerprint'', CText), (''detail'', CText)]),
     (''firewall_events'', [(''ts'', CInt), (''chain'', CText), (''action'', CText), (''proto'', CInt), (''src_ip'', CInt),
        (''src_port'', CInt), (''dst_ip'', CInt), (''dst_port'', CInt), (''raw'', CText)]),
     (''ban_events'', [(''ts'', CInt), (''ip'', CInt), (''type'', CText), (''jail'', CText)]),
     (''system_events'', [(''ts'', CInt), (''source'', CText), (''level'', CText), (''message'', CText)]),
     (''cred_events'', [(''ts'', CInt), (''proto'', CText), (''src_ip'', CInt), (''username'', CText), (''password'', CText),
        (''extra'', CText)])] t of None \<Rightarrow> [] | Some cs \<Rightarrow> cs)"

text \<open>The value of a column; None when it is not of the kind the schema gives it.\<close>

definition cell :: "bytes \<Rightarrow> bytes \<Rightarrow> row \<Rightarrow> sqlval option" where
  "cell t c r =
    (case find_first (\<lambda>x. fst x = c) (schema t) of None \<Rightarrow> None
     | Some i \<Rightarrow>
       if length (snd r) \<le> i then None
       else (case (snd (schema t ! i), snd r ! i) of
           (CInt, VInt n) \<Rightarrow> Some (VInt n) | (CReal, VReal x) \<Rightarrow> Some (VReal x) | (CText, VText s) \<Rightarrow> Some (VText s) | _ \<Rightarrow> None))"

definition int_cell :: "bytes \<Rightarrow> bytes \<Rightarrow> row \<Rightarrow> int option" where
  "int_cell t c r = (case cell t c r of Some (VInt n) \<Rightarrow> Some n | _ \<Rightarrow> None)"

definition text_cell :: "bytes \<Rightarrow> bytes \<Rightarrow> row \<Rightarrow> bytes option" where
  "text_cell t c r = (case cell t c r of Some (VText s) \<Rightarrow> Some s | _ \<Rightarrow> None)"

definition real_cell :: "bytes \<Rightarrow> bytes \<Rightarrow> row \<Rightarrow> rat option" where
  "real_cell t c r = (case cell t c r of Some (VReal x) \<Rightarrow> Some x | _ \<Rightarrow> None)"

definition json_cell :: "bytes \<Rightarrow> row \<Rightarrow> bytes \<Rightarrow> (bytes \<times> gval) option" where
  "json_cell t r c = map_option (\<lambda>v. (c, case v of VInt n \<Rightarrow> GInt n | VReal x \<Rightarrow> GReal x | VText s \<Rightarrow> GStr s)) (cell t c r)"

text \<open>A row of columns that are encoded under their own names.\<close>

definition json_row :: "bytes \<Rightarrow> bytes list \<Rightarrow> row \<Rightarrow> gval option" where
  "json_row t cs r = map_option GObj (those (map (json_cell t r) cs))"

definition newest_first :: "row list \<Rightarrow> row list" where
  "newest_first rs = sort_key (\<lambda>r. - row_ts r) rs"

type_synonym cond = "row \<Rightarrow> bool"

definition ts_from :: "int \<Rightarrow> cond" where
  "ts_from t r \<longleftrightarrow> t \<le> row_ts r"

text \<open>\<^verbatim>\<open>column = ?\<close>, \<^verbatim>\<open>ts >= ?\<close> and \<^verbatim>\<open>ts <= ?\<close> with a text argument.\<close>

definition eq_cond :: "(bytes \<Rightarrow> rat option) \<Rightarrow> bytes \<Rightarrow> bytes \<times> bytes \<Rightarrow> cond" where
  "eq_cond num t kv r =
    (case cell t (fst kv) r of
       Some (VText s) \<Rightarrow> s = snd kv
     | Some (VInt n) \<Rightarrow> num (snd kv) = Some (of_int n)
     | _ \<Rightarrow> False)"

definition since_cond :: "(bytes \<Rightarrow> rat option) \<Rightarrow> bytes \<Rightarrow> cond" where
  "since_cond num v r = (case num v of None \<Rightarrow> False | Some x \<Rightarrow> x \<le> of_int (row_ts r))"

definition until_cond :: "(bytes \<Rightarrow> rat option) \<Rightarrow> bytes \<Rightarrow> cond" where
  "until_cond num v r = (case num v of None \<Rightarrow> True | Some x \<Rightarrow> of_int (row_ts r) \<le> x)"

definition all_conds :: "cond list \<Rightarrow> cond" where
  "all_conds cs r = list_all (\<lambda>c. c r) cs"

text \<open>A row that cannot be read is skipped, and an error of the iteration is not looked at.\<close>

definition queryRowList :: "bytes \<Rightarrow> cond list \<Rightarrow> u64 \<Rightarrow> (row \<Rightarrow> gval option) \<Rightarrow> answer list \<Rightarrow> (bytes + gval list) \<times> answer list" where
  "queryRowList t conds limit scan as =
    (let (r, rest) = select (\<lambda>d plan. take (unat limit) (newest_first (plan (filter (all_conds conds) (tb_rows d t))))) as in
     (map_sum id (\<lambda>(rows, _). List.map_filter scan rows) r, rest))"

definition rows_response :: "env \<Rightarrow> bytes + gval list \<Rightarrow> response" where
  "rows_response e r = (case r of Inl err \<Rightarrow> writeDBErr err | Inr out \<Rightarrow> writeJSON 200 (GObj [(''rows'', nonNil out)]))"

definition columns :: "bytes \<Rightarrow> bytes list" where
  "columns t = map fst (schema t)"

definition hConnections :: handler where
  "hConnections e q s =
    (let limit = limitParam q 200 1000;
         conds = map (eq_cond (en_numeric e) ''connections'') (eqConds q [''proto'', ''dst_port'', ''src_ip'']) @
           (if q ''since'' = [] then [] else [since_cond (en_numeric e) (q ''since'')]) @
           (if q ''until'' = [] then [] else [until_cond (en_numeric e) (q ''until'')])
     in (rows_response e (fst (queryRowList ''connections'' conds limit (json_row ''connections'' (columns ''connections'')) (en_reads e))), s))"

definition hSSH :: handler where
  "hSSH e q s =
    (let conds = ts_from (rangeSeconds (seconds e) q) #
           map (eq_cond (en_numeric e) ''ssh_attempts'') (eqConds q [''src_ip'', ''result'', ''username''])
     in (rows_response e (fst (queryRowList ''ssh_attempts'' conds (limitParam q 200 1000)
           (json_row ''ssh_attempts'' (columns ''ssh_attempts'')) (en_reads e))), s))"

definition hFirewall :: handler where
  "hFirewall e q s =
    (let conds = ts_from (rangeSeconds (seconds e) q) #
           map (eq_cond (en_numeric e) ''firewall_events'') (eqConds q [''dst_port'', ''action'', ''src_ip''])
     in (rows_response e (fst (queryRowList ''firewall_events'' conds (limitParam q 200 1000)
           (json_row ''firewall_events'' (columns ''firewall_events'')) (en_reads e))), s))"

definition hBans :: handler where
  "hBans e q s =
    (rows_response e (fst (queryRowList ''ban_events'' [ts_from (rangeSeconds (seconds e) q)] (limitParam q 100 500)
       (json_row ''ban_events'' (columns ''ban_events'')) (en_reads e))), s)"

text \<open>The 64-bit value of an address column, cut to 32 bits and printed.\<close>

definition dotted_cell :: "int \<Rightarrow> bytes" where
  "dotted_cell v = Uint32ToIPv4 (word_of_int v)"

definition proto_cond :: "params \<Rightarrow> (bytes \<Rightarrow> rat option) \<Rightarrow> cond list" where
  "proto_cond q num = (if q ''proto'' = [] then [] else [eq_cond num ''cred_events'' (''proto'', q ''proto'')])"

definition honeypotRow :: "row \<Rightarrow> gval option" where
  "honeypotRow r =
    (case (json_row ''cred_events'' (columns ''cred_events'') r, int_cell ''cred_events'' ''src_ip'' r) of
       (Some (GObj kvs), Some ip) \<Rightarrow> Some (GObj (map (\<lambda>(k, v). (k, if k = ''src_ip'' then GStr (dotted_cell ip) else v)) kvs))
     | _ \<Rightarrow> None)"

definition hHoneypotEvents :: handler where
  "hHoneypotEvents e q s =
    (case fst (queryRowList ''cred_events'' (ts_from (rangeSeconds (seconds e) q) # proto_cond q (en_numeric e))
        (limitParam q 200 500) honeypotRow (en_reads e)) of
       Inl err \<Rightarrow> (writeDBErr err, s)
     | Inr out \<Rightarrow> (writeJSON 200 (GObj [(''range'', GStr (rangeEcho q)), (''rows'', nonNil out)]), s))"

subsection \<open>Counts\<close>

text \<open>\<^verbatim>\<open>GROUP BY\<close> with \<^verbatim>\<open>COUNT\<close>: the keys in the order of their first row, and how many rows each has.\<close>

definition group_count :: "('a \<Rightarrow> 'k) \<Rightarrow> 'a list \<Rightarrow> ('k \<times> int) list" where
  "group_count f rs = map (\<lambda>k. (k, int (length (filter (\<lambda>r. f r = k) rs)))) (remdups (map f rs))"

definition most_first :: "('k \<times> int) list \<Rightarrow> ('k \<times> int) list" where
  "most_first gs = sort_key (\<lambda>g. - snd g) gs"

definition count_rows :: "bytes \<Rightarrow> cond list \<Rightarrow> tables \<Rightarrow> int" where
  "count_rows t conds d = int (length (filter (all_conds conds) (tb_rows d t)))"

text \<open>The most frequent values of a column, None when a row could not be read or the query broke off.\<close>

definition topHits :: "int \<Rightarrow> u64 \<Rightarrow> bytes \<Rightarrow> answer list \<Rightarrow> (bytes + (int \<times> int) list) \<times> answer list" where
  "topHits since limit col as =
    (let (r, rest) = select (\<lambda>d plan. take (unat limit) (most_first (group_count (cell ''firewall_events'' col)
           (plan (filter (ts_from since) (tb_rows d ''firewall_events'')))))) as in
     (case r of Inl err \<Rightarrow> Inl err
      | Inr (gs, err) \<Rightarrow>
        (case those (map (\<lambda>(k, n). case k of Some (VInt v) \<Rightarrow> Some (v, n) | _ \<Rightarrow> None) gs) of
           None \<Rightarrow> Inl ''scan'' | Some hits \<Rightarrow> (case err of Some m \<Rightarrow> Inl m | None \<Rightarrow> Inr hits)), rest))"

definition top_param :: "params \<Rightarrow> u64" where
  "top_param q = (let n = parseUintParam q ''top'' 10 in if 50 < n then 50 else n)"

definition hit_value :: "bytes \<Rightarrow> int \<times> int \<Rightarrow> gval" where
  "hit_value name h = GObj [(name, GInt (fst h)), (''hits'', GInt (snd h))]"

definition hTopPorts :: handler where
  "hTopPorts e q s =
    (case fst (topHits (rangeSeconds (seconds e) q) (top_param q) ''dst_port'' (en_reads e)) of Inl err \<Rightarrow> (writeDBErr err, s)
     | Inr hits \<Rightarrow> (writeJSON 200 (GObj [(''rows'', GArr (map (hit_value ''dst_port'') hits))]), s))"

definition hTopSources :: handler where
  "hTopSources e q s =
    (case fst (topHits (rangeSeconds (seconds e) q) (top_param q) ''src_ip'' (en_reads e)) of Inl err \<Rightarrow> (writeDBErr err, s)
     | Inr hits \<Rightarrow> (writeJSON 200 (GObj [(''rows'', GArr (map (hit_value ''src_ip'') hits))]), s))"

definition result_is :: "int \<Rightarrow> cond" where
  "result_is v r \<longleftrightarrow> int_cell ''ssh_attempts'' ''result'' r = Some v"

definition hSummary :: handler where
  "hSummary e q s =
    (let since = rangeSeconds (seconds e) q in
     case select_row (count_rows ''firewall_events'' [ts_from since]) (en_reads e) of (Inl err, _) \<Rightarrow> (writeDBErr err, s)
     | (Inr fwCnt, as1) \<Rightarrow>
     (case select_row (count_rows ''ssh_attempts'' [ts_from since, result_is 0]) as1 of (Inl err, _) \<Rightarrow> (writeDBErr err, s)
      | (Inr sshFail, as2) \<Rightarrow>
     (case select_row (count_rows ''ssh_attempts'' [ts_from since, result_is 1]) as2 of (Inl err, _) \<Rightarrow> (writeDBErr err, s)
      | (Inr sshOK, as3) \<Rightarrow>
     (case topHits since 5 ''dst_port'' as3 of (Inl err, _) \<Rightarrow> (writeDBErr err, s)
      | (Inr hits, _) \<Rightarrow>
       (let (active, s') = activeConns e s in
        (writeJSON 200 (GObj [(''active_conns'', GInt active), (''fw_events'', GInt fwCnt), (''ssh_fail'', GInt sshFail),
           (''ssh_ok'', GInt sshOK), (''top_ports'', nonNil (map (hit_value ''dst_port'') hits)),
           (''disk_percent'', diskPercent e)]), s'))))))"

subsection \<open>Timelines\<close>

text \<open>The hour of a time, as integer division gives it.\<close>

definition hour_of :: "int \<Rightarrow> int" where
  "hour_of t = quot_trunc t 3600 * 3600"

definition hSSHTimeline :: handler where
  "hSSHTimeline e q s =
    (case fst (select (\<lambda>d plan. sort_key fst (group_count (\<lambda>r. hour_of (row_ts r))
        (filter (all_conds [ts_from (rangeSeconds (seconds e) q), result_is 0]) (tb_rows d ''ssh_attempts'')))) (en_reads e)) of
       Inl err \<Rightarrow> (writeDBErr err, s)
     | Inr (gs, _) \<Rightarrow> (writeJSON 200 (GObj [(''rows'', nonNil (map (\<lambda>(h, n). GObj [(''ts'', GInt h), (''hits'', GInt n)]) gs))]), s))"

text \<open>The number of rows of an hour by action: drop, accept, reject, inbound.\<close>

definition actions :: "bytes list" where
  "actions = [''drop'', ''accept'', ''reject'', ''inbound'']"

type_synonym bucket = "int \<times> int list"

definition hour_bucket :: "row list \<Rightarrow> int \<Rightarrow> bucket" where
  "hour_bucket rs h = (h, map (\<lambda>a. int (length (filter (\<lambda>r. hour_of (row_ts r) = h \<and> text_cell ''firewall_events'' ''action'' r = Some a) rs))) actions)"

definition fw_hours :: "int \<Rightarrow> tables \<Rightarrow> bucket list" where
  "fw_hours fromBucket d =
    (let rs = filter (ts_from fromBucket) (tb_rows d ''firewall_events'') in
     map (hour_bucket rs) (sort (remdups (map (\<lambda>r. hour_of (row_ts r)) rs))))"

text \<open>Every hour up to now, the missing ones zero, at most a thousand.\<close>

function fill_hours :: "bucket list \<Rightarrow> int \<Rightarrow> int \<Rightarrow> bucket list \<Rightarrow> bucket list" where
  "fill_hours got h now out =
    (if now < h then out
     else let b = (case map_of got h of Some v \<Rightarrow> (h, v) | None \<Rightarrow> (h, [0, 0, 0, 0])); out' = out @ [b] in
       if 1000 \<le> length out' then out' else fill_hours got (h + 3600) now out')"
  by pat_completeness auto
termination
  by (relation "measure (\<lambda>(got, h, now, out). nat (now + 3600 - h))") auto

declare fill_hours.simps [simp del]

definition bucket_value :: "bucket \<Rightarrow> gval" where
  "bucket_value b = GObj ((''ts'', GInt (fst b)) # zip actions (map GInt (snd b)))"

definition hFirewallTimeline :: handler where
  "hFirewallTimeline e q s =
    (let fromBucket = hour_of (rangeSeconds (seconds e) q) in
     case fst (select (\<lambda>d plan. fw_hours fromBucket d) (en_reads e)) of
       Inl err \<Rightarrow> (writeDBErr err, s)
     | Inr (got, Some err) \<Rightarrow> (writeDBErr err, s)
     | Inr (got, None) \<Rightarrow>
       (writeJSON 200 (GObj [(''range'', GStr (rangeEcho q)), (''granularity'', GStr ''1h''),
          (''buckets'', declared (map bucket_value (fill_hours got fromBucket (unix (en_later e)) [])))]), s))"

end
