(* ===== verification/ApiProfile.thy ===== *)
theory ApiProfile
  imports ApiQuery
begin

text \<open>
  The aggregating endpoints of \<^verbatim>\<open>internal/api\<close>: resources (\<^verbatim>\<open>query.go\<close>), the dictionary of credentials
  (\<^verbatim>\<open>honeypot.go\<close>), attacks by country (\<^verbatim>\<open>geo.go\<close>), the profile of an address (\<^verbatim>\<open>ip_profile.go\<close>) and the
  state of the channels (\<^verbatim>\<open>channels.go\<close>).
\<close>

subsection \<open>Resources\<close>

text \<open>Averages and maxima of the rows of a step; a value that is not of the column's kind counts as absent.\<close>

definition average :: "rat list \<Rightarrow> rat" where
  "average xs = sum_list xs / of_nat (length xs)"

definition int_max :: "int list \<Rightarrow> int" where
  "int_max xs = (case xs of [] \<Rightarrow> 0 | y # ys \<Rightarrow> foldl max y ys)"

definition int_min :: "int list \<Rightarrow> int" where
  "int_min xs = (case xs of [] \<Rightarrow> 0 | y # ys \<Rightarrow> foldl min y ys)"

definition resource_point :: "int \<Rightarrow> row list \<Rightarrow> gval" where
  "resource_point b rs =
    (let avg = (\<lambda>c. GReal (average (List.map_filter (real_cell ''resources'' c) rs)));
         mx = (\<lambda>c. GInt (int_max (List.map_filter (int_cell ''resources'' c) rs)))
     in GObj [(''ts'', GInt b), (''cpu'', avg ''cpu_percent''), (''mem'', avg ''mem_percent''), (''disk'', avg ''disk_percent''),
          (''net_rx_bps'', mx ''net_rx_bps''), (''net_tx_bps'', mx ''net_tx_bps'')])"

definition hResources :: handler where
  "hResources e q s =
    (let stepSec = (if q ''step'' = ''5s'' then 5 else 60); bucket = (\<lambda>r. quot_trunc (row_ts r) stepSec * stepSec) in
     case fst (select (\<lambda>d plan.
         (let rs = filter (ts_from (rangeSeconds (seconds e) q)) (tb_rows d ''resources'') in
          map (\<lambda>b. resource_point b (filter (\<lambda>r. bucket r = b) rs)) (sort (remdups (map bucket rs))))) (en_reads e)) of
       Inl err \<Rightarrow> (writeDBErr err, s)
     | Inr (pts, _) \<Rightarrow> (writeJSON 200 (GObj [(''points'', nonNil pts), (''step_s'', GInt stepSec)]), s))"

subsection \<open>The dictionary of credentials\<close>

text \<open>The text of the capture that could not be recovered.\<close>

definition not_recovered :: bytes where
  "not_recovered = encode_runes [0x8FD8, 0x539F, 0x5931, 0x8D25]"

definition credKind :: "bytes \<Rightarrow> bytes \<Rightarrow> bytes" where
  "credKind proto extra =
    (case KindOf proto of None \<Rightarrow> ''hash''
     | Some KindNone \<Rightarrow> ''none''
     | Some KindPlaintext \<Rightarrow> if proto = ''mssql'' \<and> contains extra not_recovered then ''hash'' else ''plaintext''
     | Some KindHash \<Rightarrow> ''hash'')"

record cred_entry =
  cd_proto :: bytes
  cd_user :: bytes
  cd_pass :: bytes
  cd_extra :: bytes
  cd_count :: int
  cd_first :: int
  cd_last :: int
  cd_srcs :: int

text \<open>A row of the table with all its columns.\<close>

type_synonym cred_row = "bytes \<times> bytes \<times> bytes \<times> bytes \<times> int \<times> int"

definition read_cred :: "row \<Rightarrow> cred_row option" where
  "read_cred r =
    (case (text_cell ''cred_events'' ''proto'' r, text_cell ''cred_events'' ''username'' r, text_cell ''cred_events'' ''password'' r,
        text_cell ''cred_events'' ''extra'' r, int_cell ''cred_events'' ''src_ip'' r) of
       (Some p, Some u, Some w, Some x, Some ip) \<Rightarrow> Some (p, u, w, x, row_ts r, ip)
     | _ \<Rightarrow> None)"

definition cred_key :: "cred_row \<Rightarrow> bytes \<times> bytes \<times> bytes" where
  "cred_key c = (case c of (p, u, w, x, t, ip) \<Rightarrow> (p, u, w))"

definition text_max :: "bytes list \<Rightarrow> bytes" where
  "text_max xs = foldl (\<lambda>a b. if text_less a b then b else a) [] xs"

text \<open>The group of a key: MAX(extra), COUNT, MIN(ts), MAX(ts), COUNT(DISTINCT src_ip).\<close>

definition cred_group :: "cred_row list \<Rightarrow> bytes \<times> bytes \<times> bytes \<Rightarrow> cred_entry" where
  "cred_group cs k =
    (let g = filter (\<lambda>c. cred_key c = k) cs; ts = map (\<lambda>(p, u, w, x, t, ip). t) g in
     case k of (p, u, w) \<Rightarrow>
       \<lparr>cd_proto = p, cd_user = u, cd_pass = w, cd_extra = text_max (map (\<lambda>(p, u, w, x, t, ip). x) g), cd_count = int (length g),
        cd_first = int_min ts, cd_last = int_max ts, cd_srcs = int (card (set (map (\<lambda>(p, u, w, x, t, ip). ip) g)))\<rparr>)"

definition credAggQuery :: "cond list \<Rightarrow> tables \<Rightarrow> (row list \<Rightarrow> row list) \<Rightarrow> cred_entry list" where
  "credAggQuery conds d plan =
    (let cs = List.map_filter read_cred (plan (filter (all_conds conds) (tb_rows d ''cred_events''))) in
     sort_key (\<lambda>g. - cd_count g) (map (cred_group cs) (remdups (map cred_key cs))))"

definition cred_value :: "cred_entry \<Rightarrow> gval" where
  "cred_value g = GObj [(''proto'', GStr (cd_proto g)), (''username'', GStr (cd_user g)), (''password'', GStr (cd_pass g)),
     (''kind'', GStr (credKind (cd_proto g) (cd_extra g))), (''count'', GInt (cd_count g)), (''first_ts'', GInt (cd_first g)),
     (''last_ts'', GInt (cd_last g)), (''src_ip_cnt'', GInt (cd_srcs g)), (''extra'', GStr (cd_extra g))]"

definition hHoneypotCreds :: handler where
  "hHoneypotCreds e q s =
    (let conds = ts_from (rangeSeconds (seconds e) q) # proto_cond q (en_numeric e) in
     case fst (select (\<lambda>d plan. take (unat (limitParam q 200 500)) (credAggQuery conds d plan)) (en_reads e)) of
       Inl err \<Rightarrow> (writeDBErr err, s)
     | Inr (gs, _) \<Rightarrow> (writeJSON 200 (GObj [(''range'', GStr (rangeEcho q)), (''rows'', GArr (map cred_value gs))]), s))"

subsection \<open>Attacks by country\<close>

record geoRow =
  gr_IP :: bytes
  gr_code :: bytes
  gr_name :: bytes
  gr_count :: int

definition unknownCountry :: bytes where "unknownCountry = ''Unknown''"

definition mmdb_ok :: "env \<Rightarrow> bool" where
  "mmdb_ok e = (case en_geo e of None \<Rightarrow> False | Some g \<Rightarrow> ge_OK g)"

definition country_of :: "env \<Rightarrow> bytes \<Rightarrow> bytes \<times> bytes" where
  "country_of e ip =
    (case en_geo e of Some g \<Rightarrow>
       if ge_OK g then (case ge_Lookup g (ParseIP ip) of Some (code, nam) \<Rightarrow> if code \<noteq> [] then (code, nam) else (unknownCountry, unknownCountry)
         | None \<Rightarrow> (unknownCountry, unknownCountry))
       else (unknownCountry, unknownCountry)
     | None \<Rightarrow> (unknownCountry, unknownCountry))"

definition failed_sources :: "int \<Rightarrow> tables \<Rightarrow> (int \<times> int) list" where
  "failed_sources since d =
    (let ips = List.map_filter (int_cell ''ssh_attempts'' ''src_ip'')
           (filter (all_conds [ts_from since, result_is 0]) (tb_rows d ''ssh_attempts'')) in
     sort_key (\<lambda>g. - snd g) (sort_key fst (group_count id ips)))"

text \<open>The rows read, whether countries are known, and the error of an iteration that broke off. A source
  that is no 32-bit number is skipped.\<close>

definition queryGeoRows :: "env \<Rightarrow> int \<Rightarrow> nat \<Rightarrow> answer list \<Rightarrow> geoRow list \<times> bytes option" where
  "queryGeoRows e since limit as =
    (case fst (select (\<lambda>d plan. take limit (failed_sources since d)) as) of
       Inl err \<Rightarrow> ([], Some err)
     | Inr (gs, err) \<Rightarrow>
       (List.map_filter (\<lambda>(ip, n).
          if ip < 0 \<or> 2 ^ 32 \<le> ip then None
          else let a = dotted_cell ip in
            Some \<lparr>gr_IP = a, gr_code = fst (country_of e a), gr_name = snd (country_of e a), gr_count = n\<rparr>) gs, err))"

text \<open>\<^verbatim>\<open>strings.EqualFold\<close> on texts whose letters are ASCII, the Kelvin sign or the long s.\<close>

definition same_fold :: "bytes \<Rightarrow> bytes \<Rightarrow> bool" where
  "same_fold s t \<longleftrightarrow> fold_name s = fold_name t"

definition filterGeoRows :: "geoRow list \<Rightarrow> bytes \<Rightarrow> u64 \<Rightarrow> geoRow list" where
  "filterGeoRows rows country minCount =
    filter (\<lambda>r. \<not> (country \<noteq> [] \<and> \<not> same_fold (gr_code r) country) \<and>
      \<not> (0 < minCount \<and> word_of_int (gr_count r) < minCount)) rows"

definition geoRowsFromReq :: "env \<Rightarrow> params \<Rightarrow> geoRow list \<times> bytes option" where
  "geoRowsFromReq e q =
    (let (rows, err) = queryGeoRows e (rangeSeconds (seconds e) q) 1000 (en_reads e) in
     (filterGeoRows rows (to_upper (trim_space (q ''country''))) (parseUintParam q ''min_count'' 0), err))"

definition geo_value :: "geoRow \<Rightarrow> gval" where
  "geo_value r = GObj [(''ip'', GStr (gr_IP r)), (''country_code'', GStr (gr_code r)), (''country_name'', GStr (gr_name r)),
     (''count'', GInt (gr_count r))]"

definition hGeoAttacks :: handler where
  "hGeoAttacks e q s =
    (case geoRowsFromReq e q of (rows, Some err) \<Rightarrow> (writeDBErr err, s)
     | (rows, None) \<Rightarrow>
       (writeJSON 200 (GObj [(''range'', GStr (rangeEcho q)), (''mmdb_ok'', GBool (mmdb_ok e)), (''rows'', GArr (map geo_value rows))]), s))"

subsection \<open>The profile of an address\<close>

definition ipWindowHours :: int where "ipWindowHours = 168"

definition of_source :: "bytes \<Rightarrow> bytes \<Rightarrow> u32 \<Rightarrow> int \<Rightarrow> cond" where
  "of_source t c ip since r \<longleftrightarrow> int_cell t c r = Some (uint ip) \<and> since \<le> row_ts r"

definition total_first_last :: "bytes \<Rightarrow> u32 \<Rightarrow> int \<Rightarrow> tables \<Rightarrow> int \<times> int \<times> int" where
  "total_first_last t ip since d =
    (let ts = map row_ts (filter (of_source t ''src_ip'' ip since) (tb_rows d t)) in (int (length ts), int_min ts, int_max ts))"

text \<open>The most frequent values of a column, equal counts in ascending order of the value.\<close>

definition top_ints :: "bytes \<Rightarrow> bytes \<Rightarrow> nat \<Rightarrow> u32 \<Rightarrow> int \<Rightarrow> tables \<Rightarrow> (int \<times> int) list" where
  "top_ints t c n ip since d =
    take n (sort_key (\<lambda>g. - snd g) (sort_key fst (group_count id (List.map_filter (int_cell t c)
      (filter (of_source t ''src_ip'' ip since) (tb_rows d t))))))"

fun insert_text :: "bytes \<times> int \<Rightarrow> (bytes \<times> int) list \<Rightarrow> (bytes \<times> int) list" where
  "insert_text x [] = [x]"
| "insert_text x (y # ys) = (if text_less (fst y) (fst x) then y # insert_text x ys else x # y # ys)"

definition top_texts :: "bytes \<Rightarrow> bytes \<Rightarrow> nat \<Rightarrow> u32 \<Rightarrow> int \<Rightarrow> tables \<Rightarrow> (bytes \<times> int) list" where
  "top_texts t c n ip since d =
    take n (sort_key (\<lambda>g. - snd g) (foldr insert_text (group_count id (List.map_filter (text_cell t c)
      (filter (of_source t ''src_ip'' ip since) (tb_rows d t)))) []))"

definition counted :: "bytes \<Rightarrow> ('a \<Rightarrow> gval) \<Rightarrow> 'a \<times> int \<Rightarrow> gval" where
  "counted name f g = GObj [(name, f (fst g)), (''count'', GInt (snd g))]"

definition ipConnAggQuery :: "u32 \<Rightarrow> int \<Rightarrow> answer list \<Rightarrow> (bytes + gval) \<times> answer list" where
  "ipConnAggQuery ip since as =
    (case select_row (total_first_last ''connections'' ip since) as of (Inl err, rest) \<Rightarrow> (Inl err, rest)
     | (Inr (n, first, latest), as1) \<Rightarrow>
     (case select (\<lambda>d plan. top_ints ''connections'' ''dst_port'' 5 ip since d) as1 of (Inl err, rest) \<Rightarrow> (Inl err, rest)
      | (Inr (ports, _), as2) \<Rightarrow>
     (case select (\<lambda>d plan. top_ints ''connections'' ''proto'' 3 ip since d) as2 of (Inl err, rest) \<Rightarrow> (Inl err, rest)
      | (Inr (protos, _), as3) \<Rightarrow>
        (Inr (GObj [(''total'', GInt n), (''first_ts'', GInt first), (''last_ts'', GInt latest),
           (''top_dst_ports'', GArr (map (counted ''dst_port'' GInt) ports)), (''protos'', GArr (map (counted ''proto'' GInt) protos))]), as3))))"

definition ipSSHAggQuery :: "u32 \<Rightarrow> int \<Rightarrow> answer list \<Rightarrow> (bytes + gval) \<times> answer list" where
  "ipSSHAggQuery ip since as =
    (case select_row (\<lambda>d. (total_first_last ''ssh_attempts'' ip since d,
          count_rows ''ssh_attempts'' [of_source ''ssh_attempts'' ''src_ip'' ip since, result_is 0] d,
          count_rows ''ssh_attempts'' [of_source ''ssh_attempts'' ''src_ip'' ip since, result_is 1] d)) as of
       (Inl err, rest) \<Rightarrow> (Inl err, rest)
     | (Inr ((n, first, latest), failed, ok), as1) \<Rightarrow>
     (case select (\<lambda>d plan. top_texts ''ssh_attempts'' ''username'' 5 ip since d) as1 of (Inl err, rest) \<Rightarrow> (Inl err, rest)
      | (Inr (users, _), as2) \<Rightarrow>
        (Inr (GObj [(''total'', GInt n), (''failed'', GInt failed), (''ok'', GInt ok), (''first_ts'', GInt first),
           (''last_ts'', GInt latest), (''top_usernames'', GArr (map (counted ''username'' GStr) users))]), as2)))"

definition ipFwAggQuery :: "u32 \<Rightarrow> int \<Rightarrow> answer list \<Rightarrow> (bytes + gval) \<times> answer list" where
  "ipFwAggQuery ip since as =
    (case select_row (total_first_last ''firewall_events'' ip since) as of (Inl err, rest) \<Rightarrow> (Inl err, rest)
     | (Inr (n, first, latest), as1) \<Rightarrow>
     (case select (\<lambda>d plan. top_texts ''firewall_events'' ''action'' 4 ip since d) as1 of (Inl err, rest) \<Rightarrow> (Inl err, rest)
      | (Inr (acts, _), as2) \<Rightarrow>
        (Inr (GObj [(''total'', GInt n), (''first_ts'', GInt first), (''last_ts'', GInt latest),
           (''top_actions'', GArr (map (counted ''action'' GStr) acts))]), as2)))"

definition recent :: "bytes \<Rightarrow> bytes \<Rightarrow> bytes list \<Rightarrow> u32 \<Rightarrow> int \<Rightarrow> answer list \<Rightarrow> (bytes + gval) \<times> answer list" where
  "recent t c cs ip since as =
    (case select_row (count_rows t [of_source t c ip since]) as of (Inl err, rest) \<Rightarrow> (Inl err, rest)
     | (Inr n, as1) \<Rightarrow>
     (case select (\<lambda>d plan. take 10 (newest_first (plan (filter (of_source t c ip since) (tb_rows d t))))) as1 of
        (Inl err, rest) \<Rightarrow> (Inl err, rest)
      | (Inr (rows, _), as2) \<Rightarrow>
        (Inr (GObj [(''total'', GInt n), (''recent'', GArr (List.map_filter (json_row t cs) rows))]), as2)))"

definition ipBanAggQuery :: "u32 \<Rightarrow> int \<Rightarrow> answer list \<Rightarrow> (bytes + gval) \<times> answer list" where
  "ipBanAggQuery ip since as = recent ''ban_events'' ''ip'' [''ts'', ''type'', ''jail''] ip since as"

definition ipCredAggQuery :: "u32 \<Rightarrow> int \<Rightarrow> answer list \<Rightarrow> (bytes + gval) \<times> answer list" where
  "ipCredAggQuery ip since as = recent ''cred_events'' ''src_ip'' [''ts'', ''proto'', ''username''] ip since as"

definition ipCountry :: "env \<Rightarrow> bytes \<Rightarrow> gval" where
  "ipCountry e ip =
    (case en_geo e of None \<Rightarrow> GNull
     | Some g \<Rightarrow>
       if \<not> ge_OK g then GNull
       else (case ge_Lookup g ip of None \<Rightarrow> GNull
         | Some (code, nam) \<Rightarrow> if code = [] then GNull else GObj [(''code'', GStr code), (''name'', GStr nam)]))"

definition ipBannedNow :: "env \<Rightarrow> u32 \<Rightarrow> bool" where
  "ipBannedNow e ip = (case en_banned e of None \<Rightarrow> False | Some (ips, _) \<Rightarrow> ip \<in> set ips)"

text \<open>The sections in the order they are read; the first error ends it.\<close>

fun sections :: "(bytes \<times> (answer list \<Rightarrow> (bytes + gval) \<times> answer list)) list \<Rightarrow> answer list \<Rightarrow> bytes + (bytes \<times> gval) list" where
  "sections [] as = Inr []"
| "sections ((k, f) # fs) as =
    (case f as of (Inl err, _) \<Rightarrow> Inl err
     | (Inr v, rest) \<Rightarrow> map_sum id (\<lambda>kvs. (k, v) # kvs) (sections fs rest))"

definition hIPProfile :: handler where
  "hIPProfile e q s =
    (let raw = q ''ip''; parsed = ParseIP raw; srcIP = IPv4ToUint32 parsed; since = seconds e - ipWindowHours * 3600 in
     if raw = [] then (writeErr 400 ''missing ip'', s)
     else if parsed = [] then (writeErr 400 ''bad ip'', s)
     else if To4 parsed = [] then (writeErr 400 ''no IPv6'', s)
     else if srcIP = 0 then (writeErr 400 ''0.0.0.0 stands for IPv6 sources'', s)
     else case sections [(''connections'', ipConnAggQuery srcIP since), (''ssh'', ipSSHAggQuery srcIP since),
         (''firewall'', ipFwAggQuery srcIP since), (''bans'', ipBanAggQuery srcIP since), (''creds'', ipCredAggQuery srcIP since)] (en_reads e) of
       Inl err \<Rightarrow> (writeDBErr err, s)
     | Inr kvs \<Rightarrow>
       (writeJSON 200 (GObj ([(''ip'', GStr (Uint32ToIPv4 srcIP)), (''window_hours'', GInt ipWindowHours), (''country'', ipCountry e parsed),
          (''banned_now'', GBool (ipBannedNow e srcIP))] @ kvs)), s))"

subsection \<open>The channels\<close>

definition channelTables :: "bytes list" where
  "channelTables = [''connections'', ''ssh_attempts'', ''firewall_events'', ''ban_events'', ''cred_events'', ''resources'', ''system_events'']"

definition last_ts :: "bytes \<Rightarrow> tables \<Rightarrow> int" where
  "last_ts t d = int_max (map row_ts (tb_rows d t))"

fun channel_rows :: "bytes list \<Rightarrow> answer list \<Rightarrow> (bytes + gval list) \<times> answer list" where
  "channel_rows [] as = (Inr [], as)"
| "channel_rows (t # ts) as =
    (case select_row (last_ts t) as of (Inl err, rest) \<Rightarrow> (Inl err, rest)
     | (Inr n, as1) \<Rightarrow>
       (let (r, rest) = channel_rows ts as1 in
        (map_sum id (\<lambda>vs. GObj [(''name'', GStr t), (''last_ts'', GInt n)] # vs) r, rest)))"

definition warning_row :: cond where
  "warning_row r \<longleftrightarrow> text_cell ''system_events'' ''level'' r \<in> {Some ''warn'', Some ''error''}"

definition recentWarnings :: "nat \<Rightarrow> answer list \<Rightarrow> bytes + gval list" where
  "recentWarnings limit as =
    map_sum id (\<lambda>(rows, _). List.map_filter (json_row ''system_events'' (columns ''system_events'')) rows)
      (fst (select (\<lambda>d plan. take limit (newest_first (plan (filter warning_row (tb_rows d ''system_events''))))) as))"

definition hChannels :: handler where
  "hChannels e q s =
    (case channel_rows channelTables (en_reads e) of (Inl err, _) \<Rightarrow> (writeDBErr err, s)
     | (Inr tabs, rest) \<Rightarrow>
       (case recentWarnings 20 rest of Inl err \<Rightarrow> (writeDBErr err, s)
        | Inr warnings \<Rightarrow>
          (writeJSON 200 (GObj [(''now'', GInt (unix (en_later e))), (''retention_days'', GInt (ap_retentionDays s)),
             (''db_size_mb'', megabytes (dbSizeBytes e s)), (''overrun_total'', GInt (uint (en_overrun e))),
             (''tables'', GArr tabs), (''recent_warnings'', GArr warnings)]), s)))"

end
