(* ===== verification/ApiExport.thy ===== *)
theory ApiExport
  imports ApiProfile
begin

text \<open>
  The exports of \<^verbatim>\<open>internal/api\<close>: \<^verbatim>\<open>export.go\<close>, \<^verbatim>\<open>export_table.go\<close>, \<^verbatim>\<open>export_creds.go\<close> and the file of
  \<^verbatim>\<open>geo.go\<close>.

  What is written reaches the client up to the byte where the connection fails, if it does; the
  report of a failed write or an interrupted query has one abridged text.
\<close>

definition in_window :: "int \<Rightarrow> int \<Rightarrow> cond" where
  "in_window since until r \<longleftrightarrow> since \<le> row_ts r \<and> row_ts r \<le> until"

text \<open>The stamp of a file name, with the character between date and time.\<close>

definition file_stamp :: "byte \<Rightarrow> zone \<Rightarrow> int \<Rightarrow> bytes" where
  "file_stamp sep z t = year4 (Year z t) @ dd (nat (Month z t)) @ dd (nat (Day z t)) @ sep #
     dd (nat (Hour z t)) @ dd (nat (Minute z t)) @ dd (nat (Second z t))"

text \<open>The bytes the client gets; a failed write or query is reported.\<close>

definition stream :: "env \<Rightarrow> (bytes \<Rightarrow> bytes \<Rightarrow> body) \<Rightarrow> bytes \<Rightarrow> bytes \<Rightarrow> bool \<Rightarrow> api \<Rightarrow> response \<times> api" where
  "stream e mk nam text broke s =
    (let broken = (case en_accepts e of None \<Rightarrow> False | Some k \<Rightarrow> k < length text);
         sent = (case en_accepts e of None \<Rightarrow> text | Some k \<Rightarrow> take k text) in
     (\<lparr>rp_code = 200, rp_retry = [], rp_body = mk nam sent\<rparr>,
      if broken \<or> broke then warn_api e [''export failed''] s else s))"

definition truncated_mark :: "env \<Rightarrow> bytes" where
  "truncated_mark e = ''# EXPORT_TRUNCATED at '' @ rfc3339 (en_zone e) (unix (en_later e)) @
     encode_runes [0xFF08, 0x5BFC, 0x51FA, 0x4E2D, 0x65AD, 0xFF0C, 0x4EE5, 0x4E0A, 0x6570, 0x636E, 0x4E0D, 0x5B8C, 0x6574, 0xFF09]"

subsection \<open>Attacks: address, time, port\<close>

text \<open>Dropped packets and failed logins in the window, by time and address; a row that cannot be read is
  skipped.\<close>

definition attack_rows :: "int \<Rightarrow> int \<Rightarrow> tables \<Rightarrow> (row list \<Rightarrow> row list) \<Rightarrow> (int \<times> int \<times> int) option list" where
  "attack_rows since until d plan =
    (let fw = map (\<lambda>r. case (int_cell ''firewall_events'' ''src_ip'' r, int_cell ''firewall_events'' ''dst_port'' r) of
             (Some ip, Some p) \<Rightarrow> Some (row_ts r, ip, p) | _ \<Rightarrow> None)
           (plan (filter (\<lambda>r. text_cell ''firewall_events'' ''action'' r = Some ''drop'' \<and> in_window since until r) (tb_rows d ''firewall_events'')));
         ssh = map (\<lambda>r. case int_cell ''ssh_attempts'' ''src_ip'' r of Some ip \<Rightarrow> Some (row_ts r, ip, 22) | None \<Rightarrow> None)
           (plan (filter (\<lambda>r. result_is 0 r \<and> in_window since until r) (tb_rows d ''ssh_attempts'')))
     in sort_key (\<lambda>x. case x of Some (t, ip, p) \<Rightarrow> t | None \<Rightarrow> 0) (sort_key (\<lambda>x. case x of Some (t, ip, p) \<Rightarrow> ip | None \<Rightarrow> 0) (fw @ ssh)))"

definition attack_record :: "zone \<Rightarrow> int \<times> int \<times> int \<Rightarrow> bytes list" where
  "attack_record z a = (case a of (t, ip, p) \<Rightarrow> [dotted_cell ip, date_time SP z t, show_int p])"

text \<open>A query that breaks off leaves no mark in the file.\<close>

definition hExportCSV :: handler where
  "hExportCSV e q s =
    (case parseExportWindow (seconds e) q of Inl m \<Rightarrow> (writeErr 400 m, s)
     | Inr (since, until, timeout) \<Rightarrow>
       (case fst (select (attack_rows since until) (en_reads e)) of Inl err \<Rightarrow> (writeDBErr err, s)
        | Inr (rows, err) \<Rightarrow>
          stream e Sheet (''sentry_export_'' @ file_stamp (CHR ''_'') (en_zone e) (unix (en_later e)) @ ''.csv'')
            (csv_write (map (attack_record (en_zone e)) (List.map_filter id rows))) (err \<noteq> None) s))"

subsection \<open>Tables\<close>

datatype col_format = AsTime | AsAddress | AsInt | AsText | AsSafeText

definition exportTableSpecs :: "bytes \<Rightarrow> (bytes \<times> (bytes \<times> col_format) list) option" where
  "exportTableSpecs = map_of
    [(''ssh'', (''ssh_attempts'', [(''ts'', AsTime), (''src_ip'', AsAddress), (''username'', AsSafeText), (''auth_method'', AsText),
        (''result'', AsInt), (''fingerprint'', AsText), (''detail'', AsSafeText)])),
     (''fw'', (''firewall_events'', [(''ts'', AsTime), (''chain'', AsText), (''action'', AsText), (''proto'', AsInt), (''src_ip'', AsAddress),
        (''src_port'', AsInt), (''dst_ip'', AsAddress), (''dst_port'', AsInt), (''raw'', AsText)])),
     (''hp'', (''cred_events'', [(''ts'', AsTime), (''proto'', AsText), (''src_ip'', AsAddress), (''username'', AsSafeText),
        (''password'', AsSafeText), (''extra'', AsSafeText)])),
     (''conn'', (''connections'', [(''ts'', AsTime), (''ev_type'', AsInt), (''proto'', AsInt), (''src_ip'', AsAddress), (''src_port'', AsInt),
        (''dst_ip'', AsAddress), (''dst_port'', AsInt), (''packets'', AsInt), (''bytes'', AsInt), (''mark'', AsInt),
        (''src_ip6'', AsText), (''dst_ip6'', AsText)])),
     (''bans'', (''ban_events'', [(''ts'', AsTime), (''ip'', AsAddress), (''type'', AsText), (''jail'', AsText)])),
     (''sys'', (''system_events'', [(''ts'', AsTime), (''source'', AsText), (''level'', AsText), (''message'', AsText)]))]"

definition csv_cell :: "zone \<Rightarrow> bytes \<Rightarrow> row \<Rightarrow> bytes \<times> col_format \<Rightarrow> bytes option" where
  "csv_cell z t r cf =
    (case snd cf of
       AsTime \<Rightarrow> map_option (csvTS z) (int_cell t (fst cf) r)
     | AsAddress \<Rightarrow> map_option dotted_cell (int_cell t (fst cf) r)
     | AsInt \<Rightarrow> map_option show_int (int_cell t (fst cf) r)
     | AsText \<Rightarrow> text_cell t (fst cf) r
     | AsSafeText \<Rightarrow> map_option sanitizeCSVCell (text_cell t (fst cf) r))"

definition table_record :: "zone \<Rightarrow> bytes \<times> (bytes \<times> col_format) list \<Rightarrow> row \<Rightarrow> bytes list option" where
  "table_record z spec r = those (map (csv_cell z (fst spec) r) (snd spec))"

definition window_rows :: "bytes \<Rightarrow> int \<Rightarrow> int \<Rightarrow> tables \<Rightarrow> (row list \<Rightarrow> row list) \<Rightarrow> row list" where
  "window_rows t since until d plan = newest_first (plan (filter (in_window since until) (tb_rows d t)))"

definition hExportTable :: handler where
  "hExportTable e q s =
    (case exportTableSpecs (q ''type'') of None \<Rightarrow> (writeErr 400 ''bad type'', s)
     | Some spec \<Rightarrow>
       (case parseExportWindow (seconds e) q of Inl m \<Rightarrow> (writeErr 400 m, s)
        | Inr (since, until, timeout) \<Rightarrow>
          (case fst (select (window_rows (fst spec) since until) (en_reads e)) of Inl err \<Rightarrow> (writeDBErr err, s)
           | Inr (rows, err) \<Rightarrow>
             stream e Sheet (''sentry-'' @ q ''type'' @ ''-'' @ file_stamp (CHR ''-'') (en_zone e) (unix (en_later e)) @ ''.csv'')
               (csv_write ((map fst (snd spec) # List.map_filter (table_record (en_zone e) spec) rows) @
                  (if err = None then [] else [[truncated_mark e]]))) (err \<noteq> None) s)))"

subsection \<open>Countries\<close>

definition geo_record :: "geoRow \<Rightarrow> bytes list" where
  "geo_record r = [gr_IP r, gr_name r, show_int (gr_count r)]"

definition hExportAttacksCSV :: handler where
  "hExportAttacksCSV e q s =
    (let (rows, err) = geoRowsFromReq e q in
     if err \<noteq> None \<and> rows = [] then (writeDBErr (the err), s)
     else stream e Sheet (''sentry_attacks_geo_'' @ file_stamp (CHR ''_'') (en_zone e) (unix (en_later e)) @ ''.csv'')
       (csv_write (map geo_record rows @ (if err = None then [] else [[truncated_mark e]]))) (err \<noteq> None) s)"

subsection \<open>Credentials\<close>

definition cred_record :: "zone \<Rightarrow> cred_entry \<Rightarrow> bytes list" where
  "cred_record z g = [sanitizeCSVCell (cd_user g), sanitizeCSVCell (cd_pass g), cd_proto g, credKind (cd_proto g) (cd_extra g),
     show_int (cd_count g), date_time SP z (cd_first g), date_time SP z (cd_last g), show_int (cd_srcs g)]"

definition cred_header :: "bytes list" where
  "cred_header = [''username'', ''password'', ''protocol'', ''kind'', ''count'', ''first_seen'', ''last_seen'', ''src_ip_count'']"

definition has_break :: "bytes \<Rightarrow> bool" where
  "has_break s \<longleftrightarrow> CR \<in> set s \<or> LF \<in> set s"

definition usable :: "cred_entry \<Rightarrow> bool" where
  "usable g \<longleftrightarrow> credKind (cd_proto g) (cd_extra g) = ''plaintext'' \<and> cd_pass g \<noteq> []"

definition pair_line :: "cred_entry \<Rightarrow> bytes" where
  "pair_line g = cd_user g @ CHR '':'' # cd_pass g @ [LF]"

text \<open>The lines and the number of entries skipped because a line break is in them.\<close>

definition pair_lines :: "cred_entry list \<Rightarrow> bytes \<times> nat" where
  "pair_lines gs =
    (let us = filter usable gs; bad = (\<lambda>g. has_break (cd_user g @ cd_pass g)) in
     (concat (map pair_line (filter (\<lambda>g. \<not> bad g) us)), length (filter bad us)))"

fun password_loop :: "cred_entry list \<Rightarrow> bytes list \<Rightarrow> nat \<Rightarrow> bytes list \<times> nat" where
  "password_loop [] taken skipped = (taken, skipped)"
| "password_loop (g # gs) taken skipped =
    (if usable g \<and> cd_pass g \<notin> set taken then
       (if has_break (cd_pass g) then password_loop gs taken (skipped + 1)
        else password_loop gs (taken @ [cd_pass g]) skipped)
     else password_loop gs taken skipped)"

definition password_lines :: "cred_entry list \<Rightarrow> bytes \<times> nat" where
  "password_lines gs = (let (ws, n) = password_loop gs [] 0 in (concat (map (\<lambda>w. w @ [LF]) ws), n))"

definition dictionary :: "env \<Rightarrow> bytes \<Rightarrow> bytes \<times> nat \<Rightarrow> api \<Rightarrow> response \<times> api" where
  "dictionary e nam ls s =
    (let sent = (case en_accepts e of None \<Rightarrow> fst ls | Some k \<Rightarrow> take k (fst ls)) in
     (\<lparr>rp_code = 200, rp_retry = [], rp_body = Lines nam sent\<rparr>,
      if 0 < snd ls then warn_api e [''skipped'', show_nat (snd ls)] s else s))"

definition hExportCreds :: handler where
  "hExportCreds e q s =
    (let f = q ''format''; stamp = file_stamp (CHR ''_'') (en_zone e) (unix (en_later e)) in
     if f \<notin> {''csv'', ''pairs'', ''passwords''} then (writeErr 400 ''bad format'', s)
     else case parseExportWindow (seconds e) q of Inl m \<Rightarrow> (writeErr 400 m, s)
     | Inr (since, until, timeout) \<Rightarrow>
       (case fst (select (credAggQuery (in_window since until # proto_cond q (en_numeric e))) (en_reads e)) of
          Inl err \<Rightarrow> (writeDBErr err, s)
        | Inr (gs, Some err) \<Rightarrow> (writeDBErr err, s)
        | Inr (gs, None) \<Rightarrow>
          if f = ''csv'' then stream e Sheet (''sentry_creds_'' @ stamp @ ''.csv'')
            (csv_write (cred_header # map (cred_record (en_zone e)) gs)) False s
          else if f = ''pairs'' then dictionary e (''sentry_creds_pairs_'' @ stamp @ ''.txt'') (pair_lines gs) s
          else dictionary e (''sentry_creds_passwords_'' @ stamp @ ''.txt'') (password_lines gs) s))"

end
