(* ===== verification/ApiWs.thy ===== *)
theory ApiWs
  imports ApiQuery
begin

text \<open>
  \<^verbatim>\<open>internal/api/ws.go\<close>: the hub of WebSocket clients, the handshake, and the loop that pushes frames.

  A client is a number and its queue of frames. The goroutines of the clients and the loop run
  concurrently under the lock of the hub, so a run is any sequence of their locked steps.
\<close>

subsection \<open>The hub\<close>

record ws_hub =
  wh_clients :: "(nat \<times> gval chan) list"
  wh_written :: "(nat \<times> gval) list"

definition newWSHub :: ws_hub where
  "newWSHub = \<lparr>wh_clients = [], wh_written = []\<rparr>"

definition wsQueue :: nat where "wsQueue = 64"

definition tryAdd :: "nat \<Rightarrow> int \<Rightarrow> ws_hub \<Rightarrow> bool \<times> ws_hub" where
  "tryAdd c mx h =
    (if mx \<le> int (length (wh_clients h)) then (False, h)
     else (True, h\<lparr>wh_clients := wh_clients h @ [(c, make_chan wsQueue)]\<rparr>))"

definition ws_remove :: "nat \<Rightarrow> ws_hub \<Rightarrow> ws_hub" where
  "ws_remove c h = h\<lparr>wh_clients := filter (\<lambda>x. fst x \<noteq> c) (wh_clients h)\<rparr>"

definition ws_count :: "ws_hub \<Rightarrow> nat" where
  "ws_count h = length (wh_clients h)"

text \<open>A full queue keeps what it has: the new frame is dropped.\<close>

definition broadcast :: "gval \<Rightarrow> ws_hub \<Rightarrow> ws_hub" where
  "broadcast frame h = h\<lparr>wh_clients := map (\<lambda>(c, q). (c, snd (try_send frame q))) (wh_clients h)\<rparr>"

subsection \<open>A client\<close>

text \<open>The handshake: a response when it is refused, otherwise None; a failed upgrade gives the place back.\<close>

definition handshake :: "api \<Rightarrow> bytes \<Rightarrow> nat \<Rightarrow> bool \<Rightarrow> ws_hub \<Rightarrow> response option \<times> ws_hub" where
  "handshake s origin c upgrades h =
    (if origin = [] \<and> \<not> ap_allowNoOrigin s then (Some (writeErr 403 ''missing origin''), h)
     else if origin \<noteq> [] \<and> origin \<noteq> ap_wsOrigin s then (Some (writeErr 403 ''origin not allowed''), h)
     else case tryAdd c (ap_wsMaxConns s) h of
       (False, h1) \<Rightarrow> (Some (writeErr 503 ''too many connections''), h1)
     | (True, h1) \<Rightarrow> (None, if upgrades then h1 else ws_remove c h1))"

text \<open>The endpoint, behind the common limit.\<close>

definition hWS :: "env \<Rightarrow> bytes \<Rightarrow> nat \<Rightarrow> bool \<Rightarrow> api \<times> ws_hub \<Rightarrow> response option \<times> api \<times> ws_hub" where
  "hWS e origin c upgrades sh =
    (if \<not> en_api e then
       (Some (refused_429 ''1'' ''too many requests''), warn_api e [''request refused'', en_path e] (fst sh), snd sh)
     else case handshake (fst sh) origin c upgrades (snd sh) of (r, h) \<Rightarrow> (r, fst sh, h))"

text \<open>
  The steps of a run: a handshake, a frame for all, a client's writer taking a frame and writing it
  (a failed write ends the client), and the end of a client whose reader has failed. A new client is
  a new pointer: its number is not in use.
\<close>

datatype ws_input = Handshake bytes nat bool | Broadcast gval | WriteFrame nat bool | ReaderEnds nat

definition write_frame :: "nat \<Rightarrow> bool \<Rightarrow> ws_hub \<Rightarrow> ws_hub" where
  "write_frame c ok h =
    (case map_of (wh_clients h) c of None \<Rightarrow> h
     | Some q \<Rightarrow>
       (case try_recv q of None \<Rightarrow> h
        | Some (frame, q') \<Rightarrow>
          if ok then h\<lparr>wh_clients := map (\<lambda>x. if fst x = c then (c, q') else x) (wh_clients h), wh_written := wh_written h @ [(c, frame)]\<rparr>
          else ws_remove c h))"

fun ws_step :: "api \<Rightarrow> ws_input \<Rightarrow> ws_hub \<Rightarrow> ws_hub" where
  "ws_step s (Handshake origin c upgrades) h =
    (if c \<in> fst ` set (wh_clients h) \<or> c \<in> fst ` set (wh_written h) then h else snd (handshake s origin c upgrades h))"
| "ws_step s (Broadcast frame) h = broadcast frame h"
| "ws_step s (WriteFrame c ok) h = write_frame c ok h"
| "ws_step s (ReaderEnds c) h = ws_remove c h"

definition ws_run :: "api \<Rightarrow> ws_input list \<Rightarrow> ws_hub" where
  "ws_run s is = fold (ws_step s) is newWSHub"

subsection \<open>The pushed frames\<close>

text \<open>\<^verbatim>\<open>ORDER BY ts DESC LIMIT 1\<close>.\<close>

definition frameResource :: "answer list \<Rightarrow> gval option" where
  "frameResource as =
    (case fst (select (\<lambda>d plan. take 1 (newest_first (plan (tb_rows d ''resources'')))) as) of
       Inr ([r], None) \<Rightarrow>
         (case (cell ''resources'' ''ts'' r, real_cell ''resources'' ''cpu_percent'' r, real_cell ''resources'' ''mem_percent'' r,
             real_cell ''resources'' ''disk_percent'' r, int_cell ''resources'' ''net_rx_bps'' r, int_cell ''resources'' ''net_tx_bps'' r) of
            (Some (VInt ts), Some cpu, Some mem, Some disk, Some rx, Some tx) \<Rightarrow>
              Some (GObj [(''type'', GStr ''resource''), (''ts'', GInt ts), (''cpu'', GReal cpu), (''mem'', GReal mem),
                (''disk'', GReal disk), (''net_rx_bps'', GInt rx), (''net_tx_bps'', GInt tx)])
          | _ \<Rightarrow> None)
     | _ \<Rightarrow> None)"

text \<open>The ids of the connection events of a kind; how many are beyond the cursor; where the cursor goes.\<close>

definition event_ids :: "int \<Rightarrow> tables \<Rightarrow> int list" where
  "event_ids k d = map fst (filter (\<lambda>r. int_cell ''connections'' ''ev_type'' r = Some k) (tb_rows d ''connections''))"

definition count_after :: "int \<Rightarrow> int list \<Rightarrow> int" where
  "count_after c ids = int (length (filter (\<lambda>i. c < i) ids))"

definition max_or :: "int \<Rightarrow> int list \<Rightarrow> int" where
  "max_or c ids = (case ids of [] \<Rightarrow> c | i # is \<Rightarrow> foldl max i is)"

text \<open>New, destroyed and the two cursors; None when the query fails.\<close>

definition frameConnStats :: "int \<Rightarrow> int \<Rightarrow> answer list \<Rightarrow> (int \<times> int \<times> int \<times> int) option \<times> answer list" where
  "frameConnStats lastNew lastDest as =
    (let (r, rest) = select_row (\<lambda>d. (count_after lastNew (event_ids 1 d), count_after lastDest (event_ids 3 d),
          max_or lastNew (event_ids 1 d), max_or lastDest (event_ids 3 d))) as
     in (case r of Inl _ \<Rightarrow> None | Inr x \<Rightarrow> Some x, rest))"

definition system_frame :: "row \<Rightarrow> gval option" where
  "system_frame r =
    (case json_row ''system_events'' (columns ''system_events'') r of
       Some (GObj kvs) \<Rightarrow> Some (GObj ((''type'', GStr ''system'') # (''id'', GInt (fst r)) # kvs)) | _ \<Rightarrow> None)"

text \<open>The rows up to the first that cannot be read.\<close>

fun read_while :: "row list \<Rightarrow> (int \<times> gval) list" where
  "read_while [] = []"
| "read_while (r # rs) = (case system_frame r of None \<Rightarrow> [] | Some f \<Rightarrow> (fst r, f) # read_while rs)"

definition frameSystem :: "int \<Rightarrow> answer list \<Rightarrow> int \<times> gval list" where
  "frameSystem after as =
    (case fst (select (\<lambda>d plan. take 20 (sort_key fst (filter (\<lambda>r. after < fst r) (tb_rows d ''system_events'')))) as) of
       Inl _ \<Rightarrow> (after, [])
     | Inr (rows, _) \<Rightarrow>
       (let fs = read_while rows in (if fs = [] then after else fst (last fs), map snd fs)))"

text \<open>The loop: its three cursors, and the ticks with what each meets.\<close>

record push =
  pu_new :: int
  pu_dest :: int
  pu_sys :: int
  pu_hub :: ws_hub
  pu_api :: api

datatype push_tick = ResourceTick env | StatTick env | HeartTick env

definition push_start :: "ws_hub \<Rightarrow> api \<Rightarrow> push" where
  "push_start h s = \<lparr>pu_new = 0, pu_dest = 0, pu_sys = 0, pu_hub = h, pu_api = s\<rparr>"

definition stat_tick :: "env \<Rightarrow> push \<Rightarrow> push" where
  "stat_tick e p =
    (let (r, rest) = frameConnStats (pu_new p) (pu_dest p) (en_reads e);
         p1 = (case r of None \<Rightarrow> p
           | Some (newCnt, destCnt, newMax, destMax) \<Rightarrow>
             (let (active, s) = activeConns e (pu_api p) in
              p\<lparr>pu_new := newMax, pu_dest := destMax, pu_api := s,
                pu_hub := broadcast (GObj [(''type'', GStr ''conn_stats''), (''ts'', GInt (seconds e)), (''new'', GInt newCnt),
                  (''destroy'', GInt destCnt), (''active'', GInt active)]) (pu_hub p)\<rparr>));
         (latest, frames) = frameSystem (pu_sys p1) rest
     in if frames = [] then p1 else p1\<lparr>pu_sys := latest, pu_hub := fold broadcast frames (pu_hub p1)\<rparr>)"

fun push_step :: "push_tick \<Rightarrow> push \<Rightarrow> push" where
  "push_step (ResourceTick e) p =
    (case frameResource (en_reads e) of None \<Rightarrow> p | Some f \<Rightarrow> p\<lparr>pu_hub := broadcast f (pu_hub p)\<rparr>)"
| "push_step (StatTick e) p = stat_tick e p"
| "push_step (HeartTick e) p = p\<lparr>pu_hub := broadcast (GObj [(''type'', GStr ''heartbeat''), (''ts'', GInt (seconds e))]) (pu_hub p)\<rparr>"

definition PushLoop :: "push_tick list \<Rightarrow> push \<Rightarrow> push" where
  "PushLoop ts p = fold push_step ts p"

end
