(* ===== verification/ApiRoutes.thy ===== *)
theory ApiRoutes
  imports ApiExport ApiWs
begin

text \<open>The routes of \<^verbatim>\<open>internal/api/api.go\<close>; the socket is in \<^verbatim>\<open>ApiWs\<close>, the static pages are not modelled.\<close>

definition api_path :: "bytes \<Rightarrow> bytes" where
  "api_path p = ''/api/v1/'' @ p"

definition routes :: "bytes \<Rightarrow> handler option" where
  "routes = map_of (map (\<lambda>(p, h). (api_path p, h))
    [(''health'', hHealth), (''summary'', limitHeavy (limitStats hSummary)), (''resources'', limitAPI hResources),
     (''connections'', limitAPI hConnections), (''ssh'', limitAPI hSSH), (''firewall'', limitAPI hFirewall),
     (''attacks/top_ports'', limitAPI (limitStats hTopPorts)), (''attacks/top_sources'', limitAPI (limitStats hTopSources)),
     (''ssh/timeline'', limitHeavy hSSHTimeline), (''firewall/timeline'', limitHeavy (limitStats hFirewallTimeline)),
     (''attacks/geo'', limitHeavy hGeoAttacks), (''export/attacks_csv'', limitHeavy hExportAttacksCSV),
     (''export/csv'', limitHeavy hExportCSV), (''export/table'', limitHeavy hExportTable), (''bans'', limitAPI hBans),
     (''bans/active'', limitAPI hBansActive), (''archive'', limitAPI hArchive), (''snapshot'', limitAPI hSnapshot),
     (''honeypot/events'', limitAPI hHoneypotEvents), (''honeypot/creds'', limitAPI hHoneypotCreds),
     (''export/creds'', limitHeavy hExportCreds), (''ip'', limitAPI hIPProfile), (''channels'', limitAPI hChannels)])"

text \<open>A request for a path of the API; None is another path.\<close>

definition serve :: "env \<Rightarrow> params \<Rightarrow> api \<Rightarrow> (response \<times> api) option" where
  "serve e q s = map_option (\<lambda>h. h e q s) (routes (en_path e))"

end
