(* ===== verification/ApiRows.thy ===== *)
theory ApiRows
  imports "HOL-Library.Multiset" ApiExport Store
begin

text \<open>
  Lemmas on the rows the API reads: rows come from statements of the writer and have the columns the
  exports expect; sorting and skipping.
\<close>

subsection \<open>Rows of the writer\<close>

text \<open>Statements as the store issues them: insertions of items, and deletions.\<close>

definition by_writer :: "stmt list \<Rightarrow> bool" where
  "by_writer ss \<longleftrightarrow> (\<forall>t vs. Insert t vs \<in> set ss \<longrightarrow> (\<exists>it. item_stmt it = Inr (Insert t vs)))"

lemma rows_inserted:
  "r \<in> set (tb_rows (fold apply_stmt ss d) t) \<Longrightarrow> r \<in> set (tb_rows d t) \<or> Insert t (snd r) \<in> set ss"
proof (induction ss arbitrary: d)
  case Nil
  then show ?case by simp
next
  case (Cons st ss)
  then have "r \<in> set (tb_rows (apply_stmt st d) t) \<or> Insert t (snd r) \<in> set ss" by simp
  then show ?case by (cases st) (auto split: if_splits)
qed

lemma rows_of_writer:
  "r \<in> set (tb_rows (tables_of ss) t) \<Longrightarrow> by_writer ss \<Longrightarrow> \<exists>it. item_stmt it = Inr (Insert t (snd r))"
  using rows_inserted [of r ss empty_tables t] by (auto simp: tables_of_def empty_tables_def by_writer_def)

text \<open>The kinds of the values of a row agree with the schema.\<close>

fun val_kind :: "sqlval \<Rightarrow> col_kind" where
  "val_kind (VInt _) = CInt" | "val_kind (VReal _) = CReal" | "val_kind (VText _) = CText"

fun arg_kind :: "sql_arg \<Rightarrow> col_kind" where
  "arg_kind (AInt _) = CInt" | "arg_kind (AUint _) = CInt" | "arg_kind (AReal _) = CReal" | "arg_kind (AText _) = CText"

lemma to_sql_kind: "to_sql a = Some v \<Longrightarrow> val_kind v = arg_kind a"
  by (cases a) (auto split: if_splits)

lemma those_to_sql: "those (map to_sql args) = Some vs \<Longrightarrow> map val_kind vs = map arg_kind args"
  by (induction args arbitrary: vs) (auto dest: to_sql_kind split: option.splits)

lemma schema_simps [simp]:
  "map snd (schema ''resources'') = [CInt, CReal, CReal, CReal, CReal, CReal, CInt, CInt]"
  "map snd (schema ''connections'') = [CInt, CInt, CInt, CInt, CInt, CInt, CInt, CInt, CInt, CInt, CText, CText]"
  "map snd (schema ''ssh_attempts'') = [CInt, CInt, CText, CText, CInt, CText, CText]"
  "map snd (schema ''firewall_events'') = [CInt, CText, CText, CInt, CInt, CInt, CInt, CInt, CText]"
  "map snd (schema ''ban_events'') = [CInt, CInt, CText, CText]"
  "map snd (schema ''system_events'') = [CInt, CText, CText, CText]"
  "map snd (schema ''cred_events'') = [CInt, CText, CInt, CText, CText, CText]"
  by (simp_all add: schema_def)

lemma itemArgs_kinds:
  assumes "itemArgs it = Inr args" "insertStmts (it_kind it) = Some t"
  shows "map arg_kind args = map snd (schema t)"
proof -
  obtain k v where it: "it = \<lparr>it_kind = k, it_v = v\<rparr>" by (cases it)
  have "insertStmts k = Some t" using assms(2) it by simp
  then consider "k = ''resource'' \<and> t = ''resources''" | "k = ''conn'' \<and> t = ''connections''" | "k = ''ssh'' \<and> t = ''ssh_attempts''"
    | "k = ''fw'' \<and> t = ''firewall_events''" | "k = ''f2b'' \<and> t = ''ban_events''" | "k = ''system'' \<and> t = ''system_events''"
    | "k = ''cred'' \<and> t = ''cred_events''"
    by (auto simp: insertStmts_def split: if_splits)
  then show ?thesis
    by cases (use assms(1) it in \<open>auto simp: itemArgs_def Let_def split: any_event.splits\<close>)
qed

lemma item_kinds: "item_stmt it = Inr (Insert t vs) \<Longrightarrow> map val_kind vs = map snd (schema t)"
  by (auto simp: item_stmt_def itemArgs_kinds those_to_sql split: option.splits sum.splits)

lemma row_kinds: "r \<in> set (tb_rows (tables_of ss) t) \<Longrightarrow> by_writer ss \<Longrightarrow> map val_kind (snd r) = map snd (schema t)"
  using rows_of_writer item_kinds by blast

subsection \<open>Records of an export\<close>

fun format_kind :: "col_format \<Rightarrow> col_kind" where
  "format_kind AsText = CText" | "format_kind AsSafeText = CText" | "format_kind _ = CInt"

definition fits :: "bytes \<Rightarrow> bytes \<times> col_format \<Rightarrow> bool" where
  "fits t cf \<longleftrightarrow> (case find_first (\<lambda>x. fst x = fst cf) (schema t) of None \<Rightarrow> False
     | Some i \<Rightarrow> i < length (schema t) \<and> snd (schema t ! i) = format_kind (snd cf))"

lemma specs_fit: "exportTableSpecs k = Some spec \<Longrightarrow> list_all (fits (fst spec)) (snd spec)"
  by (auto simp: exportTableSpecs_def schema_def fits_def split: if_splits)

lemma cell_exists:
  assumes "map val_kind (snd r) = map snd (schema t)" "find_first (\<lambda>x. fst x = c) (schema t) = Some i" "i < length (schema t)"
  shows "cell t c r = Some (snd r ! i)" "val_kind (snd r ! i) = snd (schema t ! i)"
proof -
  have l: "length (snd r) = length (schema t)" using assms(1) by (metis length_map)
  then show "val_kind (snd r ! i) = snd (schema t ! i)" using assms by (metis nth_map)
  then show "cell t c r = Some (snd r ! i)"
    using assms l by (cases "snd r ! i") (auto simp: cell_def)
qed

lemma csv_cell_exists: "map val_kind (snd r) = map snd (schema t) \<Longrightarrow> fits t cf \<Longrightarrow> csv_cell z t r cf \<noteq> None"
  using cell_exists [of r t "fst cf"]
  by (auto simp: fits_def csv_cell_def int_cell_def text_cell_def split: option.splits col_format.splits sqlval.splits)

lemma those_map_exists: "\<forall>x\<in>set xs. f x \<noteq> None \<Longrightarrow> those (map f xs) = Some (map (\<lambda>x. the (f x)) xs)"
  by (induction xs) auto

lemma table_record_exists:
  assumes "map val_kind (snd r) = map snd (schema (fst spec))" "exportTableSpecs k = Some spec"
  shows "table_record z spec r = Some (map (\<lambda>cf. the (csv_cell z (fst spec) r cf)) (snd spec))"
  using specs_fit [OF assms(2)] csv_cell_exists [OF assms(1)]
  unfolding table_record_def by (intro those_map_exists) (auto simp: list_all_iff)

lemma map_filter_exists: "\<forall>x\<in>set xs. f x \<noteq> None \<Longrightarrow> List.map_filter f xs = map (\<lambda>x. the (f x)) xs"
  by (induction xs) (auto simp: List.map_filter_simps)

lemma spec_nonempty: "exportTableSpecs k = Some spec \<Longrightarrow> snd spec \<noteq> []"
  by (auto simp: exportTableSpecs_def split: if_splits)

subsection \<open>Orders\<close>

lemma newest_first_set [simp]: "set (newest_first rs) = set rs" "mset (newest_first rs) = mset rs"
  by (simp_all add: newest_first_def)

lemma newest_first_sorted: "sorted_wrt (\<lambda>a b. row_ts b \<le> row_ts a) (newest_first rs)"
proof -
  have "sorted (map (\<lambda>r. - row_ts r) (newest_first rs))" by (simp add: newest_first_def)
  then show ?thesis by (simp add: sorted_map sorted_wrt_map)
qed

text \<open>A plan visits the rows it is given, in some order.\<close>

definition visits :: "(row list \<Rightarrow> row list) \<Rightarrow> bool" where
  "visits plan \<longleftrightarrow> (\<forall>rs. mset (plan rs) = mset rs)"

lemma visits_set: "visits plan \<Longrightarrow> set (plan rs) = set rs"
  unfolding visits_def by (metis set_mset_mset)

lemma visits_id [simp]: "visits (\<lambda>rs. rs)"
  by (simp add: visits_def)

lemma window_rows_exact:
  assumes "visits plan"
  shows "mset (window_rows t f u d plan) = mset (filter (in_window f u) (tb_rows d t)) \<and>
    sorted_wrt (\<lambda>a b. row_ts b \<le> row_ts a) (window_rows t f u d plan)"
  using assms newest_first_sorted by (simp add: window_rows_def visits_def)

end
