(* ===== verification/ApiDict.thy ===== *)
theory ApiDict
  imports ApiRows
begin

text \<open>
  Lemmas on the dictionaries of credentials: their lines, and the kind of a group that has a password
  the honeypot could not recover.
\<close>

subsection \<open>Dictionaries\<close>

lemma split_lines: "\<forall>l\<in>set ls. LF \<notin> set l \<Longrightarrow> split_on LF (concat (map (\<lambda>l. l @ [LF]) ls)) = ls @ [[]]"
proof (induction ls)
  case (Cons l ls)
  then have "\<forall>c\<in>set l. c \<noteq> LF" by auto
  then show ?case using Cons by (simp add: split_on_stop)
qed simp

text \<open>The first occurrence of every element of a list, in the order of the list.\<close>

fun first_uses :: "'a list \<Rightarrow> 'a list" where
  "first_uses [] = []"
| "first_uses (x # xs) = x # filter (\<lambda>y. y \<noteq> x) (first_uses xs)"

lemma set_first_uses [simp]: "set (first_uses xs) = set xs"
  by (induction xs) auto

lemma distinct_first_uses [simp]: "distinct (first_uses xs)"
  by (induction xs) auto

lemma first_uses_remdups: "first_uses xs = rev (remdups (rev xs))"
proof -
  have "remdups (ys @ [x]) = remdups (filter (\<lambda>y. y \<noteq> x) ys) @ [x]" for ys and x :: 'a
    by (induction ys) auto
  then show ?thesis by (induction xs) (simp_all add: remdups_filter rev_filter)
qed

definition good_word :: "cred_entry \<Rightarrow> bool" where
  "good_word g \<longleftrightarrow> usable g \<and> \<not> has_break (cd_pass g)"

text \<open>The loop with the set of passwords written before keeps the first occurrences.\<close>

lemma password_loop_first_uses:
  "password_loop gs taken n = (ws, m) \<Longrightarrow>
    ws = taken @ filter (\<lambda>w. w \<notin> set taken) (first_uses (map cd_pass (filter good_word gs)))"
proof (induction gs taken n rule: password_loop.induct)
  case (2 g gs taken n)
  have "filter (\<lambda>w. w \<notin> set taken) (filter (\<lambda>y. y \<noteq> x) ys) = filter (\<lambda>w. w \<notin> set (taken @ [x])) ys" for x ys
    by (auto intro: filter_cong)
  then show ?case using 2 by (auto simp: good_word_def split: if_splits intro!: filter_cong)
qed simp

lemma most_attempts_first: "sorted_wrt (\<lambda>a b. cd_count b \<le> cd_count a) (credAggQuery conds db plan)"
  using sorted_sort_key [of "\<lambda>g. - cd_count g"] by (simp add: credAggQuery_def Let_def sorted_map)

lemmas tds_eval = tds_plain_extra_def tds_hex_extra_def encode_runes_def encode_rune_def encode_scalar_def is_scalar_def mkbyte_def bval_def

lemma text_max_recovered:
  assumes "set xs \<subseteq> {tds_plain_extra, tds_hex_extra}" "tds_hex_extra \<in> set xs"
  shows "text_max xs = tds_hex_extra"
proof -
  have less: "text_less [] tds_plain_extra" "text_less [] tds_hex_extra" "text_less tds_plain_extra tds_hex_extra"
    "\<not> text_less tds_hex_extra tds_plain_extra" "\<not> text_less tds_hex_extra tds_hex_extra"
    by (simp_all add: tds_eval)
  have "foldl (\<lambda>a b. if text_less a b then b else a) a xs =
      (if a = tds_hex_extra \<or> tds_hex_extra \<in> set xs then tds_hex_extra else if xs = [] then a else tds_plain_extra)"
    if "a \<in> {[], tds_plain_extra, tds_hex_extra}" "set xs \<subseteq> {tds_plain_extra, tds_hex_extra}" for a xs
    using that
  proof (induction xs arbitrary: a)
    case (Cons x xs)
    then show ?case using less by auto
  qed simp
  then show ?thesis using assms by (simp add: text_max_def)
qed

lemma credKind_mssql: "credKind ''mssql'' tds_hex_extra = ''hash''" "credKind ''mssql'' tds_plain_extra = ''plaintext''"
  by (simp_all add: credKind_def KindOf_def ProtoKinds_def tds_eval not_recovered_def contains_def has_prefix_def)

subsection \<open>Groups\<close>

lemma cred_groups:
  "g \<in> set (credAggQuery conds d plan) \<Longrightarrow> \<exists>k. g = cred_group (List.map_filter read_cred (plan (filter (all_conds conds) (tb_rows d ''cred_events'')))) k"
  by (auto simp: credAggQuery_def Let_def)

lemma cred_group_key: "(cd_proto (cred_group cs k), cd_user (cred_group cs k), cd_pass (cred_group cs k)) = k"
  by (cases k) (simp add: cred_group_def Let_def)

lemma cred_group_extra:
  "cd_extra (cred_group cs k) = text_max (map (\<lambda>(p, u, w, x, t, ip). x) (filter (\<lambda>c. cred_key c = k) cs))"
  by (cases k) (simp add: cred_group_def Let_def)

lemma set_map_filter: "set (List.map_filter f xs) = {y. \<exists>x\<in>set xs. f x = Some y}"
  by (induction xs) (auto simp: List.map_filter_simps split: option.splits)

lemma usable_kind: "usable g \<Longrightarrow> KindOf (cd_proto g) = Some KindPlaintext"
  by (auto simp: usable_def credKind_def split: option.splits capture_kind.splits)

lemma recovered:
  assumes "visits plan" "g \<in> set (credAggQuery conds d plan)" "usable g" "cd_proto g = ''mssql''"
    and mssql: "\<forall>r\<in>set (tb_rows d ''cred_events''). \<forall>u w x t ip. read_cred r = Some (''mssql'', u, w, x, t, ip) \<longrightarrow> x \<in> {tds_plain_extra, tds_hex_extra}"
    and r: "r \<in> set (tb_rows d ''cred_events'')" "all_conds conds r" "read_cred r = Some (''mssql'', cd_user g, cd_pass g, x, t, ip)"
  shows "x = tds_plain_extra"
proof (rule ccontr)
  let ?cs = "List.map_filter read_cred (plan (filter (all_conds conds) (tb_rows d ''cred_events'')))"
  let ?xs = "map (\<lambda>(p, u, w, x, t, ip). x) (filter (\<lambda>c. cred_key c = (''mssql'', cd_user g, cd_pass g)) ?cs)"
  assume "x \<noteq> tds_plain_extra"
  then have hex: "x = tds_hex_extra" using mssql r by blast
  obtain k where k: "g = cred_group ?cs k" using cred_groups [OF assms(2)] by blast
  then have "k = (''mssql'', cd_user g, cd_pass g)" using cred_group_key [of ?cs k] assms(4) by simp
  then have e: "cd_extra g = text_max ?xs" using k cred_group_extra [of ?cs k] by simp
  have s: "set ?cs = {c. \<exists>r\<in>set (tb_rows d ''cred_events''). all_conds conds r \<and> read_cred r = Some c}"
    using visits_set [OF assms(1)] by (auto simp: set_map_filter)
  have "set ?xs \<subseteq> {tds_plain_extra, tds_hex_extra}"
    using mssql by (fastforce simp: s cred_key_def)
  moreover have "tds_hex_extra \<in> set ?xs"
    using r hex by (force simp: s cred_key_def image_iff)
  ultimately have "cd_extra g = tds_hex_extra" using e text_max_recovered by simp
  then show False using assms(3,4) credKind_mssql by (simp add: usable_def)
qed

end
