(* ===== verification/PropApi.thy ===== *)
theory PropApi
  imports ApiRoutes ApiDict
begin

text \<open>
  What the API promises: parameters are read exactly or replaced by their defaults, no endpoint but the
  health check escapes the limit, an export can be read back, the dictionaries hold recovered
  passwords only, the timeline accounts for every event, and the pushed counters count each event once.
\<close>

subsection \<open>Parameters\<close>

lemma clamp_min: "(if mx < n then mx else n) = min mx (n :: u64)"
  by (cases "mx < n") (auto simp: min_def)

text \<open>A limit is the number that was asked for, cut to the maximum, when the parameter is a decimal
  number below 2^64, and otherwise the default, cut likewise: no text overflows into a small number.\<close>

theorem limit_param_exact:
  "limitParam q dflt mx =
    min mx (if all_digits (q ''limit'') \<and> digits_val (q ''limit'') < 2 ^ 64 then of_nat (digits_val (q ''limit'')) else dflt)"
  by (simp only: limitParam_def parseUintParam_exact Let_def clamp_min)

text \<open>C31: A custom export window is accepted exactly when both ends are numbers of 64 bits, in order, and
  at most 90 days apart as integers, so an overflowing difference does not get through; and whenever a
  window is accepted it is one of the named ranges ending now or such a custom one.\<close>

theorem export_window_exact:
  "(\<exists>d. parseExportWindow now q = Inr (f, t, d)) \<longleftrightarrow>
    (if q ''range'' = [] then
       atoi (q ''from'') = Some f \<and> atoi (q ''to'') = Some t \<and> f \<le> t \<and> t - f \<le> 90 * 86400
     else q ''from'' = [] \<and> q ''to'' = [] \<and> t = now \<and> f = now - range_length (rangeEcho q))"
proof (cases "q ''range'' = []")
  case True
  then show ?thesis using custom_window [of q now f t] by simp
next
  case False
  then show ?thesis
    using rangeSeconds_echo [of now q] by (auto simp: parseExportWindow_def Let_def)
qed

subsection \<open>Limits\<close>

lemma limitAPI_refuses: "\<not> en_api e \<Longrightarrow> limitAPI h e q s =
    (refused_429 ''1'' ''too many requests'', warn_api e [''request refused'', en_path e] s)"
  by (simp add: limitAPI_def)

lemma limitHeavy_refuses: "\<not> en_api e \<Longrightarrow> limitHeavy h e q s =
    (refused_429 ''1'' ''too many requests'', warn_api e [''aggregation refused'', en_path e] s)"
  by (simp add: limitHeavy_def)

text \<open>The endpoints whose queries aggregate or export without a limit on rows.\<close>

definition heavy_paths :: "bytes list" where
  "heavy_paths = map api_path [''summary'', ''ssh/timeline'', ''firewall/timeline'', ''attacks/geo'', ''export/attacks_csv'',
     ''export/csv'', ''export/table'', ''export/creds'']"

text \<open>C22: No endpoint but the health check escapes the limits. When the common token bucket is empty, every
  other path of the API answers 429 with Retry-After and does nothing but report the refusal; the
  aggregating and exporting paths do so also when their own bucket is empty.\<close>

theorem endpoints_limited:
  assumes "routes (en_path e) = Some h" "en_path e \<noteq> api_path ''health''"
    and "\<not> en_api e \<or> en_path e \<in> set heavy_paths \<and> \<not> en_heavy e"
  shows "\<exists>msg. serve e q s = Some (refused_429 ''1'' ''too many requests'', warn_api e msg s)"
proof -
  have "h e q s = (refused_429 ''1'' ''too many requests'', warn_api e [''request refused'', en_path e] s) \<or>
    h e q s = (refused_429 ''1'' ''too many requests'', warn_api e [''aggregation refused'', en_path e] s)"
    using assms unfolding routes_def heavy_paths_def
    by (auto simp: api_path_def limitAPI_def limitHeavy_def split: if_splits)
  then show ?thesis using assms(1) by (auto simp: serve_def)
qed

definition some_env :: "answer list \<Rightarrow> env" where
  "some_env as = \<lparr>en_path = api_path ''export/table'', en_now = 1778000000 * second, en_later = 1778000001 * second, en_ctx = False,
     en_api = False, en_heavy = True, en_reads = as, en_snapshot = None, en_banned = None, en_disk = Inl ''EIO'', en_dbsize = None,
     en_dir = None, en_overrun = 0, en_geo = None, en_accepts = None, en_numeric = (\<lambda>_. None), en_zone = fixed_zone 0\<rparr>"

theorem endpoints_limited_witness:
  "\<exists>msg. serve (some_env []) (params_of []) (NewServer [] True 0) =
    Some (refused_429 ''1'' ''too many requests'', warn_api (some_env []) msg (NewServer [] True 0))"
proof -
  have "routes (en_path (some_env [])) = Some (limitHeavy hExportTable)"
    by (simp add: some_env_def routes_def api_path_def)
  then show ?thesis
    by (rule endpoints_limited) (simp_all add: some_env_def api_path_def)
qed

subsection \<open>Exports\<close>

definition exported :: "zone \<Rightarrow> bytes \<times> (bytes \<times> col_format) list \<Rightarrow> row \<Rightarrow> bytes list" where
  "exported z spec r = map (\<lambda>cf. the (csv_cell z (fst spec) r cf)) (snd spec)"

definition delivered :: "(nat \<times> bytes) option \<Rightarrow> 'a list \<Rightarrow> 'a list" where
  "delivered stop xs = (case stop of None \<Rightarrow> xs | Some (k, _) \<Rightarrow> take k xs)"

lemma select_answered:
  "fst (select f (Answered d plan stop # rest)) = Inr (delivered stop (f d plan), map_option snd stop)"
  by (cases stop) (auto simp: select_def delivered_def)

lemma delivered_set: "set (delivered stop xs) \<subseteq> set xs"
  by (auto simp: delivered_def split: option.splits dest: in_set_takeD)

lemma stream_all: "en_accepts e = None \<Longrightarrow> fst (stream e mk nam text broke s) = \<lparr>rp_code = 200, rp_retry = [], rp_body = mk nam text\<rparr>"
  by (simp add: stream_def Let_def)

text \<open>C10: An exported table can be read back. When the database answers with rows the store has written,
  the file is in the format of RFC 4180 whatever bytes the rows hold: its records are the header, then
  one record for each row in the window, newest first, each cell the printed column; and it ends with
  the mark of truncation exactly when the query broke off, after the rows delivered until then.\<close>

theorem export_table_readable:
  assumes "exportTableSpecs (q ''type'') = Some spec" "parseExportWindow (seconds e) q = Inr (f, u, d)"
    and "by_writer ss" "visits plan" "en_reads e = Answered (tables_of ss) plan stop # rest" "en_accepts e = None"
  shows "\<exists>nam text rows. fst (hExportTable e q s) = \<lparr>rp_code = 200, rp_retry = [], rp_body = Sheet nam text\<rparr> \<and>
    mset rows = mset (filter (in_window f u) (tb_rows (tables_of ss) (fst spec))) \<and>
    sorted_wrt (\<lambda>a b. row_ts b \<le> row_ts a) rows \<and>
    csv_read text = Some (map fst (snd spec) # map (exported (en_zone e) spec) (delivered stop rows) @
      (if stop = None then [] else [[truncated_mark e]]))"
proof -
  let ?rows = "window_rows (fst spec) f u (tables_of ss) plan"
  have "set ?rows \<subseteq> set (tb_rows (tables_of ss) (fst spec))"
    using visits_set [OF assms(4)] by (auto simp: window_rows_def)
  then have "\<forall>r\<in>set (delivered stop ?rows). table_record (en_zone e) spec r = Some (exported (en_zone e) spec r)"
    using row_kinds [OF _ assms(3)] table_record_exists [OF _ assms(1)] delivered_set [of stop ?rows]
    by (auto simp: exported_def)
  then have r: "List.map_filter (table_record (en_zone e) spec) (delivered stop ?rows) = map (exported (en_zone e) spec) (delivered stop ?rows)"
    by (subst map_filter_exists) auto
  have "snd spec \<noteq> []" by (rule spec_nonempty [OF assms(1)])
  then have "csv_read (csv_write ((map fst (snd spec) # map (exported (en_zone e) spec) (delivered stop ?rows)) @
        (if map_option snd stop = None then [] else [[truncated_mark e]]))) =
      Some (map fst (snd spec) # map (exported (en_zone e) spec) (delivered stop ?rows) @
        (if stop = None then [] else [[truncated_mark e]]))"
    by (subst csv_roundtrip) (auto simp: exported_def)
  then show ?thesis
    using window_rows_exact [OF assms(4), of "fst spec" f u "tables_of ss"] assms(1,2,5,6) r
    by (auto simp: hExportTable_def select_answered stream_all intro!: exI [of _ ?rows])
qed

definition ban_written :: stmt where
  "ban_written = Insert ''ban_events'' [VInt 1777999000, VInt 1, VText ''ban'', VText ''a,b'']"

definition bans_export :: params where
  "bans_export = params_of [(''type'', ''bans''), (''range'', ''1h'')]"

lemma ban_written_by_writer: "by_writer [ban_written]"
proof -
  have "item_stmt \<lparr>it_kind = ''f2b'', it_v = AF2B \<lparr>be_ts = 1777999000, be_ip = 1, be_type = ''ban'', be_jail = ''a,b''\<rparr>\<rparr> = Inr ban_written"
    by (simp add: item_stmt_def insertStmts_def itemArgs_def ban_written_def)
  then show ?thesis by (auto simp: by_writer_def ban_written_def)
qed

theorem export_table_readable_witness:
  "\<exists>nam text. fst (hExportTable (some_env [Answered (tables_of [ban_written]) (\<lambda>rs. rs) None]) bans_export (NewServer [] True 0)) =
      \<lparr>rp_code = 200, rp_retry = [], rp_body = Sheet nam text\<rparr> \<and> (\<exists>rows. csv_read text = Some ([''ts'', ''ip'', ''type'', ''jail''] # rows) \<and> length rows = 1)"
proof -
  let ?e = "some_env [Answered (tables_of [ban_written]) (\<lambda>rs. rs) None]"
  have spec: "exportTableSpecs (bans_export ''type'') =
      Some (''ban_events'', [(''ts'', AsTime), (''ip'', AsAddress), (''type'', AsText), (''jail'', AsText)])"
    by (simp add: bans_export_def params_of_def exportTableSpecs_def)
  have win: "parseExportWindow (seconds ?e) bans_export = Inr (1777996400, 1778000000, 5 * second)"
    by (simp add: parseExportWindow_def rangeSeconds_def bans_export_def params_of_def seconds_def some_env_def unix_def Let_def)
  have reads: "en_reads ?e = Answered (tables_of [ban_written]) (\<lambda>rs. rs) None # []" "en_accepts ?e = None"
    by (simp_all add: some_env_def)
  have rows: "filter (in_window 1777996400 1778000000) (tb_rows (tables_of [ban_written]) ''ban_events'') =
      [(1, [VInt 1777999000, VInt 1, VText ''ban'', VText ''a,b''])]"
    by (simp add: tables_of_def ban_written_def empty_tables_def next_id_def in_window_def row_ts_def)
  show ?thesis
    using export_table_readable [OF spec win ban_written_by_writer visits_id reads, of "NewServer [] True 0"] rows
    by (fastforce simp: delivered_def dest: mset_eq_length)
qed

text \<open>Text of an attacker does not become a formula. In every table that is exported, a cell of the
  columns username, password, extra and detail does not begin with a character that a spreadsheet takes
  for a formula, and it is the recorded text when that is harmless already.\<close>

theorem cells_harmless:
  assumes "exportTableSpecs k = Some spec" "cf \<in> set (snd spec)" "fst cf \<in> {''username'', ''password'', ''extra'', ''detail''}"
    and "csv_cell z (fst spec) r cf = Some x"
  shows "harmless x \<and> (\<exists>v. text_cell (fst spec) (fst cf) r = Some v \<and> (x = v \<or> \<not> harmless v \<and> x = CHR 0x27 # v))"
proof -
  have "snd cf = AsSafeText"
    using assms(1-3) unfolding exportTableSpecs_def by (auto split: if_splits)
  then obtain v where "text_cell (fst spec) (fst cf) r = Some v" "x = sanitizeCSVCell v"
    using assms(4) by (auto simp: csv_cell_def)
  then show ?thesis using sanitize_harmless [of v] sanitize_id [of v]
    by (auto simp: sanitizeCSVCell_def split: list.splits)
qed

theorem cells_harmless_witness:
  "harmless (the (csv_cell (fixed_zone 0) ''cred_events'' (1, [VInt 5, VText ''ftp'', VInt 1, VText ''=1+2'', VText ''x'', VText []]) (''username'', AsSafeText)))"
proof -
  have "csv_cell (fixed_zone 0) ''cred_events'' (1, [VInt 5, VText ''ftp'', VInt 1, VText ''=1+2'', VText ''x'', VText []]) (''username'', AsSafeText) =
      Some (CHR 0x27 # ''=1+2'')"
    by (simp add: csv_cell_def text_cell_def cell_def schema_def sanitizeCSVCell_def formula_start_def)
  then show ?thesis
    using cells_harmless [of "''hp''" "(''cred_events'', snd (the (exportTableSpecs ''hp'')))" "(''username'', AsSafeText)" "fixed_zone 0"]
    by (auto simp: exportTableSpecs_def)
qed

text \<open>C37: An interrupted export of attacks looks complete. When the query breaks off after k rows, the
  answer is a success whose file has the records of these rows and nothing that tells it from the file
  of a database with just these.\<close>

theorem attack_export_cut:
  assumes "parseExportWindow (seconds e) q = Inr (f, u, d)" "en_reads e = Answered db plan (Some (k, err)) # rest" "en_accepts e = None"
  shows "\<exists>nam text. fst (hExportCSV e q s) = \<lparr>rp_code = 200, rp_retry = [], rp_body = Sheet nam text\<rparr> \<and>
    csv_read text = Some (map (attack_record (en_zone e)) (List.map_filter id (take k (attack_rows f u db plan))))"
proof -
  have "csv_read (csv_write (map (attack_record (en_zone e)) (List.map_filter id (take k (attack_rows f u db plan))))) =
      Some (map (attack_record (en_zone e)) (List.map_filter id (take k (attack_rows f u db plan))))"
    by (rule csv_roundtrip) (auto simp: attack_record_def)
  then show ?thesis using assms by (auto simp: hExportCSV_def select_answered delivered_def stream_all)
qed

theorem attack_export_cut_witness:
  "\<exists>nam text. fst (hExportCSV (some_env [Answered (tables_of []) (\<lambda>rs. rs) (Some (0, ''timeout''))]) (params_of [(''range'', ''1h'')]) (NewServer [] True 0)) =
      \<lparr>rp_code = 200, rp_retry = [], rp_body = Sheet nam text\<rparr> \<and> csv_read text = Some []"
proof -
  let ?e = "some_env [Answered (tables_of []) (\<lambda>rs. rs) (Some (0, ''timeout''))]"
  have "parseExportWindow (seconds ?e) (params_of [(''range'', ''1h'')]) = Inr (1777996400, 1778000000, 5 * second)"
    by (simp add: parseExportWindow_def rangeSeconds_def params_of_def seconds_def some_env_def unix_def Let_def)
  then show ?thesis
    using attack_export_cut [of ?e "params_of [(''range'', ''1h'')]" 1777996400 1778000000 "5 * second" "tables_of []" "\<lambda>rs. rs" 0 "''timeout''" "[]"]
    by (simp add: some_env_def List.map_filter_simps)
qed

subsection \<open>Dictionaries\<close>

definition good_pair :: "cred_entry \<Rightarrow> bool" where
  "good_pair g \<longleftrightarrow> usable g \<and> \<not> has_break (cd_user g @ cd_pass g)"

text \<open>C24: The dictionaries have one entry to a line, in the order of the aggregation, which is that of falling
  numbers of attempts. The pairs are exactly the usable groups without a line break. The passwords are
  those of the usable groups whose password has no line break, each at its first occurrence only,
  whatever users, protocols and counts it comes with.\<close>

theorem dictionaries_exact:
  assumes "parseExportWindow (seconds e) q = Inr (f, u, d)" "en_reads e = Answered db plan None # rest" "en_accepts e = None"
    and "gs = credAggQuery (in_window f u # proto_cond q (en_numeric e)) db plan" "q ''format'' \<in> {''pairs'', ''passwords''}"
  shows "sorted_wrt (\<lambda>a b. cd_count b \<le> cd_count a) gs \<and>
    (\<exists>nam text ls. fst (hExportCreds e q s) = \<lparr>rp_code = 200, rp_retry = [], rp_body = Lines nam text\<rparr> \<and>
      split_on LF text = ls @ [[]] \<and>
      (if q ''format'' = ''pairs'' then ls = map (\<lambda>g. cd_user g @ CHR '':'' # cd_pass g) (filter good_pair gs)
       else ls = first_uses (map cd_pass (filter good_word gs)) \<and> distinct ls \<and>
         set ls = {cd_pass g | g. g \<in> set gs \<and> usable g \<and> \<not> has_break (cd_pass g)}))"
proof (rule conjI)
  show "sorted_wrt (\<lambda>a b. cd_count b \<le> cd_count a) gs"
    using assms(4) most_attempts_first by simp
next
  show "\<exists>nam text ls. fst (hExportCreds e q s) = \<lparr>rp_code = 200, rp_retry = [], rp_body = Lines nam text\<rparr> \<and>
      split_on LF text = ls @ [[]] \<and>
      (if q ''format'' = ''pairs'' then ls = map (\<lambda>g. cd_user g @ CHR '':'' # cd_pass g) (filter good_pair gs)
       else ls = first_uses (map cd_pass (filter good_word gs)) \<and> distinct ls \<and>
         set ls = {cd_pass g | g. g \<in> set gs \<and> usable g \<and> \<not> has_break (cd_pass g)})"
  proof (cases "q ''format'' = ''pairs''")
  case True
  have "split_on LF (concat (map (\<lambda>l. l @ [LF]) (map (\<lambda>g. cd_user g @ CHR '':'' # cd_pass g) (filter good_pair gs)))) =
      map (\<lambda>g. cd_user g @ CHR '':'' # cd_pass g) (filter good_pair gs) @ [[]]"
    by (rule split_lines) (auto simp: good_pair_def has_break_def)
  moreover have "fst (pair_lines gs) = concat (map (\<lambda>l. l @ [LF]) (map (\<lambda>g. cd_user g @ CHR '':'' # cd_pass g) (filter good_pair gs)))"
    by (simp add: pair_lines_def Let_def pair_line_def [abs_def] good_pair_def [abs_def] comp_def conj_commute)
  ultimately show ?thesis
    using True assms by (auto simp: hExportCreds_def select_answered delivered_def dictionary_def Let_def)
next
  case False
  obtain ws n where p: "password_loop gs [] 0 = (ws, n)" by force
  then have w: "ws = first_uses (map cd_pass (filter good_word gs))"
    using password_loop_first_uses by fastforce
  then have m: "distinct ws" "set ws = {cd_pass g | g. g \<in> set gs \<and> usable g \<and> \<not> has_break (cd_pass g)}"
    by (auto simp: good_word_def)
  then have "split_on LF (concat (map (\<lambda>l. l @ [LF]) ws)) = ws @ [[]]"
    by (intro split_lines) (auto simp: has_break_def)
  then show ?thesis
    using False assms p w [symmetric] m
    by (auto simp: hExportCreds_def select_answered delivered_def dictionary_def password_lines_def Let_def)
qed
qed

text \<open>The dictionaries hold recovered passwords only. A usable group is of a protocol whose passwords
  are captured in plain; and for MSSQL no row of the group has the text the handler writes when it could
  not undo the obfuscation, since that text is the larger of the two and the aggregation keeps it.\<close>

theorem passwords_recovered:
  assumes "visits plan" "g \<in> set (credAggQuery conds db plan)" "usable g"
    and "\<forall>r\<in>set (tb_rows db ''cred_events''). \<forall>u w x t ip. read_cred r = Some (''mssql'', u, w, x, t, ip) \<longrightarrow>
      x \<in> {tds_plain_extra, tds_hex_extra}"
  shows "KindOf (cd_proto g) = Some KindPlaintext \<and>
    (\<forall>r\<in>set (tb_rows db ''cred_events''). \<forall>x t ip. cd_proto g = ''mssql'' \<longrightarrow> all_conds conds r \<longrightarrow>
      read_cred r = Some (''mssql'', cd_user g, cd_pass g, x, t, ip) \<longrightarrow> x = tds_plain_extra)"
  using usable_kind [OF assms(3)] recovered [OF assms(1-3) _ assms(4)] by blast

definition cred_rows :: "bytes \<Rightarrow> tables" where
  "cred_rows extra = tables_of [Insert ''cred_events'' [VInt 1777999000, VText ''mssql'', VInt 1, VText ''sa'', VText ''pw'', VText extra]]"

lemma cred_rows_rows: "tb_rows (cred_rows x) ''cred_events'' = [(1, [VInt 1777999000, VText ''mssql'', VInt 1, VText ''sa'', VText ''pw'', VText x])]"
  by (simp add: cred_rows_def tables_of_def empty_tables_def next_id_def)

lemma cred_rows_read: "read_cred (1, [VInt 1777999000, VText ''mssql'', VInt 1, VText ''sa'', VText ''pw'', VText x]) =
    Some (''mssql'', ''sa'', ''pw'', x, 1777999000, 1)"
  by (simp add: read_cred_def text_cell_def int_cell_def cell_def schema_def row_ts_def)

definition sa_entry :: cred_entry where
  "sa_entry = \<lparr>cd_proto = ''mssql'', cd_user = ''sa'', cd_pass = ''pw'', cd_extra = tds_plain_extra, cd_count = 1,
     cd_first = 1777999000, cd_last = 1777999000, cd_srcs = 1\<rparr>"

lemma sa_entry_found: "in_window 1777996400 1778000000 = w \<Longrightarrow> credAggQuery [w] (cred_rows tds_plain_extra) (\<lambda>rs. rs) = [sa_entry]"
proof -
  assume "in_window 1777996400 1778000000 = w"
  then have "w (1, [VInt 1777999000, VText ''mssql'', VInt 1, VText ''sa'', VText ''pw'', VText tds_plain_extra])"
    by (auto simp: in_window_def row_ts_def)
  moreover have "text_max [tds_plain_extra] = tds_plain_extra" by (simp add: text_max_def tds_eval)
  ultimately show ?thesis
    by (simp add: credAggQuery_def Let_def cred_rows_rows all_conds_def List.map_filter_simps cred_rows_read cred_group_def
        cred_key_def sa_entry_def int_min_def int_max_def)
qed

lemma sa_entry_usable: "usable sa_entry"
  using credKind_mssql by (simp add: usable_def sa_entry_def)

theorem passwords_recovered_witness:
  "KindOf (cd_proto sa_entry) = Some KindPlaintext"
  using passwords_recovered [OF visits_id, of sa_entry "[in_window 1777996400 1778000000]" "cred_rows tds_plain_extra"]
  by (simp add: sa_entry_found sa_entry_usable cred_rows_rows cred_rows_read)

theorem dictionaries_exact_witness:
  "\<exists>nam text. fst (hExportCreds (some_env [Answered (cred_rows tds_plain_extra) (\<lambda>rs. rs) None])
      (params_of [(''format'', ''pairs''), (''range'', ''1h'')]) (NewServer [] True 0)) =
      \<lparr>rp_code = 200, rp_retry = [], rp_body = Lines nam text\<rparr> \<and> split_on LF text = [''sa:pw'', []]"
proof -
  let ?e = "some_env [Answered (cred_rows tds_plain_extra) (\<lambda>rs. rs) None]"
  let ?q = "params_of [(''format'', ''pairs''), (''range'', ''1h'')]"
  have "parseExportWindow (seconds ?e) ?q = Inr (1777996400, 1778000000, 5 * second)"
    by (simp add: parseExportWindow_def rangeSeconds_def params_of_def seconds_def some_env_def unix_def Let_def)
  moreover have "proto_cond ?q (en_numeric ?e) = []" by (simp add: proto_cond_def params_of_def)
  moreover have "good_pair sa_entry" using sa_entry_usable by (simp add: good_pair_def sa_entry_def has_break_def)
  ultimately show ?thesis
    using dictionaries_exact [of ?e ?q 1777996400 1778000000 "5 * second" "cred_rows tds_plain_extra" "\<lambda>rs. rs" "[]" "[sa_entry]" "NewServer [] True 0"]
    by (simp add: some_env_def sa_entry_found params_of_def) (simp add: sa_entry_def)
qed

end
