(* ===== verification/ApiFlow.thy ===== *)
theory ApiFlow
  imports "HOL-Library.Sublist" ApiWs
begin

text \<open>Lemmas on the hourly timeline, the cursors of the push loop and the queues of the hub.\<close>

subsection \<open>The timeline\<close>

lemma hour_of_pos: "0 \<le> t \<Longrightarrow> hour_of t = t div 3600 * 3600"
  by (simp add: hour_of_def quot_trunc_def)

lemma hour_of_ge: "0 < h \<Longrightarrow> h \<le> hour_of t \<Longrightarrow> h \<le> t"
proof (cases "0 \<le> t")
  case True
  assume "h \<le> hour_of t"
  then show ?thesis using True div_mult_mod_eq [of t 3600] pos_mod_sign [of 3600 t] by (simp add: hour_of_pos)
next
  case False
  assume a: "0 < h" "h \<le> hour_of t"
  have "0 \<le> (- t) div 3600" using False by (simp add: pos_imp_zdiv_nonneg_iff)
  then show ?thesis using False a by (simp add: hour_of_def quot_trunc_def)
qed

definition bucket_of :: "bucket list \<Rightarrow> int \<Rightarrow> bucket" where
  "bucket_of got h = (case map_of got h of Some v \<Rightarrow> (h, v) | None \<Rightarrow> (h, [0, 0, 0, 0]))"

lemma fill_hours_all:
  "length out + n \<le> 1000 \<Longrightarrow> h + 3600 * int n \<le> now + 3600 \<Longrightarrow> now < h + 3600 * int n \<Longrightarrow>
    fill_hours got h now out = out @ map (\<lambda>k. bucket_of got (h + 3600 * int k)) [0..<n]"
proof (induction n arbitrary: h out)
  case 0
  then show ?case by (simp add: fill_hours.simps)
next
  case (Suc n)
  have step: "fill_hours got h now out =
      (if 1000 \<le> length out + 1 then out @ [bucket_of got h] else fill_hours got (h + 3600) now (out @ [bucket_of got h]))"
    using Suc.prems(2) by (subst fill_hours.simps) (simp add: bucket_of_def Let_def)
  have "map (\<lambda>k. bucket_of got (h + 3600 * int k)) [0..<Suc n] =
      bucket_of got h # map (\<lambda>k. bucket_of got (h + 3600 + 3600 * int k)) [0..<n]"
    by (subst upt_conv_Cons) (simp_all add: map_Suc_upt [symmetric] comp_def algebra_simps del: upt_Suc)
  moreover have "fill_hours got (h + 3600) now (out @ [bucket_of got h]) =
      (out @ [bucket_of got h]) @ map (\<lambda>k. bucket_of got (h + 3600 + 3600 * int k)) [0..<n]"
    using Suc.prems by (intro Suc.IH) auto
  moreover have "n = 0" if "1000 \<le> length out + 1" using Suc.prems(1) that by simp
  ultimately show ?case using step by auto
qed

lemma bucket_exact:
  assumes "0 < since" "since \<le> h"
  shows "bucket_of (fw_hours since d) h = hour_bucket (tb_rows d ''firewall_events'') h"
proof -
  let ?all = "tb_rows d ''firewall_events''"
  let ?rs = "filter (ts_from since) ?all"
  let ?hs = "sort (remdups (map (\<lambda>r. hour_of (row_ts r)) ?rs))"
  have same: "filter (\<lambda>r. ts_from since r \<and> hour_of (row_ts r) = h \<and> P r) ?all = filter (\<lambda>r. hour_of (row_ts r) = h \<and> P r) ?all" for P
    using hour_of_ge [of since] assms by (auto simp: ts_from_def intro!: filter_cong)
  have b: "hour_bucket ?rs h = hour_bucket ?all h" by (simp add: hour_bucket_def same)
  have m: "map_of (map (hour_bucket rs) hs) h = (if h \<in> set hs then Some (snd (hour_bucket rs h)) else None)" for rs hs
    by (induction hs) (auto simp: hour_bucket_def)
  show ?thesis
  proof (cases "h \<in> set ?hs")
    case True
    then have "map_of (fw_hours since d) h = Some (snd (hour_bucket ?rs h))"
      by (simp add: fw_hours_def Let_def m)
    then show ?thesis using b by (simp add: bucket_of_def) (simp add: hour_bucket_def)
  next
    case False
    then have "map_of (fw_hours since d) h = None" by (simp add: fw_hours_def Let_def m)
    moreover have "hour_bucket ?rs h = (h, [0, 0, 0, 0])"
      using False by (auto simp: hour_bucket_def actions_def filter_empty_conv)
    ultimately show ?thesis using b by (simp add: bucket_of_def)
  qed
qed

subsection \<open>Cursors\<close>

text \<open>
  The versions of the table seen by successive polls: an id is retained from the version before, or
  greater than every id that ever was.
\<close>

fun steady :: "int \<Rightarrow> int list \<Rightarrow> int list list \<Rightarrow> bool" where
  "steady high prev [] = True"
| "steady high prev (ids # rest) =
    (distinct ids \<and> (\<forall>i\<in>set ids. i \<in> set prev \<or> high < i) \<and> steady (foldl max high ids) ids rest)"

fun cursor_counts :: "int \<Rightarrow> int list list \<Rightarrow> int list" where
  "cursor_counts c [] = []"
| "cursor_counts c (ids # rest) = count_after c ids # cursor_counts (max_or c ids) rest"

lemma foldl_max: "foldl max (a :: int) xs = Max (insert a (set xs))"
proof (induction xs arbitrary: a)
  case (Cons x xs)
  then show ?case by (cases "xs = []") (auto simp: ac_simps)
qed simp

lemma cursor_counts_card:
  assumes "steady high prev vs" "c \<le> high" "\<forall>i\<in>set prev. i \<le> c"
  shows "sum_list (cursor_counts c vs) = int (card (\<Union> (set ` set vs) - set prev)) \<and> (\<forall>i\<in>\<Union> (set ` set vs). i \<in> set prev \<or> high < i)"
  using assms
proof (induction vs arbitrary: high prev c)
  case Nil
  then show ?case by simp
next
  case (Cons ids vs)
  let ?h = "foldl max high ids" and ?c = "max_or c ids"
  have ge: "high \<le> ?h" "\<forall>i\<in>set ids. i \<le> ?h" by (auto simp: foldl_max)
  have c: "?c \<le> ?h \<and> (\<forall>i\<in>set ids. i \<le> ?c)"
    using Cons.prems(2) ge by (cases ids) (auto simp: max_or_def foldl_max)
  have IH: "sum_list (cursor_counts ?c vs) = int (card (\<Union> (set ` set vs) - set ids))"
    "\<forall>i\<in>\<Union> (set ` set vs). i \<in> set ids \<or> ?h < i"
    using Cons.IH [of ?h ids ?c] Cons.prems(1) c by auto
  have new: "i \<in> set ids \<Longrightarrow> c < i \<longleftrightarrow> i \<notin> set prev" for i
    using Cons.prems by fastforce
  have "count_after c ids = int (card (set ids - set prev))"
  proof -
    have "distinct (filter (\<lambda>i. c < i) ids)" using Cons.prems(1) by simp
    then have "length (filter (\<lambda>i. c < i) ids) = card (set (filter (\<lambda>i. c < i) ids))" by (simp only: distinct_card)
    also have "set (filter (\<lambda>i. c < i) ids) = set ids - set prev" using new by auto
    finally show ?thesis by (simp add: count_after_def)
  qed
  moreover have "\<Union> (set ` set (ids # vs)) - set prev = (set ids - set prev) \<union> (\<Union> (set ` set vs) - set ids)"
    using IH(2) Cons.prems ge by fastforce
  moreover have "(set ids - set prev) \<inter> (\<Union> (set ` set vs) - set ids) = {}" by auto
  ultimately have "sum_list (cursor_counts c (ids # vs)) = int (card (\<Union> (set ` set (ids # vs)) - set prev))"
    using IH(1) by (simp add: card_Un_disjoint)
  moreover have "\<forall>i\<in>\<Union> (set ` set (ids # vs)). i \<in> set prev \<or> high < i"
    using IH(2) Cons.prems(1) ge(1) by fastforce
  ultimately show ?case by blast
qed

text \<open>What the loop counts: the numbers of its statistics frames, and the tables its polls saw.\<close>

fun conn_counts :: "push \<Rightarrow> push_tick list \<Rightarrow> (int \<times> int) list" where
  "conn_counts p [] = []"
| "conn_counts p (t # ts) =
    (case t of StatTick e \<Rightarrow>
       (case fst (frameConnStats (pu_new p) (pu_dest p) (en_reads e)) of None \<Rightarrow> [] | Some (n, d, _, _) \<Rightarrow> [(n, d)])
     | _ \<Rightarrow> []) @ conn_counts (push_step t p) ts"

definition polled :: "push_tick \<Rightarrow> tables list" where
  "polled t = (case t of StatTick e \<Rightarrow> (case en_reads e of Answered d plan None # rest \<Rightarrow> [d] | _ \<Rightarrow> []) | _ \<Rightarrow> [])"

lemma stat_tick_cursors:
  "(pu_new (stat_tick e p), pu_dest (stat_tick e p)) =
    (case fst (frameConnStats (pu_new p) (pu_dest p) (en_reads e)) of None \<Rightarrow> (pu_new p, pu_dest p)
     | Some (n, d, nm, dm) \<Rightarrow> (nm, dm))"
  by (auto simp: stat_tick_def Let_def split: option.splits prod.splits)

lemma frameConnStats_polled:
  "fst (frameConnStats a b (en_reads e)) =
    (case polled (StatTick e) of d # _ \<Rightarrow> Some (count_after a (event_ids 1 d), count_after b (event_ids 3 d),
        max_or a (event_ids 1 d), max_or b (event_ids 3 d)) | [] \<Rightarrow> None)"
  by (auto simp: frameConnStats_def polled_def select_row_def split: list.splits answer.splits option.splits)

lemma polled_cases: "polled t = [] \<or> (\<exists>d. polled t = [d])"
  by (auto simp: polled_def split: push_tick.splits list.splits answer.splits option.splits)

lemma conn_counts_cursors:
  "map fst (conn_counts p ts) = cursor_counts (pu_new p) (map (event_ids 1) (concat (map polled ts))) \<and>
   map snd (conn_counts p ts) = cursor_counts (pu_dest p) (map (event_ids 3) (concat (map polled ts)))"
proof (induction ts arbitrary: p)
  case (Cons t ts)
  show ?case
  proof (cases t)
    case (StatTick e)
    show ?thesis
      using Cons [of "stat_tick e p"] polled_cases [of t] stat_tick_cursors [of e p] StatTick
      by (auto simp: frameConnStats_polled)
  next
    case (ResourceTick e)
    then show ?thesis using Cons [of "push_step t p"]
      by (auto simp: polled_def split: option.splits)
  next
    case (HeartTick e)
    then show ?thesis using Cons [of "push_step t p"] by (auto simp: polled_def)
  qed
qed simp

subsection \<open>Queues of the hub\<close>

definition written_to :: "nat \<Rightarrow> ws_hub \<Rightarrow> gval list" where
  "written_to c h = map snd (filter (\<lambda>x. fst x = c) (wh_written h))"

definition queue_of :: "nat \<Rightarrow> ws_hub \<Rightarrow> gval list" where
  "queue_of c h = (case map_of (wh_clients h) c of None \<Rightarrow> [] | Some q \<Rightarrow> ch_buf q)"

fun frames_of :: "ws_input list \<Rightarrow> gval list" where
  "frames_of [] = []"
| "frames_of (Broadcast f # is) = f # frames_of is"
| "frames_of (_ # is) = frames_of is"

lemma frames_of_append [simp]: "frames_of (is @ js) = frames_of is @ frames_of js"
  by (induction "is" rule: frames_of.induct) auto

definition hub_inv :: "api \<Rightarrow> gval list \<Rightarrow> ws_hub \<Rightarrow> bool" where
  "hub_inv s fs h \<longleftrightarrow> int (length (wh_clients h)) \<le> max 0 (ap_wsMaxConns s) \<and>
     distinct (map fst (wh_clients h)) \<and> (\<forall>(c, q)\<in>set (wh_clients h). ch_cap q = wsQueue \<and> chan_ok q) \<and>
     (\<forall>c. subseq (written_to c h @ queue_of c h) fs)"

lemma subseq_left: "subseq (xs @ ys) zs \<Longrightarrow> subseq xs zs"
  using subseq_order.trans [OF subseq_rev_drop_many [OF subseq_order.refl]] by blast

lemma hub_inv_remove: "hub_inv s fs h \<Longrightarrow> hub_inv s fs (ws_remove c h)"
proof -
  assume a: "hub_inv s fs h"
  have "map_of (filter (\<lambda>x. fst x \<noteq> c) xs) d = (if d = c then None else map_of xs d)" for xs :: "(nat \<times> gval chan) list" and d
    by (induction xs) auto
  then have q: "queue_of d (ws_remove c h) = (if d = c then [] else queue_of d h)" for d
    by (simp add: queue_of_def ws_remove_def)
  have w: "written_to d (ws_remove c h) = written_to d h" for d by (simp add: written_to_def ws_remove_def)
  have s: "subseq (written_to d h @ queue_of d h) fs" for d using a by (simp add: hub_inv_def)
  then have "subseq (written_to d h @ queue_of d (ws_remove c h)) fs" for d
    using q subseq_left [OF s] by simp
  moreover have "int (length (wh_clients h)) \<le> max 0 (ap_wsMaxConns s)" using a by (simp add: hub_inv_def)
  then have "int (length (filter (\<lambda>x. fst x \<noteq> c) (wh_clients h))) \<le> max 0 (ap_wsMaxConns s)"
    by (rule order_trans [rotated]) (simp add: length_filter_le)
  ultimately show ?thesis
    using a w by (auto simp: hub_inv_def ws_remove_def distinct_map_filter)
qed

lemma hub_inv_broadcast:
  assumes "hub_inv s fs h"
  shows "hub_inv s (fs @ [f]) (broadcast f h)"
proof -
  let ?g = "\<lambda>(c, q). (c, snd (try_send f q))"
  have m: "map_of (map ?g xs) d = map_option (\<lambda>q. snd (try_send f q)) (map_of xs d)" for xs :: "(nat \<times> gval chan) list" and d
    by (induction xs) auto
  have q: "queue_of d (broadcast f h) = queue_of d h @ [f] \<or> queue_of d (broadcast f h) = queue_of d h" for d
    by (cases "map_of (wh_clients h) d") (simp_all add: queue_of_def broadcast_def m chan.send_contents)
  have w: "written_to d (broadcast f h) = written_to d h" for d by (simp add: written_to_def broadcast_def)
  have "subseq (written_to d h @ queue_of d (broadcast f h)) (fs @ [f])" for d
  proof -
    have "subseq (written_to d h @ queue_of d h) fs" using assms by (simp add: hub_inv_def)
    then show ?thesis
      using q [of d] subseq_rev_drop_many [of "written_to d h @ queue_of d h" fs "[f]"]
        subseq_append [of "written_to d h @ queue_of d h" "[f]" fs] by auto
  qed
  moreover have "map fst (map ?g xs) = map fst xs" for xs :: "(nat \<times> gval chan) list" by (induction xs) auto
  ultimately show ?thesis
    using assms w unfolding hub_inv_def
    by (auto simp: broadcast_def chan.send_bound chan.send_inv simp del: map_map)
qed

lemma hub_inv_write:
  assumes "hub_inv s fs h"
  shows "hub_inv s fs (write_frame c ok h)"
proof (cases "map_of (wh_clients h) c")
  case None
  then show ?thesis using assms by (simp add: write_frame_def)
next
  case (Some q)
  show ?thesis
  proof (cases "try_recv q")
    case None
    then show ?thesis using assms Some by (simp add: write_frame_def)
  next
    case r: (Some x)
    obtain f q' where x: "x = (f, q')" by force
    have q: "ch_buf q = f # ch_buf q'" "ch_cap q' = ch_cap q" using chan.recv_next [of q f q'] r x by auto
    show ?thesis
    proof (cases ok)
      case False
      then show ?thesis using Some r x hub_inv_remove [OF assms] by (simp add: write_frame_def)
    next
      case True
      let ?xs = "map (\<lambda>x. if fst x = c then (c, q') else x) (wh_clients h)"
      have h: "write_frame c ok h = h\<lparr>wh_clients := ?xs, wh_written := wh_written h @ [(c, f)]\<rparr>"
        using True Some r x by (simp add: write_frame_def)
      have "map_of (map (\<lambda>x. if fst x = c then (c, q') else x) xs) d =
          (if d = c then map_option (\<lambda>_. q') (map_of xs c) else map_of xs d)" for xs d
        by (induction xs) auto
      then have "written_to d (write_frame c ok h) @ queue_of d (write_frame c ok h) = written_to d h @ queue_of d h" for d
        using h Some q by (auto simp: written_to_def queue_of_def)
      moreover have "map fst (map (\<lambda>x. if fst x = c then (c, q') else x) xs) = map fst xs" for xs
        by (induction xs) auto
      moreover have "(c, q) \<in> set (wh_clients h)" by (rule map_of_SomeD [OF Some])
      then have "ch_cap q' = wsQueue \<and> chan_ok q'"
        using assms chan.recv_inv [of q f q'] r x q by (auto simp: hub_inv_def)
      ultimately show ?thesis using assms h unfolding hub_inv_def by (auto simp del: map_map)
    qed
  qed
qed

lemma hub_inv_join:
  assumes "hub_inv s fs h" "c \<notin> fst ` set (wh_clients h)" "c \<notin> fst ` set (wh_written h)" "tryAdd c (ap_wsMaxConns s) h = (ok, h')"
  shows "hub_inv s fs h'"
proof (cases ok)
  case False
  then show ?thesis using assms by (auto simp: tryAdd_def split: if_splits)
next
  case True
  then have h: "h' = h\<lparr>wh_clients := wh_clients h @ [(c, make_chan wsQueue)]\<rparr>" and l: "int (length (wh_clients h)) < ap_wsMaxConns s"
    using assms(4) by (auto simp: tryAdd_def split: if_splits)
  have "queue_of d h' = queue_of d h" for d
    using h by (cases "map_of (wh_clients h) d") (auto simp: queue_of_def make_chan_def map_add_def)
  moreover have "written_to d h' = written_to d h" for d using h by (simp add: written_to_def)
  ultimately have "subseq (written_to d h' @ queue_of d h') fs" for d
    using assms(1) by (simp add: hub_inv_def)
  then show ?thesis
    using assms(1,2) h l unfolding hub_inv_def by (auto simp: make_chan_def chan_ok_def)
qed

lemma hub_inv_step: "hub_inv s fs h \<Longrightarrow> hub_inv s (fs @ frames_of [i]) (ws_step s i h)"
proof (cases i)
  case (Handshake origin c upgrades)
  assume a: "hub_inv s fs h"
  obtain ok h1 where t: "tryAdd c (ap_wsMaxConns s) h = (ok, h1)" by force
  show ?thesis
  proof (cases "c \<in> fst ` set (wh_clients h) \<or> c \<in> fst ` set (wh_written h)")
    case False
    then have "hub_inv s fs h1" using hub_inv_join [OF a _ _ t] by simp
    then show ?thesis using a Handshake False t hub_inv_remove [of s fs h1 c] by (cases ok) (auto simp: handshake_def)
  qed (use a Handshake in simp)
qed (simp_all add: hub_inv_broadcast hub_inv_write hub_inv_remove)

lemma hub_inv_run: "hub_inv s (frames_of is) (ws_run s is)"
proof (induction "is" rule: rev_induct)
  case Nil
  show ?case by (simp add: ws_run_def hub_inv_def newWSHub_def written_to_def queue_of_def)
next
  case (snoc i "is")
  then show ?case using hub_inv_step by (simp add: ws_run_def)
qed

end
