(* ===== verification/PropPush.thy ===== *)
theory PropPush
  imports ApiFlow
begin

text \<open>
  What the timeline of the API and the pushed frames promise: every hour is there, every event is counted
  once as long as ids are not reused, and a client gets frames in order within bounds.
\<close>

definition quiet_env :: "answer list \<Rightarrow> env" where
  "quiet_env as = \<lparr>en_path = [], en_now = 1778000000 * second, en_later = 1778000001 * second, en_ctx = False,
     en_api = True, en_heavy = True, en_reads = as, en_snapshot = None, en_banned = None, en_disk = Inl ''EIO'', en_dbsize = None,
     en_dir = None, en_overrun = 0, en_geo = None, en_accepts = None, en_numeric = (\<lambda>_. None), en_zone = fixed_zone 0\<rparr>"

subsection \<open>The timeline\<close>

text \<open>C25: The firewall timeline is complete. When the database answers, it has a bucket for every hour from
  the hour the range begins in to the present hour, consecutive and without gaps, each with the numbers
  of all events of that hour by action, also those before the first second of the range; the cap of a
  thousand buckets cuts nothing off.\<close>

theorem timeline_complete:
  assumes "en_reads e = Answered db plan None # rest" "3600 \<le> rangeSeconds (seconds e) q"
    and "seconds e \<le> unix (en_later e)" "unix (en_later e) \<le> seconds e + 86400"
  shows "\<exists>first n. fst (hFirewallTimeline e q s) = writeJSON 200 (GObj [(''range'', GStr (rangeEcho q)), (''granularity'', GStr ''1h''),
      (''buckets'', GArr (map (\<lambda>k. bucket_value (hour_bucket (tb_rows db ''firewall_events'') (first + 3600 * int k))) [0..<Suc n]))]) \<and>
    first = hour_of (rangeSeconds (seconds e) q) \<and> first + 3600 * int n = hour_of (unix (en_later e))"
proof -
  let ?from = "rangeSeconds (seconds e) q" and ?now = "unix (en_later e)"
  let ?first = "hour_of ?from"
  define n where "n = nat ((hour_of ?now - ?first) div 3600)"
  have pos: "0 \<le> ?from" "0 \<le> ?now" "?from \<le> ?now" "?now \<le> ?from + 31 * 86400"
    using assms(2-4) by (auto simp: rangeSeconds_echo range_length_def split: if_splits)
  have f: "?first = ?from div 3600 * 3600" "hour_of ?now = ?now div 3600 * 3600" using pos by (simp_all add: hour_of_pos)
  have d: "?from div 3600 \<le> ?now div 3600" "?now div 3600 \<le> ?from div 3600 + 745"
    using pos by (auto intro: zdiv_mono1)
  have "hour_of ?now - ?first = 3600 * (?now div 3600 - ?from div 3600)" using f by simp
  then have n: "int n = ?now div 3600 - ?from div 3600" using d by (simp add: n_def)
  have first: "0 < ?first" using assms(2) f(1) by (simp add: pos_imp_zdiv_pos_iff)
  have "fill_hours got ?first ?now [] = [] @ map (\<lambda>k. bucket_of got (?first + 3600 * int k)) [0..<Suc n]" for got
    using n f d div_mult_mod_eq [of ?now 3600] pos_mod_bound [of 3600 ?now] pos_mod_sign [of 3600 ?now]
    by (intro fill_hours_all) auto
  then have "fill_hours (fw_hours ?first db) ?first ?now [] =
      map (\<lambda>k. hour_bucket (tb_rows db ''firewall_events'') (?first + 3600 * int k)) [0..<Suc n]"
    using first by (simp add: bucket_exact)
  moreover have "?first + 3600 * int n = hour_of ?now" using n f by simp
  ultimately show ?thesis
    using assms(1) by (intro exI [of _ ?first] exI [of _ n])
      (simp add: hFirewallTimeline_def select_def Let_def declared_def comp_def del: upt_Suc)
qed

theorem timeline_complete_witness:
  "\<exists>bs. rp_body (fst (hFirewallTimeline (quiet_env [Answered (tables_of []) (\<lambda>rs. rs) None]) (params_of [(''range'', ''1h'')]) (NewServer [] True 0))) =
    Json (GObj [(''range'', GStr ''1h''), (''granularity'', GStr ''1h''), (''buckets'', GArr bs)]) \<and> length bs = 2"
proof -
  have h: "hour_of 1777996400 = 1777993200" "hour_of 1778000001 = 1777996800" by (simp_all add: hour_of_def quot_trunc_def)
  show ?thesis
    using timeline_complete [of "quiet_env [Answered (tables_of []) (\<lambda>rs. rs) None]" "tables_of []" "\<lambda>rs. rs" "[]" "params_of [(''range'', ''1h'')]" "NewServer [] True 0"] h
    by (auto simp: quiet_env_def seconds_def unix_def rangeSeconds_def rangeEcho_def params_of_def writeJSON_def simp del: upt_Suc)
qed

subsection \<open>The pushed counters\<close>

text \<open>C23: The pushed counters count each connection event once. For any ticks in any order, some of whose
  polls may fail: if in the versions of the table that the polls saw, ids are only retained or new and
  greater than all before, then the numbers of new connections that were pushed add up to the number of
  different NEW events that were ever seen, and likewise for destroyed ones.\<close>

theorem conn_stats_exact:
  assumes "steady 0 [] (map (event_ids 1) (concat (map polled ts)))" "steady 0 [] (map (event_ids 3) (concat (map polled ts)))"
  shows "sum_list (map fst (conn_counts (push_start h s) ts)) = int (card (\<Union>d\<in>set (concat (map polled ts)). set (event_ids 1 d))) \<and>
    sum_list (map snd (conn_counts (push_start h s) ts)) = int (card (\<Union>d\<in>set (concat (map polled ts)). set (event_ids 3 d)))"
  using cursor_counts_card [OF assms(1), of 0] cursor_counts_card [OF assms(2), of 0]
    conn_counts_cursors [of "push_start h s" ts]
  by (simp add: push_start_def image_image)

text \<open>Tables as the store leaves them: two NEW events, then the rest of an empty table.\<close>

definition new_at :: "int \<Rightarrow> stmt" where
  "new_at t = Insert ''connections'' [VInt t, VInt 1, VInt 6, VInt 1, VInt 2, VInt 3, VInt 4, VInt 0, VInt 0, VInt 0, VText [], VText []]"

definition poll :: "stmt list \<Rightarrow> push_tick" where
  "poll ss = StatTick (quiet_env [Answered (tables_of ss) (\<lambda>rs. rs) None])"

lemma polled_poll [simp]: "polled (poll ss) = [tables_of ss]"
  by (simp add: polled_def poll_def quiet_env_def)

lemma event_ids_new:
  "event_ids 1 (tables_of [new_at 5]) = [1]" "event_ids 3 (tables_of [new_at 5]) = []"
  "event_ids 1 (tables_of [new_at 5, new_at 6]) = [1, 2]" "event_ids 3 (tables_of [new_at 5, new_at 6]) = []"
  "event_ids 1 (tables_of [new_at 5, new_at 6, DeleteOld ''connections'' 9 500, new_at 9]) = [1]"
  by (simp_all add: event_ids_def tables_of_def new_at_def empty_tables_def next_id_def int_cell_def cell_def schema_def
      in_batch_def old_row_def row_ts_def oldest_ids_def)

theorem conn_stats_exact_witness:
  "sum_list (map fst (conn_counts (push_start newWSHub (NewServer [] True 0)) [poll [new_at 5], poll [new_at 5, new_at 6]])) = 2"
  using conn_stats_exact [of "[poll [new_at 5], poll [new_at 5, new_at 6]]" newWSHub "NewServer [] True 0"]
  by (simp add: event_ids_new insert_commute del: conn_counts.simps)

text \<open>C38: Events whose ids are reused are never counted. When a poll sees NEW events whose ids are none
  greater than one the cursor has passed, it pushes zero for them, and so does every later poll of the
  same table, since the cursor falls to their greatest id.\<close>

theorem reused_ids_missed:
  assumes "polled t1 = [d1]" "polled t2 = [d2]" "event_ids 1 d2 \<noteq> []"
    and "\<forall>i\<in>set (event_ids 1 d2). \<exists>j\<in>set (event_ids 1 d1). i \<le> j"
  shows "\<exists>n. map fst (conn_counts p (t1 # replicate k t2)) = n # replicate k 0"
proof -
  let ?a = "event_ids 1 d1" and ?b = "event_ids 1 d2"
  have mx: "max_or c xs = Max (set xs)" if "xs \<noteq> []" for c xs
    using that by (cases xs) (auto simp: max_or_def foldl_max)
  have a: "?a \<noteq> []" using assms(3,4) by (cases ?b) auto
  have le: "\<forall>i\<in>set ?b. i \<le> Max (set ?a)" using assms(4) by (meson List.finite_set Max_ge order_trans)
  have zero: "cursor_counts c (replicate k ?b) = replicate k 0" if "\<forall>i\<in>set ?b. i \<le> c" for c
    using that
  proof (induction k arbitrary: c)
    case (Suc k)
    have "\<forall>i\<in>set ?b. i \<le> max_or c ?b" using assms(3) by (simp add: mx)
    then show ?case using Suc by (auto simp: count_after_def filter_empty_conv)
  qed simp
  have "concat (map polled (replicate k t2)) = replicate k d2" using assms(2) by (induction k) simp_all
  then have "map fst (conn_counts p (t1 # replicate k t2)) = cursor_counts (pu_new p) (?a # replicate k ?b)"
    using conn_counts_cursors [of p "t1 # replicate k t2"] assms(1)
    by (simp del: conn_counts.simps)
  then show ?thesis using zero [of "max_or (pu_new p) ?a"] le by (simp add: mx [OF a])
qed

text \<open>Two NEW events are pushed, the retention empties the table, and the next NEW event has id 1 again.\<close>

theorem reused_ids_missed_witness:
  "\<exists>n. map fst (conn_counts (push_start newWSHub (NewServer [] True 0))
      (poll [new_at 5, new_at 6] # replicate 3 (poll [new_at 5, new_at 6, DeleteOld ''connections'' 9 500, new_at 9]))) = n # replicate 3 0"
  by (rule reused_ids_missed [OF polled_poll polled_poll]) (simp_all add: event_ids_new)

subsection \<open>The clients\<close>

text \<open>C13: The hub stays within its bounds and a client gets frames in order. After any interleaving of
  handshakes, broadcasts, writes and ends, there are at most the configured number of clients, each
  with at most 64 frames in its queue, and what a client has been written followed by what is queued
  for it is, in order and without repetition, a part of what was broadcast.\<close>

theorem hub_bounded:
  "int (ws_count (ws_run s is)) \<le> max 0 (ap_wsMaxConns s) \<and>
    length (queue_of c (ws_run s is)) \<le> 64 \<and>
    subseq (written_to c (ws_run s is) @ queue_of c (ws_run s is)) (frames_of is)"
proof -
  have i: "hub_inv s (frames_of is) (ws_run s is)" by (rule hub_inv_run)
  have "length (queue_of c (ws_run s is)) \<le> 64"
  proof (cases "map_of (wh_clients (ws_run s is)) c")
    case (Some q)
    then have "(c, q) \<in> set (wh_clients (ws_run s is))" by (rule map_of_SomeD)
    then show ?thesis using i Some by (auto simp: hub_inv_def queue_of_def chan_ok_def wsQueue_def)
  qed (simp add: queue_of_def)
  then show ?thesis using i by (simp add: hub_inv_def ws_count_def)
qed

end
