(* ===== verification/Out.thy ===== *)
theory Out
  imports Api
begin

text \<open>
  \<^verbatim>\<open>internal/out/out.go\<close>: the printer of the debug mode, six consumers that share one writer, and the
  shutdown in two phases.

  Goroutines are interleaved by a step relation whose labels are what the producers send and the ticks
  of the statistics; a step is one select of a consumer or of \<^verbatim>\<open>Run\<close>. The channels are never closed. A line is the value handed to the
  JSON encoder; encoding and writing do not fail (their errors are ignored by the code, and exact
  rationals are always encoded).
\<close>

subsection \<open>Lines\<close>

text \<open>The channels of the consumers, in the order they are started.\<close>

datatype out_kind = KResource | KConn | KSSH | KFW | KF2B | KSystem

fun kind_name :: "out_kind \<Rightarrow> bytes" where
  "kind_name KResource = ''resource''"
| "kind_name KConn = ''conn''"
| "kind_name KSSH = ''ssh''"
| "kind_name KFW = ''fw''"
| "kind_name KF2B = ''f2b''"
| "kind_name KSystem = ''system''"

fun out_kind_of :: "any_event \<Rightarrow> out_kind option" where
  "out_kind_of (AResource _) = Some KResource"
| "out_kind_of (AConn _) = Some KConn"
| "out_kind_of (ASSH _) = Some KSSH"
| "out_kind_of (AFW _) = Some KFW"
| "out_kind_of (AF2B _) = Some KF2B"
| "out_kind_of (ASystem _) = Some KSystem"
| "out_kind_of (ACred _) = None"

definition tsOf :: "int \<Rightarrow> any_event \<Rightarrow> int" where
  "tsOf now v = (case TSOf v of (ts, ok) \<Rightarrow> if ok then ts else unix now)"

abbreviation g_word :: "'a::len word \<Rightarrow> gval" where
  "g_word w \<equiv> GInt (int (unat w))"

definition convResource :: "resource_sample \<Rightarrow> gval" where
  "convResource v = GObj [(''ts'', GInt (rs_ts v)), (''cpu_percent'', GReal (rs_cpu v)), (''mem_used_mb'', GReal (rs_memused v)),
     (''mem_percent'', GReal (rs_mempct v)), (''disk_used_mb'', GReal (rs_diskused v)), (''disk_percent'', GReal (rs_diskpct v)),
     (''net_rx_bps'', g_word (rs_rx v)), (''net_tx_bps'', g_word (rs_tx v))]"

text \<open>An empty text with \<^verbatim>\<open>omitempty\<close> has no field.\<close>

definition omit_empty :: "bytes \<Rightarrow> bytes \<Rightarrow> (bytes \<times> gval) list" where
  "omit_empty key s = (if s = [] then [] else [(key, GStr s)])"

definition convConn :: "conn_event \<Rightarrow> gval" where
  "convConn v = GObj ([(''ts'', GInt (co_ts v)), (''ev_type'', GInt (int (co_evtype v))), (''proto'', g_word (co_proto v)),
     (''src_ip'', GStr (Uint32ToIPv4 (co_src v))), (''src_port'', g_word (co_sport v)),
     (''dst_ip'', GStr (Uint32ToIPv4 (co_dst v))), (''dst_port'', g_word (co_dport v))] @
     omit_empty ''src_ip6'' (co_src6 v) @ omit_empty ''dst_ip6'' (co_dst6 v) @
     [(''packets'', g_word (co_packets v)), (''bytes'', g_word (co_bytes v)), (''mark'', g_word (co_mark v))])"

definition convSSH :: "ssh_attempt \<Rightarrow> gval" where
  "convSSH v = GObj [(''ts'', GInt (sa_ts v)), (''src_ip'', GStr (Uint32ToIPv4 (sa_src v))), (''username'', GStr (sa_user v)),
     (''auth_method'', GStr (sa_method v)), (''result'', GInt (int (sa_result v))),
     (''fingerprint'', GStr (sa_fingerprint v)), (''detail'', GStr (sa_detail v))]"

definition convFW :: "fw_event \<Rightarrow> gval" where
  "convFW v = GObj [(''ts'', GInt (fe_ts v)), (''chain'', GStr (fe_chain v)), (''action'', GStr (fe_action v)), (''proto'', g_word (fe_proto v)),
     (''src_ip'', GStr (Uint32ToIPv4 (fe_src v))), (''src_port'', g_word (fe_sport v)),
     (''dst_ip'', GStr (Uint32ToIPv4 (fe_dst v))), (''dst_port'', g_word (fe_dport v)), (''raw'', GStr (fe_raw v))]"

definition convF2B :: "ban_event \<Rightarrow> gval" where
  "convF2B v = GObj [(''ts'', GInt (be_ts v)), (''ip'', GStr (Uint32ToIPv4 (be_ip v))), (''type'', GStr (be_type v)), (''jail'', GStr (be_jail v))]"

text \<open>System events are passed on as they are: without tags, the keys are the names of the fields.\<close>

definition convSystem :: "sys_event \<Rightarrow> gval" where
  "convSystem v = GObj [(''TS'', GInt (se_ts v)), (''Source'', GStr (se_source v)), (''Level'', GStr (se_level v)),
     (''Message'', GStr (concat (se_msg v)))]"

fun conv :: "any_event \<Rightarrow> gval" where
  "conv (AResource v) = convResource v"
| "conv (AConn v) = convConn v"
| "conv (ASSH v) = convSSH v"
| "conv (AFW v) = convFW v"
| "conv (AF2B v) = convF2B v"
| "conv (ASystem v) = convSystem v"
| "conv (ACred v) = GNull"

definition out_line :: "int \<Rightarrow> out_kind \<Rightarrow> any_event \<Rightarrow> gval" where
  "out_line now k v = GObj [(''ts'', GInt (tsOf now v)), (''channel'', GStr (kind_name k)), (''ev'', conv v)]"

subsection \<open>One receive from the channel of a kind\<close>

definition recv_kind :: "out_kind \<Rightarrow> channels \<Rightarrow> (any_event \<times> channels) option" where
  "recv_kind k cs =
    (case k of
       KResource \<Rightarrow> map_option (\<lambda>(v, c). (AResource v, cs\<lparr>c_resource := c\<rparr>)) (try_recv (c_resource cs))
     | KConn \<Rightarrow> map_option (\<lambda>(v, c). (AConn v, cs\<lparr>c_conn := c\<rparr>)) (try_recv (c_conn cs))
     | KSSH \<Rightarrow> map_option (\<lambda>(v, c). (ASSH v, cs\<lparr>c_ssh := c\<rparr>)) (try_recv (c_ssh cs))
     | KFW \<Rightarrow> map_option (\<lambda>(v, c). (AFW v, cs\<lparr>c_fw := c\<rparr>)) (try_recv (c_fw cs))
     | KF2B \<Rightarrow> map_option (\<lambda>(v, c). (AF2B v, cs\<lparr>c_f2b := c\<rparr>)) (try_recv (c_f2b cs))
     | KSystem \<Rightarrow> map_option (\<lambda>(v, c). (ASystem v, cs\<lparr>c_system := c\<rparr>)) (try_recv (c_system cs)))"

text \<open>A send of a producer, on the channel of its event.\<close>

fun send_event :: "any_event \<Rightarrow> channels \<Rightarrow> bool \<times> channels" where
  "send_event (AResource v) cs = (let (ok, c) = try_send v (c_resource cs) in (ok, cs\<lparr>c_resource := c\<rparr>))"
| "send_event (AConn v) cs = (let (ok, c) = try_send v (c_conn cs) in (ok, cs\<lparr>c_conn := c\<rparr>))"
| "send_event (ASSH v) cs = (let (ok, c) = try_send v (c_ssh cs) in (ok, cs\<lparr>c_ssh := c\<rparr>))"
| "send_event (AFW v) cs = (let (ok, c) = try_send v (c_fw cs) in (ok, cs\<lparr>c_fw := c\<rparr>))"
| "send_event (AF2B v) cs = (let (ok, c) = try_send v (c_f2b cs) in (ok, cs\<lparr>c_f2b := c\<rparr>))"
| "send_event (ASystem v) cs = (let (ok, c) = try_send v (c_system cs) in (ok, cs\<lparr>c_system := c\<rparr>))"
| "send_event (ACred v) cs = (let (ok, c) = try_send v (c_cred cs) in (ok, cs\<lparr>c_cred := c\<rparr>))"

fun out_queued :: "out_kind \<Rightarrow> channels \<Rightarrow> any_event list" where
  "out_queued KResource cs = map AResource (ch_buf (c_resource cs))"
| "out_queued KConn cs = map AConn (ch_buf (c_conn cs))"
| "out_queued KSSH cs = map ASSH (ch_buf (c_ssh cs))"
| "out_queued KFW cs = map AFW (ch_buf (c_fw cs))"
| "out_queued KF2B cs = map AF2B (ch_buf (c_f2b cs))"
| "out_queued KSystem cs = map ASystem (ch_buf (c_system cs))"

subsection \<open>The printer\<close>

datatype consumer = Consuming | Waiting | Draining | Finished

datatype out_run = Looping | Joining | Returned_nil

text \<open>
  The channels, whether \<^verbatim>\<open>Run\<close> was given a wait group and how many of its producers run, whether the
  context is cancelled, the consumers with their counters, the lines written and the state of \<^verbatim>\<open>Run\<close>.
\<close>

record printer =
  pr_ch :: channels
  pr_wg :: bool
  pr_alive :: nat
  pr_cancelled :: bool
  pr_phase :: "out_kind \<Rightarrow> consumer"
  pr_cnt :: "out_kind \<Rightarrow> nat"
  pr_lines :: "gval list"
  pr_last :: int
  pr_run :: out_run

definition printer_start :: "int \<Rightarrow> bool \<Rightarrow> nat \<Rightarrow> nat \<Rightarrow> printer" where
  "printer_start now wg producers buf =
    \<lparr>pr_ch = NewChannels buf, pr_wg = wg, pr_alive = producers, pr_cancelled = False, pr_phase = (\<lambda>_. Consuming),
     pr_cnt = (\<lambda>_. 0), pr_lines = [], pr_last = unix now, pr_run = Looping\<rparr>"

definition print_event :: "int \<Rightarrow> out_kind \<Rightarrow> any_event \<Rightarrow> printer \<Rightarrow> printer" where
  "print_event now k v p =
    p\<lparr>pr_cnt := (pr_cnt p)(k := pr_cnt p k + 1), pr_lines := pr_lines p @ [out_line now k v]\<rparr>"

text \<open>The line of the minute; without a function for the snapshot its two fields are zero.\<close>

definition stats_line :: "int \<Rightarrow> (int \<times> int) option \<Rightarrow> printer \<Rightarrow> gval" where
  "stats_line now snapshot p =
    GObj [(''ts'', GInt (unix now)), (''channel'', GStr ''stats''), (''interval_s'', GInt (unix now - pr_last p)),
      (''resource'', GInt (int (pr_cnt p KResource))), (''conn'', GInt (int (pr_cnt p KConn))), (''ssh'', GInt (int (pr_cnt p KSSH))),
      (''fw'', GInt (int (pr_cnt p KFW))), (''f2b'', GInt (int (pr_cnt p KF2B))), (''system'', GInt (int (pr_cnt p KSystem))),
      (''snapshot_ts'', GInt (case snapshot of None \<Rightarrow> 0 | Some (ts, n) \<Rightarrow> ts)),
      (''snapshot_conns'', GInt (case snapshot of None \<Rightarrow> 0 | Some (ts, n) \<Rightarrow> n))]"

definition out_tick :: "int \<Rightarrow> (int \<times> int) option \<Rightarrow> printer \<Rightarrow> printer" where
  "out_tick now snapshot p = p\<lparr>pr_lines := pr_lines p @ [stats_line now snapshot p], pr_last := unix now\<rparr>"

text \<open>A consumer that takes an event, and one that sees that the context is cancelled.\<close>

definition take_event :: "int \<Rightarrow> out_kind \<Rightarrow> printer \<Rightarrow> printer option" where
  "take_event now k p =
    map_option (\<lambda>(v, cs). print_event now k v (p\<lparr>pr_ch := cs\<rparr>)) (recv_kind k (pr_ch p))"

definition set_phase :: "out_kind \<Rightarrow> consumer \<Rightarrow> printer \<Rightarrow> printer" where
  "set_phase k c p = p\<lparr>pr_phase := (pr_phase p)(k := c)\<rparr>"

datatype out_label = Sent any_event | StatsTick | Silent

inductive out_step :: "printer \<Rightarrow> out_label \<Rightarrow> printer \<Rightarrow> bool" where
  producer_sends: "0 < pr_alive p \<Longrightarrow> send_event v (pr_ch p) = (True, cs) \<Longrightarrow> out_step p (Sent v) (p\<lparr>pr_ch := cs\<rparr>)"
| producer_ends: "0 < pr_alive p \<Longrightarrow> out_step p Silent (p\<lparr>pr_alive := pr_alive p - 1\<rparr>)"
| cancelled: "\<not> pr_cancelled p \<Longrightarrow> out_step p Silent (p\<lparr>pr_cancelled := True\<rparr>)"
| consumes: "pr_phase p k = Consuming \<Longrightarrow> take_event now k p = Some p' \<Longrightarrow> out_step p Silent p'"
| stops: "pr_phase p k = Consuming \<Longrightarrow> pr_cancelled p \<Longrightarrow>
    out_step p Silent (set_phase k (if pr_wg p then Waiting else Draining) p)"
| waited: "pr_phase p k = Waiting \<Longrightarrow> pr_alive p = 0 \<Longrightarrow> out_step p Silent (set_phase k Draining p)"
| drains: "pr_phase p k = Draining \<Longrightarrow> take_event now k p = Some p' \<Longrightarrow> out_step p Silent p'"
| drained: "pr_phase p k = Draining \<Longrightarrow> take_event now k p = None \<Longrightarrow> out_step p Silent (set_phase k Finished p)"
| ticks: "pr_run p = Looping \<Longrightarrow> out_step p StatsTick (out_tick now snapshot p)"
| leaves: "pr_run p = Looping \<Longrightarrow> pr_cancelled p \<Longrightarrow> out_step p Silent (p\<lparr>pr_run := Joining\<rparr>)"
| returns: "pr_run p = Joining \<Longrightarrow> (\<forall>k. pr_phase p k = Finished) \<Longrightarrow> out_step p Silent (p\<lparr>pr_run := Returned_nil\<rparr>)"

inductive_cases out_stepE: "out_step p l p'"

fun sent_by :: "out_label \<Rightarrow> any_event list" where
  "sent_by (Sent v) = [v]"
| "sent_by StatsTick = []"
| "sent_by Silent = []"

text \<open>Runs from the start, with the events the channels accepted.\<close>

inductive out_reach :: "printer \<Rightarrow> any_event list \<Rightarrow> printer \<Rightarrow> bool" for p0 where
  reach_start: "out_reach p0 [] p0"
| reach_step: "out_reach p0 evs p \<Longrightarrow> out_step p l p' \<Longrightarrow> out_reach p0 (evs @ sent_by l) p'"

subsection \<open>Channels\<close>

lemma recv_kind_empty: "recv_kind k cs = None \<longleftrightarrow> out_queued k cs = []"
  by (cases k) (simp_all add: recv_kind_def chan.recv_empty)

lemma recv_kind_next: "recv_kind k cs = Some (v, cs') \<Longrightarrow> out_queued k cs = v # out_queued k cs'"
  by (cases k) (force simp: recv_kind_def dest: chan.recv_next)+

lemma recv_kind_other:
  assumes "recv_kind k cs = Some (v, cs')" "j \<noteq> k"
  shows "out_queued j cs' = out_queued j cs"
  using assms by (cases k; cases j) (auto simp: recv_kind_def)

lemma recv_kind_of: "recv_kind k cs = Some (v, cs') \<Longrightarrow> out_kind_of v = Some k"
  by (cases k) (auto simp: recv_kind_def)

lemma send_event_queued:
  assumes "send_event v cs = (True, cs')"
  shows "out_queued k cs' = out_queued k cs @ (if out_kind_of v = Some k then [v] else [])"
  using assms
  by (cases v; cases k) (auto simp: try_send_def split: if_splits)

lemma tsOf_known [simp]: "tsOf now v = fst (TSOf v)"
  by (cases v) (simp_all add: tsOf_def)

end
