(* ===== verification/PropOut.thy ===== *)
theory PropOut
  imports Out
begin

text \<open>
  The printer of the debug mode loses nothing, under every interleaving of producers, consumers and
  ticks, and ends once the producers have.
\<close>

text \<open>What is printed for an event, whatever the clock says.\<close>

definition event_line :: "out_kind \<Rightarrow> any_event \<Rightarrow> gval" where
  "event_line k v = GObj [(''ts'', GInt (fst (TSOf v))), (''channel'', GStr (kind_name k)), (''ev'', conv v)]"

definition on_channel :: "out_kind \<Rightarrow> gval \<Rightarrow> bool" where
  "on_channel k l \<longleftrightarrow> (case l of GObj kvs \<Rightarrow> map_of kvs ''channel'' = Some (GStr (kind_name k)) | _ \<Rightarrow> False)"

definition of_out_kind :: "out_kind \<Rightarrow> any_event list \<Rightarrow> any_event list" where
  "of_out_kind k evs = filter (\<lambda>v. out_kind_of v = Some k) evs"

definition printed :: "out_kind \<Rightarrow> printer \<Rightarrow> gval list" where
  "printed k p = filter (on_channel k) (pr_lines p)"

lemma kind_name_inj [simp]: "kind_name j = kind_name k \<longleftrightarrow> j = k"
  by (cases j; cases k) simp_all

lemma on_channel_line [simp]: "on_channel k (out_line now j v) \<longleftrightarrow> j = k"
  by (simp add: on_channel_def out_line_def)

lemma on_channel_stats [simp]: "\<not> on_channel k (stats_line now snap p)"
  by (cases k) (simp_all add: on_channel_def stats_line_def)

lemma out_line_event [simp]: "out_line now k v = event_line k v"
  by (simp add: out_line_def event_line_def)

lemma on_channel_event [simp]: "on_channel k (event_line j v) \<longleftrightarrow> j = k"
  using on_channel_line [of k 0 j v] by simp

lemma of_out_kind_simps [simp]: "of_out_kind k [] = []" "of_out_kind k (xs @ ys) = of_out_kind k xs @ of_out_kind k ys"
  "of_out_kind k [v] = (if out_kind_of v = Some k then [v] else [])"
  by (simp_all add: of_out_kind_def)

subsection \<open>The invariant\<close>

text \<open>Per channel, what is printed and what is queued is what was sent, and the counters count lines.\<close>

definition accounted :: "any_event list \<Rightarrow> printer \<Rightarrow> bool" where
  "accounted evs p \<longleftrightarrow>
    (\<forall>k. printed k p @ map (event_line k) (out_queued k (pr_ch p)) = map (event_line k) (of_out_kind k evs)) \<and>
    (\<forall>k. pr_cnt p k = length (printed k p))"

text \<open>With a wait group, draining begins when no producer runs, and a finished channel is empty.\<close>

definition phases_ok :: "printer \<Rightarrow> bool" where
  "phases_ok p \<longleftrightarrow>
    (\<forall>k. pr_phase p k \<in> {Draining, Finished} \<longrightarrow> pr_alive p = 0) \<and>
    (\<forall>k. pr_phase p k = Finished \<longrightarrow> out_queued k (pr_ch p) = []) \<and>
    (pr_run p = Returned_nil \<longrightarrow> (\<forall>k. pr_phase p k = Finished)) \<and> pr_wg p"

lemma take_event_some:
  assumes "take_event now k p = Some p'"
  obtains v cs where "recv_kind k (pr_ch p) = Some (v, cs)" "p' = print_event now k v (p\<lparr>pr_ch := cs\<rparr>)"
  using assms by (auto simp: take_event_def)

lemma accounted_take:
  assumes "accounted evs p" "take_event now k p = Some p'"
  shows "accounted evs p'"
proof -
  obtain v cs where r: "recv_kind k (pr_ch p) = Some (v, cs)" "p' = print_event now k v (p\<lparr>pr_ch := cs\<rparr>)"
    using take_event_some [OF assms(2)] .
  have "printed j p' @ map (event_line j) (out_queued j cs) = printed j p @ map (event_line j) (out_queued j (pr_ch p))" for j
    using recv_kind_next [OF r(1)] recv_kind_other [OF r(1), of j]
    by (cases "j = k") (simp_all add: r(2) print_event_def printed_def)
  then show ?thesis
    using assms(1) by (auto simp: accounted_def r(2) print_event_def printed_def)
qed

lemma phases_take:
  assumes "phases_ok p" "take_event now k p = Some p'" "pr_phase p k \<noteq> Finished"
  shows "phases_ok p'"
proof -
  obtain v cs where r: "recv_kind k (pr_ch p) = Some (v, cs)" "p' = print_event now k v (p\<lparr>pr_ch := cs\<rparr>)"
    using take_event_some [OF assms(2)] .
  have "out_queued j cs = []" if "pr_phase p j = Finished" for j
    using that assms(1,3) recv_kind_other [OF r(1), of j] by (cases "j = k") (auto simp: phases_ok_def)
  then show ?thesis using assms(1) by (auto simp: phases_ok_def r(2) print_event_def)
qed

lemma accounted_idle [simp]:
  "accounted evs (p\<lparr>pr_alive := a\<rparr>) = accounted evs p" "accounted evs (p\<lparr>pr_cancelled := b\<rparr>) = accounted evs p"
  "accounted evs (p\<lparr>pr_run := r\<rparr>) = accounted evs p" "accounted evs (set_phase k c p) = accounted evs p"
  by (simp_all add: accounted_def printed_def set_phase_def)

lemma accounted_step: "out_step p l p' \<Longrightarrow> accounted evs p \<Longrightarrow> accounted (evs @ sent_by l) p'"
proof (induction rule: out_step.induct)
  case (producer_sends p v cs)
  have "printed k p @ map (event_line k) (out_queued k cs)
      = (printed k p @ map (event_line k) (out_queued k (pr_ch p))) @ map (event_line k) (of_out_kind k [v])" for k
    using send_event_queued [OF producer_sends(2), of k] by simp
  then show ?case using producer_sends(3) by (simp add: accounted_def printed_def)
next
  case (ticks p now snapshot)
  then show ?case by (simp add: accounted_def printed_def out_tick_def)
qed (simp_all add: accounted_take)

lemma phases_step: "out_step p l p' \<Longrightarrow> phases_ok p \<Longrightarrow> phases_ok p'"
proof (induction rule: out_step.induct)
  case (producer_sends p v cs)
  then show ?case by (fastforce simp: phases_ok_def)
next
  case (drained p k now)
  then have "out_queued k (pr_ch p) = []" by (simp add: take_event_def recv_kind_empty)
  then show ?case using drained by (auto simp: phases_ok_def set_phase_def)
next
  case (stops p k)
  then show ?case by (fastforce simp: phases_ok_def set_phase_def)
next
  case (waited p k)
  then show ?case by (fastforce simp: phases_ok_def set_phase_def)
next
  case (consumes p k now p')
  show ?case by (rule phases_take [OF consumes(3,2)]) (simp add: consumes(1))
next
  case (drains p k now p')
  show ?case by (rule phases_take [OF drains(3,2)]) (simp add: drains(1))
qed (auto simp: phases_ok_def out_tick_def)

lemma printer_reach:
  assumes "out_reach (printer_start now True n buf) evs p"
  shows "accounted evs p \<and> phases_ok p"
  using assms
proof (induction rule: out_reach.induct)
  case reach_start
  have "out_queued k (NewChannels buf) = []" for k by (cases k) (simp_all add: NewChannels_def make_chan_def)
  then show ?case by (simp add: printer_start_def accounted_def phases_ok_def printed_def)
next
  case (reach_step evs p l p')
  then show ?case using accounted_step phases_step by blast
qed

text \<open>C5: given the wait group of its producers, the printer loses nothing: under every interleaving the lines
  of a channel followed by what is queued in it are exactly the events the channel accepted, in order and
  once each, the counters of the statistics are the numbers of those lines, and when Run has returned
  every accepted event of the six channels is printed.\<close>

theorem printer_loses_nothing:
  assumes "out_reach (printer_start now True n buf) evs p"
  shows "printed k p @ map (event_line k) (out_queued k (pr_ch p)) = map (event_line k) (of_out_kind k evs) \<and>
    pr_cnt p k = length (printed k p) \<and>
    (pr_run p = Returned_nil \<longrightarrow> printed k p = map (event_line k) (of_out_kind k evs))"
  using printer_reach [OF assms] by (auto simp: accounted_def phases_ok_def)

definition a_ban :: any_event where
  "a_ban = AF2B \<lparr>be_ts = 5, be_ip = 0x08080808, be_type = ''ban'', be_jail = ''sshd''\<rparr>"

theorem printer_loses_nothing_witness:
  "\<exists>p. out_reach (printer_start 0 True 1 4) [a_ban] p \<and> printed KF2B p = [event_line KF2B a_ban] \<and> pr_cnt p KF2B = 1"
proof -
  let ?p = "printer_start 0 True 1 4"
  let ?q = "?p\<lparr>pr_ch := snd (send_event a_ban (pr_ch ?p))\<rparr>"
  have sent: "send_event a_ban (pr_ch ?p) = (True, pr_ch ?q)"
    by (simp add: printer_start_def a_ban_def NewChannels_def make_chan_def try_send_def)
  obtain r where r: "take_event 0 KF2B ?q = Some r"
    by (simp add: printer_start_def a_ban_def NewChannels_def make_chan_def try_send_def take_event_def recv_kind_def try_recv_def)
  have e: "out_queued KF2B (pr_ch r) = []"
    using r by (auto simp: printer_start_def a_ban_def NewChannels_def make_chan_def try_send_def take_event_def recv_kind_def
        try_recv_def print_event_def)
  have 1: "out_reach ?p [a_ban] ?q"
    using reach_step [OF reach_start producer_sends [OF _ sent]] by (simp add: printer_start_def)
  have 2: "out_reach ?p [a_ban] r"
    using reach_step [OF 1 consumes [OF _ r]] by (simp add: printer_start_def)
  show ?thesis
    using printer_loses_nothing [OF 2, of KF2B] 2 e
    by (intro exI [of _ r]) (simp add: a_ban_def)
qed

subsection \<open>The end\<close>

instantiation out_kind :: finite
begin

instance
proof
  have "(UNIV :: out_kind set) \<subseteq> {KResource, KConn, KSSH, KFW, KF2B, KSystem}"
    using out_kind.exhaust by blast
  then show "finite (UNIV :: out_kind set)" by (rule finite_subset) simp
qed

end

fun phase_rank :: "consumer \<Rightarrow> nat" where
  "phase_rank Consuming = 3"
| "phase_rank Waiting = 2"
| "phase_rank Draining = 1"
| "phase_rank Finished = 0"

fun run_rank :: "out_run \<Rightarrow> nat" where
  "run_rank Looping = 2"
| "run_rank Joining = 1"
| "run_rank Returned_nil = 0"

text \<open>What is left to do: the events in the channels and the phases to go.\<close>

definition to_go :: "printer \<Rightarrow> nat" where
  "to_go p = (\<Sum>k\<in>UNIV. length (out_queued k (pr_ch p)) + phase_rank (pr_phase p k)) + run_rank (pr_run p)"

lemma to_go_less:
  assumes "\<And>j. j \<noteq> k \<Longrightarrow> length (out_queued j (pr_ch p')) + phase_rank (pr_phase p' j) = length (out_queued j (pr_ch p)) + phase_rank (pr_phase p j)"
    "length (out_queued k (pr_ch p')) + phase_rank (pr_phase p' k) < length (out_queued k (pr_ch p)) + phase_rank (pr_phase p k)"
    "pr_run p' = pr_run p"
  shows "to_go p' < to_go p"
proof -
  have "(\<Sum>k\<in>UNIV. length (out_queued k (pr_ch p')) + phase_rank (pr_phase p' k))
      < (\<Sum>k\<in>UNIV. length (out_queued k (pr_ch p)) + phase_rank (pr_phase p k))"
  proof (rule sum_strict_mono_ex1)
    show "\<forall>j\<in>UNIV. length (out_queued j (pr_ch p')) + phase_rank (pr_phase p' j) \<le> length (out_queued j (pr_ch p)) + phase_rank (pr_phase p j)"
      using assms(1,2) by (metis order.strict_implies_order order_refl)
  qed (use assms(2) in auto)
  then show ?thesis by (simp add: to_go_def assms(3))
qed

lemma to_go_take:
  assumes "take_event now k p = Some p'"
  shows "to_go p' < to_go p"
proof -
  obtain v cs where r: "recv_kind k (pr_ch p) = Some (v, cs)" "p' = print_event now k v (p\<lparr>pr_ch := cs\<rparr>)"
    using take_event_some [OF assms] .
  show ?thesis
    by (rule to_go_less [where k = k])
       (use recv_kind_next [OF r(1)] recv_kind_other [OF r(1)] in \<open>simp_all add: r(2) print_event_def\<close>)
qed

lemma to_go_phase: "phase_rank c < phase_rank (pr_phase p k) \<Longrightarrow> to_go (set_phase k c p) < to_go p"
  by (rule to_go_less [where k = k]) (simp_all add: set_phase_def)

lemma step_to_go:
  "out_step p l p' \<Longrightarrow> pr_cancelled p \<Longrightarrow> pr_alive p = 0 \<Longrightarrow>
    (l = StatsTick \<and> to_go p' = to_go p) \<or> to_go p' < to_go p"
proof (induction rule: out_step.induct)
  case (ticks p now snapshot)
  then show ?case by (simp add: to_go_def out_tick_def)
next
  case (leaves p)
  then show ?case by (simp add: to_go_def)
next
  case (returns p)
  then show ?case by (simp add: to_go_def)
qed (auto simp: to_go_take to_go_phase)

lemma step_possible:
  assumes "pr_cancelled p" "pr_alive p = 0" "pr_run p \<noteq> Returned_nil"
  shows "\<exists>p'. out_step p Silent p'"
proof (cases "\<forall>k. pr_phase p k = Finished")
  case True
  then show ?thesis using assms by (cases "pr_run p") (auto intro: out_step.leaves out_step.returns)
next
  case False
  then obtain k where "pr_phase p k \<noteq> Finished" by blast
  then show ?thesis using assms
    by (cases "pr_phase p k"; cases "take_event 0 k p")
       (blast intro: out_step.stops out_step.waited out_step.drains out_step.drained)+
qed

text \<open>once the context is cancelled and the producers have ended, the printer ends: until Run has
  returned some step other than a tick is possible, and every such step, of whichever consumer, brings the
  end nearer by at least one of finitely many; a tick of the statistics changes nothing of that.\<close>

theorem printer_ends:
  assumes "pr_cancelled p" "pr_alive p = 0"
  shows "(pr_run p \<noteq> Returned_nil \<longrightarrow> (\<exists>p'. out_step p Silent p')) \<and>
    (\<forall>l p'. out_step p l p' \<longrightarrow> (l = StatsTick \<and> to_go p' = to_go p) \<or> to_go p' < to_go p)"
  using step_possible [OF assms] step_to_go [OF _ assms] by blast

theorem printer_ends_witness:
  "\<exists>p'. out_step ((printer_start 0 True 0 4)\<lparr>pr_cancelled := True\<rparr>) Silent p'"
  using printer_ends [of "(printer_start 0 True 0 4)\<lparr>pr_cancelled := True\<rparr>"] by (simp add: printer_start_def)

end
