(* ===== verification/GeoIp.thy ===== *)
theory GeoIp
  imports World GoTime
begin

text \<open>
  \<^verbatim>\<open>internal/geoip\<close>: the reader of the country database and its daily update.

  The directory holds blobs and the state file; every call to the operating system takes the next
  outcome of a script, as in \<^verbatim>\<open>World\<close>. The MaxMind library (what a blob must be to be opened, and what a
  lookup finds), the server and the unpacking of its archive are parameters.
\<close>

subsection \<open>The directory\<close>

record update_state =
  us_ETag :: bytes
  us_LastModified :: bytes
  us_UpdatedAt :: bytes

definition no_state :: update_state where
  "no_state = \<lparr>us_ETag = [], us_LastModified = [], us_UpdatedAt = []\<rparr>"

datatype gfile = Blob bytes | StateFile update_state

text \<open>The files, the outcomes to come, whether the process is dead, and the database the reader has open.\<close>

record geo_world =
  gw_files :: "bytes \<rightharpoonup> gfile"
  gw_out :: "outcome list"
  gw_dead :: bool
  gw_db :: "bytes option"

definition gcall :: "geo_world \<Rightarrow> bytes option \<times> geo_world" where
  "gcall w =
    (if gw_dead w then (Some ''dead'', w)
     else case gw_out w of [] \<Rightarrow> (None, w)
     | Success # xs \<Rightarrow> (None, w\<lparr>gw_out := xs\<rparr>)
     | Failure e # xs \<Rightarrow> (Some e, w\<lparr>gw_out := xs\<rparr>)
     | Crash # xs \<Rightarrow> (Some ''crash'', w\<lparr>gw_out := xs, gw_dead := True\<rparr>))"

definition g_exists :: "bytes \<Rightarrow> geo_world \<Rightarrow> bool \<times> geo_world" where
  "g_exists f w = (case gcall w of (Some e, w') \<Rightarrow> (False, w') | (None, w') \<Rightarrow> (gw_files w' f \<noteq> None, w'))"

definition g_rename :: "bytes \<Rightarrow> bytes \<Rightarrow> geo_world \<Rightarrow> bytes option \<times> geo_world" where
  "g_rename a b w = (case gcall w of (Some e, w') \<Rightarrow> (Some e, w')
    | (None, w') \<Rightarrow> (case gw_files w' a of None \<Rightarrow> (Some ''no such file'', w')
        | Some c \<Rightarrow> (None, w'\<lparr>gw_files := (gw_files w')(a := None, b \<mapsto> c)\<rparr>)))"

definition g_write :: "bytes \<Rightarrow> gfile \<Rightarrow> geo_world \<Rightarrow> bytes option \<times> geo_world" where
  "g_write f c w = (case gcall w of (Some e, w') \<Rightarrow> (Some e, w')
    | (None, w') \<Rightarrow> (None, w'\<lparr>gw_files := (gw_files w')(f \<mapsto> c)\<rparr>))"

definition g_remove :: "bytes \<Rightarrow> geo_world \<Rightarrow> geo_world" where
  "g_remove f w = (case gcall w of (Some e, w') \<Rightarrow> w' | (None, w') \<Rightarrow> w'\<lparr>gw_files := (gw_files w')(f := None)\<rparr>)"

subsection \<open>The library\<close>

text \<open>The country and the registered country of an address: the code and the names by language.\<close>

type_synonym geo_place = "bytes \<times> (bytes \<Rightarrow> bytes)"

record mmdb =
  mm_valid :: "bytes \<Rightarrow> bool"
  mm_find :: "bytes \<Rightarrow> bytes \<Rightarrow> (geo_place \<times> geo_place) option"

definition mm_open :: "mmdb \<Rightarrow> bytes \<Rightarrow> geo_world \<Rightarrow> (bytes + bytes) \<times> geo_world" where
  "mm_open lib f w = (case gcall w of (Some e, w') \<Rightarrow> (Inl e, w')
    | (None, w') \<Rightarrow> (case gw_files w' f of Some (Blob b) \<Rightarrow> (if mm_valid lib b then Inr b else Inl ''not a database'', w')
        | _ \<Rightarrow> (Inl ''no database'', w')))"

subsection \<open>The reader\<close>

definition Load_db :: "mmdb \<Rightarrow> bytes \<Rightarrow> geo_world \<Rightarrow> bytes option \<times> geo_world" where
  "Load_db lib path w =
    (case mm_open lib path (w\<lparr>gw_db := None\<rparr>) of (Inl e, w') \<Rightarrow> (Some e, w') | (Inr b, w') \<Rightarrow> (None, w'\<lparr>gw_db := Some b\<rparr>))"

definition OK :: "geo_world \<Rightarrow> bool" where
  "OK w \<longleftrightarrow> gw_db w \<noteq> None"

definition Lookup :: "mmdb \<Rightarrow> bytes \<Rightarrow> geo_world \<Rightarrow> (bytes \<times> bytes) option" where
  "Lookup lib ip w =
    (case gw_db w of None \<Rightarrow> None
     | Some b \<Rightarrow>
       (case mm_find lib b ip of None \<Rightarrow> None
        | Some (country, registered) \<Rightarrow>
          (let (code, names) = (if fst country = [] then registered else country) in
           if code = [] then None
           else Some (code, if names ''zh-CN'' = [] then names ''en'' else names ''zh-CN''))))"

definition bak_name :: "bytes \<Rightarrow> bytes" where "bak_name path = path @ ''.bak''"
definition tmp_name :: "bytes \<Rightarrow> bytes" where "tmp_name path = path @ ''.tmp''"
definition stateFile :: "bytes \<Rightarrow> bytes" where "stateFile path = path @ ''.state''"

text \<open>After the old database is aside: the new one in its place and open, or what can be done about it.\<close>

definition restore :: "bytes \<Rightarrow> geo_world \<Rightarrow> geo_world" where
  "restore path w =
    (case g_exists (bak_name path) w of (False, w1) \<Rightarrow> w1 | (True, w1) \<Rightarrow> snd (g_rename (bak_name path) path w1))"

definition swap_in :: "mmdb \<Rightarrow> bytes \<Rightarrow> bytes \<Rightarrow> geo_world \<Rightarrow> bytes list option \<times> geo_world" where
  "swap_in lib path tmp w =
    (case g_rename tmp path w of (Some e, w1) \<Rightarrow> (Some [''replace failed'', e], restore path w1)
     | (None, w1) \<Rightarrow>
       (case mm_open lib path w1 of (Inr b, w2) \<Rightarrow> (None, w2\<lparr>gw_db := Some b\<rparr>)
        | (Inl e, w2) \<Rightarrow>
          (case g_exists (bak_name path) w2 of (False, w3) \<Rightarrow> (Some [''open failed'', e], w3)
           | (True, w3) \<Rightarrow>
             (case mm_open lib path (snd (g_rename (bak_name path) path w3)) of
                (Inr b, w4) \<Rightarrow> (Some [''open failed'', e], w4\<lparr>gw_db := Some b\<rparr>)
              | (Inl _, w4) \<Rightarrow> (Some [''open failed'', e], w4)))))"

definition ReplaceFrom :: "mmdb \<Rightarrow> bytes \<Rightarrow> bytes \<Rightarrow> geo_world \<Rightarrow> bytes list option \<times> geo_world" where
  "ReplaceFrom lib path tmp w =
    (case g_exists path (w\<lparr>gw_db := None\<rparr>) of
       (False, w1) \<Rightarrow> swap_in lib path tmp w1
     | (True, w1) \<Rightarrow>
       (case g_rename path (bak_name path) w1 of (Some e, w2) \<Rightarrow> (Some [''backup failed'', e], w2)
        | (None, w2) \<Rightarrow> swap_in lib path tmp w2))"

subsection \<open>The update\<close>

definition probeIP :: bytes where "probeIP = v4_in_v6_prefix @ [mkbyte 8, mkbyte 8, mkbyte 8, mkbyte 8]"

text \<open>The temporary file is removed at the end, whatever happened.\<close>

definition install :: "mmdb \<Rightarrow> bytes \<Rightarrow> bytes \<Rightarrow> geo_world \<Rightarrow> bytes list option \<times> geo_world" where
  "install lib path data w =
    (case gcall w of (Some e, w1) \<Rightarrow> (Some [''mkdir'', e], w1)
     | (None, w1) \<Rightarrow>
       (case g_write (tmp_name path) (Blob data) w1 of (Some e, w2) \<Rightarrow> (Some [''write'', e], w2)
        | (None, w2) \<Rightarrow>
          (case (case mm_open lib (tmp_name path) w2 of (Inl e, w3) \<Rightarrow> (Some [''check failed'', e], w3)
              | (Inr b, w3) \<Rightarrow>
                (case mm_find lib b probeIP of
                   Some (country, _) \<Rightarrow> if fst country = [] then (Some [''check failed''], w3) else ReplaceFrom lib path (tmp_name path) w3
                 | None \<Rightarrow> (Some [''check failed''], w3))) of
             (r, w4) \<Rightarrow> (r, g_remove (tmp_name path) w4))))"

text \<open>The regular file of that name, whatever its directory; the archive is its entries, with an error where
  reading it fails.\<close>

type_synonym tar_entry = "bytes + bytes \<times> bool \<times> bytes"

definition base_name :: "bytes \<Rightarrow> bytes" where
  "base_name p = rev (takeWhile (\<lambda>c. c \<noteq> CHR ''/'') (rev p))"

fun find_mmdb :: "tar_entry list \<Rightarrow> bytes list + bytes" where
  "find_mmdb [] = Inl [''no GeoLite2-Country.mmdb'']"
| "find_mmdb (Inl e # es) = Inl [e]"
| "find_mmdb (Inr (nam, regular, data) # es) =
    (if regular \<and> base_name nam = ''GeoLite2-Country.mmdb'' then Inr data else find_mmdb es)"

definition extractMMDB :: "bytes + tar_entry list \<Rightarrow> bytes list + bytes" where
  "extractMMDB archive = (case archive of Inl e \<Rightarrow> Inl [e] | Inr es \<Rightarrow> find_mmdb es)"

record update_cfg =
  uc_DBPath :: bytes
  uc_AccountID :: bytes
  uc_LicenseKey :: bytes
  uc_Enabled :: bool
  uc_Hour :: int
  uc_Minute :: int

text \<open>The answer to the request with its conditional headers: an error, or a status, the two headers and
  the archive as it is unpacked.\<close>

record download =
  dl_status :: nat
  dl_ETag :: bytes
  dl_LastModified :: bytes
  dl_archive :: "bytes + tar_entry list"

type_synonym geo_server = "bytes \<Rightarrow> bytes \<Rightarrow> bytes + download"

definition loadState :: "bytes \<Rightarrow> geo_world \<Rightarrow> update_state \<times> geo_world" where
  "loadState path w =
    (case gcall w of (Some e, w') \<Rightarrow> (no_state, w')
     | (None, w') \<Rightarrow> (case gw_files w' (stateFile path) of Some (StateFile s) \<Rightarrow> (s, w') | _ \<Rightarrow> (no_state, w')))"

definition saveState :: "bytes \<Rightarrow> update_state \<Rightarrow> geo_world \<Rightarrow> geo_world" where
  "saveState path s w = snd (g_write (stateFile path) (StateFile s) w)"

definition UpdateNow :: "mmdb \<Rightarrow> geo_server \<Rightarrow> update_cfg \<Rightarrow> int \<Rightarrow> bytes \<Rightarrow> geo_world \<times> sysch \<Rightarrow> bytes list option \<times> geo_world \<times> sysch" where
  "UpdateNow lib server cfg now stamp ws =
    (if \<not> uc_Enabled cfg then (None, ws)
     else if uc_AccountID cfg = [] \<or> uc_LicenseKey cfg = [] then (Some [''no credentials''], ws)
     else let (st, w) = loadState (uc_DBPath cfg) (fst ws); sys = snd ws in
       case server (us_ETag st) (us_LastModified st) of Inl e \<Rightarrow> (Some [''download failed'', e], w, sys)
       | Inr r \<Rightarrow>
         if dl_status r = 304 then (None, w, sys)
         else if dl_status r = 401 \<or> dl_status r = 403 then (Some [''not authorised'', show_nat (dl_status r)], w, sys)
         else if dl_status r \<noteq> 200 then (Some [''download failed'', show_nat (dl_status r)], w, sys)
         else case extractMMDB (dl_archive r) of Inl e \<Rightarrow> (Some (''unpacking failed'' # e), w, sys)
         | Inr data \<Rightarrow>
           (case install lib (uc_DBPath cfg) data w of (Some e, w1) \<Rightarrow> (Some e, w1, sys)
            | (None, w1) \<Rightarrow>
              (None, saveState (uc_DBPath cfg) \<lparr>us_ETag = dl_ETag r, us_LastModified = dl_LastModified r, us_UpdatedAt = stamp\<rparr> w1,
               ReportSys now ''geoip'' ''info'' [''updated'', uc_DBPath cfg] sys)))"

subsection \<open>The daily loop\<close>

text \<open>A tick: the clock, the day of the year and time of day in UTC, what the server answers and the outcomes
  of the calls until the next.\<close>

record geo_tick =
  gt_now :: int
  gt_server :: geo_server
  gt_stamp :: bytes

record updater =
  up_world :: geo_world
  up_sys :: sysch
  up_rep :: rate_limiter
  up_lastRunDay :: int

definition run_update :: "mmdb \<Rightarrow> update_cfg \<Rightarrow> bytes \<Rightarrow> geo_tick \<Rightarrow> updater \<Rightarrow> updater" where
  "run_update lib cfg what t u =
    (case UpdateNow lib (gt_server t) cfg (gt_now t) (gt_stamp t) (up_world u, up_sys u) of
       (None, w, sys) \<Rightarrow> u\<lparr>up_world := w, up_sys := sys\<rparr>
     | (Some e, w, sys) \<Rightarrow>
       (case Report (gt_now t) ''geoip'' ''warn'' (what # e) (up_rep u) sys of
          (r, sys') \<Rightarrow> u\<lparr>up_world := w, up_sys := sys', up_rep := r\<rparr>))"

definition configured :: "update_cfg \<Rightarrow> bool" where
  "configured cfg \<longleftrightarrow> uc_Enabled cfg \<and> uc_AccountID cfg \<noteq> [] \<and> uc_LicenseKey cfg \<noteq> []"

text \<open>The first fetch, when the file does not exist.\<close>

definition update_start :: "mmdb \<Rightarrow> update_cfg \<Rightarrow> geo_tick \<Rightarrow> updater \<Rightarrow> updater" where
  "update_start lib cfg t u =
    (if configured cfg \<and> gw_files (up_world u) (uc_DBPath cfg) = None then
       run_update lib cfg ''first fetch failed'' t
         (u\<lparr>up_sys := ReportSys (gt_now t) ''geoip'' ''info'' [''database missing''] (up_sys u)\<rparr>)
     else u)"

definition YearDay :: "int \<Rightarrow> int" where
  "YearDay t = (let z = fixed_zone 0 in civil_day (Year z t) (Month z t) (Day z t) - civil_day (Year z t) 1 1 + 1)"

definition update_tick :: "mmdb \<Rightarrow> update_cfg \<Rightarrow> geo_tick \<Rightarrow> updater \<Rightarrow> updater" where
  "update_tick lib cfg t u =
    (let now = unix (gt_now t); z = fixed_zone 0 in
     if \<not> configured cfg then u
     else if Hour z now = uc_Hour cfg \<and> Minute z now = uc_Minute cfg \<and> up_lastRunDay u \<noteq> YearDay now then
       run_update lib cfg ''update failed'' t (u\<lparr>up_lastRunDay := YearDay now\<rparr>)
     else u)"

definition update_run :: "mmdb \<Rightarrow> update_cfg \<Rightarrow> geo_tick \<Rightarrow> geo_tick list \<Rightarrow> updater \<Rightarrow> updater" where
  "update_run lib cfg first ts u = fold (update_tick lib cfg) ts (update_start lib cfg first u)"

subsection \<open>Replacing\<close>

lemma gcall_fields [simp]:
  "gw_files (snd (gcall w)) = gw_files w" "gw_db (snd (gcall w)) = gw_db w"
  by (auto simp: gcall_def split: list.split outcome.split)

lemma gcall_cases:
  obtains (fails) e w' where "gcall w = (Some e, w')" "gw_files w' = gw_files w" "gw_db w' = gw_db w"
  | (works) w' where "gcall w = (None, w')" "gw_files w' = gw_files w" "gw_db w' = gw_db w"
  by (metis gcall_fields option.exhaust prod.collapse)

lemma geo_names_differ [simp]:
  "bak_name p \<noteq> p" "tmp_name p \<noteq> p" "stateFile p \<noteq> p" "tmp_name p \<noteq> bak_name p"
  "p \<noteq> bak_name p" "p \<noteq> tmp_name p" "p \<noteq> stateFile p" "bak_name p \<noteq> tmp_name p" "stateFile p \<noteq> bak_name p" "stateFile p \<noteq> tmp_name p"
  by (simp_all add: bak_name_def tmp_name_def stateFile_def)

end
