(* ===== verification/PropGeo.thy ===== *)
theory PropGeo
  imports GeoIp
begin

text \<open>
  What the update of the country database promises: the old database survives until the new one is in
  its place, whatever fails; and where it does not heal itself.
\<close>

lemma gcall_out: "gcall w = (None, w') \<Longrightarrow> gw_out w' = tl (gw_out w)"
  by (auto simp: gcall_def split: if_splits list.splits outcome.splits)

lemma g_exists_cases:
  obtains (no) w' where "g_exists f w = (False, w')" "gw_files w' = gw_files w" "gw_db w' = gw_db w"
  | (yes) w' where "g_exists f w = (True, w')" "gw_files w' = gw_files w" "gw_db w' = gw_db w" "gw_files w f \<noteq> None"
proof (cases w rule: gcall_cases)
  case (fails e w')
  then show thesis using no by (simp add: g_exists_def)
next
  case (works w')
  then show thesis using no yes by (cases "gw_files w f") (auto simp: g_exists_def)
qed

lemma g_rename_cases [consumes 1, case_names fails works]:
  assumes "gw_files w a = Some c"
  obtains (fails) e w' where "g_rename a b w = (Some e, w')" "gw_files w' = gw_files w" "gw_db w' = gw_db w"
  | (works) w' where "g_rename a b w = (None, w')" "gw_files w' = (gw_files w)(a := None, b \<mapsto> c)" "gw_db w' = gw_db w"
proof (cases w rule: gcall_cases)
  case f: (fails e w')
  then show thesis using fails by (simp add: g_rename_def)
next
  case (works w')
  then show thesis using that(2) assms by (simp add: g_rename_def)
qed

lemma mm_open_cases:
  obtains (fails) e w' where "mm_open lib f w = (Inl e, w')" "gw_files w' = gw_files w" "gw_db w' = gw_db w"
  | (works) b w' where "mm_open lib f w = (Inr b, w')" "gw_files w' = gw_files w" "gw_db w' = gw_db w" "gw_files w f = Some (Blob b)" "mm_valid lib b" "gw_out w' = tl (gw_out w)"
proof (cases w rule: gcall_cases)
  case f: (fails e w')
  then show thesis using fails by (simp add: mm_open_def)
next
  case w: (works w')
  note o = gcall_out [OF w(1)]
  show thesis
  proof (cases "gw_files w f")
    case None
    then show ?thesis using w by (intro fails [of "''no database''" w']) (simp_all add: mm_open_def)
  next
    case (Some c)
    show ?thesis
    proof (cases c)
      case (Blob b)
      then show ?thesis using w Some o
        by (cases "mm_valid lib b") (auto simp: mm_open_def intro: works fails)
    next
      case (StateFile st)
      then show ?thesis using w Some by (intro fails [of "''no database''" w']) (simp_all add: mm_open_def)
    qed
  qed
qed

text \<open>Where the old and the new database are; what the reader has open is always the file in place.\<close>

definition old_kept :: "bytes \<Rightarrow> bytes \<Rightarrow> bytes \<Rightarrow> geo_world \<Rightarrow> bool" where
  "old_kept path old new w \<longleftrightarrow>
    (gw_files w path = Some (Blob old) \<or>
     gw_files w (bak_name path) = Some (Blob old) \<and> gw_files w path \<in> {None, Some (Blob new)}) \<and>
    (\<forall>b. gw_db w = Some b \<longrightarrow> gw_files w path = Some (Blob b))"

definition replaced :: "bytes \<Rightarrow> bytes \<Rightarrow> bytes \<Rightarrow> geo_world \<Rightarrow> bool" where
  "replaced path old new w \<longleftrightarrow>
    gw_files w path = Some (Blob new) \<and> gw_files w (bak_name path) = Some (Blob old) \<and> gw_db w = Some new"

lemma restore_kept:
  assumes "gw_files w (bak_name path) = Some (Blob old)" "gw_files w path \<in> {None, Some (Blob new)}" "gw_db w = None"
  shows "old_kept path old new (restore path w)"
proof (cases "bak_name path" w rule: g_exists_cases)
  case (no w1)
  then show ?thesis using assms by (simp add: restore_def old_kept_def)
next
  case (yes w1)
  then have f: "gw_files w1 (bak_name path) = Some (Blob old)" using assms by simp
  show ?thesis
    by (cases rule: g_rename_cases [where b = path, OF f]) (use yes assms in \<open>simp_all add: restore_def old_kept_def\<close>)
qed

lemma swap_in_kept:
  assumes "gw_files w (bak_name path) = Some (Blob old)" "gw_files w path = None" "gw_db w = None"
    and "gw_files w (tmp_name path) = Some (Blob new)" "swap_in lib path (tmp_name path) w = (r, w')"
  shows "if r = None then replaced path old new w' else old_kept path old new w'"
  using assms(4)
proof (cases rule: g_rename_cases [where b = path])
  case (fails e w1)
  then have "old_kept path old new (restore path w1)" using assms by (intro restore_kept) simp_all
  then show ?thesis using fails assms(5) by (auto simp: swap_in_def)
next
  case r: (works w1)
  then have f: "gw_files w1 path = Some (Blob new)" "gw_files w1 (bak_name path) = Some (Blob old)" "gw_db w1 = None"
    using assms by simp_all
  show ?thesis
  proof (cases lib path w1 rule: mm_open_cases)
    case (works b w2)
    then show ?thesis using r f assms(5) by (auto simp: swap_in_def replaced_def)
  next
    case o: (fails e w2)
    then have f2: "gw_files w2 path = Some (Blob new)" "gw_files w2 (bak_name path) = Some (Blob old)" "gw_db w2 = None"
      using f by simp_all
    show ?thesis
    proof (cases "bak_name path" w2 rule: g_exists_cases)
      case (no w3)
      then show ?thesis using r o f2 assms(5) by (auto simp: swap_in_def old_kept_def)
    next
      case (yes w3)
      define w3' where "w3' = snd (g_rename (bak_name path) path w3)"
      have "gw_files w3 (bak_name path) = Some (Blob old)" using yes f2 by simp
      then have f3: "gw_db w3' = None \<and> (gw_files w3' path = Some (Blob old) \<or>
          gw_files w3' path = Some (Blob new) \<and> gw_files w3' (bak_name path) = Some (Blob old))"
        by (cases rule: g_rename_cases [where b = path]) (use yes f2 in \<open>simp_all add: w3'_def\<close>)
      show ?thesis
      proof (cases lib path w3' rule: mm_open_cases)
        case (fails e4 w4)
        then show ?thesis using r o yes f3 assms(5) by (auto simp: swap_in_def old_kept_def w3'_def [symmetric])
      next
        case (works b w4)
        then show ?thesis using r o yes f3 assms(5) by (auto simp: swap_in_def old_kept_def w3'_def [symmetric])
      qed
    qed
  qed
qed

text \<open>Looking whether the old file is there does not fail: it answers, or the process dies.\<close>

definition stat_answers :: "outcome list \<Rightarrow> bool" where
  "stat_answers out \<longleftrightarrow> (case out of Failure e # xs \<Rightarrow> False | _ \<Rightarrow> True)"

lemma g_exists_answers:
  assumes "stat_answers (gw_out w)" "gw_files w f \<noteq> None" "g_exists f w = (False, w')"
  shows "gw_dead w'"
  using assms by (auto simp: g_exists_def gcall_def stat_answers_def split: list.splits outcome.splits if_splits)

lemma g_rename_dead: "gw_dead w \<Longrightarrow> g_rename a b w = (Some ''dead'', w)"
  by (simp add: g_rename_def gcall_def)

lemma restore_dead: "gw_dead w \<Longrightarrow> restore path w = w"
  by (simp add: restore_def g_exists_def gcall_def)

lemma ReplaceFrom_kept:
  assumes "gw_files w path = Some (Blob old)" "gw_files w (tmp_name path) = Some (Blob new)"
    "stat_answers (gw_out w)" "ReplaceFrom lib path (tmp_name path) w = (r, w')"
  shows "if r = None then replaced path old new w' else old_kept path old new w'"
proof (cases path "w\<lparr>gw_db := None\<rparr>" rule: g_exists_cases)
  case (no w1)
  have "gw_dead w1" by (rule g_exists_answers [OF _ _ no(1)]) (use assms in simp_all)
  then have "r = Some [''replace failed'', ''dead''] \<and> w' = w1"
    using no(1) assms(4) by (simp add: ReplaceFrom_def swap_in_def g_rename_dead restore_dead)
  then show ?thesis using no assms(1) by (simp add: old_kept_def)
next
  case (yes w1)
  then have "gw_files w1 path = Some (Blob old)" using assms by simp
  then show ?thesis
  proof (cases rule: g_rename_cases [where b = "bak_name path"])
    case (fails e w2)
    then show ?thesis using yes assms by (auto simp: ReplaceFrom_def old_kept_def)
  next
    case (works w2)
    show ?thesis
      by (rule swap_in_kept [of w2]) (use works yes assms in \<open>simp_all add: ReplaceFrom_def\<close>)
  qed
qed

lemma g_write_cases:
  obtains (fails) e w' where "g_write f c w = (Some e, w')" "gw_files w' = gw_files w" "gw_db w' = gw_db w"
  | (works) w' where "g_write f c w = (None, w')" "gw_files w' = (gw_files w)(f \<mapsto> c)" "gw_db w' = gw_db w" "gw_out w' = tl (gw_out w)"
proof (cases w rule: gcall_cases)
  case f: (fails e w')
  then show thesis using fails by (simp add: g_write_def)
next
  case (works w')
  then show thesis using that(2) gcall_out [OF works(1)] by (simp add: g_write_def)
qed

lemma g_remove_kept:
  assumes "f \<noteq> path" "f \<noteq> bak_name path"
  shows "old_kept path old new (g_remove f w) = old_kept path old new w"
    "replaced path old new (g_remove f w) = replaced path old new w"
  by (cases w rule: gcall_cases; use assms in \<open>auto simp: g_remove_def old_kept_def replaced_def\<close>)+

text \<open>What makes a downloaded database acceptable.\<close>

definition acceptable :: "mmdb \<Rightarrow> bytes \<Rightarrow> bool" where
  "acceptable lib b \<longleftrightarrow> mm_valid lib b \<and>
     (case mm_find lib b probeIP of Some (country, _) \<Rightarrow> fst country \<noteq> [] | None \<Rightarrow> False)"

definition checked :: "mmdb \<Rightarrow> bytes \<Rightarrow> geo_world \<Rightarrow> bytes list option \<times> geo_world" where
  "checked lib path w =
    (case mm_open lib (tmp_name path) w of (Inl e, w3) \<Rightarrow> (Some [''check failed'', e], w3)
     | (Inr b, w3) \<Rightarrow>
       (case mm_find lib b probeIP of
          Some (country, _) \<Rightarrow> if fst country = [] then (Some [''check failed''], w3) else ReplaceFrom lib path (tmp_name path) w3
        | None \<Rightarrow> (Some [''check failed''], w3)))"

lemma checked_kept:
  assumes "gw_files w path = Some (Blob old)" "gw_files w (tmp_name path) = Some (Blob new)" "gw_db w \<in> {None, Some old}"
    "stat_answers (tl (gw_out w))" "checked lib path w = (r, w')"
  shows "if r = None then acceptable lib new \<and> replaced path old new w' else old_kept path old new w'"
proof (cases lib "tmp_name path" w rule: mm_open_cases)
  case (fails e w1)
  then show ?thesis using assms by (auto simp: checked_def old_kept_def)
next
  case o: (works b w1)
  have b: "b = new" using o assms(2) by simp
  show ?thesis
  proof (cases "acceptable lib new")
    case True
    then have R: "ReplaceFrom lib path (tmp_name path) w1 = (r, w')"
      using o b assms(5) by (auto simp: checked_def acceptable_def split: option.splits)
    have "if r = None then replaced path old new w' else old_kept path old new w'"
      by (rule ReplaceFrom_kept [OF _ _ _ R]) (use o assms in simp_all)
    with True show ?thesis by simp
  next
    case False
    then have "r = Some [''check failed''] \<and> w' = w1"
      using o b assms(5) by (auto simp: checked_def acceptable_def split: option.splits if_splits)
    then show ?thesis using o assms by (auto simp: old_kept_def)
  qed
qed

lemma install_kept:
  assumes "gw_files w path = Some (Blob old)" "gw_db w \<in> {None, Some old}"
    "stat_answers (drop 3 (gw_out w))" "install lib path new w = (r, w')"
  shows "if r = None then acceptable lib new \<and> replaced path old new w' else old_kept path old new w'"
proof (cases w rule: gcall_cases)
  case (fails e w1)
  then show ?thesis using assms by (auto simp: install_def old_kept_def)
next
  case m: (works w1)
  show ?thesis
  proof (cases "tmp_name path" "Blob new" w1 rule: g_write_cases)
    case (fails e w2)
    then show ?thesis using m assms by (auto simp: install_def old_kept_def)
  next
    case (works w2)
    obtain r' w3 where c: "checked lib path w2 = (r', w3)" by fastforce
    have rw: "r = r'" "w' = g_remove (tmp_name path) w3"
      using m works c assms(4) by (simp_all add: install_def checked_def [symmetric])
    have out: "tl (gw_out w2) = drop 3 (gw_out w)"
      using works(4) gcall_out [OF m(1)] by (simp add: drop_Suc eval_nat_numeral)
    have "if r' = None then acceptable lib new \<and> replaced path old new w3 else old_kept path old new w3"
      by (rule checked_kept [OF _ _ _ _ c]) (use m works assms out in simp_all)
    then show ?thesis by (simp add: rw g_remove_kept)
  qed
qed

text \<open>C7: updating the country database never loses it: from a state where the old database is in place,
  install either returns success and the new database, which passed the check, is in place and open, with
  the old one beside it, or returns an error and the old database is still in place or beside it, where the
  reader has nothing open but the file in place. This holds for every sequence of failures and for a crash at
  any call, except a failing Stat of the old file, which the code takes for a missing one.\<close>

theorem install_safe:
  assumes "gw_files w path = Some (Blob old)" "gw_db w \<in> {None, Some old}"
    "stat_answers (drop 3 (gw_out w))" "install lib path new w = (r, w')"
  shows "if r = None then acceptable lib new \<and> replaced path old new w' else old_kept path old new w'"
  by (rule install_kept [OF assms])

definition geo_lib :: mmdb where
  "geo_lib = \<lparr>mm_valid = (\<lambda>b. b \<noteq> []), mm_find = (\<lambda>b ip. Some ((''US'', (\<lambda>_. [])), ([], (\<lambda>_. []))))\<rparr>"

theorem install_safe_witness:
  "(let w = \<lparr>gw_files = [''db'' \<mapsto> Blob ''old''], gw_out = [], gw_dead = False, gw_db = Some ''old''\<rparr>;
        w' = snd (install geo_lib ''db'' ''new'' w)
    in fst (install geo_lib ''db'' ''new'' w) = None \<and> acceptable geo_lib ''new'' \<and> replaced ''db'' ''old'' ''new'' w')"
proof -
  let ?w = "\<lparr>gw_files = [''db'' \<mapsto> Blob ''old''], gw_out = [], gw_dead = False, gw_db = Some ''old''\<rparr>"
  have r: "fst (install geo_lib ''db'' ''new'' ?w) = None"
    by (simp add: install_def gcall_def g_write_def mm_open_def tmp_name_def geo_lib_def ReplaceFrom_def
        g_exists_def g_rename_def bak_name_def swap_in_def)
  then have e: "install geo_lib ''db'' ''new'' ?w = (None, snd (install geo_lib ''db'' ''new'' ?w))"
    by (simp add: prod_eq_iff)
  show ?thesis
    using install_safe [OF _ _ _ e] r
    by (simp add: stat_answers_def)
qed

subsection \<open>A reader that stays closed\<close>

text \<open>C39: when the new file cannot be moved into its place the old one is moved back and an error is returned,
  but the reader, which was closed for the move, is not opened again: every lookup finds nothing although
  the database is there.\<close>

theorem failed_replace_closes:
  assumes "gw_files w path = Some (Blob old)" "\<not> gw_dead w"
    "gw_out w = [Success, Success, Failure e, Success, Success] @ rest"
  shows "let (r, w') = ReplaceFrom lib path (tmp_name path) w in
    r \<noteq> None \<and> gw_files w' path = Some (Blob old) \<and> \<not> OK w' \<and> Lookup lib ip w' = None"
  using assms
  by (simp add: ReplaceFrom_def g_exists_def gcall_def g_rename_def swap_in_def restore_def OK_def Lookup_def)

theorem failed_replace_closes_witness:
  "(let w = \<lparr>gw_files = [''db'' \<mapsto> Blob ''old'', ''db.tmp'' \<mapsto> Blob ''new''],
        gw_out = [Success, Success, Failure ''busy'', Success, Success], gw_dead = False, gw_db = Some ''old''\<rparr>
    in Lookup geo_lib probeIP w \<noteq> None \<and> Lookup geo_lib probeIP (snd (ReplaceFrom geo_lib ''db'' (tmp_name ''db'') w)) = None)"
  using failed_replace_closes [of "\<lparr>gw_files = [''db'' \<mapsto> Blob ''old'', ''db.tmp'' \<mapsto> Blob ''new''],
      gw_out = [Success, Success, Failure ''busy'', Success, Success], gw_dead = False, gw_db = Some ''old''\<rparr>"
      "''db''" "''old''" "''busy''" "[]" geo_lib probeIP]
  by (simp add: case_prod_beta Let_def Lookup_def geo_lib_def)

subsection \<open>A database that is not fetched again\<close>

definition calm :: "geo_world \<Rightarrow> bool" where
  "calm w \<longleftrightarrow> gw_out w = [] \<and> \<not> gw_dead w"

text \<open>The server still has the version whose answer the state file records.\<close>

definition unchanged_since :: "update_state \<Rightarrow> geo_tick \<Rightarrow> bool" where
  "unchanged_since s t \<longleftrightarrow>
    (case gt_server t (us_ETag s) (us_LastModified s) of Inr r \<Rightarrow> dl_status r = 304 | Inl _ \<Rightarrow> False)"

lemma UpdateNow_unchanged:
  assumes "configured cfg" "calm w" "gw_files w (stateFile (uc_DBPath cfg)) = Some (StateFile s)" "unchanged_since s t"
  shows "UpdateNow lib (gt_server t) cfg (gt_now t) (gt_stamp t) (w, sys) = (None, w, sys)"
proof -
  have "loadState (uc_DBPath cfg) w = (s, w)"
    using assms by (simp add: loadState_def gcall_def calm_def)
  then show ?thesis
    using assms by (auto simp: UpdateNow_def configured_def unchanged_since_def split: sum.splits)
qed

lemma run_update_unchanged:
  assumes "configured cfg" "calm (up_world u)" "gw_files (up_world u) (stateFile (uc_DBPath cfg)) = Some (StateFile s)"
    "unchanged_since s t"
  shows "run_update lib cfg what t u = u"
  using UpdateNow_unchanged [OF assms] by (simp add: run_update_def)

lemma ticks_unchanged:
  assumes "configured cfg" "list_all (unchanged_since s) ts"
    "calm (up_world u)" "gw_files (up_world u) (stateFile (uc_DBPath cfg)) = Some (StateFile s)"
  shows "up_world (fold (update_tick lib cfg) ts u) = up_world u \<and> up_sys (fold (update_tick lib cfg) ts u) = up_sys u"
  using assms(2-)
proof (induction ts arbitrary: u)
  case (Cons t ts)
  have "up_world (update_tick lib cfg t u) = up_world u \<and> up_sys (update_tick lib cfg t u) = up_sys u"
    using assms(1) Cons.prems run_update_unchanged [of cfg "u\<lparr>up_lastRunDay := d\<rparr>" s t for d]
    by (simp add: update_tick_def Let_def)
  then show ?case using Cons by simp
qed simp

text \<open>C40: a database that is lost while its state file is still there is never fetched again as long as the
  server has the same version: neither the start, which sees that the file is missing, nor any later tick
  changes the directory, and only the start reports anything, as information.\<close>

theorem missing_not_fetched:
  assumes "configured cfg" "calm (up_world u)" "gw_files (up_world u) (uc_DBPath cfg) = None"
    "gw_files (up_world u) (stateFile (uc_DBPath cfg)) = Some (StateFile s)"
    "list_all (unchanged_since s) (t # ts)"
  shows "up_world (update_run lib cfg t ts u) = up_world u \<and>
    up_sys (update_run lib cfg t ts u) = ReportSys (gt_now t) ''geoip'' ''info'' [''database missing''] (up_sys u)"
proof -
  have "update_start lib cfg t u = u\<lparr>up_sys := ReportSys (gt_now t) ''geoip'' ''info'' [''database missing''] (up_sys u)\<rparr>"
    using assms run_update_unchanged by (simp add: update_start_def)
  then show ?thesis
    using ticks_unchanged [OF assms(1), of s ts] assms by (simp add: update_run_def)
qed

definition geo_cfg :: update_cfg where
  "geo_cfg = \<lparr>uc_DBPath = ''db'', uc_AccountID = ''1'', uc_LicenseKey = ''k'', uc_Enabled = True, uc_Hour = 2, uc_Minute = 30\<rparr>"

definition geo_304 :: geo_server where
  "geo_304 etag modified = Inr \<lparr>dl_status = (if etag = ''v1'' then 304 else 200), dl_ETag = ''v1'', dl_LastModified = [],
     dl_archive = Inr [Inr (''GeoLite2-Country.mmdb'', True, ''new'')]\<rparr>"

theorem missing_not_fetched_witness:
  "(let s = \<lparr>us_ETag = ''v1'', us_LastModified = [], us_UpdatedAt = []\<rparr>;
        w = \<lparr>gw_files = [''db.state'' \<mapsto> StateFile s], gw_out = [], gw_dead = False, gw_db = None\<rparr>;
        t = \<lparr>gt_now = 0, gt_server = geo_304, gt_stamp = []\<rparr>;
        u = \<lparr>up_world = w, up_sys = Some (make_chan 8), up_rep = NewRateLimiter (60 * minute), up_lastRunDay = 0\<rparr>
    in up_world (update_run geo_lib geo_cfg t [t, t] u) = w \<and> \<not> OK w)"
proof -
  let ?s = "\<lparr>us_ETag = ''v1'', us_LastModified = [], us_UpdatedAt = []\<rparr>"
  let ?w = "\<lparr>gw_files = [''db.state'' \<mapsto> StateFile ?s], gw_out = [], gw_dead = False, gw_db = None\<rparr>"
  let ?t = "\<lparr>gt_now = 0, gt_server = geo_304, gt_stamp = []\<rparr>"
  let ?u = "\<lparr>up_world = ?w, up_sys = Some (make_chan 8), up_rep = NewRateLimiter (60 * minute), up_lastRunDay = 0\<rparr>"
  have "list_all (unchanged_since ?s) [?t, ?t, ?t]" by (simp add: unchanged_since_def geo_304_def)
  then show ?thesis
    using missing_not_fetched [of geo_cfg ?u ?s ?t "[?t, ?t]" geo_lib]
    by (simp add: geo_cfg_def configured_def calm_def stateFile_def OK_def)
qed

subsection \<open>The first fetch\<close>

lemma calm_gcall [simp]: "calm w \<Longrightarrow> gcall w = (None, w)"
  by (simp add: calm_def gcall_def)

lemma calm_update [simp]: "calm (w\<lparr>gw_files := f\<rparr>) = calm w" "calm (w\<lparr>gw_db := d\<rparr>) = calm w"
  by (simp_all add: calm_def)

lemma install_fresh:
  assumes "calm w" "gw_files w path = None" "acceptable lib data"
  shows "install lib path data w =
    (None, w\<lparr>gw_files := (gw_files w)(tmp_name path := None, path \<mapsto> Blob data), gw_db := Some data\<rparr>)"
  using assms
  by (auto simp: install_def g_write_def mm_open_def acceptable_def ReplaceFrom_def g_exists_def g_rename_def swap_in_def
      g_remove_def split: option.splits)

text \<open>When neither the database nor its state is there and the server answers with an archive that holds an
  acceptable database, the start fetches it: the file is in place, the reader has it open, and the state
  file records the headers of that answer.\<close>

theorem first_fetch:
  assumes "configured cfg" "calm (up_world u)" "gw_files (up_world u) (uc_DBPath cfg) = None"
    "gw_files (up_world u) (stateFile (uc_DBPath cfg)) = None"
    "gt_server t [] [] = Inr r" "dl_status r = 200" "extractMMDB (dl_archive r) = Inr data" "acceptable lib data"
  shows "let w = up_world (update_start lib cfg t u) in
    gw_files w (uc_DBPath cfg) = Some (Blob data) \<and> gw_db w = Some data \<and>
    gw_files w (stateFile (uc_DBPath cfg)) =
      Some (StateFile \<lparr>us_ETag = dl_ETag r, us_LastModified = dl_LastModified r, us_UpdatedAt = gt_stamp t\<rparr>)"
proof -
  note f = install_fresh [OF assms(2,3,8)]
  have "loadState (uc_DBPath cfg) (up_world u) = (no_state, up_world u)"
    using assms(2,4) by (simp add: loadState_def)
  then show ?thesis
    using assms f
    by (simp add: update_start_def run_update_def UpdateNow_def configured_def no_state_def saveState_def g_write_def)
qed

end
