(* ===== verification/GeoApi.thy ===== *)
theory GeoApi
  imports PropGeo ApiProfile
begin

text \<open>
  The interface between the API and the country database (\<^verbatim>\<open>GeoLookuper\<close> of \<^verbatim>\<open>internal/api/geo.go\<close>): what the
  API relies on, the reader of \<^verbatim>\<open>internal/geoip\<close> as its provider, and what the map shows around an update.
\<close>

subsection \<open>The interface\<close>

text \<open>A lookup finds nothing in a database that is not loaded, and what it finds has a code.\<close>

locale geo_lookuper =
  fixes ok :: "'s \<Rightarrow> bool"
    and lookup :: "'s \<Rightarrow> bytes \<Rightarrow> (bytes \<times> bytes) option"
  assumes lookup_closed: "\<not> ok s \<Longrightarrow> lookup s ip = None"
    and lookup_code: "lookup s ip = Some (code, nam) \<Longrightarrow> code \<noteq> []"
begin

lemma country_of_lookup:
  assumes "en_geo e = Some \<lparr>ge_OK = ok s, ge_Lookup = lookup s\<rparr>"
  shows "country_of e ip = (case lookup s (ParseIP ip) of None \<Rightarrow> (unknownCountry, unknownCountry) | Some r \<Rightarrow> r)"
  using assms lookup_closed [of s] lookup_code [of s]
  by (auto simp: country_of_def split: option.split)

lemma ipCountry_lookup:
  assumes "en_geo e = Some \<lparr>ge_OK = ok s, ge_Lookup = lookup s\<rparr>"
  shows "ipCountry e ip =
    (case lookup s ip of None \<Rightarrow> GNull | Some (code, nam) \<Rightarrow> GObj [(''code'', GStr code), (''name'', GStr nam)])"
  using assms lookup_closed [of s] lookup_code [of s]
  by (auto simp: ipCountry_def split: option.split)

end

interpretation geo_reader: geo_lookuper OK "\<lambda>w ip. Lookup lib ip w" for lib
  by unfold_locales (auto simp: OK_def Lookup_def Let_def case_prod_beta split: option.splits if_splits)

subsection \<open>The map around an update\<close>

text \<open>What a database says of an address.\<close>

definition answer_of :: "mmdb \<Rightarrow> bytes \<Rightarrow> bytes \<Rightarrow> bytes \<times> bytes" where
  "answer_of lib db ip =
    (case mm_find lib db ip of None \<Rightarrow> (unknownCountry, unknownCountry)
     | Some (country, registered) \<Rightarrow>
       (let (code, names) = (if fst country = [] then registered else country) in
        if code = [] then (unknownCountry, unknownCountry)
        else (code, if names ''zh-CN'' = [] then names ''en'' else names ''zh-CN'')))"

lemma country_of_reader:
  assumes "en_geo e = Some \<lparr>ge_OK = OK w, ge_Lookup = (\<lambda>ip. Lookup lib ip w)\<rparr>"
  shows "country_of e ip =
    (case gw_db w of None \<Rightarrow> (unknownCountry, unknownCountry) | Some b \<Rightarrow> answer_of lib b (ParseIP ip))"
  unfolding geo_reader.country_of_lookup [OF assms]
  by (auto simp: Lookup_def answer_of_def Let_def case_prod_beta split: option.splits)

text \<open>C33: after an update that succeeded the map shows for every address what the new database says; after one
  that failed it shows what the old one says, what the new one says, or that the country is not known.\<close>

theorem map_follows_update:
  assumes "gw_files w path = Some (Blob old)" "gw_db w \<in> {None, Some old}"
    "stat_answers (drop 3 (gw_out w))" "install lib path new w = (r, w')"
    "en_geo e = Some \<lparr>ge_OK = OK w', ge_Lookup = (\<lambda>ip. Lookup lib ip w')\<rparr>"
  shows "country_of e ip \<in>
    (if r = None then {answer_of lib new (ParseIP ip)}
     else {(unknownCountry, unknownCountry), answer_of lib old (ParseIP ip), answer_of lib new (ParseIP ip)})"
proof -
  have k: "if r = None then acceptable lib new \<and> replaced path old new w' else old_kept path old new w'"
    by (rule install_kept [OF assms(1-4)])
  show ?thesis
  proof (cases "r = None")
    case True
    then have "gw_db w' = Some new" using k by (simp add: replaced_def)
    then show ?thesis using True by (simp add: country_of_reader [OF assms(5)])
  next
    case False
    then have "gw_db w' \<in> {None, Some old, Some new}"
      using k by (cases "gw_db w'") (auto simp: old_kept_def)
    then show ?thesis using False by (auto simp: country_of_reader [OF assms(5)])
  qed
qed

theorem map_follows_update_witness:
  "\<exists>e w'. install geo_lib ''db'' ''new'' \<lparr>gw_files = [''db'' \<mapsto> Blob ''old''], gw_out = [], gw_dead = False, gw_db = Some ''old''\<rparr> = (None, w') \<and>
     en_geo e = Some \<lparr>ge_OK = OK w', ge_Lookup = (\<lambda>ip. Lookup geo_lib ip w')\<rparr> \<and> country_of e ''8.8.8.8'' = (''US'', [])"
proof -
  let ?w = "\<lparr>gw_files = [''db'' \<mapsto> Blob ''old''], gw_out = [], gw_dead = False, gw_db = Some ''old''\<rparr>"
  define w' where "w' = snd (install geo_lib ''db'' ''new'' ?w)"
  have "fst (install geo_lib ''db'' ''new'' ?w) = None"
    by (simp add: install_def gcall_def g_write_def mm_open_def tmp_name_def geo_lib_def ReplaceFrom_def
        g_exists_def g_rename_def bak_name_def swap_in_def)
  then have i: "install geo_lib ''db'' ''new'' ?w = (None, w')" by (simp add: w'_def prod_eq_iff)
  define e :: env where "e = undefined\<lparr>en_geo := Some \<lparr>ge_OK = OK w', ge_Lookup = (\<lambda>ip. Lookup geo_lib ip w')\<rparr>\<rparr>"
  have e: "en_geo e = Some \<lparr>ge_OK = OK w', ge_Lookup = (\<lambda>ip. Lookup geo_lib ip w')\<rparr>" by (simp add: e_def)
  have "country_of e ''8.8.8.8'' = answer_of geo_lib ''new'' (ParseIP ''8.8.8.8'')"
    using map_follows_update [OF _ _ _ i e, of "''old''" "''8.8.8.8''"] by (simp add: stat_answers_def)
  also have "\<dots> = (''US'', [])" by (simp add: answer_of_def geo_lib_def)
  finally show ?thesis using i e by blast
qed

end
