(* ===== verification/HpShutdown.thy ===== *)
theory HpShutdown
  imports HpServer
begin

text \<open>
  The life of the honeypot as \<^verbatim>\<open>Run\<close> of \<^verbatim>\<open>internal/honeypot/honeypot.go\<close> arranges it: accept loops that
  hand connections to goroutines, and the end in three steps: close the listeners, wait for the
  loops, wait for the connections.

  The steps refine those of \<^verbatim>\<open>gov_step\<close>, so the governance invariant is inherited.
\<close>

subsection \<open>States and steps\<close>

datatype hp_phase = Serving | Closing | WaitConns | HpReturned

text \<open>
  The server; how many loops are in or before Accept, and how many have accepted a connection and not
  yet counted it in \<^verbatim>\<open>connWG\<close>; how many counted connections have not started, how many run, and how
  many have given back their token but are not through their deferred functions (the last of them
  is \<^verbatim>\<open>connWG.Done\<close>).
\<close>

record hp_life =
  hl_srv :: server
  hl_loops :: nat
  hl_accepted :: nat
  hl_pending :: nat
  hl_active :: nat
  hl_ending :: nat
  hl_cancelled :: bool
  hl_phase :: hp_phase

definition hp_start :: "int \<Rightarrow> (bytes \<Rightarrow> bytes + bytes) \<Rightarrow> (bytes \<times> bytes) list \<Rightarrow> nat \<Rightarrow> sysch \<Rightarrow> hp_life" where
  "hp_start now net listen buf sys =
    \<lparr>hl_srv = run_listen now net (NewServer listen (Some (make_chan buf)) sys),
     hl_loops = length (filter (\<lambda>(p, a). a \<noteq> [] \<and> isl (net a)) listen), hl_accepted = 0, hl_pending = 0, hl_active = 0, hl_ending = 0,
     hl_cancelled = False, hl_phase = Serving\<rparr>"

text \<open>An Accept that fails leaves the loop once the context is cancelled and is tried again before.\<close>

inductive hp_step :: "hp_life \<Rightarrow> hp_life \<Rightarrow> bool" where
  hp_accept: "0 < hl_loops h \<Longrightarrow> acceptConn now proto ip (hl_srv h) = (True, s') \<Longrightarrow>
    hp_step h (h\<lparr>hl_srv := s', hl_loops := hl_loops h - 1, hl_accepted := hl_accepted h + 1\<rparr>)"
| hp_refuse: "0 < hl_loops h \<Longrightarrow> acceptConn now proto ip (hl_srv h) = (False, s') \<Longrightarrow> hp_step h (h\<lparr>hl_srv := s'\<rparr>)"
| hp_spawn: "0 < hl_accepted h \<Longrightarrow>
    hp_step h (h\<lparr>hl_accepted := hl_accepted h - 1, hl_loops := hl_loops h + 1, hl_pending := hl_pending h + 1\<rparr>)"
| hp_begin: "0 < hl_pending h \<Longrightarrow>
    hp_step h (h\<lparr>hl_srv := conn_start now proto ip (hl_srv h), hl_pending := hl_pending h - 1, hl_active := hl_active h + 1\<rparr>)"
| hp_record: "0 < hl_active h \<Longrightarrow> hp_step h (h\<lparr>hl_srv := conn_rec now proto ip ev (hl_srv h)\<rparr>)"
| hp_bytes: "0 < hl_active h \<Longrightarrow> hp_step h (h\<lparr>hl_srv := conn_bytes n (hl_srv h)\<rparr>)"
| hp_release: "0 < hl_active h \<Longrightarrow>
    hp_step h (h\<lparr>hl_srv := conn_release (hl_srv h), hl_active := hl_active h - 1, hl_ending := hl_ending h + 1\<rparr>)"
| hp_inactive: "0 < hl_ending h \<Longrightarrow>
    hp_step h (h\<lparr>hl_srv := conn_inactive (hl_srv h), hl_ending := hl_ending h - 1\<rparr>)"
| hp_consume: "sv_credch (hl_srv h) = Some ch \<Longrightarrow> try_recv ch = Some (ev, ch') \<Longrightarrow>
    hp_step h (h\<lparr>hl_srv := (hl_srv h)\<lparr>sv_credch := Some ch'\<rparr>\<rparr>)"
| hp_cancel: "hp_step h (h\<lparr>hl_cancelled := True\<rparr>)"
| hp_loop_ends: "0 < hl_loops h \<Longrightarrow> hl_cancelled h \<Longrightarrow> hp_step h (h\<lparr>hl_loops := hl_loops h - 1\<rparr>)"
| hp_close: "hl_phase h = Serving \<Longrightarrow> hl_cancelled h \<Longrightarrow> hp_step h (h\<lparr>hl_phase := Closing\<rparr>)"
| hp_loops_done: "hl_phase h = Closing \<Longrightarrow> hl_loops h + hl_accepted h = 0 \<Longrightarrow> hp_step h (h\<lparr>hl_phase := WaitConns\<rparr>)"
| hp_conns_done: "hl_phase h = WaitConns \<Longrightarrow> hl_pending h + hl_active h + hl_ending h = 0 \<Longrightarrow>
    hp_step h (h\<lparr>hl_phase := HpReturned\<rparr>)"

inductive_cases hp_stepE: "hp_step h h'"

subsection \<open>Refinement of the governance\<close>

text \<open>A connection that was accepted and not yet counted is one that has not started.\<close>

definition gov_of :: "hp_life \<Rightarrow> gov" where
  "gov_of h = \<lparr>gv_srv = hl_srv h, gv_pending = hl_accepted h + hl_pending h, gv_active = hl_active h,
    gv_ending = hl_ending h\<rparr>"

lemma gov_simulates: "hp_step h h' \<Longrightarrow> gov_step (gov_of h) (gov_of h') \<or> gov_of h' = gov_of h"
proof (induction rule: hp_step.induct)
  case (hp_accept h now proto ip s')
  then show ?case using step_accept [of now proto ip "gov_of h" s'] by (simp add: gov_of_def)
next
  case (hp_refuse h now proto ip s')
  then show ?case using step_refuse [of now proto ip "gov_of h" s'] by (simp add: gov_of_def)
next
  case (hp_begin h now proto ip)
  then show ?case using step_start [of "gov_of h" now proto ip] by (simp add: gov_of_def)
next
  case (hp_record h now proto ip ev)
  then show ?case using step_record [of "gov_of h" now proto ip ev] by (simp add: gov_of_def)
next
  case (hp_bytes h n)
  then show ?case using step_bytes [of "gov_of h" n] by (simp add: gov_of_def)
next
  case (hp_release h)
  then show ?case using step_release [of "gov_of h"] by (simp add: gov_of_def)
next
  case (hp_inactive h)
  then show ?case using step_inactive [of "gov_of h"] by (simp add: gov_of_def)
next
  case (hp_consume h ch ev ch')
  then show ?case using step_consume [of "gov_of h" ch ev ch'] by (simp add: gov_of_def)
qed (simp_all add: gov_of_def)

lemma run_listen_fields [simp]:
  "sv_sem (run_listen now net s) = sv_sem s" "sv_stats (run_listen now net s) = sv_stats s"
  "sv_credch (run_listen now net s) = sv_credch s" "sv_rl (run_listen now net s) = sv_rl s"
proof -
  have one: "sv_sem (listen_one now net pa s) = sv_sem s \<and> sv_stats (listen_one now net pa s) = sv_stats s \<and>
      sv_credch (listen_one now net pa s) = sv_credch s \<and> sv_rl (listen_one now net pa s) = sv_rl s" for pa s
    by (auto simp: listen_one_def case_prod_beta split: sum.split)
  have "sv_sem (fold (listen_one now net) l s) = sv_sem s \<and> sv_stats (fold (listen_one now net) l s) = sv_stats s \<and>
      sv_credch (fold (listen_one now net) l s) = sv_credch s \<and> sv_rl (fold (listen_one now net) l s) = sv_rl s" for l
    by (induction l arbitrary: s) (simp_all add: one)
  then show "sv_sem (run_listen now net s) = sv_sem s" "sv_stats (run_listen now net s) = sv_stats s"
    "sv_credch (run_listen now net s) = sv_credch s" "sv_rl (run_listen now net s) = sv_rl s"
    by (simp_all add: run_listen_def Let_def)
qed

lemma gov_inv_hp:
  assumes "hp_step\<^sup>*\<^sup>* (hp_start now net listen buf sys) h"
  shows "gov_inv (gov_of h)"
  using assms
proof (induction rule: rtranclp_induct)
  case base
  show ?case using gov_inv_init [of listen buf sys]
    by (simp add: gov_inv_def gov_of_def hp_start_def gov_init_def)
next
  case (step h h')
  then show ?case using gov_simulates [OF step(2)] gov_inv_step by auto
qed

subsection \<open>The order of the end\<close>

definition life_ok :: "hp_life \<Rightarrow> bool" where
  "life_ok h \<longleftrightarrow>
    (hl_phase h \<in> {WaitConns, HpReturned} \<longrightarrow> hl_loops h = 0 \<and> hl_accepted h = 0) \<and>
    (hl_phase h = HpReturned \<longrightarrow> hl_pending h = 0 \<and> hl_active h = 0 \<and> hl_ending h = 0)"

lemma life_ok_step: "hp_step h h' \<Longrightarrow> life_ok h \<Longrightarrow> life_ok h'"
  by (induction rule: hp_step.induct) (auto simp: life_ok_def)

lemma life_ok_reachable:
  assumes "hp_step\<^sup>*\<^sup>* (hp_start now net listen buf sys) h"
  shows "life_ok h"
  using assms
  by (induction rule: rtranclp_induct) (auto simp: life_ok_step, simp add: life_ok_def hp_start_def)

text \<open>The credentials in the channel.\<close>

definition captured :: "hp_life \<Rightarrow> cred_event list" where
  "captured h = (case sv_credch (hl_srv h) of None \<Rightarrow> [] | Some ch \<Rightarrow> ch_buf ch)"

text \<open>After the end only the consumer of the channel acts, and it only takes.\<close>

lemma returned_quiet:
  assumes "hp_step h h'" "life_ok h" "hl_phase h = HpReturned"
  shows "hl_phase h' = HpReturned \<and> (captured h' = captured h \<or> (\<exists>ev. captured h = ev # captured h'))"
  using assms
proof (induction rule: hp_step.induct)
  case (hp_consume h ch ev ch')
  then show ?case using chan.recv_next [OF hp_consume(2)] by (auto simp: captured_def)
qed (auto simp: life_ok_def captured_def)

lemma returned_quiet_star:
  assumes "hp_step\<^sup>*\<^sup>* h h'" "life_ok h" "hl_phase h = HpReturned"
  shows "hl_phase h' = HpReturned \<and> life_ok h' \<and> (\<exists>taken. captured h = taken @ captured h')"
  using assms(1)
proof (induction rule: rtranclp_induct)
  case (step h1 h2)
  then have s: "hl_phase h2 = HpReturned \<and> (captured h2 = captured h1 \<or> (\<exists>ev. captured h1 = ev # captured h2))"
    "life_ok h2"
    using returned_quiet [OF step(2)] life_ok_step [OF step(2)] by blast+
  obtain taken where t: "captured h = taken @ captured h1" using step by blast
  have "\<exists>taken. captured h = taken @ captured h2"
  proof (cases "captured h2 = captured h1")
    case True
    then show ?thesis using t by auto
  next
    case False
    then obtain ev where "captured h1 = ev # captured h2" using s by blast
    then show ?thesis using t by (intro exI [of _ "taken @ [ev]"]) simp
  qed
  then show ?case using s by blast
qed (use assms in simp)

end
