(* ===== verification/Agent.thy ===== *)
theory Agent
  imports Store Fw Collect DiskMon Conn F2b Out GeoIp ApiRoutes HpShutdown
begin

text \<open>
  \<^verbatim>\<open>cmd/sentry-agent/main.go\<close>: which goroutines are started and what each is given, how the parts are
  set up from the configuration, and the exit codes.

  The parts themselves are in the other theories; \<^verbatim>\<open>runConnChannel\<close> is in \<^verbatim>\<open>Conn\<close>, \<^verbatim>\<open>refreshBanned\<close> in \<^verbatim>\<open>F2b\<close>,
  the judgements on addresses and modes in \<^verbatim>\<open>DiskMon\<close>, the request of the archiver in \<^verbatim>\<open>Store\<close>.
\<close>

subsection \<open>What is started\<close>

datatype task = TPrinter | TStore | TArchiver | TLearner | TApi | TDiskMonitor | THoneypot | TCollector | TConn
  | TSnapshotter | TSSH | TFirewall | TF2B | TBanned

text \<open>In the order of the source, for the debug mode or not.\<close>

definition main_services :: "bool \<Rightarrow> config \<Rightarrow> task list" where
  "main_services stdoutMode c =
    (if stdoutMode then [TPrinter]
     else [TStore, TArchiver] @ (if SSHLearnEnabled (cfg_FW c) then [TLearner] else []) @ [TApi, TDiskMonitor])"

definition main_producers :: "bool \<Rightarrow> config \<Rightarrow> task list" where
  "main_producers stdoutMode c =
    (if shouldStartHoneypot stdoutMode (hp_Enabled (cfg_Honeypot c)) then [THoneypot] else []) @
    [TCollector, TConn, TSnapshotter, TSSH, TFirewall] @
    (if f2b_Enabled (cfg_F2B c) then [TF2B, TBanned] else [])"

definition main_tasks :: "bool \<Rightarrow> config \<Rightarrow> task list" where
  "main_tasks stdoutMode c = main_services stdoutMode c @ main_producers stdoutMode c"

text \<open>Whether it counts in the wait group that the consumer waits for (\<^verbatim>\<open>startProducer\<close>) or not (\<^verbatim>\<open>startService\<close>).\<close>

fun is_producer :: "task \<Rightarrow> bool" where
  "is_producer TPrinter = False"
| "is_producer TStore = False"
| "is_producer TArchiver = False"
| "is_producer TLearner = False"
| "is_producer TApi = False"
| "is_producer TDiskMonitor = False"
| "is_producer _ = True"

text \<open>The channels a task is given to send on, and those it receives from, by the kind of their events.\<close>

fun sends :: "task \<Rightarrow> bytes list" where
  "sends TPrinter = []"
| "sends THoneypot = [''cred'', ''system'']"
| "sends TCollector = [''resource'', ''system'']"
| "sends TConn = [''conn'', ''system'']"
| "sends TSSH = [''ssh'', ''system'']"
| "sends TFirewall = [''fw'', ''system'']"
| "sends TF2B = [''f2b'', ''system'']"
| "sends _ = [''system'']"

fun receives :: "task \<Rightarrow> bytes list" where
  "receives TPrinter = [''resource'', ''conn'', ''ssh'', ''fw'', ''f2b'', ''system'']"
| "receives TStore = [''resource'', ''conn'', ''ssh'', ''fw'', ''f2b'', ''cred'', ''system'']"
| "receives _ = []"

subsection \<open>The parts as they are set up\<close>

definition store_options :: "config \<Rightarrow> options" where
  "store_options c =
    \<lparr>op_BatchSize = nat (BatchSize (cfg_DB c)), op_RetentionDays = RetentionDays (cfg_DB c),
     op_CredRetentionDays = CredRetentionDays (cfg_DB c), op_CopyAfterDays = CopyAfterDays (cfg_Archive c),
     op_ArchiveCriticalPct = of_int (CriticalPercent (cfg_Disk c))\<rparr>"

text \<open>The server with everything that is injected before it serves; a listener that is not local is reported.\<close>

definition api_setup :: "int \<Rightarrow> config \<Rightarrow> sysch \<Rightarrow> api" where
  "api_setup now c sys =
    (let listen = web_Listen (cfg_Web c); local = isLoopbackListen listen;
         sys1 = (if local then sys else ReportSys now ''api'' ''warn'' [''web.listen is not local'', listen] sys) in
     SetLimits (WSMaxConns (cfg_Web c))
       ((Api.NewServer (WSOriginAllow (cfg_Web c)) local now)
          \<lparr>ap_dbPath := db_Path (cfg_DB c), ap_retentionDays := RetentionDays (cfg_DB c), ap_sys := sys1\<rparr>))"

text \<open>The two token buckets as \<^verbatim>\<open>SetLimits\<close> leaves them, each its rate and burst; what is not positive keeps the default.\<close>

definition bucket_limits :: "int \<Rightarrow> int \<Rightarrow> int \<Rightarrow> (int \<times> int) \<times> (int \<times> int)" where
  "bucket_limits rateRPS rateBurst heavyRPS =
    (if 1 \<le> rateRPS \<and> 1 \<le> rateBurst then (rateRPS, rateBurst) else (10, 20), if 1 \<le> heavyRPS then (heavyRPS, 6) else (1, 6))"

text \<open>What the server reads of the other parts: the last snapshot of connections, the banned list of the last
  refresh, the country database and the counter of overruns.\<close>

definition api_sources :: "mmdb \<Rightarrow> conn_snapshot option \<Rightarrow> refresher \<Rightarrow> geo_world \<Rightarrow> u64 \<Rightarrow> env \<Rightarrow> env" where
  "api_sources lib latest r w overruns e =
    e\<lparr>en_snapshot := latest,
      en_banned := Some (case rf_snapshot r of None \<Rightarrow> ([], 0) | Some b \<Rightarrow> (bs_ips b, bs_ts b)),
      en_geo := Some \<lparr>ge_OK = OK w, ge_Lookup = (\<lambda>ip. Lookup lib ip w)\<rparr>, en_overrun := overruns\<rparr>"

text \<open>The country database: a failed load is reported and everything goes on.\<close>

definition geo_setup :: "mmdb \<Rightarrow> int \<Rightarrow> config \<Rightarrow> geo_world \<Rightarrow> sysch \<Rightarrow> geo_world \<times> sysch" where
  "geo_setup lib now c w sys =
    (case Load_db lib (geo_DBPath (cfg_GeoIP c)) w of (None, w') \<Rightarrow> (w', sys)
     | (Some e, w') \<Rightarrow> (w', ReportSys now ''geoip'' ''warn'' [''not available'', e] sys))"

definition geo_update_cfg :: "config \<Rightarrow> update_cfg" where
  "geo_update_cfg c = (let g = cfg_GeoIP c in
     \<lparr>uc_DBPath = geo_DBPath g, uc_AccountID = AccountID g, uc_LicenseKey = LicenseKey g, uc_Enabled = UpdateEnabled g,
      uc_Hour = UpdateHour g, uc_Minute = UpdateMinute g\<rparr>)"

definition NewUpdater :: "geo_world \<Rightarrow> sysch \<Rightarrow> updater" where
  "NewUpdater w sys = \<lparr>up_world = w, up_sys = sys, up_rep = NewRateLimiter (60 * minute), up_lastRunDay = 0\<rparr>"

text \<open>
  The firewall filter: lists that cannot be parsed are reported and left empty. Storing the empty
  dynamic list makes the slot the learner shares.
\<close>

definition fw_setup :: "int \<Rightarrow> config \<Rightarrow> slots \<Rightarrow> sysch \<Rightarrow> fw_filter \<times> slots \<times> sysch" where
  "fw_setup now c st sys =
    (let w = cfg_FW c;
         (cidrs, sys1) = (case ParseCIDRs (InternalCIDRs w) of Inr ns \<Rightarrow> (ns, sys)
           | Inl e \<Rightarrow> ([], ReportSys now ''fw'' ''warn'' [''internal_cidrs'', e] sys));
         (ips, sys2) = (case ParseExcludeIPs (ExcludeIPs w) of Inr ips \<Rightarrow> (ips, sys1)
           | Inl e \<Rightarrow> ([], ReportSys now ''fw'' ''warn'' [''exclude_ips'', e] sys1));
         (f, st1) = SetDynamicExcludeIPs []
           \<lparr>ff_exclude_internal = ExcludeInternal w, ff_dst_internal = FilterDstInternal w, ff_cidrs = cidrs,
            ff_exclude_ips = ips, ff_dynamic = None\<rparr> st
     in (f, st1, sys2))"

text \<open>The errors that parts return and main reports: the last words of a task.\<close>

definition task_ended :: "int \<Rightarrow> bytes \<Rightarrow> bytes list option \<Rightarrow> sysch \<Rightarrow> sysch" where
  "task_ended now source r sys = (case r of None \<Rightarrow> sys | Some e \<Rightarrow> ReportSys now source ''error'' (''task ended'' # e) sys)"

subsection \<open>The exit code\<close>

text \<open>
  The configuration as it is loaded, the mode, the store as it is opened and what its loop ended with; the
  waiting time at the end is bounded and does not change the code.
\<close>

definition exit_code :: "bytes list + config \<Rightarrow> bool \<Rightarrow> bytes list + store \<Rightarrow> bytes list option \<Rightarrow> nat" where
  "exit_code cfg stdoutMode opened ended =
    (case cfg of Inl e \<Rightarrow> 1
     | Inr c \<Rightarrow>
       if stdoutMode then 0
       else case opened of Inl e \<Rightarrow> 1 | Inr s \<Rightarrow> (if ended = None then 0 else 1))"

end
