(* ===== verification/PropAgent.thy ===== *)
theory PropAgent
  imports Agent PropOut
begin

text \<open>
  What the parts are worth together: every channel has a consumer that waits for its senders, what was
  validated is what is set up, and nothing is captured after the honeypot has returned.
\<close>

subsection \<open>Channels\<close>

text \<open>Whatever the mode and the configuration, every channel a started task sends on is received from by a
  started task, every task that sends anything but system events counts as a producer, and in the debug
  mode every task that sends at all does.\<close>

theorem channels_connected:
  "set (concat (map sends (main_tasks stdoutMode c))) \<subseteq> set (concat (map receives (main_tasks stdoutMode c))) \<and>
   set (filter (\<lambda>t. set (sends t) - {''system''} \<noteq> {}) (main_tasks stdoutMode c)) \<subseteq> Collect is_producer \<and>
   set (filter (\<lambda>t. stdoutMode \<and> sends t \<noteq> []) (main_tasks stdoutMode c)) \<subseteq> Collect is_producer"
  by (cases stdoutMode; cases "SSHLearnEnabled (cfg_FW c)"; cases "hp_Enabled (cfg_Honeypot c)"; cases "f2b_Enabled (cfg_F2B c)")
     (simp_all add: main_tasks_def main_services_def main_producers_def shouldStartHoneypot_def)

subsection \<open>The filter\<close>

text \<open>For a configuration that passes validation, the firewall filter is the one it describes: neither list
  is left empty for an error, nothing is reported, and the shared slot of the learner holds the empty list.\<close>

theorem filter_as_configured:
  assumes "Validate c = None"
  shows "\<exists>ns ips. ParseCIDRs (InternalCIDRs (cfg_FW c)) = Inr ns \<and> ParseExcludeIPs (ExcludeIPs (cfg_FW c)) = Inr ips \<and>
    fw_setup now c st sys =
      (\<lparr>ff_exclude_internal = ExcludeInternal (cfg_FW c), ff_dst_internal = FilterDstInternal (cfg_FW c), ff_cidrs = ns,
        ff_exclude_ips = ips, ff_dynamic = Some (length st)\<rparr>, st @ [Some []], sys)"
proof -
  have "fw_ok (cfg_FW c)" using assms by (simp add: Validate_config_ok config_ok_def)
  then obtain ns ips where "ParseCIDRs (InternalCIDRs (cfg_FW c)) = Inr ns" "ParseExcludeIPs (ExcludeIPs (cfg_FW c)) = Inr ips"
    by (auto simp: fw_ok_def)
  then show ?thesis by (simp add: fw_setup_def SetDynamicExcludeIPs_def Let_def)
qed

theorem filter_as_configured_witness:
  "\<exists>ns. fst (fw_setup 0 Defaults [] None) =
     \<lparr>ff_exclude_internal = True, ff_dst_internal = False, ff_cidrs = ns, ff_exclude_ips = [], ff_dynamic = Some 0\<rparr>"
  using filter_as_configured [of Defaults 0 "[]" None] Defaults_config_ok
  by (auto simp: Validate_config_ok Defaults_def ParseExcludeIPs_def)

subsection \<open>Requests without Origin\<close>

lemma last_index_end: "c \<notin> set port \<Longrightarrow> last_index c (host @ c # port) = Some (length host)"
proof (induction host)
  case Nil
  have "last_index c port = None" using Nil by (induction port) auto
  then show ?case by simp
qed simp

lemma SplitHostPort_plain:
  assumes "CHR '':'' \<notin> set host" "CHR '':'' \<notin> set port" "set (host @ port) \<inter> {CHR ''['', CHR '']''} = {}"
  shows "SplitHostPort (host @ CHR '':'' # port) = Some (host, port)"
proof -
  have "\<not> has_prefix (host @ CHR '':'' # port) ''[''"
    using assms(3) by (cases host) (auto simp: has_prefix_def)
  then show ?thesis using assms last_index_end [OF assms(2), of host]
    by (auto simp: SplitHostPort_def)
qed

lemma dotted_plain: "x \<in> set (dotted ns) \<Longrightarrow> x = CHR ''.'' \<or> is_digit x"
  by (cases ns) (auto simp: dotted_def show_nat_digits split: if_splits)

lemma listen_host:
  assumes "a \<le> 255" "b \<le> 255" "c \<le> 255" "d \<le> 255" "\<forall>x\<in>set port. is_digit x"
  shows "isLoopbackListen (dotted [a, b, c, d] @ CHR '':'' # port) \<longleftrightarrow> a = 127"
proof -
  let ?h = "dotted [a, b, c, d]"
  have plain: "\<forall>x\<in>set ?h. x = CHR ''.'' \<or> is_digit x" using dotted_plain by blast
  have nd: "\<not> is_digit (CHR '':'')" "\<not> is_digit (CHR ''['')" "\<not> is_digit (CHR '']'')" "\<not> is_digit (CHR ''l'')"
    by (simp_all add: is_digit_def bval_def)
  have "CHR '':'' \<notin> set ?h" "CHR ''['' \<notin> set ?h" "CHR '']'' \<notin> set ?h" and l: "CHR ''l'' \<notin> set ?h"
    using bspec [OF plain] nd by fastforce+
  moreover have "CHR '':'' \<notin> set port" "CHR ''['' \<notin> set port" "CHR '']'' \<notin> set port"
    using bspec [OF assms(5)] nd by blast+
  ultimately have "SplitHostPort (?h @ CHR '':'' # port) = Some (?h, port)"
    by (intro SplitHostPort_plain) auto
  moreover have "?h \<noteq> ''localhost''" using l by auto
  moreover have "?h \<noteq> []" by (simp add: dotted_def)
  ultimately show ?thesis
    using assms by (simp add: isLoopbackListen_def IsLoopback_def ParseIP_dotted bval_mkbyte_small less_Suc_eq_le)
qed

lemma SplitHostPort_bracket:
  assumes "CHR '']'' \<notin> set h" "CHR ''['' \<notin> set h" "set port \<inter> {CHR '':'', CHR ''['', CHR '']''} = {}"
  shows "SplitHostPort (''['' @ h @ '']'' @ CHR '':'' # port) = Some (h, port)"
proof -
  have "find_first (\<lambda>c. c = CHR '']'') (h @ CHR '']'' # r) = Some (length h)" for r
    using assms(1) by (induction h) auto
  moreover have "last_index (CHR '':'') ((''['' @ h @ '']'') @ CHR '':'' # port) = Some (length (''['' @ h @ '']''))"
    using assms(3) by (intro last_index_end) auto
  ultimately show ?thesis
    using assms by (auto simp: SplitHostPort_def has_prefix_def)
qed

text \<open>A host that is a name: some byte is neither a digit nor a dot.\<close>

definition host_name :: "bytes \<Rightarrow> bool" where
  "host_name h \<longleftrightarrow> set h \<inter> {CHR '':'', CHR ''['', CHR '']''} = {} \<and> (\<exists>x\<in>set h. \<not> is_digit x \<and> x \<noteq> CHR ''.'')"

lemma split_on_member: "x \<in> set s \<Longrightarrow> x \<noteq> sep \<Longrightarrow> \<exists>p\<in>set (split_on sep s). x \<in> set p"
  by (induction s) (auto split: list.splits)

lemma join_opts_Some: "join_opts xs = Some ys \<Longrightarrow> None \<notin> set xs"
  by (induction xs arbitrary: ys) (auto split: option.splits)

lemma ParseIP_name:
  assumes "host_name h"
  shows "ParseIP h = []"
proof -
  obtain x where x: "x \<in> set h" "\<not> is_digit x" "x \<noteq> CHR ''.''" using assms by (auto simp: host_name_def)
  obtain p where p: "p \<in> set (split_on (CHR ''.'') h)" "x \<in> set p" using split_on_member [OF x(1,3)] by blast
  then have "dec_octet p = None" using x(2) by (auto simp: dec_octet_def all_digits_def)
  then have "None \<in> set (map dec_octet (split_on (CHR ''.'') h))" using p(1) by force
  then have "parse_ipv4 h = None" using join_opts_Some by (fastforce simp: parse_ipv4_def Let_def)
  moreover have "h ! i \<noteq> CHR '':''" if "find_first P h = Some i" for P i
  proof -
    have "h ! i \<in> set h" using find_first_Some [OF that] by simp
    then show ?thesis using assms by (auto simp: host_name_def)
  qed
  ultimately show ?thesis by (auto simp: ParseIP_def split: option.split)
qed

text \<open>C32: a server that main sets up to listen without a host, at an IPv4 address, at a host name, at the IPv6
  loopback or at all IPv6 addresses answers a handshake without Origin with 403, whatever else is
  configured, unless the host is in 127.0.0.0/8, is localhost or is [::1].\<close>

theorem origin_required:
  assumes "web_Listen (cfg_Web cfg) = host @ CHR '':'' # port" "\<forall>x\<in>set port. is_digit x"
    "host \<in> {[], ''[::1]'', ''[::]''} \<or> host = dotted [a, b, c, d] \<and> a \<le> 255 \<and> b \<le> 255 \<and> c \<le> 255 \<and> d \<le> 255 \<or> host_name host"
  shows "fst (handshake (api_setup now cfg sys) [] k upgrades h) = Some (writeErr 403 ''missing origin'') \<longleftrightarrow>
    host \<noteq> ''localhost'' \<and> host \<noteq> ''[::1]'' \<and> \<not> (host = dotted [a, b, c, d] \<and> a = 127)"
proof -
  have allow: "ap_allowNoOrigin (api_setup now cfg sys) \<longleftrightarrow> isLoopbackListen (host @ CHR '':'' # port)"
    by (simp add: api_setup_def Let_def SetLimits_def Api.NewServer_def assms(1))
  have port: "CHR '':'' \<notin> set port" "CHR ''['' \<notin> set port" "CHR '']'' \<notin> set port"
    using bspec [OF assms(2)] by (fastforce simp: is_digit_def bval_def)+
  have dot: "x = CHR ''.'' \<or> is_digit x" if "host = dotted ns" "x \<in> set host" for x ns
    using dotted_plain that by blast
  have "isLoopbackListen (host @ CHR '':'' # port) \<longleftrightarrow>
      host = ''localhost'' \<or> host = ''[::1]'' \<or> (host = dotted [a, b, c, d] \<and> a = 127)"
    using assms(3)
  proof (elim disjE conjE)
    assume "host \<in> {[], ''[::1]'', ''[::]''}"
    then consider "host = []" | "host = ''['' @ ''::1'' @ '']''" | "host = ''['' @ ''::'' @ '']''" by auto
    then show ?thesis
    proof cases
      case 1
      then have "SplitHostPort (CHR '':'' # port) = Some ([], port)"
        using SplitHostPort_plain [of "[]" port] port by simp
      then show ?thesis using 1 by (simp add: isLoopbackListen_def dotted_def)
    next
      case 2
      then have "SplitHostPort (host @ CHR '':'' # port) = Some (''::1'', port)"
        using SplitHostPort_bracket [of "''::1''" port] port by simp
      moreover have "ParseIP ''::1'' \<noteq> [] \<and> IsLoopback (ParseIP ''::1'')" by code_simp
      ultimately show ?thesis using 2 by (simp add: isLoopbackListen_def)
    next
      case 3
      then have "SplitHostPort (host @ CHR '':'' # port) = Some (''::'', port)"
        using SplitHostPort_bracket [of "''::''" port] port by simp
      moreover have "\<not> IsLoopback (ParseIP ''::'')" by code_simp
      moreover have "CHR ''['' \<in> set host" using 3 by simp
      then have "host \<noteq> dotted [a, b, c, d]"
        using dot [of "[a, b, c, d]" "CHR ''[''"] by (auto simp: is_digit_def bval_def)
      ultimately show ?thesis using 3 by (simp add: isLoopbackListen_def)
    qed
  next
    assume h: "host = dotted [a, b, c, d]" "a \<le> 255" "b \<le> 255" "c \<le> 255" "d \<le> 255"
    have "host \<noteq> ''localhost''" "host \<noteq> ''[::1]''"
      using dot [OF h(1), of "CHR ''l''"] dot [OF h(1), of "CHR ''[''"] by (auto simp: is_digit_def bval_def)
    then show ?thesis using listen_host [OF h(2-5) assms(2)] h(1) by simp
  next
    assume n: "host_name host"
    then have "SplitHostPort (host @ CHR '':'' # port) = Some (host, port)"
      using SplitHostPort_plain [of host port] port by (auto simp: host_name_def)
    moreover have "host \<noteq> []" "host \<noteq> ''[::1]''" using n by (auto simp: host_name_def)
    moreover have "host \<noteq> dotted [a, b, c, d]" using n dot by (auto simp: host_name_def)
    ultimately show ?thesis using ParseIP_name [OF n] by (simp add: isLoopbackListen_def)
  qed
  then show ?thesis
    by (simp add: handshake_def allow writeErr_def writeJSON_def split: prod.splits bool.splits)
qed

theorem origin_required_witness:
  "fst (handshake (api_setup 0 (Defaults\<lparr>cfg_Web := (cfg_Web Defaults)\<lparr>web_Listen := ''0.0.0.0:8080''\<rparr>\<rparr>) None) [] 1 True newWSHub)
     = Some (writeErr 403 ''missing origin'') \<and>
   fst (handshake (api_setup 0 (Defaults\<lparr>cfg_Web := (cfg_Web Defaults)\<lparr>web_Listen := ''[::1]:8080''\<rparr>\<rparr>) None) [] 1 True newWSHub)
     \<noteq> Some (writeErr 403 ''missing origin'')"
proof -
  have "''0.0.0.0:8080'' = dotted [0, 0, 0, 0] @ CHR '':'' # ''8080''" by (simp add: dotted_def show_nat.simps mkbyte_def char_of_def bit_0)
  moreover have "dotted [0, 0, 0, 0] = ''0.0.0.0''" by (simp add: dotted_def show_nat.simps mkbyte_def char_of_def bit_0)
  ultimately show ?thesis
    using origin_required [of "Defaults\<lparr>cfg_Web := (cfg_Web Defaults)\<lparr>web_Listen := ''0.0.0.0:8080''\<rparr>\<rparr>"
        "dotted [0, 0, 0, 0]" "''8080''" 0 0 0 0 0 None 1 True newWSHub]
      origin_required [of "Defaults\<lparr>cfg_Web := (cfg_Web Defaults)\<lparr>web_Listen := ''[::1]:8080''\<rparr>\<rparr>"
        "''[::1]''" "''8080''" 0 0 0 0 0 None 1 True newWSHub]
    by (simp add: is_digit_def bval_def)
qed

subsection \<open>The banned list\<close>

text \<open>The addresses and the time of the last refresh whose query succeeded.\<close>

definition last_banned :: "(int \<times> f2b_db) list \<Rightarrow> u32 list \<times> int" where
  "last_banned rounds =
    (case filter (\<lambda>(now, db). \<not> isl (QueryBanned now db)) rounds of [] \<Rightarrow> ([], 0)
     | good \<Rightarrow> (case last good of (now, db) \<Rightarrow> (sort (projr (QueryBanned now db)), unix now)))"

lemma refresh_snapshot:
  "rf_snapshot (refreshBanned now db r) =
    (case QueryBanned now db of Inl e \<Rightarrow> rf_snapshot r | Inr ips \<Rightarrow> Some \<lparr>bs_ts = unix now, bs_ips = sort ips\<rparr>)"
  by (simp add: refreshBanned_def Let_def case_prod_beta split: sum.split)

lemma last_banned_snoc:
  "last_banned (rounds @ [(now, db)]) =
    (case QueryBanned now db of Inl e \<Rightarrow> last_banned rounds | Inr ips \<Rightarrow> (sort ips, unix now))"
  by (cases "filter (\<lambda>(now, db). \<not> isl (QueryBanned now db)) rounds")
     (simp_all add: last_banned_def split: sum.split list.split)

lemma refreshes_snapshot:
  "(case rf_snapshot (fold (\<lambda>(now, db). refreshBanned now db) rounds (refresh_start sys)) of
      None \<Rightarrow> ([], 0) | Some b \<Rightarrow> (bs_ips b, bs_ts b)) = last_banned rounds"
proof (induction rounds rule: rev_induct)
  case Nil
  show ?case by (simp add: last_banned_def refresh_start_def)
next
  case (snoc x rounds)
  obtain now db where "x = (now, db)" by fastforce
  then show ?case using snoc
    by (simp add: refresh_snapshot last_banned_snoc split: sum.split)
qed

text \<open>After any refreshes the endpoint of the active bans shows, sorted, the addresses of the last query that
  succeeded, with its time; a failed refresh changes nothing, and before the first success the list is
  empty.\<close>

theorem active_bans_served:
  "fst (hBansActive (api_sources lib latest (fold (\<lambda>(now, db). refreshBanned now db) rounds (refresh_start sys)) w overruns e) q s) =
    writeJSON 200 (GObj [(''ts'', GInt (snd (last_banned rounds))), (''count'', GInt (int (length (fst (last_banned rounds))))),
      (''rows'', GArr (map (\<lambda>v. GStr (Uint32ToIPv4 v)) (fst (last_banned rounds))))])"
  using refreshes_snapshot [of rounds sys]
  by (simp add: hBansActive_def api_sources_def case_prod_beta Let_def)

subsection \<open>The end of the honeypot\<close>

text \<open>C18: when Run of the honeypot has returned, in every interleaving no connection is held, none is counted
  as active, and whatever happens later the credentials in the channel are only taken out: nothing that was
  captured comes after the end.\<close>

theorem honeypot_ends_quiet:
  assumes "hp_step\<^sup>*\<^sup>* (hp_start now net listen buf sys) h" "hl_phase h = HpReturned" "hp_step\<^sup>*\<^sup>* h h'"
  shows "sv_sem (hl_srv h) = 0 \<and> st_active (sv_stats (hl_srv h)) = 0 \<and> (\<exists>taken. captured h = taken @ captured h')"
proof -
  have l: "life_ok h" by (rule life_ok_reachable [OF assms(1)])
  then have "hl_accepted h = 0" "hl_pending h = 0" "hl_active h = 0" "hl_ending h = 0" using assms(2) by (simp_all add: life_ok_def)
  then show ?thesis
    using gov_inv_hp [OF assms(1)] returned_quiet_star [OF assms(3) l assms(2)]
    by (simp add: gov_inv_def gov_of_def)
qed

text \<open>A run that accepts one connection, records a credential and ends.\<close>

definition quiet_start :: hp_life where
  "quiet_start = hp_start 0 (\<lambda>_. Inl ''0.0.0.0:21'') [(''ftp'', '':21'')] 8 None"

definition quiet_accepted :: server where
  "quiet_accepted = snd (acceptConn 0 ''ftp'' 7 (hl_srv quiet_start))"

definition quiet_captured :: server where
  "quiet_captured = conn_rec 0 ''ftp'' 7 (cred ''root'' ''toor'' []) (conn_start 0 ''ftp'' 7 quiet_accepted)"

definition quiet_end :: hp_life where
  "quiet_end = \<lparr>hl_srv = conn_inactive (conn_release quiet_captured), hl_loops = 0, hl_accepted = 0, hl_pending = 0,
     hl_active = 0, hl_ending = 0, hl_cancelled = True, hl_phase = HpReturned\<rparr>"

lemma quiet_accept: "acceptConn 0 ''ftp'' 7 (hl_srv quiet_start) = (True, quiet_accepted)"
proof -
  have "fst (acceptConn 0 ''ftp'' 7 (hl_srv quiet_start))"
    by (simp add: quiet_start_def hp_start_def acceptConn_def allow_def current_bucket_def HpServer.NewServer_def newIPRateLimiter_def
        ipConnLimit_def maxConns_def Let_def case_prod_beta)
  then show ?thesis unfolding quiet_accepted_def by (metis prod.collapse)
qed

lemma quiet_run: "hp_step\<^sup>*\<^sup>* quiet_start quiet_end"
proof -
  let ?st = "\<lambda>s l a p r e c ph. \<lparr>hl_srv = s, hl_loops = l, hl_accepted = a, hl_pending = p, hl_active = r, hl_ending = e,
     hl_cancelled = c, hl_phase = ph\<rparr>"
  let ?a = "?st quiet_accepted 0 1 0 0 0 False Serving"
  let ?b = "?st quiet_accepted 1 0 1 0 0 False Serving"
  let ?c = "?st (conn_start 0 ''ftp'' 7 quiet_accepted) 1 0 0 1 0 False Serving"
  let ?d = "?st quiet_captured 1 0 0 1 0 False Serving"
  let ?e = "?st (conn_release quiet_captured) 1 0 0 0 1 False Serving"
  let ?f = "?st (conn_inactive (conn_release quiet_captured)) 1 0 0 0 0 False Serving"
  let ?g = "?f\<lparr>hl_cancelled := True\<rparr>"
  let ?h = "?g\<lparr>hl_loops := 0\<rparr>"
  have q: "0 < hl_loops quiet_start"
    "quiet_start\<lparr>hl_srv := quiet_accepted, hl_loops := hl_loops quiet_start - 1, hl_accepted := hl_accepted quiet_start + 1\<rparr> = ?a"
    by (simp_all add: quiet_start_def hp_start_def)
  have 1: "hp_step quiet_start ?a" using hp_accept [OF q(1) quiet_accept] unfolding q(2) .
  have s: "hp_step ?a ?b" "hp_step ?b ?c" "hp_step ?c ?d" "hp_step ?d ?e" "hp_step ?e ?f"
    using hp_spawn [of ?a] hp_begin [of ?b 0 "''ftp''" 7]
      hp_record [of ?c 0 "''ftp''" 7 "cred ''root'' ''toor'' []"] hp_release [of ?d] hp_inactive [of ?e]
    by (simp_all add: quiet_captured_def)
  have t: "hp_step ?f ?g" "hp_step ?g ?h" "hp_step ?h (?h\<lparr>hl_phase := Closing\<rparr>)"
    "hp_step (?h\<lparr>hl_phase := Closing\<rparr>) (?h\<lparr>hl_phase := WaitConns\<rparr>)" "hp_step (?h\<lparr>hl_phase := WaitConns\<rparr>) quiet_end"
    using hp_cancel [of ?f] hp_loop_ends [of ?g] hp_close [of ?h] hp_loops_done [of "?h\<lparr>hl_phase := Closing\<rparr>"]
      hp_conns_done [of "?h\<lparr>hl_phase := WaitConns\<rparr>"]
    by (simp_all add: quiet_end_def)
  note step = rtranclp.rtrancl_into_rtrancl [of hp_step quiet_start]
  have "hp_step\<^sup>*\<^sup>* quiet_start ?f"
    using 1 s rtranclp.rtrancl_refl [of hp_step quiet_start] step by blast
  then show ?thesis using t step by blast
qed

theorem honeypot_ends_quiet_witness:
  "hp_step\<^sup>*\<^sup>* quiet_start quiet_end \<and> hl_phase quiet_end = HpReturned \<and> sv_sem (hl_srv quiet_end) = 0 \<and>
    st_active (sv_stats (hl_srv quiet_end)) = 0 \<and> st_total (sv_stats (hl_srv quiet_end)) = 1"
proof -
  have p: "hl_phase quiet_end = HpReturned" by (simp add: quiet_end_def)
  have "sv_stats quiet_accepted = sv_stats (hl_srv quiet_start)" using acceptConn_True [OF quiet_accept] by blast
  then have "st_total (sv_stats (hl_srv quiet_end)) = 1"
    by (simp add: quiet_end_def quiet_captured_def quiet_start_def hp_start_def HpServer.NewServer_def)
  then show ?thesis
    using honeypot_ends_quiet [OF quiet_run [unfolded quiet_start_def] p rtranclp.rtrancl_refl] quiet_run p by simp
qed

end
