(* ===== verification/DbDsn.thy ===== *)
theory DbDsn
  imports GoStr
begin

text \<open>
  \<^verbatim>\<open>internal/dbdsn/dbdsn.go\<close>: the data source names of the database, and \<^verbatim>\<open>url.PathEscape\<close>, which keeps the
  characters of a path from being read as parameters.
\<close>

subsection \<open>Escaping\<close>

text \<open>Letters, digits and these characters stand for themselves in a path segment.\<close>

definition kept_in_segment :: "byte \<Rightarrow> bool" where
  "kept_in_segment c \<longleftrightarrow> (let b = bval c in 48 \<le> b \<and> b \<le> 57 \<or> 65 \<le> b \<and> b \<le> 90 \<or> 97 \<le> b \<and> b \<le> 122) \<or>
     c \<in> set ''-_.~$&+:=@''"

definition upper_hex :: "nat \<Rightarrow> byte" where
  "upper_hex n = ''0123456789ABCDEF'' ! n"

definition PathEscape :: "bytes \<Rightarrow> bytes" where
  "PathEscape s = concat (map (\<lambda>c. if kept_in_segment c then [c]
     else [CHR ''%'', upper_hex (bval c div 16), upper_hex (bval c mod 16)]) s)"

definition ReadOnly :: "bytes \<Rightarrow> bytes" where
  "ReadOnly path = ''file:'' @ PathEscape path @ ''?mode=ro&_pragma=busy_timeout(5000)''"

definition ReadWrite :: "bytes \<Rightarrow> bytes" where
  "ReadWrite path = ''file:'' @ PathEscape path @
     ''?_pragma=journal_mode(WAL)&_pragma=synchronous(NORMAL)&_pragma=busy_timeout(5000)&_pragma=foreign_keys(1)''"

subsection \<open>Reading a name back\<close>

text \<open>The digit of an upper-case hexadecimal character.\<close>

definition hex_digit :: "byte \<Rightarrow> nat option" where
  "hex_digit c = find_first (\<lambda>x. x = c) ''0123456789ABCDEF''"

text \<open>Percent decoding, and the split of a name into path and parameters at the first question mark.\<close>

fun unescape :: "bytes \<Rightarrow> bytes option" where
  "unescape [] = Some []"
| "unescape (c # cs) =
    (if c = CHR ''%'' then
       (case cs of a # b # rest \<Rightarrow>
          (case (hex_digit a, hex_digit b) of
             (Some x, Some y) \<Rightarrow> map_option ((#) (mkbyte (16 * x + y))) (unescape rest)
           | _ \<Rightarrow> None)
        | _ \<Rightarrow> None)
     else map_option ((#) c) (unescape cs))"

definition read_dsn :: "bytes \<Rightarrow> (bytes \<times> bytes) option" where
  "read_dsn dsn =
    (if take 5 dsn = ''file:'' then
       (let rest = drop 5 dsn in
        map_option (\<lambda>p. (p, drop 1 (dropWhile (\<lambda>c. c \<noteq> CHR ''?'') rest))) (unescape (takeWhile (\<lambda>c. c \<noteq> CHR ''?'') rest)))
     else None)"

lemma kept_plain: "kept_in_segment c \<Longrightarrow> c \<noteq> CHR ''%'' \<and> c \<noteq> CHR ''?''"
  by (auto simp: kept_in_segment_def bval_def)

lemma hex_all: "list_all (\<lambda>x. hex_digit (upper_hex x) = Some x \<and> upper_hex x \<noteq> CHR ''?'') [0..<16]"
  by code_simp

lemma hex_digit_upper: "x < 16 \<Longrightarrow> hex_digit (upper_hex x) = Some x"
  and upper_hex_plain: "x < 16 \<Longrightarrow> upper_hex x \<noteq> CHR ''?''"
  using hex_all by (simp_all add: list_all_iff)

lemma bval_halves: "bval c div 16 < 16" "mkbyte (16 * (bval c div 16) + bval c mod 16) = c"
proof -
  show "bval c div 16 < 16" using bval_le [of c] by presburger
  have "16 * (bval c div 16) + bval c mod 16 = bval c" by simp
  then show "mkbyte (16 * (bval c div 16) + bval c mod 16) = c" by simp
qed

lemma unescape_PathEscape: "unescape (PathEscape s) = Some s"
proof (induction s)
  case (Cons c s)
  then show ?case
    using kept_plain [of c] bval_halves [of c]
    by (cases "kept_in_segment c") (simp_all add: PathEscape_def hex_digit_upper)
qed (simp add: PathEscape_def)

lemma PathEscape_plain: "\<forall>c\<in>set (PathEscape s). c \<noteq> CHR ''?''"
proof (induction s)
  case (Cons c s)
  then show ?case
    using kept_plain [of c] upper_hex_plain [of "bval c div 16"] upper_hex_plain [of "bval c mod 16"] bval_halves(1) [of c]
    by (cases "kept_in_segment c") (simp_all add: PathEscape_def)
qed (simp add: PathEscape_def)

lemma read_dsn_parts:
  assumes "\<forall>c\<in>set e. c \<noteq> CHR ''?''" "unescape e = Some path"
  shows "read_dsn (''file:'' @ e @ CHR ''?'' # params) = Some (path, params)"
  using assms by (simp add: read_dsn_def takeWhile_append_stop dropWhile_append_stop)

lemma read_dsn_built: "read_dsn (''file:'' @ PathEscape path @ CHR ''?'' # params) = Some (path, params)"
  by (rule read_dsn_parts [OF PathEscape_plain unescape_PathEscape])

text \<open>Whatever the path holds, the name of a database is read back as exactly that path with exactly the
  parameters of its mode: a path cannot add or change a parameter.\<close>

theorem dsn_exact:
  "read_dsn (ReadOnly path) = Some (path, ''mode=ro&_pragma=busy_timeout(5000)'') \<and>
   read_dsn (ReadWrite path) = Some (path, ''_pragma=journal_mode(WAL)&_pragma=synchronous(NORMAL)&_pragma=busy_timeout(5000)&_pragma=foreign_keys(1)'')"
  using read_dsn_built [of path "''mode=ro&_pragma=busy_timeout(5000)''"]
    read_dsn_built [of path "''_pragma=journal_mode(WAL)&_pragma=synchronous(NORMAL)&_pragma=busy_timeout(5000)&_pragma=foreign_keys(1)''"]
  by (simp only: ReadOnly_def ReadWrite_def append_Cons append_Nil)

end
