(* ===== verification/Spec2Isabelle.thy ===== *)
theory Spec2Isabelle
  imports PropHoneypot PropIngest PropConn PropStore PropSystem PropApi PropPush PropOut GeoApi PropAgent DbDsn
begin

text \<open>
  A verification of \<^verbatim>\<open>sentry-agent\<close>, an agent that watches one server: it collects events from the kernel, from
  logs and from a honeypot, stores them in SQLite, archives them month by month, and answers an HTTP and
  WebSocket API. The paths below are under \<^verbatim>\<open>src/\<close>.

  \<^bold>\<open>How the program is put together.\<close> \<^verbatim>\<open>cmd/sentry-agent/main.go\<close> starts one goroutine per part. Producers
  (resource collector, connection channel, SSH, firewall and fail2ban parsers, honeypot) send events on seven
  bounded channels; the single writer of \<^verbatim>\<open>internal/store\<close> takes them, batches them and commits them, runs
  the retention and serves archive requests. The API reads the database and the last snapshots. In the debug
  mode a printer takes the place of the writer. Everybody reports on the channel of system events, which
  drops when it is full.

  \<^bold>\<open>The theories, bottom up.\<close>
  \<^item> \<^verbatim>\<open>Prelude\<close>, \<^verbatim>\<open>GoStd\<close>, \<^verbatim>\<open>GoStr\<close>, \<^verbatim>\<open>GoNet\<close>, \<^verbatim>\<open>GoTime\<close>, \<^verbatim>\<open>GoRegex\<close>, \<^verbatim>\<open>GoJson\<close>: bytes, panics, bounded channels, and
    what the source uses of Go's standard library (UTF-8, strings, numbers, addresses, calendar and zones,
    regular expressions, JSON).
  \<^item> \<^verbatim>\<open>Events\<close>: \<^verbatim>\<open>internal/event/event.go\<close>; the event types, \<^verbatim>\<open>Channels\<close>, \<^verbatim>\<open>Drain\<close>, reports and their limiter.
  \<^item> Honeypot, \<^verbatim>\<open>internal/honeypot\<close>: \<^verbatim>\<open>HpConn\<close> (a connection, line reader, the contract of a handler), \<^verbatim>\<open>HpText\<close>
    (\<^verbatim>\<open>telnet.go\<close>, \<^verbatim>\<open>ftp.go\<close>), \<^verbatim>\<open>HpRedis\<close> (\<^verbatim>\<open>redis.go\<close>, \<^verbatim>\<open>memcached.go\<close>), \<^verbatim>\<open>HpBinary\<close> (\<^verbatim>\<open>mysql.go\<close>, \<^verbatim>\<open>postgres.go\<close>, \<^verbatim>\<open>rdp.go\<close>),
    \<^verbatim>\<open>HpMongo\<close>, \<^verbatim>\<open>HpSmb\<close>, \<^verbatim>\<open>HpMssql\<close>, \<^verbatim>\<open>HpRateLimit\<close> (\<^verbatim>\<open>ratelimit.go\<close>), \<^verbatim>\<open>HpServer\<close> and \<^verbatim>\<open>HpShutdown\<close> (\<^verbatim>\<open>honeypot.go\<close>: registry,
    governance, credential filter; the accept loops and the end of \<^verbatim>\<open>Run\<close>).
  \<^item> Logs: \<^verbatim>\<open>LogStream\<close> (\<^verbatim>\<open>internal/logstream\<close>, \<^verbatim>\<open>internal/util\<close>), \<^verbatim>\<open>FwFilter\<close> and \<^verbatim>\<open>Fw\<close> (\<^verbatim>\<open>internal/fw\<close>), \<^verbatim>\<open>Ssh\<close> (\<^verbatim>\<open>internal/ssh\<close>),
    \<^verbatim>\<open>F2b\<close> (\<^verbatim>\<open>internal/f2b\<close>).
  \<^item> Connections: \<^verbatim>\<open>ConnSnap\<close> (\<^verbatim>\<open>snapshot.go\<close>, \<^verbatim>\<open>fallback.go\<close>) and \<^verbatim>\<open>Conn\<close> (\<^verbatim>\<open>conn.go\<close>) of \<^verbatim>\<open>internal/conn\<close>.
  \<^item> \<^verbatim>\<open>Config\<close>: \<^verbatim>\<open>internal/config/config.go\<close>. \<^verbatim>\<open>DbDsn\<close>: \<^verbatim>\<open>internal/dbdsn\<close>.
  \<^item> Storage: \<^verbatim>\<open>World\<close> (database and files, with a script of failures and crashes), \<^verbatim>\<open>Archive\<close> and \<^verbatim>\<open>ArchiveSafe\<close>
    (\<^verbatim>\<open>internal/archive\<close>, \<^verbatim>\<open>internal/diskutil\<close>), \<^verbatim>\<open>Store\<close>, \<^verbatim>\<open>StoreFlow\<close>, \<^verbatim>\<open>StoreClean\<close> (\<^verbatim>\<open>internal/store\<close>).
  \<^item> System: \<^verbatim>\<open>Collect\<close> (\<^verbatim>\<open>internal/collect\<close>), \<^verbatim>\<open>DiskMon\<close> (\<^verbatim>\<open>internal/diskmon\<close>), \<^verbatim>\<open>GeoIp\<close> (\<^verbatim>\<open>internal/geoip\<close>).
  \<^item> API, \<^verbatim>\<open>internal/api\<close>: \<^verbatim>\<open>ApiParams\<close>, \<^verbatim>\<open>ApiCsv\<close>, \<^verbatim>\<open>Api\<close>, \<^verbatim>\<open>ApiQuery\<close>, \<^verbatim>\<open>ApiProfile\<close>, \<^verbatim>\<open>ApiExport\<close>, \<^verbatim>\<open>ApiWs\<close>, \<^verbatim>\<open>ApiRoutes\<close>; lemmas in
    \<^verbatim>\<open>ApiRows\<close>, \<^verbatim>\<open>ApiDict\<close>, \<^verbatim>\<open>ApiFlow\<close>; \<^verbatim>\<open>GeoApi\<close> is the interface to the country database.
  \<^item> \<^verbatim>\<open>Out\<close> (\<^verbatim>\<open>internal/out\<close>, the debug mode) and \<^verbatim>\<open>Agent\<close> (\<^verbatim>\<open>cmd/sentry-agent/main.go\<close>: what is started, what it is
    given, how it is set up).
  \<^item> The theories whose names begin with \<^verbatim>\<open>Prop\<close>, and \<^verbatim>\<open>GeoApi\<close>, state the properties, each after a text that
    says it in words.

  \<^bold>\<open>How code is modelled.\<close> A struct is a record, an enumeration a datatype, a machine integer a word of its
  width where wrapping can be reached and an integer elsewhere; a nil pointer or map miss is None; a panic is
  None of the computation type \<^verbatim>\<open>go\<close>, and every index and slice of the protocol parsers is a checked one.
  Errors are the left side of a sum, their text abridged to the template and the values put into it. Loops
  are structural recursion or have a termination proof by a measure; the one loop of which that would be a
  property, the command loop of a handler, is \<^verbatim>\<open>hloop\<close>, a partial function that is shown to return. No fuel is
  used. Go maps whose iteration order matters come with that order as an argument.

  \<^bold>\<open>Concurrency.\<close> Goroutines are interleaved in steps that the code makes atomic by its locks, channels and
  selects: \<^verbatim>\<open>gov_step\<close> and \<^verbatim>\<open>hp_step\<close> (honeypot), \<^verbatim>\<open>out_step\<close> (printer), and sequences of inputs for the writer
  (\<^verbatim>\<open>st_input\<close>), the listener (\<^verbatim>\<open>ct_input\<close>), the hub (\<^verbatim>\<open>ws_input\<close>) and the push loop (\<^verbatim>\<open>push_tick\<close>). The theorems hold for
  every run of such steps. Where a goroutine changes two shared variables without a common lock, as the
  deferred end of a honeypot connection does (token first, counter later), each change is a step of its own.
  Merged are: limiter and semaphore of an accept, receiving, counting and writing of one printed line, and
  readings of the clock within one request or refresh.

  \<^bold>\<open>What is a parameter.\<close> The clock; what processes, files, sockets and the kernel deliver; the netlink and
  MaxMind libraries; the token buckets of \<^verbatim>\<open>golang.org/x/time/rate\<close>; fail2ban's database. SQLite is modelled by
  its documented meaning of the statements the source contains; where SQL leaves an order open, or a query
  can break off, the answer says so. Every call to the system in \<^verbatim>\<open>World\<close> and \<^verbatim>\<open>GeoIp\<close> takes the next outcome of
  a script: success, failure or the death of the process.

  \<^bold>\<open>Interfaces.\<close> \<^verbatim>\<open>bounded_queue\<close> (what producers and consumers rely on; provided by Go's channels), \<^verbatim>\<open>proto_handler\<close>
  (what the honeypot relies on; provided by all ten handlers), \<^verbatim>\<open>atomic_log\<close> (what the writer relies on; provided
  by \<^verbatim>\<open>writeBatch\<close>), \<^verbatim>\<open>geo_lookuper\<close> (what the API relies on; provided by the reader of \<^verbatim>\<open>internal/geoip\<close>).

  \<^bold>\<open>What is shown.\<close>
  \<^item> Nothing is lost: \<^verbatim>\<open>Drain\<close> delivers every event once; what the writer has committed, pending and queued is
    what was sent, in order, under every failure; a batch is all or nothing; the printer prints exactly what
    its channels accepted; after the honeypot has returned nothing is captured any more.
  \<^item> Nothing escapes: the handlers return on every input without a panic and record at most ten
    credentials, all clean; the semaphore and the limiter bound the connections (not the Active counter,
    which a connection leaves after it has given back its token); endpoints answer 429 without
    a token; the hub is bounded; the credential files hold recovered passwords only.
  \<^item> What is printed is parsed back: SSH lines of the forms that have a pattern, firewall lines with their keys in
    any order, fail2ban lines, the honeypot protocols, CSV exports.
  \<^item> Files survive: the monthly copy and the country database at every failure or crash; the cleanup ends.
  \<^item> Configuration: what loads is well formed, and what main sets up from it is what it says.
  \<^item> Parts together: every channel a started task sends on has a consumer that waits for its sender; the API shows
    the bans of the last successful refresh and, around an update of the country database, what one of the two
    databases says; a server that does not listen at 127.0.0.0/8, localhost or [::1] demands an Origin.
  \<^item> Where the code does not do what it says: theorems named in the findings show the run (for instance
    \<^verbatim>\<open>missing_not_fetched\<close>, \<^verbatim>\<open>reused_ids_missed\<close>, \<^verbatim>\<open>unrecorded_copy_lost\<close>, \<^verbatim>\<open>ssh_source_forged\<close>, \<^verbatim>\<open>sample_after_failures\<close>,
    \<^verbatim>\<open>invalid_key_unparsed\<close>, \<^verbatim>\<open>warned_twice\<close>).

  \<^bold>\<open>Not modelled.\<close> The HTTP server and its timeouts (\<^verbatim>\<open>Serve\<close>), WebSocket framing, gzip and tar, TLS: libraries the
  source only calls. \<^verbatim>\<open>internal/api/ratelimit.go\<close>, a wrapper of a library. \<^verbatim>\<open>internal/web\<close>: embedded files with fixed
  headers, and the panel in JavaScript. Stubs for other systems. \<^verbatim>\<open>tools/archive-trigger\<close>, a command line around
  \<^verbatim>\<open>ArchiveMonthDB\<close>. Flags, signals and the time limit of \<^verbatim>\<open>main\<close>. The texts of messages beyond their template, and
  the rounding of floating-point samples, which are exact rationals here.
\<close>

end
